(* ===== verification/JsBase.thy ===== *)
theory JsBase
  imports Complex_Main "HOL-Library.Word"
begin

text \<open>
  Prelude of the development: the JavaScript value layer that the web player
  (\<^verbatim>\<open>demos/rtsp/rtsp.dev.js\<close>) computes with.

  \<^item> Errors are values: a JavaScript exception is \<open>Inl e\<close> of type \<open>js_error + 'a\<close>, and
    \<open>bindE\<close> sequences two computations the way statements are sequenced under exceptions.
  \<^item> A number that takes part in bitwise operators is an \<open>int\<close>; the operators convert to 32
    bits (\<open>toInt32\<close>, \<open>toUint32\<close>) as ECMAScript does. A number that may be fractional is a \<open>rat\<close>;
    where the code divides or multiplies fractions, the result is rounded to binary64 by \<open>dbl\<close>.
  \<^item> A \<^verbatim>\<open>Uint8Array\<close> is a list of 8-bit words; storing a number reduces it modulo 256 (\<open>u8\<close>).
    Reads past the end are \<open>undefined\<close> for element access and a \<^verbatim>\<open>RangeError\<close> for
    \<^verbatim>\<open>DataView\<close>.
  \<^item> A string is a list of characters.
\<close>

unbundle bit_operations_syntax

named_theorems js_simps \<open>unfolding rules for JavaScript number and byte operations\<close>
named_theorems codec_simps \<open>round-trip equations of the encoders and decoders\<close>

section \<open>Exceptions\<close>

datatype js_error =
    NoBytesAvailable      \<comment> \<open>\<^verbatim>\<open>new Error('no bytes available')\<close>\<close>
  | CallStackExceeded     \<comment> \<open>\<^verbatim>\<open>RangeError: Maximum call stack size exceeded\<close>\<close>
  | RangeErr              \<comment> \<open>\<^verbatim>\<open>RangeError\<close> of \<^verbatim>\<open>DataView\<close>, \<^verbatim>\<open>Uint8Array\<close>\<close>
  | TypeErr               \<comment> \<open>\<^verbatim>\<open>TypeError\<close>: a property of null or undefined\<close>
  | ErrMsg string         \<comment> \<open>\<^verbatim>\<open>new Error(msg)\<close> thrown by the code\<close>
  | AuthErr               \<comment> \<open>\<^verbatim>\<open>AuthError\<close> of the RTSP client\<close>
  | RtspErr int string    \<comment> \<open>\<^verbatim>\<open>RTSPError\<close> with the code and the reason of the response\<close>

type_synonym 'a result = "js_error + 'a"

fun bindE :: "'a result \<Rightarrow> ('a \<Rightarrow> 'b result) \<Rightarrow> 'b result" where
  "bindE (Inl e) f = Inl e"
| "bindE (Inr x) f = f x"

lemma bindE_Inr_iff:
  "bindE m f = Inr y \<longleftrightarrow> (\<exists>x. m = Inr x \<and> f x = Inr y)"
  by (cases m) auto

lemma bindE_Inl_iff:
  "bindE m f = Inl e \<longleftrightarrow> m = Inl e \<or> (\<exists>x. m = Inr x \<and> f x = Inl e)"
  by (cases m) auto

lemma bindE_assoc: "bindE (bindE m f) g = bindE m (\<lambda>x. bindE (f x) g)"
  by (cases m) auto

lemma bindE_cong: "(\<And>x. m = Inr x \<Longrightarrow> f x = g x) \<Longrightarrow> bindE m f = bindE m g"
  by (cases m) auto

fun foldE :: "('s \<Rightarrow> 'a \<Rightarrow> 's result) \<Rightarrow> 's \<Rightarrow> 'a list \<Rightarrow> 's result" where
  "foldE f s [] = Inr s"
| "foldE f s (x # xs) = bindE (f s x) (\<lambda>s'. foldE f s' xs)"

lemma foldE_append:
  "foldE f s (xs @ ys) = bindE (foldE f s xs) (\<lambda>s'. foldE f s' ys)"
  by (induction xs arbitrary: s) (auto simp: bindE_assoc)

text \<open>An invariant kept by each successful step is kept by the whole loop.\<close>

lemma foldE_invariant:
  assumes "foldE f s xs = Inr s'" and "P s"
    and "\<And>s x s'. x \<in> set xs \<Longrightarrow> P s \<Longrightarrow> f s x = Inr s' \<Longrightarrow> P s'"
  shows "P s'"
  using assms
  by (induction xs arbitrary: s) (auto simp: bindE_Inr_iff)

section \<open>Commands\<close>

text \<open>Code that changes objects and may throw: the changes made before an exception stay. A promise
  that is awaited at once is such a command too.\<close>

type_synonym ('s, 'a) cmd = "'s \<Rightarrow> 'a result \<times> 's"

definition ret :: "'a \<Rightarrow> ('s, 'a) cmd" where
  "ret x s = (Inr x, s)"

definition throw :: "js_error \<Rightarrow> ('s, 'a) cmd" where
  "throw e s = (Inl e, s)"

definition seqC :: "('s, 'a) cmd \<Rightarrow> ('a \<Rightarrow> ('s, 'b) cmd) \<Rightarrow> ('s, 'b) cmd" where
  "seqC m f s = (case m s of (Inl e, s1) \<Rightarrow> (Inl e, s1) | (Inr x, s1) \<Rightarrow> f x s1)"

definition catchC :: "('s, 'a) cmd \<Rightarrow> (js_error \<Rightarrow> ('s, 'a) cmd) \<Rightarrow> ('s, 'a) cmd" where
  "catchC m h s = (case m s of (Inl e, s1) \<Rightarrow> h e s1 | (Inr x, s1) \<Rightarrow> (Inr x, s1))"

definition get :: "('s \<Rightarrow> 'a) \<Rightarrow> ('s, 'a) cmd" where
  "get f s = (Inr (f s), s)"

definition modify :: "('s \<Rightarrow> 's) \<Rightarrow> ('s, unit) cmd" where
  "modify f s = (Inr (), f s)"

definition liftC :: "'a result \<Rightarrow> ('s, 'a) cmd" where
  "liftC r s = (r, s)"

fun forC :: "'x list \<Rightarrow> ('x \<Rightarrow> ('s, unit) cmd) \<Rightarrow> ('s, unit) cmd" where
  "forC [] f = ret ()"
| "forC (x # xs) f = seqC (f x) (\<lambda>_. forC xs f)"

lemmas cmd_defs = ret_def throw_def seqC_def catchC_def get_def modify_def liftC_def

lemma seqC_Inr: "m s = (Inr x, s1) \<Longrightarrow> seqC m f s = f x s1"
  by (simp add: seqC_def)

lemma seqC_Inl: "m s = (Inl e, s1) \<Longrightarrow> seqC m f s = (Inl e, s1)"
  by (simp add: seqC_def)

lemma seqC_Inr_iff: "seqC m f s = (Inr y, s2) \<longleftrightarrow> (\<exists>x s1. m s = (Inr x, s1) \<and> f x s1 = (Inr y, s2))"
  by (auto simp: seqC_def split: prod.split sum.split)

lemma forC_append: "forC (xs @ ys) f = seqC (forC xs f) (\<lambda>_. forC ys f)"
  by (induction xs) (auto simp: cmd_defs fun_eq_iff split: prod.splits sum.splits)

text \<open>An invariant of each round is an invariant of the loop, exceptions included.\<close>

lemma forC_invariant:
  assumes "P s" "\<And>x s. x \<in> set xs \<Longrightarrow> P s \<Longrightarrow> P (snd (f x s))"
  shows "P (snd (forC xs f s))"
  using assms
proof (induction xs arbitrary: s)
  case (Cons x xs)
  have "P (snd (f x s))" using Cons.prems by simp
  then show ?case
    using Cons.IH [of "snd (f x s)"] Cons.prems(2) by (auto simp: seqC_def split: prod.splits sum.splits)
qed (simp add: ret_def)

text \<open>A command keeps a part of the state when it never changes it, exceptions included.\<close>

definition keeps :: "('s \<Rightarrow> 'b) \<Rightarrow> ('s, 'a) cmd \<Rightarrow> bool" where
  "keeps f m \<longleftrightarrow> (\<forall>s. f (snd (m s)) = f s)"

named_theorems keeps_intros \<open>commands that keep a part of the state\<close>

lemma keepsD: "keeps f m \<Longrightarrow> m s = (r, s1) \<Longrightarrow> f s1 = f s"
  by (metis keeps_def snd_conv)

lemma keeps_ret [keeps_intros]: "keeps f (ret x)"
  and keeps_throw [keeps_intros]: "keeps f (throw e)"
  and keeps_get [keeps_intros]: "keeps f (get g)"
  and keeps_liftC [keeps_intros]: "keeps f (liftC r)"
  by (simp_all add: keeps_def cmd_defs)

lemma keeps_modify [keeps_intros]: "(\<And>s. f (g s) = f s) \<Longrightarrow> keeps f (modify g)"
  by (simp add: keeps_def cmd_defs)

lemma keeps_seqC [keeps_intros]: "keeps f m \<Longrightarrow> (\<And>x. keeps f (h x)) \<Longrightarrow> keeps f (seqC m h)"
  by (auto simp: keeps_def seqC_def split: prod.split sum.split) (metis snd_conv)+

lemma keeps_catchC [keeps_intros]: "keeps f m \<Longrightarrow> (\<And>e. keeps f (h e)) \<Longrightarrow> keeps f (catchC m h)"
  by (auto simp: keeps_def catchC_def split: prod.split sum.split) (metis snd_conv)+

lemma keeps_forC [keeps_intros]: "(\<And>x. x \<in> set xs \<Longrightarrow> keeps f (h x)) \<Longrightarrow> keeps f (forC xs h)"
  by (induction xs) (auto intro: keeps_intros)

lemma keeps_if [keeps_intros]: "(b \<Longrightarrow> keeps f m) \<Longrightarrow> (\<not> b \<Longrightarrow> keeps f n) \<Longrightarrow> keeps f (if b then m else n)"
  by simp

lemma keeps_option [keeps_intros]:
  "(x = None \<Longrightarrow> keeps f m) \<Longrightarrow> (\<And>y. x = Some y \<Longrightarrow> keeps f (h y)) \<Longrightarrow>
   keeps f (case x of None \<Rightarrow> m | Some y \<Rightarrow> h y)"
  by (cases x) simp_all

lemma keeps_sum [keeps_intros]:
  "(\<And>y. x = Inl y \<Longrightarrow> keeps f (m y)) \<Longrightarrow> (\<And>y. x = Inr y \<Longrightarrow> keeps f (h y)) \<Longrightarrow>
   keeps f (case x of Inl y \<Rightarrow> m y | Inr y \<Rightarrow> h y)"
  by (cases x) simp_all

lemma keeps_prod [keeps_intros]: "(\<And>a b. x = (a, b) \<Longrightarrow> keeps f (h a b)) \<Longrightarrow> keeps f (case x of (a, b) \<Rightarrow> h a b)"
  by (cases x) simp

lemma keeps_Let [keeps_intros]: "keeps f (h x) \<Longrightarrow> keeps f (Let x h)"
  by simp

text \<open>Every run of a command keeps a property \<open>P\<close>, exceptions included, and a result satisfies \<open>Q\<close>.\<close>

definition runs :: "('s \<Rightarrow> bool) \<Rightarrow> ('s, 'a) cmd \<Rightarrow> ('a \<Rightarrow> bool) \<Rightarrow> bool" where
  "runs P m Q \<longleftrightarrow> (\<forall>s. P s \<longrightarrow> P (snd (m s)) \<and> (\<forall>x. fst (m s) = Inr x \<longrightarrow> Q x))"

named_theorems runs_intros \<open>commands that keep a property\<close>

lemma runs_ret [runs_intros]: "Q x \<Longrightarrow> runs P (ret x) Q"
  and runs_throw [runs_intros]: "runs P (throw e) Q"
  and runs_liftC [runs_intros]: "(\<And>x. r = Inr x \<Longrightarrow> Q x) \<Longrightarrow> runs P (liftC r) Q"
  and runs_get [runs_intros]: "(\<And>s. P s \<Longrightarrow> Q (f s)) \<Longrightarrow> runs P (get f) Q"
  by (simp_all add: runs_def cmd_defs)

lemma runs_modify [runs_intros]: "(\<And>s. P s \<Longrightarrow> P (g s)) \<Longrightarrow> Q () \<Longrightarrow> runs P (modify g) Q"
  by (simp add: runs_def cmd_defs)

lemma runs_seqC: "runs P m Q \<Longrightarrow> (\<And>x. Q x \<Longrightarrow> runs P (h x) R) \<Longrightarrow> runs P (seqC m h) R"
  by (auto simp: runs_def seqC_def split: prod.split sum.split)

lemma runs_seq [runs_intros]: "runs P m (\<lambda>_. True) \<Longrightarrow> (\<And>x. runs P (h x) R) \<Longrightarrow> runs P (seqC m h) R"
  by (rule runs_seqC)

lemma runs_catchC [runs_intros]: "runs P m Q \<Longrightarrow> (\<And>e. runs P (h e) Q) \<Longrightarrow> runs P (catchC m h) Q"
  by (auto simp: runs_def catchC_def split: prod.split sum.split)

lemma runs_forC [runs_intros]: "(\<And>x. x \<in> set xs \<Longrightarrow> runs P (h x) (\<lambda>_. True)) \<Longrightarrow> runs P (forC xs h) (\<lambda>_. True)"
  by (induction xs) (auto intro: runs_ret runs_seq)

lemma runs_if [runs_intros]: "(b \<Longrightarrow> runs P m Q) \<Longrightarrow> (\<not> b \<Longrightarrow> runs P n Q) \<Longrightarrow> runs P (if b then m else n) Q"
  by simp

lemma runs_option [runs_intros]:
  "(x = None \<Longrightarrow> runs P m Q) \<Longrightarrow> (\<And>y. x = Some y \<Longrightarrow> runs P (h y) Q) \<Longrightarrow> runs P (case x of None \<Rightarrow> m | Some y \<Rightarrow> h y) Q"
  by (cases x) simp_all

lemma runs_prod [runs_intros]: "(\<And>a b. x = (a, b) \<Longrightarrow> runs P (h a b) Q) \<Longrightarrow> runs P (case x of (a, b) \<Rightarrow> h a b) Q"
  by (cases x) simp

section \<open>Thirty-two-bit integer operators\<close>

definition toInt32 :: "int \<Rightarrow> int" where
  "toInt32 x = sint (word_of_int x :: 32 word)"

definition toUint32 :: "int \<Rightarrow> int" where
  "toUint32 x = uint (word_of_int x :: 32 word)"

text \<open>\<^verbatim>\<open>x << n\<close>, \<^verbatim>\<open>x >> n\<close> and \<^verbatim>\<open>x >>> n\<close>: the shift count is taken modulo 32.\<close>

definition js_shl :: "int \<Rightarrow> int \<Rightarrow> int" where
  "js_shl x n = sint (push_bit (nat (n mod 32)) (word_of_int x :: 32 word))"

definition js_sar :: "int \<Rightarrow> int \<Rightarrow> int" where
  "js_sar x n = toInt32 x div 2 ^ nat (n mod 32)"

definition js_shr :: "int \<Rightarrow> int \<Rightarrow> int" where
  "js_shr x n = toUint32 x div 2 ^ nat (n mod 32)"

definition js_and :: "int \<Rightarrow> int \<Rightarrow> int" where
  "js_and x y = sint ((word_of_int x :: 32 word) AND word_of_int y)"

definition js_or :: "int \<Rightarrow> int \<Rightarrow> int" where
  "js_or x y = sint ((word_of_int x :: 32 word) OR word_of_int y)"

definition js_xor :: "int \<Rightarrow> int \<Rightarrow> int" where
  "js_xor x y = sint ((word_of_int x :: 32 word) XOR word_of_int y)"

definition js_not :: "int \<Rightarrow> int" where
  "js_not x = sint (NOT (word_of_int x :: 32 word))"

text \<open>\<^verbatim>\<open>x % m\<close> keeps the sign of \<open>x\<close>.\<close>

definition js_rem :: "int \<Rightarrow> int \<Rightarrow> int" where
  "js_rem x m = sgn x * (\<bar>x\<bar> mod \<bar>m\<bar>)"

lemmas js_bit_defs = toInt32_def toUint32_def js_shl_def js_sar_def js_shr_def
  js_and_def js_or_def js_xor_def js_not_def

lemma toUint32_mod: "toUint32 x = x mod 2 ^ 32"
  by (simp add: toUint32_def uint_word_of_int)

lemma toInt32_id: "- (2 ^ 31) \<le> x \<Longrightarrow> x < 2 ^ 31 \<Longrightarrow> toInt32 x = x"
  by (simp add: toInt32_def signed_of_int signed_take_bit_int_eq_self)

lemma word_of_int_toInt32 [simp]: "(word_of_int (toInt32 x) :: 32 word) = word_of_int x"
  by (simp add: toInt32_def)

lemma word_of_int_toUint32 [simp]: "(word_of_int (toUint32 x) :: 32 word) = word_of_int x"
  by (simp add: toUint32_def)

lemma toInt32_cong: "x mod 2 ^ 32 = y mod 2 ^ 32 \<Longrightarrow> toInt32 x = toInt32 y"
  by (metis toInt32_def toUint32_mod word_of_int_toUint32)

lemma js_shl_eq: "js_shl x n = toInt32 (x * 2 ^ nat (n mod 32))"
  by (simp add: js_shl_def toInt32_def push_bit_eq_mult mult.commute)

text \<open>An arithmetic shift keeps the low byte's value whatever the 32-bit wrap did above it.\<close>

lemma toInt32_div_mod:
  assumes "n \<le> 24"
  shows "toInt32 x div 2 ^ n mod 256 = x div 2 ^ n mod (256::int)"
proof -
  have "take_bit 8 (drop_bit n (toInt32 x)) = take_bit 8 (drop_bit n x)"
    using assms by (auto intro!: bit_eqI simp: toInt32_def bit_simps signed_of_int)
  then show ?thesis
    by (simp add: take_bit_eq_mod drop_bit_eq_div)
qed

lemma nat_int_sub [simp]: "nat (int a - int b) = a - b"
  by simp

lemma js_or_eq: "js_or x y = toInt32 (x OR y)"
  by (simp add: js_or_def toInt32_def of_int_or_eq)

lemma js_and_eq: "js_and x y = toInt32 (x AND y)"
  by (simp add: js_and_def toInt32_def of_int_and_eq)

lemma js_xor_eq: "js_xor x y = toInt32 (x XOR y)"
  by (simp add: js_xor_def toInt32_def of_int_xor_eq)

lemma or_shift_plus:
  fixes a v :: int
  assumes "0 \<le> v" and "v < 2 ^ r"
  shows "a * 2 ^ r OR v = a * 2 ^ r + v"
proof -
  have "\<not> bit (a * 2 ^ r) n \<or> \<not> bit v n" for n
  proof (cases "n < r")
    case True
    then show ?thesis by (simp add: bit_simps push_bit_eq_mult [symmetric])
  next
    case False
    have "v = take_bit r v" using assms by (simp add: take_bit_int_eq_self)
    with False have "\<not> bit v n" by (metis bit_take_bit_iff)
    then show ?thesis ..
  qed
  then show ?thesis by (simp add: disjunctive_add)
qed

lemma js_or_shl:
  assumes "0 \<le> a" and "0 \<le> v" and "v < 2 ^ r" and "a * 2 ^ r + v < 2 ^ 31" and "r < 32"
  shows "js_or (js_shl a (int r)) v = a * 2 ^ r + v"
proof -
  have p: "0 \<le> a * 2 ^ r" using assms by simp
  have "toInt32 (a * 2 ^ r) = a * 2 ^ r"
    using assms p by (intro toInt32_id) linarith+
  then have "js_shl a (int r) = a * 2 ^ r"
    using assms by (simp add: js_shl_eq nat_mod_distrib)
  moreover have "toInt32 (a * 2 ^ r + v) = a * 2 ^ r + v"
    using assms p by (intro toInt32_id) linarith+
  ultimately show ?thesis using assms by (simp add: js_or_eq or_shift_plus)
qed

section \<open>Bytes\<close>

type_synonym byte = "8 word"
type_synonym bytes = "byte list"

text \<open>Storing a number in a \<^verbatim>\<open>Uint8Array\<close> element: modulo 256.\<close>

definition u8 :: "int \<Rightarrow> byte" where
  "u8 n = word_of_int n"

text \<open>The four (two) elements \<^verbatim>\<open>(n >> 24) & 0xff, (n >> 16) & 0xff, (n >> 8) & 0xff, n & 0xff\<close>:
  the element store already reduces modulo 256, so the masks change nothing.\<close>

definition be32 :: "int \<Rightarrow> bytes" where
  "be32 n = [u8 (js_sar n 24), u8 (js_sar n 16), u8 (js_sar n 8), u8 n]"

definition be16 :: "int \<Rightarrow> bytes" where
  "be16 n = [u8 (js_sar n 8), u8 n]"

definition be_val :: "bytes \<Rightarrow> int" where
  "be_val xs = foldl (\<lambda>a b. a * 256 + uint b) 0 xs"

lemma length_be32 [simp]: "length (be32 n) = 4"
  by (simp add: be32_def)

lemma length_be16 [simp]: "length (be16 n) = 2"
  by (simp add: be16_def)

lemma uint_u8: "uint (u8 n) = n mod 256"
  by (simp add: u8_def uint_word_of_int)

lemma u8_eq_iff: "u8 m = u8 n \<longleftrightarrow> m mod 256 = n mod 256"
  by (metis uint_u8 u8_def word_of_int_uint)

lemma u8_js_sar: "0 \<le> k \<Longrightarrow> k \<le> 24 \<Longrightarrow> u8 (js_sar n k) = u8 (n div 2 ^ nat k)"
  by (simp add: u8_eq_iff js_sar_def toInt32_div_mod)

lemma be32_div: "be32 n = [u8 (n div 2 ^ 24), u8 (n div 2 ^ 16), u8 (n div 2 ^ 8), u8 n]"
  by (simp add: be32_def u8_js_sar)

lemma be16_div: "be16 n = [u8 (n div 2 ^ 8), u8 n]"
  by (simp add: be16_def u8_js_sar)

lemma be_val_Nil [simp]: "be_val [] = 0"
  by (simp add: be_val_def)

lemma be_val_snoc: "be_val (xs @ [x]) = be_val xs * 256 + uint x"
  by (simp add: be_val_def)

lemma be_val_append: "be_val (xs @ ys) = be_val xs * 256 ^ length ys + be_val ys"
proof (induction ys rule: rev_induct)
  case (snoc y ys)
  have "be_val (xs @ ys @ [y]) = be_val (xs @ ys) * 256 + uint y"
    using be_val_snoc [of "xs @ ys" y] by simp
  with snoc.IH show ?case by (simp add: be_val_snoc algebra_simps)
qed simp

lemma be_val_Cons: "be_val (x # xs) = uint x * 256 ^ length xs + be_val xs"
  using be_val_append [of "[x]" xs] by (simp add: be_val_def)

lemma be_val_nonneg [simp]: "0 \<le> be_val xs"
  by (induction xs rule: rev_induct) (simp_all add: be_val_snoc)

lemma be_val_less: "be_val xs < 256 ^ length xs"
proof (induction xs rule: rev_induct)
  case (snoc x xs)
  have "uint x < 256" using uint_lt2p [of x] by simp
  with snoc.IH show ?case by (simp add: be_val_snoc)
qed simp

lemma mod_256_split: "0 \<le> c \<Longrightarrow> n mod (c * 256) = c * (n div c mod 256) + n mod (c::int)"
  by (rule zmod_zmult2_eq) simp

lemma be_val_be32: "be_val (be32 n) = n mod 2 ^ 32"
proof -
  have "be_val (be32 n) = (n div 2^24 mod 256) * 256^3 + (n div 2^16 mod 256) * 256^2
      + (n div 2^8 mod 256) * 256 + n mod 256"
    by (simp add: be32_div be_val_Cons uint_u8)
  also have "\<dots> = n mod 4294967296"
    unfolding mod_256_split [of 16777216 n, simplified] mod_256_split [of 65536 n, simplified]
      mod_256_split [of 256 n, simplified]
    by (simp only: power2_eq_square power3_eq_cube) simp
  finally show ?thesis by simp
qed

lemma be_val_be16: "be_val (be16 n) = n mod 2 ^ 16"
proof -
  have "be_val (be16 n) = (n div 2^8 mod 256) * 256 + n mod 256"
    by (simp add: be16_div be_val_Cons uint_u8)
  also have "\<dots> = n mod 2 ^ 16"
    using zmod_zmult2_eq [of "2^8" n "2^8"] by simp
  finally show ?thesis .
qed

subsection \<open>DataView reads\<close>

definition get_n :: "nat \<Rightarrow> bytes \<Rightarrow> int \<Rightarrow> int result" where
  "get_n k xs i = (if 0 \<le> i \<and> i + int k \<le> int (length xs)
     then Inr (be_val (take k (drop (nat i) xs))) else Inl RangeErr)"

abbreviation getUint8 :: "bytes \<Rightarrow> int \<Rightarrow> int result" where "getUint8 \<equiv> get_n 1"
abbreviation getUint16 :: "bytes \<Rightarrow> int \<Rightarrow> int result" where "getUint16 \<equiv> get_n 2"
abbreviation getUint32 :: "bytes \<Rightarrow> int \<Rightarrow> int result" where "getUint32 \<equiv> get_n 4"

text \<open>The reads that stay inside the view.\<close>

lemma get_n_append:
  assumes "i = int (length xs)" and "length ys = k"
  shows "get_n k (xs @ ys @ zs) i = Inr (be_val ys)"
  using assms by (simp add: get_n_def)

lemma get_n_out: "int (length xs) < i + int k \<Longrightarrow> get_n k xs i = Inl RangeErr"
  by (simp add: get_n_def)

lemma getUint8_nth: "i < length xs \<Longrightarrow> getUint8 xs (int i) = Inr (uint (xs ! i))"
  by (simp add: get_n_def take_Suc_conv_app_nth be_val_def hd_drop_conv_nth take_Suc)

subsection \<open>Typed-array views and copies\<close>

definition js_clamp :: "nat \<Rightarrow> int \<Rightarrow> nat" where
  "js_clamp n i = (if i < 0 then nat (int n + i) else min (nat i) n)"

text \<open>\<^verbatim>\<open>xs.subarray(b, e)\<close> and \<^verbatim>\<open>xs.subarray(b)\<close>: indices are clamped, a negative one counts
  from the end. A view shares the bytes of its buffer; the code writes into none of the views it
  takes, so the model copies.\<close>

definition subarray :: "'a list \<Rightarrow> int \<Rightarrow> int \<Rightarrow> 'a list" where
  "subarray xs b e = (let b' = js_clamp (length xs) b; e' = js_clamp (length xs) e
     in take (e' - b') (drop b' xs))"

definition subarray_from :: "'a list \<Rightarrow> int \<Rightarrow> 'a list" where
  "subarray_from xs b = drop (js_clamp (length xs) b) xs"

lemma subarray_from_nat [simp]: "subarray_from xs (int n) = drop n xs"
  by (simp add: subarray_from_def js_clamp_def min_def)

lemma subarray_nat: "m \<le> n \<Longrightarrow> subarray xs (int m) (int n) = take (n - m) (drop m xs)"
  by (auto simp: subarray_def js_clamp_def min_def Let_def)

text \<open>\<^verbatim>\<open>dst.set(src, off)\<close> for a non-negative offset: a \<^verbatim>\<open>RangeError\<close> when it does not fit.\<close>

definition array_set :: "'a list \<Rightarrow> 'a list \<Rightarrow> nat \<Rightarrow> 'a list result" where
  "array_set dst src off = (if off + length src \<le> length dst
     then Inr (take off dst @ src @ drop (off + length src) dst) else Inl RangeErr)"

lemma array_set_append:
  "n \<ge> length src \<Longrightarrow> array_set (pre @ replicate n z) src (length pre)
     = Inr ((pre @ src) @ replicate (n - length src) z)"
  by (simp add: array_set_def)

lemma array_set_length: "array_set dst src off = Inr r \<Longrightarrow> length r = length dst"
  by (auto simp: array_set_def split: if_splits)

end
