(* ===== verification/Codec.thy ===== *)
theory Codec
  imports JsBase
begin

text \<open>
  Length-delimited formats: the locale \<open>chunk_codec\<close> is the contract between a writer of chunks and
  a reader of one chunk from the front of a byte string. Inside it: reading a whole sequence of
  chunks back gives exactly the chunks written. It is interpreted on the MP4 boxes and on the
  aggregation units of the RTP payload.
\<close>

fun dec_all :: "('b list \<Rightarrow> ('a \<times> 'b list) option) \<Rightarrow> nat \<Rightarrow> 'b list \<Rightarrow> 'a list option" where
  "dec_all dec fuel [] = Some []"
| "dec_all dec 0 (b # bs) = None"
| "dec_all dec (Suc fuel) (b # bs) =
     (case dec (b # bs) of
        None \<Rightarrow> None
      | Some (x, rest) \<Rightarrow> map_option ((#) x) (dec_all dec fuel rest))"

locale chunk_codec =
  fixes enc :: "'a \<Rightarrow> 'b list"
    and dec :: "'b list \<Rightarrow> ('a \<times> 'b list) option"
    and wf :: "'a \<Rightarrow> bool"
  assumes dec_enc: "wf x \<Longrightarrow> dec (enc x @ rest) = Some (x, rest)"
    and enc_nonempty: "wf x \<Longrightarrow> enc x \<noteq> []"
begin

lemma dec_all_enc:
  assumes "list_all wf xs" and "length (concat (map enc xs)) \<le> fuel"
  shows "dec_all dec fuel (concat (map enc xs)) = Some xs"
  using assms
proof (induction xs arbitrary: fuel)
  case (Cons x xs)
  obtain b bs where b: "enc x = b # bs"
    using enc_nonempty [of x] Cons.prems(1) by (cases "enc x") auto
  then obtain fuel' where fuel: "fuel = Suc fuel'" "length (concat (map enc xs)) \<le> fuel'"
    using Cons.prems(2) by (cases fuel) auto
  have "dec (b # bs @ concat (map enc xs)) = Some (x, concat (map enc xs))"
    using dec_enc [of x "concat (map enc xs)"] Cons.prems(1) b by simp
  moreover have "dec_all dec fuel' (concat (map enc xs)) = Some xs"
    using Cons.IH [OF _ fuel(2)] Cons.prems(1) by simp
  ultimately show ?case by (simp add: b fuel(1))
qed simp

lemma enc_inj: "wf x \<Longrightarrow> wf y \<Longrightarrow> enc x @ r = enc y @ s \<Longrightarrow> x = y \<and> r = s"
  by (metis dec_enc option.inject prod.inject)

text \<open>No written chunk is a proper prefix of another: a stream of chunks is uniquely decodable.\<close>

lemma enc_concat_inj:
  assumes "list_all wf xs" and "list_all wf ys" and "concat (map enc xs) = concat (map enc ys)"
  shows "xs = ys"
proof -
  let ?n = "length (concat (map enc xs))"
  have "dec_all dec ?n (concat (map enc xs)) = Some xs"
    by (rule dec_all_enc [OF assms(1) order_refl])
  moreover have "dec_all dec ?n (concat (map enc ys)) = Some ys"
    by (rule dec_all_enc [OF assms(2)]) (simp only: assms(3) order_refl)
  ultimately show ?thesis unfolding assms(3) by (metis option.inject)
qed

end

end
