(* ===== verification/JsNumber.thy ===== *)
theory JsNumber
  imports JsBase "HOL-Library.Log_Nat"
begin

text \<open>
  Fractional numbers. A finite JavaScript number is a rational; every arithmetic operation of the
  code is the exact operation followed by \<open>dbl\<close>, the rounding to the nearest 53-bit significand
  (ties to even) of binary64. Exponents are not bounded: the timestamps, durations and ratios of the
  player stay far from overflow and from the subnormal range. A whole number up to \<open>2 ^ 53\<close> is exact.
\<close>

definition round_even :: "rat \<Rightarrow> int" where
  "round_even x = (let f = \<lfloor>x\<rfloor>; d = x - of_int f
     in if d < 1 / 2 then f else if d > 1 / 2 then f + 1 else if even f then f else f + 1)"

definition pow2 :: "int \<Rightarrow> rat" where
  "pow2 e = (if 0 \<le> e then 2 ^ nat e else 1 / 2 ^ nat (- e))"

definition dbl :: "rat \<Rightarrow> rat" where
  "dbl r = (if r = 0 then 0 else
     let (n, d) = quotient_of \<bar>r\<bar>;
         e = int (floorlog 2 (nat n)) - int (floorlog 2 (nat d)) - 53;
         e' = (if \<bar>r\<bar> / pow2 e \<ge> 2 ^ 53 then e + 1 else e)
     in sgn r * of_int (round_even (\<bar>r\<bar> / pow2 e')) * pow2 e')"

definition js_add :: "rat \<Rightarrow> rat \<Rightarrow> rat" where "js_add x y = dbl (x + y)"
definition js_sub :: "rat \<Rightarrow> rat \<Rightarrow> rat" where "js_sub x y = dbl (x - y)"
definition js_mul :: "rat \<Rightarrow> rat \<Rightarrow> rat" where "js_mul x y = dbl (x * y)"
definition js_div :: "rat \<Rightarrow> rat \<Rightarrow> rat" where "js_div x y = dbl (x / y)"

definition js_round :: "rat \<Rightarrow> int" where
  "js_round x = \<lfloor>x + 1 / 2\<rfloor>"

text \<open>A fractional number under a bit operator is first truncated towards zero.\<close>

definition js_trunc :: "rat \<Rightarrow> int" where
  "js_trunc r = (if 0 \<le> r then \<lfloor>r\<rfloor> else \<lceil>r\<rceil>)"

lemma js_trunc_of_int [simp]: "js_trunc (of_int n) = n"
  by (simp add: js_trunc_def)

lemma js_round_of_int [simp]: "js_round (of_int n) = n"
  by (simp add: js_round_def floor_eq_iff)

lemma round_even_of_int [simp]: "round_even (of_int n) = n"
  by (simp add: round_even_def)

lemma round_even_nonneg: "0 \<le> x \<Longrightarrow> 0 \<le> round_even x"
  by (auto simp: round_even_def Let_def intro: add_nonneg_nonneg)

lemma pow2_pos [simp]: "0 < pow2 e"
  by (simp add: pow2_def)

lemma dbl_0 [simp]: "dbl 0 = 0"
  by (simp add: dbl_def)

text \<open>Rounding keeps the sign.\<close>

lemma dbl_nonneg: "0 \<le> r \<Longrightarrow> 0 \<le> dbl r"
proof -
  assume "0 \<le> r"
  then have "0 \<le> round_even (\<bar>r\<bar> / pow2 e)" for e by (intro round_even_nonneg) (simp add: less_imp_le)
  with \<open>0 \<le> r\<close> show ?thesis
    by (auto simp: dbl_def Let_def split_beta sgn_if less_imp_le intro!: mult_nonneg_nonneg)
qed

lemma dbl_minus: "dbl (- r) = - dbl r"
  by (simp add: dbl_def Let_def split_beta sgn_minus)

lemma dbl_of_nat_pos:
  assumes "0 < n" and "n \<le> 2 ^ 53"
  shows "dbl (of_nat n) = of_nat n"
proof -
  define a where "a = floorlog 2 n"
  have lo: "2 ^ (a - 1) \<le> n" and hi: "n < 2 ^ a" and a: "0 < a"
    using assms(1) floorlog_bounds [of n 2] by (auto simp: a_def floorlog_eq_zero_iff intro: gr0I)
  have a54: "a \<le> 54"
  proof (rule ccontr)
    assume "\<not> a \<le> 54"
    then have "(2::nat) ^ 54 \<le> 2 ^ (a - 1)" by (intro power_increasing) auto
    with lo assms(2) show False by simp
  qed
  have f1: "floorlog 2 (Suc 0) = 1" by (simp add: floorlog_def)
  define e where "e = int a - 54"
  have e0: "e \<le> 0" using a54 by (simp add: e_def)
  have big: "(2 :: rat) ^ 53 \<le> of_nat n / pow2 e"
  proof -
    have "(2 :: rat) ^ 53 = 2 ^ (a - 1) * 2 ^ (54 - a)"
      using a a54 by (simp add: power_add [symmetric])
    also have "\<dots> \<le> of_nat n * 2 ^ (54 - a)"
      using lo by (intro mult_right_mono) (metis of_nat_le_iff of_nat_numeral of_nat_power, simp)
    also have "\<dots> = of_nat n / pow2 e"
      using a54 by (auto simp: pow2_def e_def nat_diff_distrib)
    finally show ?thesis .
  qed
  have whole: "\<exists>k. of_nat n / pow2 (e + 1) = of_int k"
  proof (cases "a = 54")
    case True
    then have "n = 2 ^ 53" using lo assms(2) by simp
    then show ?thesis
      using True by (intro exI [of _ "2 ^ 52"]) (simp add: pow2_def e_def)
  next
    case False
    then have "of_nat n / pow2 (e + 1) = of_int (int n * 2 ^ nat (53 - int a))"
      using a54 by (auto simp: pow2_def e_def)
    then show ?thesis by blast
  qed
  then obtain k where k: "of_nat n / pow2 (e + 1) = of_int k" by blast
  have q: "quotient_of (of_nat n) = (int n, 1)" by (simp add: of_nat_rat quotient_of_Fract)
  have "dbl (of_nat n) = of_int (round_even (of_nat n / pow2 (e + 1))) * pow2 (e + 1)"
    using assms(1) big by (simp add: dbl_def q f1 a_def [symmetric] e_def [symmetric] sgn_if Let_def
        diff_diff_eq)
  also have "\<dots> = of_int k * pow2 (e + 1)" by (simp only: k round_even_of_int)
  also have "\<dots> = of_nat n" by (simp add: k [symmetric] less_imp_neq [OF pow2_pos, symmetric])
  finally show ?thesis .
qed

lemma dbl_of_int:
  assumes "\<bar>n\<bar> \<le> 2 ^ 53"
  shows "dbl (of_int n) = of_int n"
proof (cases "n = 0")
  case False
  have p: "dbl (of_int \<bar>n\<bar>) = of_int \<bar>n\<bar>"
    using dbl_of_nat_pos [of "nat \<bar>n\<bar>"] False assms by simp
  show ?thesis
  proof (cases "0 \<le> n")
    case True
    with p show ?thesis by simp
  next
    case False
    then have "of_int n = - (of_int \<bar>n\<bar> :: rat)" by simp
    with p show ?thesis by (metis dbl_minus)
  qed
qed simp

lemma js_sub_of_int: "\<bar>m - n\<bar> \<le> 2 ^ 53 \<Longrightarrow> js_sub (of_int m) (of_int n) = of_int (m - n)"
  unfolding js_sub_def of_int_diff [symmetric] by (rule dbl_of_int)

lemma js_add_of_int: "\<bar>m + n\<bar> \<le> 2 ^ 53 \<Longrightarrow> js_add (of_int m) (of_int n) = of_int (m + n)"
  unfolding js_add_def of_int_add [symmetric] by (rule dbl_of_int)

lemma js_div_1_of_int: "\<bar>m\<bar> \<le> 2 ^ 53 \<Longrightarrow> js_div (of_int m) 1 = of_int m"
  by (simp add: js_div_def dbl_of_int)

lemma js_mul_1_of_int: "\<bar>m\<bar> \<le> 2 ^ 53 \<Longrightarrow> js_mul (of_int m) 1 = of_int m"
  by (simp add: js_mul_def dbl_of_int)

lemma pow2_neq0 [simp]: "pow2 e \<noteq> 0"
  by (rule less_imp_neq [OF pow2_pos, symmetric])

lemma abs_pow2 [simp]: "\<bar>pow2 e\<bar> = pow2 e"
  by (rule abs_of_pos [OF pow2_pos])

lemma pow2_power_int: "pow2 e = power_int 2 e"
  by (simp add: pow2_def power_int_def power_one_over inverse_eq_divide)

lemma pow2_add: "pow2 (e + f) = pow2 e * pow2 f"
  by (simp add: pow2_power_int power_int_add)

lemma pow2_mono: "e \<le> f \<Longrightarrow> pow2 e \<le> pow2 f"
  by (simp add: pow2_power_int power_int_increasing)

lemma pow2_of_nat: "pow2 (int n) = 2 ^ n"
  by (simp add: pow2_def)

lemma pow2_diff: "pow2 (int m - int n) = 2 ^ m / 2 ^ n"
  using pow2_add [of "int m - int n" "int n"] by (simp add: pow2_of_nat field_simps)

definition dbl_exp :: "rat \<Rightarrow> int \<Rightarrow> bool" where
  "dbl_exp r e \<longleftrightarrow> 2 ^ 52 * pow2 e \<le> r \<and> r < 2 ^ 53 * pow2 e"

lemma dbl_exp_unique:
  assumes "dbl_exp r e" and "dbl_exp r f"
  shows "e = f"
proof (rule ccontr)
  have no: False if "dbl_exp r e" "dbl_exp r f" "e < f" for e f
  proof -
    have "pow2 (e + 1) \<le> pow2 f" using that(3) by (intro pow2_mono) simp
    then have "2 * pow2 e \<le> pow2 f" by (simp add: pow2_add pow2_of_nat [of 1, simplified])
    then have "2 ^ 53 * pow2 e \<le> 2 ^ 52 * pow2 f" by simp
    then show False using that by (auto simp: dbl_exp_def)
  qed
  assume "e \<noteq> f"
  then show False using no [OF assms] no [OF assms(2,1)] by linarith
qed

lemma floorlog_rat:
  assumes "0 < n"
  shows "(2 :: rat) ^ (floorlog 2 n - 1) \<le> of_nat n" and "of_nat n < (2 :: rat) ^ floorlog 2 n"
proof -
  have "2 ^ (floorlog 2 n - 1) \<le> n" "n < 2 ^ floorlog 2 n"
    using floorlog_bounds [of n 2] assms by auto
  then show "(2 :: rat) ^ (floorlog 2 n - 1) \<le> of_nat n" "of_nat n < (2 :: rat) ^ floorlog 2 n"
    by (metis of_nat_le_iff of_nat_numeral of_nat_power, metis of_nat_less_iff of_nat_numeral of_nat_power)
qed

lemma dbl_exp_exists:
  assumes "0 < r" and "quotient_of r = (n, d)"
    and "e = int (floorlog 2 (nat n)) - int (floorlog 2 (nat d)) - 53"
  shows "dbl_exp r (if r / pow2 e \<ge> 2 ^ 53 then e + 1 else e)"
proof -
  have d: "0 < d" and r: "r = of_int n / of_int d"
    using assms(2) by (auto intro: quotient_of_denom_pos quotient_of_div)
  then have n: "0 < n" using assms(1) by (simp add: zero_less_divide_iff)
  define N D a b where "N = nat n" and "D = nat d" and "a = floorlog 2 N" and "b = floorlog 2 D"
  have nd: "of_int n = (of_nat N :: rat)" "of_int d = (of_nat D :: rat)" "0 < N" "0 < D"
    using n d by (auto simp: N_def D_def)
  have ab: "0 < a" "0 < b" using nd by (auto simp: a_def b_def floorlog_eq_zero_iff intro: gr0I)
  note N = floorlog_rat [OF nd(3), folded a_def] and D = floorlog_rat [OF nd(4), folded b_def]
  have half: "(2 :: rat) ^ (k - 1) = 2 ^ k / 2" if "0 < k" for k
    using that by (cases k) auto
  have N2: "(2 :: rat) ^ a / 2 \<le> of_nat N" using N(1) by (simp only: half [OF ab(1)])
  have D2: "(2 :: rat) ^ b / 2 \<le> of_nat D" using D(1) by (simp only: half [OF ab(2)])
  have pe: "pow2 e = 2 ^ a / 2 ^ b / 2 ^ 53"
    unfolding assms(3) N_def [symmetric] D_def [symmetric] a_def [symmetric] b_def [symmetric]
    using pow2_diff [of a "b + 53"] by (simp add: power_add diff_diff_eq)
  have lo: "2 ^ 52 * pow2 e \<le> r"
  proof -
    have "2 ^ 52 * pow2 e = (2 ^ a / 2) / 2 ^ b" by (simp add: pe)
    also have "\<dots> \<le> of_nat N / of_nat D"
      by (intro frac_le N2 less_imp_le [OF D(2)]) (use nd in auto)
    finally show ?thesis by (simp add: r nd)
  qed
  have hi: "r < 2 ^ 54 * pow2 e"
  proof -
    have "r = of_nat N / of_nat D" by (simp add: r nd)
    also have "\<dots> < 2 ^ a / (2 ^ b / 2)"
      by (intro frac_less D2 N(2)) (use nd in auto)
    also have "\<dots> = 2 ^ 54 * pow2 e" by (simp add: pe)
    finally show ?thesis .
  qed
  have "pow2 (e + 1) = 2 * pow2 e" by (simp add: pow2_add pow2_of_nat [of 1, simplified])
  with lo hi show ?thesis by (auto simp: dbl_exp_def pos_le_divide_eq pos_divide_le_eq not_le)
qed

text \<open>The exponent of the result is the one that leaves a 53-bit significand.\<close>

lemma dbl_eq:
  assumes "dbl_exp r e"
  shows "dbl r = of_int (round_even (r / pow2 e)) * pow2 e"
proof -
  have r: "0 < r" using assms pow2_pos [of e] by (auto simp: dbl_exp_def intro: less_le_trans)
  obtain n d where q: "quotient_of r = (n, d)" by fastforce
  define e0 where "e0 = int (floorlog 2 (nat n)) - int (floorlog 2 (nat d)) - 53"
  have "(if r / pow2 e0 \<ge> 2 ^ 53 then e0 + 1 else e0) = e"
    using dbl_exp_unique [OF dbl_exp_exists [OF r q e0_def] assms] .
  then have "dbl r = of_int (round_even (\<bar>r\<bar> / pow2 e)) * pow2 e"
    using r unfolding dbl_def by (simp only: q e0_def [symmetric] Let_def prod.case abs_of_pos sgn_pos
        mult_1 if_False less_imp_neq [OF r, symmetric])
  with r show ?thesis by simp
qed

lemma round_evenI: "of_int n - 1 / 2 < x \<Longrightarrow> x < of_int n + 1 / 2 \<Longrightarrow> round_even x = n"
proof (cases "of_int n \<le> x")
  case True
  assume "of_int n - 1 / 2 < x" "x < of_int n + 1 / 2"
  with True have "\<lfloor>x\<rfloor> = n" by (simp add: floor_eq_iff)
  with \<open>x < of_int n + 1 / 2\<close> show ?thesis by (simp add: round_even_def)
next
  case False
  assume "of_int n - 1 / 2 < x" "x < of_int n + 1 / 2"
  with False have "\<lfloor>x\<rfloor> = n - 1" by (simp add: floor_eq_iff)
  with \<open>of_int n - 1 / 2 < x\<close> show ?thesis by (simp add: round_even_def Let_def)
qed

lemma dblI:
  assumes "2 ^ 52 * pow2 e \<le> r" and "r < 2 ^ 53 * pow2 e"
    and "(of_int n - 1 / 2) * pow2 e < r" and "r < (of_int n + 1 / 2) * pow2 e"
  shows "dbl r = of_int n * pow2 e"
proof -
  have "round_even (r / pow2 e) = n"
    using assms(3,4) by (intro round_evenI)
      (simp_all add: pos_divide_less_eq pos_less_divide_eq del: times_divide_eq_left)
  with assms(1,2) show ?thesis by (simp add: dbl_eq [of r e] dbl_exp_def)
qed

lemma round_even_error: "\<bar>of_int (round_even x) - x\<bar> \<le> 1 / 2"
proof -
  have "of_int \<lfloor>x\<rfloor> \<le> x" "x < of_int \<lfloor>x\<rfloor> + 1" using floor_correct [of x] by auto
  then show ?thesis
    unfolding round_even_def Let_def by (simp add: abs_if; linarith)
qed

text \<open>The relative error is at most \<open>2 ^ - 53\<close>.\<close>

lemma dbl_error: "\<bar>dbl r - r\<bar> * 2 ^ 53 \<le> \<bar>r\<bar>"
proof -
  have pos: "\<bar>dbl r - r\<bar> * 2 ^ 53 \<le> r" if "0 < r" for r
  proof -
    obtain n d where q: "quotient_of r = (n, d)" by fastforce
    have "\<exists>e. dbl_exp r e" using dbl_exp_exists [OF that q refl] by blast
    then obtain e where e: "dbl_exp r e" ..
    let ?x = "r / pow2 e"
    have p: "pow2 e \<noteq> 0" by simp
    then have "dbl r - r = (of_int (round_even ?x) - ?x) * pow2 e"
      by (simp add: dbl_eq [OF e] left_diff_distrib)
    then have "\<bar>dbl r - r\<bar> = \<bar>of_int (round_even ?x) - ?x\<bar> * pow2 e"
      by (simp add: abs_mult)
    also have "\<dots> \<le> 1 / 2 * pow2 e" using round_even_error pow2_pos [of e] by (intro mult_right_mono less_imp_le [OF pow2_pos])
    finally have "\<bar>dbl r - r\<bar> * 2 ^ 53 \<le> 2 ^ 52 * pow2 e" by simp
    also have "\<dots> \<le> r" using e by (simp add: dbl_exp_def)
    finally show ?thesis .
  qed
  consider "r = 0" | "0 < r" | "0 < - r" by linarith
  then show ?thesis
  proof cases
    case 3
    have "dbl r - r = - (dbl (- r) - (- r))" by (simp add: dbl_minus)
    then have "\<bar>dbl r - r\<bar> = \<bar>dbl (- r) - (- r)\<bar>" by (metis abs_minus_cancel)
    with pos [OF 3] 3 show ?thesis by simp
  qed (use pos in auto)
qed

end
