(* ===== verification/Mp4.thy ===== *)
theory Mp4
  imports Codec JsNumber
begin

text \<open>
  The class \<^verbatim>\<open>MP4\<close> of \<^verbatim>\<open>rtsp.dev.js\<close>: it writes the ISO base-media boxes that the remuxers hand to
  the browser. One definition per generator, with the byte tables as the code has them; then a reader
  of boxes and the offset of the sample data in a fragment. Theory \<^verbatim>\<open>InitSegment\<close> reads the nested boxes of
  an initialisation segment.
\<close>

section \<open>Tracks and samples\<close>

text \<open>A number that the code never assigns (\<^verbatim>\<open>undefined\<close>) and only uses under bit operators is 0,
  as those operators read it; \<^verbatim>\<open>volume\<close> is used in \<^verbatim>\<open>%\<close> as well and stays optional.\<close>

datatype track_type = VideoTrack | AudioTrack

record sample_flags =
  isLeading :: int
  isDependedOn :: int
  hasRedundancy :: int
  degradPrio :: int
  dependsOn :: int
  isNonSync :: int
  paddingValue :: int

record mp4_sample =
  s_size :: int
  s_duration :: rat
  s_cts :: rat
  s_flags :: sample_flags

record mp4_track =
  t_id :: int
  t_type :: track_type
  t_timescale :: rat
  t_duration :: rat
  t_width :: int
  t_height :: int
  t_volume :: "rat option"
  t_sps :: "bytes list"
  t_pps :: "bytes list"
  t_config :: bytes
  t_channelCount :: int
  t_audiosamplerate :: int
  t_samples :: "mp4_sample list"
  t_len :: int
  t_codec :: string

section \<open>Boxes\<close>

text \<open>\<^verbatim>\<open>MP4.types\<close>: a box type is the four character codes of its name.\<close>

definition mp4_type :: "string \<Rightarrow> bytes" where
  "mp4_type name = map (\<lambda>c. u8 (of_char c)) (take 4 name)"

definition mp4_type_names :: "string list" where
  "mp4_type_names = [''avc1'', ''avcC'', ''btrt'', ''dinf'', ''dref'', ''esds'', ''ftyp'', ''hdlr'',
     ''mdat'', ''mdhd'', ''mdia'', ''mfhd'', ''minf'', ''moof'', ''moov'', ''mp4a'', ''mvex'',
     ''mvhd'', ''sdtp'', ''stbl'', ''stco'', ''stsc'', ''stsd'', ''stsz'', ''stts'', ''tfdt'',
     ''tfhd'', ''traf'', ''trak'', ''trun'', ''trex'', ''tkhd'', ''vmhd'', ''smhd'']"

definition arr :: "int list \<Rightarrow> bytes" where
  "arr xs = map u8 xs"

definition box :: "bytes \<Rightarrow> bytes list \<Rightarrow> bytes" where
  "box ty payload = (let sz = 8 + sum_list (map length payload)
     in be32 (int sz) @ ty @ concat payload)"

definition videoHdlr :: bytes where
  "videoHdlr = arr [
     0x00, 0x00, 0x00, 0x00, 0x00, 0x00, 0x00, 0x00,
     0x76, 0x69, 0x64, 0x65,
     0x00, 0x00, 0x00, 0x00, 0x00, 0x00, 0x00, 0x00, 0x00, 0x00, 0x00, 0x00,
     0x56, 0x69, 0x64, 0x65, 0x6f, 0x48, 0x61, 0x6e, 0x64, 0x6c, 0x65, 0x72, 0x00]"

definition audioHdlr :: bytes where
  "audioHdlr = arr [
     0x00, 0x00, 0x00, 0x00, 0x00, 0x00, 0x00, 0x00,
     0x73, 0x6f, 0x75, 0x6e,
     0x00, 0x00, 0x00, 0x00, 0x00, 0x00, 0x00, 0x00, 0x00, 0x00, 0x00, 0x00,
     0x53, 0x6f, 0x75, 0x6e, 0x64, 0x48, 0x61, 0x6e, 0x64, 0x6c, 0x65, 0x72, 0x00]"

definition HDLR_TYPES :: "track_type \<Rightarrow> bytes" where
  "HDLR_TYPES t = (case t of VideoTrack \<Rightarrow> videoHdlr | AudioTrack \<Rightarrow> audioHdlr)"

definition dref_payload :: bytes where
  "dref_payload = arr [0x00, 0x00, 0x00, 0x00, 0x00, 0x00, 0x00, 0x01, 0x00, 0x00, 0x00, 0x0c,
     0x75, 0x72, 0x6c, 0x20, 0x00, 0x00, 0x00, 0x01]"

definition STCO :: bytes where
  "STCO = arr [0x00, 0x00, 0x00, 0x00, 0x00, 0x00, 0x00, 0x00]"

definition STTS :: bytes where "STTS = STCO"
definition STSC :: bytes where "STSC = STCO"

definition STSZ :: bytes where
  "STSZ = arr [0x00, 0x00, 0x00, 0x00, 0x00, 0x00, 0x00, 0x00, 0x00, 0x00, 0x00, 0x00]"

definition VMHD :: bytes where
  "VMHD = arr [0x00, 0x00, 0x00, 0x01, 0x00, 0x00, 0x00, 0x00, 0x00, 0x00, 0x00, 0x00]"

definition SMHD :: bytes where
  "SMHD = arr [0x00, 0x00, 0x00, 0x00, 0x00, 0x00, 0x00, 0x00]"

definition STSD :: bytes where
  "STSD = arr [0x00, 0x00, 0x00, 0x00, 0x00, 0x00, 0x00, 0x01]"

definition majorBrand :: bytes where "majorBrand = arr [105, 115, 111, 109]"
definition avc1Brand :: bytes where "avc1Brand = arr [97, 118, 99, 49]"
definition minorVersion :: bytes where "minorVersion = arr [0, 0, 0, 1]"

definition FTYP :: bytes where
  "FTYP = box (mp4_type ''ftyp'') [majorBrand, minorVersion, majorBrand, avc1Brand]"

definition DINF :: bytes where
  "DINF = box (mp4_type ''dinf'') [box (mp4_type ''dref'') [dref_payload]]"

section \<open>The generators\<close>

definition hdlr :: "track_type \<Rightarrow> bytes" where
  "hdlr t = box (mp4_type ''hdlr'') [HDLR_TYPES t]"

definition mdat :: "bytes \<Rightarrow> bytes" where
  "mdat data = box (mp4_type ''mdat'') [data]"

definition mdhd :: "rat \<Rightarrow> rat \<Rightarrow> bytes" where
  "mdhd timescale duration = box (mp4_type ''mdhd'') [
     arr [0x00, 0x00, 0x00, 0x00,
          0x00, 0x00, 0x00, 0x02,
          0x00, 0x00, 0x00, 0x03]
     @ be32 (js_trunc timescale) @ be32 (js_trunc duration)
     @ arr [0x55, 0xc4, 0x00, 0x00]]"

definition mfhd :: "int \<Rightarrow> bytes" where
  "mfhd sequenceNumber = box (mp4_type ''mfhd'') [
     arr [0x00, 0x00, 0x00, 0x00] @ be32 sequenceNumber]"

definition mvhd :: "rat \<Rightarrow> rat \<Rightarrow> bytes" where
  "mvhd timescale duration = box (mp4_type ''mvhd'') [
     arr [0x00, 0x00, 0x00, 0x00,
          0x00, 0x00, 0x00, 0x01,
          0x00, 0x00, 0x00, 0x02]
     @ be32 (js_trunc timescale) @ be32 (js_trunc duration)
     @ arr [0x00, 0x01, 0x00, 0x00,
          0x01, 0x00,
          0x00, 0x00,
          0x00, 0x00, 0x00, 0x00,
          0x00, 0x00, 0x00, 0x00,
          0x00, 0x01, 0x00, 0x00,
          0x00, 0x00, 0x00, 0x00,
          0x00, 0x00, 0x00, 0x00,
          0x00, 0x00, 0x00, 0x00,
          0x00, 0x01, 0x00, 0x00,
          0x00, 0x00, 0x00, 0x00,
          0x00, 0x00, 0x00, 0x00,
          0x00, 0x00, 0x00, 0x00,
          0x40, 0x00, 0x00, 0x00,
          0x00, 0x00, 0x00, 0x00,
          0x00, 0x00, 0x00, 0x00,
          0x00, 0x00, 0x00, 0x00,
          0x00, 0x00, 0x00, 0x00,
          0x00, 0x00, 0x00, 0x00,
          0x00, 0x00, 0x00, 0x00,
          0xff, 0xff, 0xff, 0xff]]"

definition sdtp_byte :: "mp4_sample \<Rightarrow> byte" where
  "sdtp_byte s = (let fl = s_flags s in
     u8 (js_or (js_or (js_shl (dependsOn fl) 4) (js_shl (isDependedOn fl) 2)) (hasRedundancy fl)))"

definition sdtp :: "mp4_track \<Rightarrow> bytes" where
  "sdtp track = box (mp4_type ''sdtp'') [arr [0, 0, 0, 0] @ map sdtp_byte (t_samples track)]"

text \<open>The parameter sets of \<^verbatim>\<open>avc1\<close>: a 16-bit length before each.\<close>

definition avc_sets :: "bytes list \<Rightarrow> bytes" where
  "avc_sets sets = concat (map (\<lambda>data. be16 (int (length data)) @ data) sets)"

text \<open>An absent array element is \<open>undefined\<close>, which an element store turns into 0.\<close>

definition elem_u8 :: "bytes \<Rightarrow> nat \<Rightarrow> byte" where
  "elem_u8 xs i = (if i < length xs then xs ! i else 0)"

definition avc1 :: "mp4_track \<Rightarrow> bytes" where
  "avc1 track =
     (let sps = avc_sets (t_sps track);
          pps = avc_sets (t_pps track);
          avcc = box (mp4_type ''avcC'') [
            [u8 0x01, elem_u8 sps 3, elem_u8 sps 4, elem_u8 sps 5, u8 (js_or 0xfc 3),
             u8 (js_or 0xE0 (int (length (t_sps track))))]
            @ sps @ [u8 (int (length (t_pps track)))] @ pps];
          width = t_width track;
          height = t_height track
      in box (mp4_type ''avc1'') [
           arr [0x00, 0x00, 0x00,
                0x00, 0x00, 0x00,
                0x00, 0x01,
                0x00, 0x00,
                0x00, 0x00,
                0x00, 0x00, 0x00, 0x00,
                0x00, 0x00, 0x00, 0x00,
                0x00, 0x00, 0x00, 0x00]
           @ be16 width @ be16 height
           @ arr [0x00, 0x48, 0x00, 0x00,
                0x00, 0x48, 0x00, 0x00,
                0x00, 0x00, 0x00, 0x00,
                0x00, 0x01,
                0x12,
                0x62, 0x69, 0x6E, 0x65,
                0x6C, 0x70, 0x72, 0x6F,
                0x2E, 0x72, 0x75, 0x00,
                0x00, 0x00, 0x00, 0x00,
                0x00, 0x00, 0x00, 0x00,
                0x00, 0x00, 0x00, 0x00,
                0x00, 0x00, 0x00, 0x00,
                0x00, 0x00, 0x00,
                0x00, 0x18,
                0x11, 0x11],
           avcc,
           box (mp4_type ''btrt'') [arr [
                0x00, 0x1c, 0x9c, 0x80,
                0x00, 0x2d, 0xc6, 0xc0,
                0x00, 0x2d, 0xc6, 0xc0]]])"

definition esds :: "mp4_track \<Rightarrow> bytes" where
  "esds track = (let configlen = int (length (t_config track)) in
     arr [0x00,
          0x00, 0x00, 0x00,
          0x03,
          0x17 + configlen,
          0x00, 0x01,
          0x00,
          0x04,
          0x0f + configlen,
          0x40,
          0x15,
          0x00, 0x00, 0x00,
          0x00, 0x00, 0x00, 0x00,
          0x00, 0x00, 0x00, 0x00,
          0x05,
          configlen]
     @ t_config track @ arr [0x06, 0x01, 0x02])"

definition mp4a :: "mp4_track \<Rightarrow> bytes" where
  "mp4a track = box (mp4_type ''mp4a'') [
     arr [0x00, 0x00, 0x00,
          0x00, 0x00, 0x00,
          0x00, 0x01,
          0x00, 0x00, 0x00, 0x00,
          0x00, 0x00, 0x00, 0x00,
          0x00, t_channelCount track,
          0x00, 0x10,
          0x00, 0x00,
          0x00, 0x00]
     @ be16 (t_audiosamplerate track) @ arr [0x00, 0x00],
     box (mp4_type ''esds'') [esds track]]"

definition stsd :: "mp4_track \<Rightarrow> bytes" where
  "stsd track = (if t_type track = AudioTrack
     then box (mp4_type ''stsd'') [STSD, mp4a track]
     else box (mp4_type ''stsd'') [STSD, avc1 track])"

definition stbl :: "mp4_track \<Rightarrow> bytes" where
  "stbl track = box (mp4_type ''stbl'') [stsd track, box (mp4_type ''stts'') [STTS],
     box (mp4_type ''stsc'') [STSC], box (mp4_type ''stsz'') [STSZ], box (mp4_type ''stco'') [STCO]]"

definition minf :: "mp4_track \<Rightarrow> bytes" where
  "minf track = (if t_type track = AudioTrack
     then box (mp4_type ''minf'') [box (mp4_type ''smhd'') [SMHD], DINF, stbl track]
     else box (mp4_type ''minf'') [box (mp4_type ''vmhd'') [VMHD], DINF, stbl track])"

definition mdia :: "mp4_track \<Rightarrow> bytes" where
  "mdia track = box (mp4_type ''mdia'')
     [mdhd (t_timescale track) (t_duration track), hdlr (t_type track), minf track]"

text \<open>The volume bytes: the integer part, and the tenths (\<^verbatim>\<open>volume % 1\<close> keeps the sign).\<close>

definition volume_bytes :: "rat option \<Rightarrow> bytes" where
  "volume_bytes vol = (case vol of
     None \<Rightarrow> arr [0, 0]
   | Some v \<Rightarrow> arr [js_trunc v, js_trunc (js_mul (v - of_int (js_trunc v)) 10)])"

definition tkhd :: "mp4_track \<Rightarrow> bytes" where
  "tkhd track = box (mp4_type ''tkhd'') [
     arr [0x00, 0x00, 0x00, 0x07,
          0x00, 0x00, 0x00, 0x00,
          0x00, 0x00, 0x00, 0x00]
     @ be32 (t_id track)
     @ arr [0x00, 0x00, 0x00, 0x00]
     @ be32 (js_trunc (t_duration track))
     @ arr [0x00, 0x00, 0x00, 0x00,
          0x00, 0x00, 0x00, 0x00,
          0x00, 0x00,
          0x00, 0x00]
     @ volume_bytes (t_volume track)
     @ arr [0x00, 0x00,
          0x00, 0x01, 0x00, 0x00,
          0x00, 0x00, 0x00, 0x00,
          0x00, 0x00, 0x00, 0x00,
          0x00, 0x00, 0x00, 0x00,
          0x00, 0x01, 0x00, 0x00,
          0x00, 0x00, 0x00, 0x00,
          0x00, 0x00, 0x00, 0x00,
          0x00, 0x00, 0x00, 0x00,
          0x40, 0x00, 0x00, 0x00]
     @ be16 (t_width track) @ arr [0x00, 0x00]
     @ be16 (t_height track) @ arr [0x00, 0x00]]"

text \<open>\<^verbatim>\<open>trak\<close> first writes a missing duration into the track object (\<open>trak_track\<close>).\<close>

definition trak_track :: "mp4_track \<Rightarrow> mp4_track" where
  "trak_track track = (if t_duration track = 0 then track\<lparr>t_duration := 0xffffffff\<rparr> else track)"

definition trak :: "mp4_track \<Rightarrow> bytes" where
  "trak track = (let track' = trak_track track in
     box (mp4_type ''trak'') [tkhd track', mdia track'])"

definition trex :: "mp4_track \<Rightarrow> bytes" where
  "trex track = box (mp4_type ''trex'') [
     arr [0x00, 0x00, 0x00, 0x00]
     @ be32 (t_id track)
     @ arr [0x00, 0x00, 0x00, 0x01,
          0x00, 0x00, 0x00, 0x00,
          0x00, 0x00, 0x00, 0x00,
          0x00, 0x01, 0x00, 0x01]]"

definition mvex :: "mp4_track list \<Rightarrow> bytes" where
  "mvex tracks = box (mp4_type ''mvex'') (map trex tracks)"

definition moov :: "mp4_track list \<Rightarrow> rat \<Rightarrow> rat \<Rightarrow> bytes" where
  "moov tracks duration timescale = box (mp4_type ''moov'')
     ([mvhd timescale duration] @ map trak tracks @ [mvex tracks])"

definition trun_sample :: "mp4_sample \<Rightarrow> bytes" where
  "trun_sample sample = (let fl = s_flags sample in
     be32 (js_trunc (s_duration sample)) @ be32 (s_size sample)
     @ arr [js_or (js_shl (isLeading fl) 2) (dependsOn fl),
          js_or (js_or (js_or (js_shl (isDependedOn fl) 6) (js_shl (hasRedundancy fl) 4))
            (js_shl (paddingValue fl) 1)) (isNonSync fl),
          js_and (degradPrio fl) (js_shl 0xF0 8),
          js_and (degradPrio fl) 0x0F]
     @ be32 (js_trunc (s_cts sample)))"

definition trun :: "mp4_track \<Rightarrow> int \<Rightarrow> bytes" where
  "trun track offset =
     (let samples = t_samples track;
          len = int (length samples);
          arraylen = 12 + 16 * len;
          offset' = offset + 8 + arraylen
      in box (mp4_type ''trun'') [
           arr [0x00, 0x00, 0x0f, 0x01] @ be32 len @ be32 offset'
           @ concat (map trun_sample samples)])"

definition traf :: "mp4_track \<Rightarrow> rat \<Rightarrow> bytes" where
  "traf track baseMediaDecodeTime =
     (let sampleDependencyTable = sdtp track
      in box (mp4_type ''traf'') [
           box (mp4_type ''tfhd'') [arr [0x00, 0x00, 0x00, 0x00] @ be32 (t_id track)],
           box (mp4_type ''tfdt'') [arr [0x00, 0x00, 0x00, 0x00]
             @ be32 (js_trunc baseMediaDecodeTime)],
           trun track (int (length sampleDependencyTable) + 16 + 16 + 8 + 16 + 8 + 8),
           sampleDependencyTable])"

definition moof :: "int \<Rightarrow> rat \<Rightarrow> mp4_track \<Rightarrow> bytes" where
  "moof sn baseMediaDecodeTime track = box (mp4_type ''moof'')
     [mfhd sn, traf track baseMediaDecodeTime]"

definition initSegment :: "mp4_track list \<Rightarrow> rat \<Rightarrow> rat \<Rightarrow> bytes" where
  "initSegment tracks duration timescale = FTYP @ moov tracks duration timescale"


section \<open>Reading boxes back\<close>

definition read_box :: "bytes \<Rightarrow> ((bytes \<times> bytes) \<times> bytes) option" where
  "read_box xs = (let n = be_val (take 4 xs) in
     if length xs < 8 \<or> n < 8 \<or> int (length xs) < n then None
     else Some ((take 4 (drop 4 xs), take (nat n - 8) (drop 8 xs)), drop (nat n) xs))"

definition write_box :: "bytes \<times> bytes \<Rightarrow> bytes" where
  "write_box b = box (fst b) [snd b]"

definition box_ok :: "bytes \<times> bytes \<Rightarrow> bool" where
  "box_ok b \<longleftrightarrow> length (fst b) = 4 \<and> 8 + length (snd b) < 2 ^ 32"

definition read_boxes :: "bytes \<Rightarrow> (bytes \<times> bytes) list option" where
  "read_boxes xs = dec_all read_box (length xs) xs"

lemma length_box: "length ty = 4 \<Longrightarrow> length (box ty ps) = 8 + sum_list (map length ps)"
  by (simp add: box_def Let_def length_concat)

lemma box_concat: "box ty ps = write_box (ty, concat ps)"
  by (simp add: box_def write_box_def Let_def length_concat)

lemma read_write_box:
  assumes "box_ok b"
  shows "read_box (write_box b @ rest) = Some (b, rest)"
proof -
  obtain ty p where b: "b = (ty, p)" by (cases b)
  have ok: "length ty = 4" "8 + length p < 2 ^ 32" using assms by (auto simp: box_ok_def b)
  have w: "write_box b @ rest = be32 (int (8 + length p)) @ ty @ p @ rest"
    by (simp add: write_box_def box_def Let_def b)
  have "be_val (be32 (int (8 + length p))) = int (8 + length p)"
    unfolding be_val_be32 using ok by (intro mod_pos_pos_trivial) auto
  then show ?thesis
    unfolding w read_box_def Let_def using ok by (simp add: b)
qed

interpretation mp4_box: chunk_codec write_box read_box box_ok
proof unfold_locales
  fix x rest
  assume "box_ok x"
  then show "read_box (write_box x @ rest) = Some (x, rest)" by (rule read_write_box)
next
  fix x
  assume "box_ok x"
  then have "length (write_box x) \<noteq> 0" by (simp add: write_box_def box_ok_def length_box)
  then show "write_box x \<noteq> []" by auto
qed

lemma read_boxes_write:
  "list_all box_ok bs \<Longrightarrow> read_boxes (concat (map write_box bs)) = Some bs"
  unfolding read_boxes_def by (rule mp4_box.dec_all_enc) simp_all

text \<open>A path of box types into nested containers: the payload found there.\<close>

fun box_at :: "bytes list \<Rightarrow> bytes \<Rightarrow> bytes option" where
  "box_at [] xs = Some xs"
| "box_at (ty # tys) xs = (case read_boxes xs of
     None \<Rightarrow> None
   | Some bs \<Rightarrow> (case map_of bs ty of None \<Rightarrow> None | Some p \<Rightarrow> box_at tys p))"

lemma length_mp4_type: "length name = 4 \<Longrightarrow> length (mp4_type name) = 4"
  by (simp add: mp4_type_def)

lemma length_arr [simp]: "length (arr xs) = length xs"
  by (simp add: arr_def)

lemma mp4_types_distinct: "distinct (map mp4_type mp4_type_names)"
  by code_simp

lemma mp4_types_four: "list_all (\<lambda>n. length (mp4_type n) = 4) mp4_type_names"
  by code_simp

subsection \<open>A fragment and the offset of its data\<close>

lemma length_trun_samples:
  "length (concat (map trun_sample ss)) = 16 * length ss"
  by (induction ss) (simp_all add: trun_sample_def Let_def)

lemma length_trun: "length (trun track off) = 20 + 16 * length (t_samples track)"
  by (simp add: trun_def Let_def length_box length_mp4_type length_trun_samples)

lemma length_sdtp: "length (sdtp track) = 12 + length (t_samples track)"
  by (simp add: sdtp_def length_box length_mp4_type)

lemma length_traf: "length (traf track t) = 72 + 17 * length (t_samples track)"
  by (simp add: traf_def Let_def length_box length_mp4_type length_trun length_sdtp)

lemma length_moof: "length (moof sn t track) = 96 + 17 * length (t_samples track)"
  by (simp add: moof_def mfhd_def length_box length_mp4_type length_traf)

lemma box_at_Cons:
  assumes "list_all box_ok bs" and "map_of bs ty = Some p"
  shows "box_at (ty # tys) (concat (map write_box bs)) = box_at tys p"
  using assms by (simp add: read_boxes_write)

definition fragment_data_offset :: "bytes \<Rightarrow> int option" where
  "fragment_data_offset xs = map_option (\<lambda>p. be_val (take 4 (drop 8 p)))
     (box_at [mp4_type ''moof'', mp4_type ''traf'', mp4_type ''trun''] xs)"

text \<open>A type determines its four-letter name, so two types are compared by name.\<close>

lemma mp4_type_eq_iff: "length a \<le> 4 \<Longrightarrow> length b \<le> 4 \<Longrightarrow> mp4_type a = mp4_type b \<longleftrightarrow> a = b"
proof -
  have "u8 (of_char c) = u8 (of_char d) \<longleftrightarrow> c = d" for c d
    by (simp add: u8_eq_iff of_char_mod_256)
  then have "inj (\<lambda>c. u8 (of_char c))" by (intro injI) simp
  then show "length a \<le> 4 \<Longrightarrow> length b \<le> 4 \<Longrightarrow> mp4_type a = mp4_type b \<longleftrightarrow> a = b"
    by (simp add: mp4_type_def inj_map_eq_map)
qed

lemma length_write_box: "length (fst b) = 4 \<Longrightarrow> length (write_box b) = 8 + length (snd b)"
  by (simp add: write_box_def length_box)

lemma trun_at_moof:
  assumes "length (moof sn t track) + 8 < 2 ^ 32" and "8 + length data < 2 ^ 32"
  shows "box_at [mp4_type ''moof'', mp4_type ''traf'', mp4_type ''trun''] (moof sn t track @ mdat data)
    = Some (arr [0x00, 0x00, 0x0f, 0x01] @ be32 (int (length (t_samples track)))
        @ be32 (int (length (moof sn t track) + 8)) @ concat (map trun_sample (t_samples track)))"
proof -
  let ?n = "length (t_samples track)"
  have n: "17 * ?n + 104 < 2 ^ 32" using assms(1) by (simp add: length_moof)
  let ?trun = "arr [0x00, 0x00, 0x0f, 0x01] @ be32 (int ?n) @ be32 (int (17 * ?n + 104))
     @ concat (map trun_sample (t_samples track))"
  let ?traf = "[(mp4_type ''tfhd'', arr [0, 0, 0, 0] @ be32 (t_id track)),
     (mp4_type ''tfdt'', arr [0, 0, 0, 0] @ be32 (js_trunc t)),
     (mp4_type ''trun'', ?trun),
     (mp4_type ''sdtp'', arr [0, 0, 0, 0] @ map sdtp_byte (t_samples track))]"
  let ?moof = "[(mp4_type ''mfhd'', arr [0, 0, 0, 0] @ be32 sn),
     (mp4_type ''traf'', concat (map write_box ?traf))]"
  let ?top = "[(mp4_type ''moof'', concat (map write_box ?moof)), (mp4_type ''mdat'', data)]"
  have traf: "traf track t = write_box (mp4_type ''traf'', concat (map write_box ?traf))"
    by (simp add: traf_def Let_def box_concat trun_def length_write_box length_mp4_type sdtp_def
        algebra_simps)
  have moof: "moof sn t track = write_box (mp4_type ''moof'', concat (map write_box ?moof))"
    by (simp add: moof_def mfhd_def box_concat traf)
  have top: "moof sn t track @ mdat data = concat (map write_box ?top)"
    by (simp add: moof mdat_def box_concat)
  have ok: "list_all box_ok ?top" "list_all box_ok ?moof" "list_all box_ok ?traf"
    using n assms(2)
    by (simp_all add: box_ok_def length_mp4_type length_write_box length_trun_samples)
  have "box_at [mp4_type ''moof'', mp4_type ''traf'', mp4_type ''trun''] (concat (map write_box ?top))
      = box_at [mp4_type ''traf'', mp4_type ''trun''] (concat (map write_box ?moof))"
    by (rule box_at_Cons [OF ok(1)]) simp
  also have "\<dots> = box_at [mp4_type ''trun''] (concat (map write_box ?traf))"
    by (rule box_at_Cons [OF ok(2)]) (simp add: mp4_type_eq_iff)
  also have "\<dots> = box_at [] ?trun"
    by (rule box_at_Cons [OF ok(3)]) (simp add: mp4_type_eq_iff)
  finally show ?thesis unfolding top [symmetric] by (simp add: length_moof add.commute)
qed

lemma drop_moof_mdat: "drop (length (moof sn t track) + 8) (moof sn t track @ mdat data) = data"
  by (simp add: mdat_def box_def Let_def mp4_type_def)

lemma be_val_be32_id: "0 \<le> n \<Longrightarrow> n < 2 ^ 32 \<Longrightarrow> be_val (be32 n) = n"
  unfolding be_val_be32 by simp

lemma fragment_data_offset_moof:
  assumes "length (moof sn t track) + 8 < 2 ^ 32" and "8 + length data < 2 ^ 32"
  shows "fragment_data_offset (moof sn t track @ mdat data) = Some (int (length (moof sn t track)) + 8)"
proof -
  have "be_val (be32 (int (length (moof sn t track) + 8))) = int (length (moof sn t track) + 8)"
    using assms(1) by (intro be_val_be32_id) auto
  then show ?thesis by (simp del: box_at.simps add: fragment_data_offset_def trun_at_moof [OF assms])
qed

text \<open>A demultiplexer of one fragment: the bytes of each sample, by the offset and the sizes of
  \<^verbatim>\<open>trun\<close>.\<close>

fun split_sizes :: "nat list \<Rightarrow> 'a list \<Rightarrow> 'a list list" where
  "split_sizes [] xs = []"
| "split_sizes (n # ns) xs = take n xs # split_sizes ns (drop n xs)"

lemma split_sizes_concat: "split_sizes (map length us) (concat us) = us"
  by (induction us) simp_all

definition trun_sizes :: "bytes \<Rightarrow> nat list" where
  "trun_sizes p = map (\<lambda>i. nat (be_val (take 4 (drop (12 + 16 * i + 4) p)))) [0..<nat (be_val (take 4 (drop 4 p)))]"

definition fragment_units :: "bytes \<Rightarrow> bytes list option" where
  "fragment_units xs = map_option (\<lambda>p. split_sizes (trun_sizes p) (drop (nat (be_val (take 4 (drop 8 p)))) xs))
     (box_at [mp4_type ''moof'', mp4_type ''traf'', mp4_type ''trun''] xs)"

lemma trun_sample_size:
  "take 4 (drop 4 (trun_sample s @ rest)) = be32 (s_size s)"
  by (simp add: trun_sample_def Let_def)

lemma length_trun_sample [simp]: "length (trun_sample s) = 16"
  by (simp add: trun_sample_def Let_def)

lemma trun_sizes_samples:
  assumes "length pre = 12" "i < length ss"
  shows "take 4 (drop (12 + 16 * i + 4) (pre @ concat (map trun_sample ss))) = be32 (s_size (ss ! i))"
proof -
  have "drop (16 * i) (concat (map trun_sample ss)) = trun_sample (ss ! i) @ concat (map trun_sample (drop (Suc i) ss))"
    if "i < length ss" for i
    using that
  proof (induction ss arbitrary: i)
    case (Cons s ss)
    then show ?case by (cases i) (auto simp: algebra_simps)
  qed simp
  from this [OF assms(2)] have "drop (12 + 16 * i + 4) (pre @ concat (map trun_sample ss))
      = drop 4 (trun_sample (ss ! i) @ concat (map trun_sample (drop (Suc i) ss)))"
    using assms(1) by (simp add: algebra_simps flip: drop_drop)
  then show ?thesis by (simp only: trun_sample_size)
qed

lemma fragment_units_moof:
  assumes "length (moof sn t track) + 8 < 2 ^ 32" "8 + length (concat us) < 2 ^ 32"
    and sizes: "map s_size (t_samples track) = map (\<lambda>u. int (length u)) us"
  shows "fragment_units (moof sn t track @ mdat (concat us)) = Some us"
proof -
  let ?ss = "t_samples track"
  let ?pre = "arr [0x00, 0x00, 0x0f, 0x01] @ be32 (int (length ?ss)) @ be32 (int (length (moof sn t track) + 8))"
  have len: "length ?ss = length us" using sizes by (metis length_map)
  have n: "be_val (be32 (int (length ?ss))) = int (length ?ss)"
    and off: "be_val (be32 (int (length (moof sn t track) + 8))) = int (length (moof sn t track) + 8)"
    using assms(1) by (intro be_val_be32_id; simp add: length_moof)+
  have sz: "nat (be_val (be32 (s_size (?ss ! i)))) = length (us ! i)" if "i < length us" for i
  proof -
    have "s_size (?ss ! i) = int (length (us ! i))" using sizes that len by (metis nth_map)
    moreover have "length (us ! i) \<le> length (concat us)"
      using that by (simp add: length_concat member_le_sum_list)
    ultimately show ?thesis using assms(2) by (simp add: be_val_be32_id)
  qed
  have "trun_sizes (?pre @ concat (map trun_sample ?ss)) = map length us"
  proof (rule nth_equalityI)
    show "length (trun_sizes (?pre @ concat (map trun_sample ?ss))) = length (map length us)"
      by (simp add: trun_sizes_def n [unfolded len] len)
    fix i assume "i < length (trun_sizes (?pre @ concat (map trun_sample ?ss)))"
    then have i: "i < length us" by (simp add: trun_sizes_def n [unfolded len] len)
    then show "trun_sizes (?pre @ concat (map trun_sample ?ss)) ! i = map length us ! i"
      using trun_sizes_samples [of ?pre i ?ss] sz [OF i] by (simp add: trun_sizes_def n [unfolded len] len)
  qed
  then show ?thesis
    using off drop_moof_mdat [of sn t track "concat us"] nat_int [of "length (moof sn t track) + 8"]
    by (simp del: box_at.simps add: fragment_units_def trun_at_moof [OF assms(1,2)] split_sizes_concat)
qed

subsection \<open>Parameter sets\<close>

text \<open>The parameter sets inside \<^verbatim>\<open>avcC\<close> are length-delimited chunks too.\<close>

definition write_set :: "bytes \<Rightarrow> bytes" where
  "write_set data = be16 (int (length data)) @ data"

definition read_set :: "bytes \<Rightarrow> (bytes \<times> bytes) option" where
  "read_set xs = (let n = nat (be_val (take 2 xs)) in
     if length xs < 2 + n then None else Some (take n (drop 2 xs), drop (2 + n) xs))"

interpretation avc_set: chunk_codec write_set read_set "\<lambda>s. length s < 2 ^ 16"
proof unfold_locales
  fix x :: bytes and rest
  assume "length x < 2 ^ 16"
  then have "be_val (be16 (int (length x))) = int (length x)"
    unfolding be_val_be16 by (intro mod_pos_pos_trivial) auto
  then show "read_set (write_set x @ rest) = Some (x, rest)"
    by (simp add: read_set_def write_set_def Let_def)
next
  fix x :: bytes
  have "length (write_set x) \<noteq> 0" by (simp add: write_set_def)
  then show "write_set x \<noteq> []" by auto
qed

lemma avc_sets_write: "avc_sets sets = concat (map write_set sets)"
  by (simp add: avc_sets_def write_set_def [abs_def])

lemma avc_sets_decode:
  "list_all (\<lambda>s. length s < 2 ^ 16) sets \<Longrightarrow>
     dec_all read_set (length (avc_sets sets)) (avc_sets sets) = Some sets"
  unfolding avc_sets_write by (rule avc_set.dec_all_enc) simp_all

section \<open>What the writer promises\<close>

text \<open>C19: The offset and the sizes in \<^verbatim>\<open>moof\<close> fit the data of the \<^verbatim>\<open>mdat\<close> behind it: cutting the fragment
  at the offset by the sizes gives back the samples' bytes, whatever their number and lengths.\<close>

theorem fragment_splits_into_samples:
  assumes "length (moof sn t track) + 8 < 2 ^ 32" "8 + length (concat us) < 2 ^ 32"
    and "map s_size (t_samples track) = map (\<lambda>u. int (length u)) us"
  shows "fragment_units (moof sn t track @ mdat (concat us)) = Some us"
  by (rule fragment_units_moof [OF assms])

definition example_sample :: "int \<Rightarrow> mp4_sample" where
  "example_sample n = \<lparr>s_size = n, s_duration = 3000, s_cts = 0, s_flags = \<lparr>isLeading = 0, isDependedOn = 0,
     hasRedundancy = 0, degradPrio = 0, dependsOn = 2, isNonSync = 0, paddingValue = 0\<rparr>\<rparr>"

definition example_track :: mp4_track where
  "example_track = \<lparr>t_id = 1, t_type = VideoTrack, t_timescale = 90000, t_duration = 90000, t_width = 640,
     t_height = 480, t_volume = None, t_sps = [[0x67, 0x64, 0, 0x1e]], t_pps = [[0x68, 0xee]], t_config = [],
     t_channelCount = 0, t_audiosamplerate = 0, t_samples = [example_sample 3, example_sample 2], t_len = 5,
     t_codec = ''avc1.64001e''\<rparr>"

lemma fragment_splits_into_samples_witness:
  "fragment_units (moof 1 0 example_track @ mdat [1, 2, 3, 4, 5]) = Some [[1, 2, 3], [4, 5]]"
  using fragment_splits_into_samples [of 1 0 example_track "[[1, 2, 3], [4, 5]]"]
  by (simp add: length_moof example_track_def example_sample_def)

text \<open>The parameter sets stored in \<^verbatim>\<open>avcC\<close> can be read back: each is preceded by its length.\<close>

lemma parameter_sets_decode:
  assumes "list_all (\<lambda>s. length s < 2 ^ 16) sets"
  shows "dec_all read_set (length (avc_sets sets)) (avc_sets sets) = Some sets"
  by (rule avc_sets_decode [OF assms])

lemma parameter_sets_decode_witness:
  "dec_all read_set (length (avc_sets [[0x67, 0x64], [0x68]])) (avc_sets [[0x67, 0x64], [0x68]]) = Some [[0x67, 0x64], [0x68]]"
  by (rule parameter_sets_decode) simp

end
