(* ===== verification/InitSegment.thy ===== *)
theory InitSegment
  imports Mp4
begin

text \<open>
  The initialisation segment that the generators of theory \<^verbatim>\<open>Mp4\<close> write, read back as a tree: which boxes
  the ISO base-media format nests in which, with the bytes that stand before the children of a box.
  Every box of the segment, down to the parameter sets, is found where a player looks for it.
\<close>

section \<open>Nested boxes\<close>

datatype box_tree = Box (bt_type: bytes) (bt_head: bytes) (bt_kids: "box_tree list")

text \<open>The boxes that have children, and how many bytes come before them.\<close>

definition containers :: "(string \<times> nat) list" where
  "containers = [(''moov'', 0), (''trak'', 0), (''mdia'', 0), (''minf'', 0), (''dinf'', 0), (''stbl'', 0), (''mvex'', 0),
     (''dref'', 8), (''stsd'', 8), (''avc1'', 78), (''mp4a'', 28)]"

definition children_at :: "bytes \<Rightarrow> nat option" where
  "children_at ty = map_of (map (\<lambda>(n, k). (mp4_type n, k)) containers) ty"

text \<open>A reader of boxes nested at most \<open>n\<close> deep.\<close>

fun read_trees :: "nat \<Rightarrow> bytes \<Rightarrow> box_tree list option" where
  "read_trees 0 xs = (if xs = [] then Some [] else None)"
| "read_trees (Suc n) xs = (case read_boxes xs of None \<Rightarrow> None
     | Some bs \<Rightarrow> those (map (\<lambda>(ty, p). case children_at ty of
           None \<Rightarrow> Some (Box ty p [])
         | Some k \<Rightarrow> map_option (Box ty (take k p)) (read_trees n (drop k p))) bs))"

fun write_tree :: "box_tree \<Rightarrow> bytes" where
  "write_tree (Box ty h ks) = write_box (ty, h @ concat (map write_tree ks))"

fun fits :: "box_tree \<Rightarrow> bool" where
  "fits (Box ty h ks) \<longleftrightarrow> length ty = 4 \<and> (case children_at ty of None \<Rightarrow> ks = [] | Some k \<Rightarrow> length h = k) \<and> (\<forall>k \<in> set ks. fits k)"

fun nested :: "nat \<Rightarrow> box_tree \<Rightarrow> bool" where
  "nested 0 b \<longleftrightarrow> False"
| "nested (Suc n) (Box ty h ks) \<longleftrightarrow> (\<forall>k \<in> set ks. nested n k)"

lemma nested_mono: "nested n b \<Longrightarrow> n \<le> m \<Longrightarrow> nested m b"
proof (induction n b arbitrary: m rule: nested.induct)
  case (2 n ty h ks)
  then show ?case by (cases m) auto
qed simp

lemma those_map: "(\<And>x. x \<in> set xs \<Longrightarrow> f (g x) = Some x) \<Longrightarrow> those (map f (map g xs)) = Some xs"
  by (induction xs) auto

lemma length_write_tree: "length ty = 4 \<Longrightarrow> length (write_tree (Box ty h ks)) = 8 + length h + length (concat (map write_tree ks))"
  by (simp add: write_box_def length_box)

lemma read_trees_write:
  assumes "\<forall>t \<in> set ts. fits t \<and> nested n t" "length (concat (map write_tree ts)) < 2 ^ 32"
  shows "read_trees n (concat (map write_tree ts)) = Some ts"
  using assms
proof (induction n arbitrary: ts)
  case 0
  then have "ts = []" by (cases ts) auto
  then show ?case by simp
next
  case (Suc n)
  define flat where "flat b = (bt_type b, bt_head b @ concat (map write_tree (bt_kids b)))" for b
  have wr: "write_box (flat b) = write_tree b" for b by (cases b) (simp add: flat_def)
  have len: "length (write_tree b) \<le> length (concat (map write_tree ts))" if "b \<in> set ts" for b
    using that by (simp add: length_concat member_le_sum_list)
  have b: "box_ok (flat b)" "length (concat (map write_tree (bt_kids b))) < 2 ^ 32" if "b \<in> set ts" for b
  proof -
    have "length (write_tree b) < 2 ^ 32" "fits b" using len [OF that] Suc.prems that by auto
    then show "box_ok (flat b)" "length (concat (map write_tree (bt_kids b))) < 2 ^ 32"
      by (cases b; simp add: flat_def box_ok_def length_write_tree del: write_tree.simps)+
  qed
  have boxes: "read_boxes (concat (map write_tree ts)) = Some (map flat ts)"
    using read_boxes_write [of "map flat ts"] b(1) by (simp add: list_all_iff comp_def wr)
  have "(\<lambda>(ty, p). case children_at ty of None \<Rightarrow> Some (Box ty p [])
      | Some k \<Rightarrow> map_option (Box ty (take k p)) (read_trees n (drop k p))) (flat t) = Some t" if "t \<in> set ts" for t
  proof -
    obtain ty h ks where t: "t = Box ty h ks" by (cases t)
    have "read_trees n (concat (map write_tree ks)) = Some ks"
      using Suc.IH [of ks] Suc.prems(1) b(2) [OF that] that by (auto simp: t)
    then show ?thesis using Suc.prems(1) that by (auto simp: t flat_def split: option.splits)
  qed
  then have "those (map (\<lambda>(ty, p). case children_at ty of None \<Rightarrow> Some (Box ty p [])
      | Some k \<Rightarrow> map_option (Box ty (take k p)) (read_trees n (drop k p))) (map flat ts)) = Some ts"
    by (rule those_map)
  then show ?case by (simp add: boxes)
qed

section \<open>What a player looks for\<close>

fun shape :: "box_tree \<Rightarrow> box_tree" where
  "shape (Box ty h ks) = Box ty [] (map shape ks)"

definition box_shape :: "string \<Rightarrow> box_tree list \<Rightarrow> box_tree" where
  "box_shape n ks = Box (mp4_type n) [] ks"

definition track_shape :: "track_type \<Rightarrow> box_tree" where
  "track_shape ty =
     (let (header, entry) = (case ty of
          VideoTrack \<Rightarrow> (''vmhd'', box_shape ''avc1'' [box_shape ''avcC'' [], box_shape ''btrt'' []])
        | AudioTrack \<Rightarrow> (''smhd'', box_shape ''mp4a'' [box_shape ''esds'' []]))
      in box_shape ''trak'' [box_shape ''tkhd'' [],
           box_shape ''mdia'' [box_shape ''mdhd'' [], box_shape ''hdlr'' [],
             box_shape ''minf'' [box_shape header [], box_shape ''dinf'' [box_shape ''dref'' [box_shape ''url '' []]],
               box_shape ''stbl'' [box_shape ''stsd'' [entry], box_shape ''stts'' [], box_shape ''stsc'' [],
                 box_shape ''stsz'' [], box_shape ''stco'' []]]]])"

fun at_path :: "string list \<Rightarrow> box_tree \<Rightarrow> bytes option" where
  "at_path [] b = Some (bt_head b)"
| "at_path (n # ns) b = (case find (\<lambda>k. bt_type k = mp4_type n) (bt_kids b) of None \<Rightarrow> None | Some k \<Rightarrow> at_path ns k)"

definition num_at :: "nat \<Rightarrow> nat \<Rightarrow> bytes \<Rightarrow> int" where
  "num_at k i p = be_val (take k (drop i p))"

text \<open>The decoder configuration: counted lists of parameter sets.\<close>

fun read_sets :: "nat \<Rightarrow> bytes \<Rightarrow> (bytes list \<times> bytes) option" where
  "read_sets 0 xs = Some ([], xs)"
| "read_sets (Suc n) xs = (case read_set xs of None \<Rightarrow> None
     | Some (s, r) \<Rightarrow> map_option (\<lambda>(ss, r). (s # ss, r)) (read_sets n r))"

definition read_avcC :: "bytes \<Rightarrow> (bytes list \<times> bytes list) option" where
  "read_avcC c = (case read_sets (nat (num_at 1 5 c mod 32)) (drop 6 c) of
       Some (sps, m # r) \<Rightarrow> (case read_sets (unat m) r of Some (pps, []) \<Rightarrow> Some (sps, pps) | _ \<Rightarrow> None)
     | _ \<Rightarrow> None)"

definition sets_ok :: "mp4_track \<Rightarrow> bool" where
  "sets_ok t \<longleftrightarrow> length (t_sps t) < 32 \<and> length (t_pps t) < 256 \<and> (\<forall>s \<in> set (t_sps t @ t_pps t). length s < 2 ^ 16)"

text \<open>The boxes of one track say what the track is.\<close>

definition describes :: "box_tree \<Rightarrow> mp4_track \<Rightarrow> bool" where
  "describes b t \<longleftrightarrow> shape b = track_shape (t_type t) \<and>
     (\<exists>tk md hn. at_path [''tkhd''] b = Some tk \<and> at_path [''mdia'', ''mdhd''] b = Some md \<and> at_path [''mdia'', ''hdlr''] b = Some hn \<and>
        num_at 4 12 tk = t_id t mod 2 ^ 32 \<and> num_at 2 76 tk = t_width t mod 2 ^ 16 \<and> num_at 2 80 tk = t_height t mod 2 ^ 16 \<and>
        num_at 4 12 md = js_trunc (t_timescale t) mod 2 ^ 32 \<and>
        num_at 4 16 md = js_trunc (if t_duration t = 0 then 0xffffffff else t_duration t) mod 2 ^ 32 \<and>
        take 4 (drop 8 hn) = mp4_type (case t_type t of VideoTrack \<Rightarrow> ''vide'' | AudioTrack \<Rightarrow> ''soun'')) \<and>
     (case t_type t of
        VideoTrack \<Rightarrow> \<exists>c. at_path [''mdia'', ''minf'', ''stbl'', ''stsd'', ''avc1'', ''avcC''] b = Some c \<and>
          read_avcC c = Some (t_sps t, t_pps t)
      | AudioTrack \<Rightarrow> \<exists>a. at_path [''mdia'', ''minf'', ''stbl'', ''stsd'', ''mp4a''] b = Some a \<and>
          num_at 1 17 a = t_channelCount t mod 2 ^ 8 \<and> num_at 2 24 a = t_audiosamplerate t mod 2 ^ 16)"

section \<open>The generators as trees\<close>

lemma write_tree_box: "write_tree (Box ty h ks) = box ty (h # map write_tree ks)"
  by (simp add: box_concat)

lemma write_tree_plain: "box ty (map write_tree ks) = write_tree (Box ty [] ks)"
  by (simp add: box_concat)

lemma children_of:
  "children_at (mp4_type ''moov'') = Some 0" "children_at (mp4_type ''trak'') = Some 0" "children_at (mp4_type ''mdia'') = Some 0"
  "children_at (mp4_type ''minf'') = Some 0" "children_at (mp4_type ''dinf'') = Some 0" "children_at (mp4_type ''stbl'') = Some 0"
  "children_at (mp4_type ''mvex'') = Some 0" "children_at (mp4_type ''dref'') = Some 8" "children_at (mp4_type ''stsd'') = Some 8"
  "children_at (mp4_type ''avc1'') = Some 78" "children_at (mp4_type ''mp4a'') = Some 28"
  by code_simp+

lemma no_children:
  "children_at (mp4_type ''ftyp'') = None" "children_at (mp4_type ''mvhd'') = None" "children_at (mp4_type ''trex'') = None"
  "children_at (mp4_type ''tkhd'') = None" "children_at (mp4_type ''mdhd'') = None" "children_at (mp4_type ''hdlr'') = None"
  "children_at (mp4_type ''vmhd'') = None" "children_at (mp4_type ''smhd'') = None" "children_at (mp4_type ''url '') = None"
  "children_at (mp4_type ''avcC'') = None" "children_at (mp4_type ''btrt'') = None" "children_at (mp4_type ''esds'') = None"
  "children_at (mp4_type ''stts'') = None" "children_at (mp4_type ''stsc'') = None" "children_at (mp4_type ''stsz'') = None"
  "children_at (mp4_type ''stco'') = None"
  by code_simp+

lemma DINF_tree: "DINF = write_tree (Box (mp4_type ''dinf'') []
    [Box (mp4_type ''dref'') [0, 0, 0, 0, 0, 0, 0, 1] [Box (mp4_type ''url '') [0, 0, 0, 1] []]])"
  by code_simp

lemma tkhd_tree:
  "\<exists>p. tkhd t = write_tree (Box (mp4_type ''tkhd'') p []) \<and> num_at 4 12 p = t_id t mod 2 ^ 32 \<and>
     num_at 2 76 p = t_width t mod 2 ^ 16 \<and> num_at 2 80 p = t_height t mod 2 ^ 16"
proof -
  have "length (volume_bytes (t_volume t)) = 2" by (simp add: volume_bytes_def split: option.split)
  then obtain a b where v: "volume_bytes (t_volume t) = [a, b]" by (auto simp: length_Suc_conv numeral_2_eq_2)
  show ?thesis unfolding tkhd_def write_tree_box list.map v
    by (intro exI conjI, rule refl) (simp_all add: num_at_def arr_def be_val_be32 be_val_be16)
qed

lemma mdhd_tree:
  "\<exists>p. mdhd ts d = write_tree (Box (mp4_type ''mdhd'') p []) \<and> num_at 4 12 p = js_trunc ts mod 2 ^ 32 \<and>
     num_at 4 16 p = js_trunc d mod 2 ^ 32"
  unfolding mdhd_def write_tree_box list.map
  by (intro exI conjI, rule refl) (simp_all add: num_at_def arr_def be_val_be32)

lemma hdlr_tree:
  "\<exists>p. hdlr ty = write_tree (Box (mp4_type ''hdlr'') p []) \<and>
     take 4 (drop 8 p) = mp4_type (case ty of VideoTrack \<Rightarrow> ''vide'' | AudioTrack \<Rightarrow> ''soun'')"
proof -
  have "take 4 (drop 8 videoHdlr) = mp4_type ''vide''" "take 4 (drop 8 audioHdlr) = mp4_type ''soun''" by code_simp+
  then show ?thesis unfolding hdlr_def write_tree_box list.map
    by (intro exI [of _ "HDLR_TYPES ty"]) (simp add: HDLR_TYPES_def split: track_type.split)
qed

lemma read_sets_avc: "\<forall>s \<in> set ss. length s < 2 ^ 16 \<Longrightarrow> read_sets (length ss) (avc_sets ss @ r) = Some (ss, r)"
proof (induction ss)
  case (Cons s ss)
  have "avc_sets (s # ss) @ r = write_set s @ avc_sets ss @ r" by (simp add: avc_sets_write)
  then show ?case using Cons avc_set.dec_enc [of s "avc_sets ss @ r"] by simp
qed (simp add: avc_sets_def)

lemma avc1_tree:
  assumes "sets_ok t"
  shows "\<exists>h c b. avc1 t = write_tree (Box (mp4_type ''avc1'') h [Box (mp4_type ''avcC'') c [], Box (mp4_type ''btrt'') b []]) \<and>
    length h = 78 \<and> read_avcC c = Some (t_sps t, t_pps t)"
proof -
  have "\<forall>n \<in> set [0..<32]. be_val [u8 (js_or 0xE0 (int n))] mod 32 = int n" by code_simp
  then have n: "be_val [u8 (js_or 0xE0 (int (length (t_sps t))))] mod 32 = int (length (t_sps t))"
    using assms by (auto simp: sets_ok_def)
  have m: "unat (u8 (int (length (t_pps t)))) = length (t_pps t)"
    using assms by (simp add: sets_ok_def unat_eq_nat_uint uint_u8)
  have sps: "read_sets (length (t_sps t)) (avc_sets (t_sps t) @ r) = Some (t_sps t, r)" for r
    using assms by (intro read_sets_avc) (simp add: sets_ok_def)
  have pps: "read_sets (length (t_pps t)) (avc_sets (t_pps t)) = Some (t_pps t, [])"
    using assms read_sets_avc [of "t_pps t" "[]"] by (simp add: sets_ok_def)
  show ?thesis unfolding avc1_def Let_def write_tree_box list.map
    by (intro exI conjI, rule refl) (simp_all add: read_avcC_def num_at_def n m sps pps)
qed

lemma mp4a_tree:
  "\<exists>h e. mp4a t = write_tree (Box (mp4_type ''mp4a'') h [Box (mp4_type ''esds'') e []]) \<and> length h = 28 \<and>
    num_at 1 17 h = t_channelCount t mod 2 ^ 8 \<and> num_at 2 24 h = t_audiosamplerate t mod 2 ^ 16"
  unfolding mp4a_def write_tree_box list.map
  by (intro exI conjI, rule refl) (simp_all add: num_at_def arr_def be_val_be16 be_val_Cons uint_u8)

text \<open>The tree of a track, around its sample entry.\<close>

definition track_tree :: "string \<Rightarrow> bytes \<Rightarrow> bytes \<Rightarrow> bytes \<Rightarrow> bytes \<Rightarrow> box_tree \<Rightarrow> box_tree" where
  "track_tree header tk md hn mh entry = Box (mp4_type ''trak'') [] [Box (mp4_type ''tkhd'') tk [],
     Box (mp4_type ''mdia'') [] [Box (mp4_type ''mdhd'') md [], Box (mp4_type ''hdlr'') hn [],
       Box (mp4_type ''minf'') [] [Box (mp4_type header) mh [],
         Box (mp4_type ''dinf'') [] [Box (mp4_type ''dref'') [0, 0, 0, 0, 0, 0, 0, 1] [Box (mp4_type ''url '') [0, 0, 0, 1] []]],
         Box (mp4_type ''stbl'') [] [Box (mp4_type ''stsd'') STSD [entry], Box (mp4_type ''stts'') STTS [],
           Box (mp4_type ''stsc'') STSC [], Box (mp4_type ''stsz'') STSZ [], Box (mp4_type ''stco'') STCO []]]]]"

definition sample_entry :: "mp4_track \<Rightarrow> bytes" where
  "sample_entry t = (case t_type t of VideoTrack \<Rightarrow> avc1 t | AudioTrack \<Rightarrow> mp4a t)"

definition media_header :: "track_type \<Rightarrow> string \<times> bytes" where
  "media_header ty = (case ty of VideoTrack \<Rightarrow> (''vmhd'', VMHD) | AudioTrack \<Rightarrow> (''smhd'', SMHD))"

lemma trak_write:
  assumes "tkhd (trak_track t) = write_tree (Box (mp4_type ''tkhd'') tk [])"
    and "mdhd (t_timescale (trak_track t)) (t_duration (trak_track t)) = write_tree (Box (mp4_type ''mdhd'') md [])"
    and "hdlr (t_type t) = write_tree (Box (mp4_type ''hdlr'') hn [])" "sample_entry (trak_track t) = write_tree entry"
  shows "trak t = write_tree (track_tree (fst (media_header (t_type t))) tk md hn (snd (media_header (t_type t))) entry)"
proof -
  have ty: "t_type (trak_track t) = t_type t" by (simp add: trak_track_def)
  have st: "stbl (trak_track t) = write_tree (Box (mp4_type ''stbl'') [] [Box (mp4_type ''stsd'') STSD [entry],
      Box (mp4_type ''stts'') STTS [], Box (mp4_type ''stsc'') STSC [], Box (mp4_type ''stsz'') STSZ [], Box (mp4_type ''stco'') STCO []])"
    using assms(4) by (cases "t_type t") (simp_all add: stbl_def stsd_def sample_entry_def ty box_concat del: write_tree.simps(1),
      simp_all add: box_concat)
  show ?thesis
    unfolding trak_def Let_def mdia_def minf_def ty st assms(1-3) DINF_tree track_tree_def
    by (cases "t_type t") (simp_all add: media_header_def box_concat)
qed

lemma track_tree_ok:
  assumes "fits entry" "nested 3 entry" "header = ''vmhd'' \<or> header = ''smhd''"
  shows "fits (track_tree header tk md hn mh entry)" "nested 8 (track_tree header tk md hn mh entry)"
    "at_path [''tkhd''] (track_tree header tk md hn mh entry) = Some tk"
    "at_path [''mdia'', ''mdhd''] (track_tree header tk md hn mh entry) = Some md"
    "at_path [''mdia'', ''hdlr''] (track_tree header tk md hn mh entry) = Some hn"
    "at_path (''mdia'' # ''minf'' # ''stbl'' # ''stsd'' # ns) (track_tree header tk md hn mh entry) = at_path ns (Box (mp4_type ''stsd'') STSD [entry])"
  using assms
  by (auto simp: track_tree_def children_of no_children length_mp4_type STSD_def mp4_type_eq_iff numeral_eq_Suc)

lemma track_tree_shape:
  "shape entry = (case ty of VideoTrack \<Rightarrow> box_shape ''avc1'' [box_shape ''avcC'' [], box_shape ''btrt'' []]
      | AudioTrack \<Rightarrow> box_shape ''mp4a'' [box_shape ''esds'' []]) \<Longrightarrow>
     shape (track_tree (fst (media_header ty)) tk md hn mh entry) = track_shape ty"
  by (cases ty) (simp_all add: track_tree_def track_shape_def box_shape_def media_header_def)

lemma trak_described:
  assumes "t_type t = VideoTrack \<longrightarrow> sets_ok t"
  shows "\<exists>b. trak t = write_tree b \<and> fits b \<and> nested 8 b \<and> describes b t"
proof -
  let ?t = "trak_track t"
  have same: "t_id ?t = t_id t" "t_width ?t = t_width t" "t_height ?t = t_height t" "t_timescale ?t = t_timescale t"
    "t_type ?t = t_type t" "t_sps ?t = t_sps t" "t_pps ?t = t_pps t" "t_channelCount ?t = t_channelCount t" "t_audiosamplerate ?t = t_audiosamplerate t"
    "t_duration ?t = (if t_duration t = 0 then 0xffffffff else t_duration t)"
    by (simp_all add: trak_track_def)
  obtain tk where tk: "tkhd ?t = write_tree (Box (mp4_type ''tkhd'') tk [])" "num_at 4 12 tk = t_id t mod 2 ^ 32"
    "num_at 2 76 tk = t_width t mod 2 ^ 16" "num_at 2 80 tk = t_height t mod 2 ^ 16"
    using tkhd_tree [of ?t] unfolding same by blast
  obtain md where md: "mdhd (t_timescale ?t) (t_duration ?t) = write_tree (Box (mp4_type ''mdhd'') md [])"
    "num_at 4 12 md = js_trunc (t_timescale t) mod 2 ^ 32"
    "num_at 4 16 md = js_trunc (if t_duration t = 0 then 0xffffffff else t_duration t) mod 2 ^ 32"
    using mdhd_tree [of "t_timescale ?t" "t_duration ?t"] unfolding same by blast
  obtain hn where hn: "hdlr (t_type t) = write_tree (Box (mp4_type ''hdlr'') hn [])"
    "take 4 (drop 8 hn) = mp4_type (case t_type t of VideoTrack \<Rightarrow> ''vide'' | AudioTrack \<Rightarrow> ''soun'')"
    using hdlr_tree [of "t_type t"] by blast
  let ?tree = "track_tree (fst (media_header (t_type t))) tk md hn (snd (media_header (t_type t)))"
  have hdr: "fst (media_header (t_type t)) = ''vmhd'' \<or> fst (media_header (t_type t)) = ''smhd''"
    by (cases "t_type t") (simp_all add: media_header_def)
  show ?thesis
  proof (cases "t_type t")
    case VideoTrack
    obtain h c b where e: "avc1 ?t = write_tree (Box (mp4_type ''avc1'') h [Box (mp4_type ''avcC'') c [], Box (mp4_type ''btrt'') b []])"
      (is "_ = write_tree ?e") "length h = 78" "read_avcC c = Some (t_sps t, t_pps t)"
      using avc1_tree [of ?t] assms VideoTrack by (auto simp: sets_ok_def same)
    have ok: "fits ?e" "nested 3 ?e" using e(2) by (simp_all add: children_of no_children length_mp4_type numeral_eq_Suc)
    note tree = track_tree_ok [OF ok hdr, where tk = tk and md = md and hn = hn and mh = "snd (media_header (t_type t))"]
    have "sample_entry ?t = write_tree ?e" using e(1) VideoTrack by (simp add: sample_entry_def same(5) del: write_tree.simps)
    note w = trak_write [OF tk(1) md(1) hn(1) this]
    have "shape (?tree ?e) = track_shape (t_type t)"
      by (rule track_tree_shape) (simp add: VideoTrack box_shape_def)
    moreover have "at_path [''mdia'', ''minf'', ''stbl'', ''stsd'', ''avc1'', ''avcC''] (?tree ?e) = Some c"
      unfolding tree(6) by simp
    ultimately have "describes (?tree ?e) t"
      using tree(3-5) tk(2-4) md(2,3) hn(2) e(3) VideoTrack unfolding describes_def by (simp del: at_path.simps)
    with w tree(1,2) show ?thesis by blast
  next
    case AudioTrack
    obtain h c where e: "mp4a ?t = write_tree (Box (mp4_type ''mp4a'') h [Box (mp4_type ''esds'') c []])"
      (is "_ = write_tree ?e") "length h = 28" "num_at 1 17 h = t_channelCount t mod 2 ^ 8" "num_at 2 24 h = t_audiosamplerate t mod 2 ^ 16"
      using mp4a_tree [of ?t] unfolding same by blast
    have ok: "fits ?e" "nested 3 ?e" using e(2) by (simp_all add: children_of no_children length_mp4_type numeral_eq_Suc)
    note tree = track_tree_ok [OF ok hdr, where tk = tk and md = md and hn = hn and mh = "snd (media_header (t_type t))"]
    have "sample_entry ?t = write_tree ?e" using e(1) AudioTrack by (simp add: sample_entry_def same(5) del: write_tree.simps)
    note w = trak_write [OF tk(1) md(1) hn(1) this]
    have "shape (?tree ?e) = track_shape (t_type t)"
      by (rule track_tree_shape) (simp add: AudioTrack box_shape_def)
    moreover have "at_path [''mdia'', ''minf'', ''stbl'', ''stsd'', ''mp4a''] (?tree ?e) = Some h"
      unfolding tree(6) by simp
    ultimately have "describes (?tree ?e) t"
      using tree(3-5) tk(2-4) md(2,3) hn(2) e(3,4)
      unfolding describes_def AudioTrack track_type.case by blast
    with w tree(1,2) show ?thesis by blast
  qed
qed

lemma traks_described:
  "\<forall>t \<in> set tracks. t_type t = VideoTrack \<longrightarrow> sets_ok t \<Longrightarrow>
     \<exists>bs. map trak tracks = map write_tree bs \<and> (\<forall>b \<in> set bs. fits b \<and> nested 8 b) \<and> list_all2 describes bs tracks"
proof (induction tracks)
  case (Cons t ts)
  then obtain b bs where "trak t = write_tree b" "fits b" "nested 8 b" "describes b t"
    "map trak ts = map write_tree bs" "\<forall>b \<in> set bs. fits b \<and> nested 8 b" "list_all2 describes bs ts"
    using trak_described [of t] by auto
  then show ?case by (intro exI [of _ "b # bs"]) simp
qed simp

lemma trex_tree: "\<exists>p. trex t = write_tree (Box (mp4_type ''trex'') p []) \<and> num_at 4 4 p = t_id t mod 2 ^ 32"
  unfolding trex_def write_tree_box list.map
  by (intro exI conjI, rule refl) (simp add: num_at_def arr_def be_val_be32)

lemma trexs_tree:
  "\<exists>ps. map trex tracks = map (\<lambda>p. write_tree (Box (mp4_type ''trex'') p [])) ps \<and> map (num_at 4 4) ps = map (\<lambda>t. t_id t mod 2 ^ 32) tracks"
proof (induction tracks)
  case (Cons t ts)
  then obtain ps where "map trex ts = map (\<lambda>p. write_tree (Box (mp4_type ''trex'') p [])) ps"
    "map (num_at 4 4) ps = map (\<lambda>t. t_id t mod 2 ^ 32) ts" by blast
  moreover obtain p where "trex t = write_tree (Box (mp4_type ''trex'') p [])" "num_at 4 4 p = t_id t mod 2 ^ 32"
    using trex_tree by blast
  ultimately show ?case by (intro exI [of _ "p # ps"]) simp
qed simp

section \<open>The segment\<close>

text \<open>C37: A reader of nested boxes takes an initialisation segment apart completely: the file type, then \<^verbatim>\<open>moov\<close> with
  its header (in the timescale that was given), one \<^verbatim>\<open>trak\<close> per track and one \<^verbatim>\<open>trex\<close> with the identifier of
  each. Inside every \<^verbatim>\<open>trak\<close>, at all depths, are exactly the boxes of its kind of track, in their order; they say
  its identifier, dimensions, timescale, duration and handler; a video track's decoder configuration has
  its parameter sets, an audio track's sample entry its channels and sampling rate.\<close>

theorem init_segment_structure:
  assumes "length (initSegment tracks duration timescale) < 2 ^ 32"
    and "\<forall>t \<in> set tracks. t_type t = VideoTrack \<longrightarrow> sets_ok t"
  shows "\<exists>ft mv traks ps. read_trees 9 (initSegment tracks duration timescale) = Some [Box (mp4_type ''ftyp'') ft [],
      Box (mp4_type ''moov'') [] (Box (mp4_type ''mvhd'') mv [] # traks @
        [Box (mp4_type ''mvex'') [] (map (\<lambda>p. Box (mp4_type ''trex'') p []) ps)])] \<and>
    take 4 ft = mp4_type ''isom'' \<and> num_at 4 12 mv = js_trunc timescale mod 2 ^ 32 \<and> num_at 4 16 mv = js_trunc duration mod 2 ^ 32 \<and>
    list_all2 describes traks tracks \<and> map (num_at 4 4) ps = map (\<lambda>t. t_id t mod 2 ^ 32) tracks"
proof -
  obtain traks where traks: "map trak tracks = map write_tree traks" "\<forall>b \<in> set traks. fits b \<and> nested 8 b" "list_all2 describes traks tracks"
    using traks_described [OF assms(2)] by blast
  obtain ps where ps: "map trex tracks = map (\<lambda>p. write_tree (Box (mp4_type ''trex'') p [])) ps"
    "map (num_at 4 4) ps = map (\<lambda>t. t_id t mod 2 ^ 32) tracks"
    using trexs_tree by blast
  have "\<exists>mv. mvhd timescale duration = write_tree (Box (mp4_type ''mvhd'') mv []) \<and>
      num_at 4 12 mv = js_trunc timescale mod 2 ^ 32 \<and> num_at 4 16 mv = js_trunc duration mod 2 ^ 32"
    unfolding mvhd_def write_tree_box list.map
    by (intro exI conjI, rule refl) (simp_all add: num_at_def arr_def be_val_be32)
  then obtain mv where mv: "mvhd timescale duration = write_tree (Box (mp4_type ''mvhd'') mv [])"
    "num_at 4 12 mv = js_trunc timescale mod 2 ^ 32" "num_at 4 16 mv = js_trunc duration mod 2 ^ 32" by blast
  let ?ft = "concat [majorBrand, minorVersion, majorBrand, avc1Brand]"
  let ?mvex = "Box (mp4_type ''mvex'') [] (map (\<lambda>p. Box (mp4_type ''trex'') p []) ps)"
  let ?trees = "[Box (mp4_type ''ftyp'') ?ft [], Box (mp4_type ''moov'') [] (Box (mp4_type ''mvhd'') mv [] # traks @ [?mvex])]"
  have "mvex tracks = write_tree ?mvex" by (simp add: mvex_def ps(1) box_concat comp_def)
  then have "initSegment tracks duration timescale = concat (map write_tree ?trees)"
    unfolding initSegment_def moov_def FTYP_def traks(1) mv(1) by (simp add: box_concat)
  moreover have "\<forall>b \<in> set ?trees. fits b \<and> nested 9 b"
    using traks(2) by (auto simp: children_of no_children length_mp4_type numeral_eq_Suc intro: nested_mono)
  ultimately have "read_trees 9 (initSegment tracks duration timescale) = Some ?trees"
    using assms(1) by (simp only: read_trees_write)
  moreover have "take 4 ?ft = mp4_type ''isom''" by code_simp
  ultimately show ?thesis using mv(2,3) traks(3) ps(2) by (intro exI [of _ ?ft] exI conjI)
qed

text \<open>A segment with a video and an audio track.\<close>

definition example_audio_track :: mp4_track where
  "example_audio_track = example_track\<lparr>t_id := 2, t_type := AudioTrack, t_config := [0x12, 0x10], t_channelCount := 2,
     t_audiosamplerate := 44100\<rparr>"

lemma init_segment_structure_witness:
  "\<exists>ft mv b1 b2 ps. read_trees 9 (initSegment [example_track, example_audio_track] 90000 90000) = Some [Box (mp4_type ''ftyp'') ft [],
      Box (mp4_type ''moov'') [] (Box (mp4_type ''mvhd'') mv [] # [b1, b2] @
        [Box (mp4_type ''mvex'') [] (map (\<lambda>p. Box (mp4_type ''trex'') p []) ps)])] \<and>
    describes b1 example_track \<and> describes b2 example_audio_track \<and> map (num_at 4 4) ps = [1, 2]"
proof -
  let ?ts = "[example_track, example_audio_track]"
  have "\<forall>t \<in> set ?ts. t_type t = VideoTrack \<longrightarrow> sets_ok t"
    by (simp add: sets_ok_def example_track_def example_audio_track_def)
  moreover have "length (initSegment ?ts 90000 90000) < 2 ^ 32"
    by (simp add: initSegment_def FTYP_def moov_def mvhd_def mvex_def trex_def trak_def trak_track_def tkhd_def mdia_def mdhd_def
        hdlr_def HDLR_TYPES_def videoHdlr_def audioHdlr_def minf_def DINF_def dref_payload_def stbl_def stsd_def avc1_def mp4a_def
        esds_def avc_sets_def volume_bytes_def STSD_def STTS_def STSC_def STSZ_def STCO_def VMHD_def SMHD_def majorBrand_def
        minorVersion_def avc1Brand_def length_box length_mp4_type Let_def example_track_def example_audio_track_def)
  ultimately obtain ft mv traks ps where t: "read_trees 9 (initSegment ?ts 90000 90000) = Some [Box (mp4_type ''ftyp'') ft [],
      Box (mp4_type ''moov'') [] (Box (mp4_type ''mvhd'') mv [] # traks @
        [Box (mp4_type ''mvex'') [] (map (\<lambda>p. Box (mp4_type ''trex'') p []) ps)])]"
    "list_all2 describes traks ?ts" "map (num_at 4 4) ps = map (\<lambda>t. t_id t mod 2 ^ 32) ?ts"
    using init_segment_structure [of ?ts 90000 90000] by blast
  obtain b1 b2 where "traks = [b1, b2]" "describes b1 example_track" "describes b2 example_audio_track"
    using t(2) by (auto simp: list_all2_Cons2)
  moreover have "map (num_at 4 4) ps = [1, 2]" using t(3) by (simp add: example_track_def example_audio_track_def)
  ultimately show ?thesis using t(1)
    by - (rule exI [of _ ft], rule exI [of _ mv], rule exI [of _ b1], rule exI [of _ b2], rule exI [of _ ps], simp)
qed

end
