(* ===== verification/Bits.thy ===== *)
theory Bits
  imports JsBase
begin

text \<open>
  Bit-level readers of the player: \<^verbatim>\<open>ExpGolomb\<close> (H.264 syntax elements), \<^verbatim>\<open>BitArray\<close> (AAC
  configuration and access-unit headers) and the byte-array helpers beside them. Both readers are
  abstracted to the list of bits they have still to deliver (\<open>eg_bits\<close>, \<open>ba_bits\<close>); the locale
  \<open>bit_source\<close> states what a client may assume of a reader, is interpreted on both, and carries
  the round trip of a record of fixed-width fields.
\<close>

section \<open>Bits of a number, most significant first\<close>

definition msb_bits :: "nat \<Rightarrow> int \<Rightarrow> bool list" where
  "msb_bits n x = map (bit x) (rev [0..<n])"

definition bits_val :: "bool list \<Rightarrow> int" where
  "bits_val bs = foldl (\<lambda>a b. 2 * a + of_bool b) 0 bs"

definition bytes_bits :: "bytes \<Rightarrow> bool list" where
  "bytes_bits xs = concat (map (\<lambda>b. msb_bits 8 (uint b)) xs)"

lemma length_msb_bits [simp]: "length (msb_bits n x) = n"
  by (simp add: msb_bits_def)

lemma msb_bits_0 [simp]: "msb_bits 0 x = []"
  by (simp add: msb_bits_def)

lemma nth_msb_bits: "i < n \<Longrightarrow> msb_bits n x ! i = bit x (n - Suc i)"
  by (simp add: msb_bits_def rev_nth)

lemma msb_bits_Suc: "msb_bits (Suc n) x = bit x n # msb_bits n x"
  by (simp add: msb_bits_def)

lemma msb_bits_split: "msb_bits (m + n) x = msb_bits m (drop_bit n x) @ msb_bits n x"
  by (rule nth_equalityI) (auto simp: nth_append nth_msb_bits bit_drop_bit_eq ac_simps)

lemma take_msb_bits: "m \<le> n \<Longrightarrow> take m (msb_bits n x) = msb_bits m (drop_bit (n - m) x)"
  using msb_bits_split [of m "n - m" x] by simp

lemma drop_msb_bits: "m \<le> n \<Longrightarrow> drop m (msb_bits n x) = msb_bits (n - m) x"
  using msb_bits_split [of m "n - m" x] by simp

lemma msb_bits_cong:
  "(\<And>i. i < n \<Longrightarrow> bit x i = bit y i) \<Longrightarrow> msb_bits n x = msb_bits n y"
  by (rule nth_equalityI) (auto simp: nth_msb_bits)

lemma bits_val_Nil [simp]: "bits_val [] = 0"
  by (simp add: bits_val_def)

lemma bits_val_snoc [simp]: "bits_val (bs @ [b]) = 2 * bits_val bs + of_bool b"
  by (simp add: bits_val_def)

lemma bits_val_append: "bits_val (xs @ ys) = bits_val xs * 2 ^ length ys + bits_val ys"
proof (induction ys rule: rev_induct)
  case (snoc y ys)
  have "bits_val (xs @ ys @ [y]) = 2 * bits_val (xs @ ys) + of_bool y"
    using bits_val_snoc [of "xs @ ys" y] by simp
  with snoc.IH show ?case by simp
qed simp

lemma bits_val_Cons: "bits_val (b # bs) = of_bool b * 2 ^ length bs + bits_val bs"
  using bits_val_append [of "[b]" bs] by (simp add: bits_val_def)

lemma bits_val_nonneg [simp]: "0 \<le> bits_val bs"
  by (induction bs rule: rev_induct) auto

lemma bits_val_less: "bits_val bs < 2 ^ length bs"
  by (induction bs rule: rev_induct) auto

lemma bits_val_msb_bits: "bits_val (msb_bits n x) = take_bit n x"
proof (induction n)
  case (Suc n)
  then show ?case
    by (simp add: msb_bits_Suc bits_val_Cons take_bit_Suc_from_most)
qed simp

lemma msb_bits_bits_val: "msb_bits (length bs) (bits_val bs) = bs"
proof (induction bs rule: rev_induct)
  case (snoc b bs)
  have "msb_bits (length bs + 1) (2 * bits_val bs + of_bool b)
      = msb_bits (length bs) (drop_bit 1 (2 * bits_val bs + of_bool b))
        @ msb_bits 1 (2 * bits_val bs + of_bool b)"
    by (rule msb_bits_split)
  also have "drop_bit 1 (2 * bits_val bs + of_bool b) = bits_val bs"
    by (simp add: drop_bit_Suc)
  also have "msb_bits 1 (2 * bits_val bs + of_bool b) = [b]"
    by (simp add: msb_bits_def bit_0)
  finally show ?case using snoc by simp
qed simp

lemma bits_val_inj: "bits_val xs = bits_val ys \<Longrightarrow> length xs = length ys \<Longrightarrow> xs = ys"
  by (metis msb_bits_bits_val)

lemma bytes_bits_Nil [simp]: "bytes_bits [] = []"
  by (simp add: bytes_bits_def)

lemma bytes_bits_Cons: "bytes_bits (b # bs) = msb_bits 8 (uint b) @ bytes_bits bs"
  by (simp add: bytes_bits_def)

lemma bytes_bits_append [simp]: "bytes_bits (xs @ ys) = bytes_bits xs @ bytes_bits ys"
  by (simp add: bytes_bits_def)

lemma length_bytes_bits [simp]: "length (bytes_bits xs) = 8 * length xs"
  by (induction xs) (simp_all add: bytes_bits_Cons)

lemma bits_val_bytes_bits: "bits_val (bytes_bits xs) = be_val xs"
proof (induction xs)
  case (Cons x xs)
  have "take_bit 8 (uint x) = uint x"
    by (rule take_bit_int_eq_self) (use uint_lt2p [of x] in auto)
  with Cons show ?case
    by (simp add: bytes_bits_Cons bits_val_append bits_val_msb_bits be_val_Cons power_mult)
qed simp

lemma bytes_bits_msb_bits: "bytes_bits xs = msb_bits (8 * length xs) (be_val xs)"
  using msb_bits_bits_val [of "bytes_bits xs"] by (simp add: bits_val_bytes_bits)

section \<open>ExpGolomb: the H.264 bit reader\<close>

record exp_golomb =
  eg_data :: bytes
  bytesAvailable :: int
  eg_word :: "32 word"
  bitsAvailable :: int

definition ExpGolomb :: "bytes \<Rightarrow> exp_golomb" where
  "ExpGolomb data = \<lparr>eg_data = data, bytesAvailable = int (length data), eg_word = 0,
     bitsAvailable = 0\<rparr>"

text \<open>\<open>bytesAvailable\<close> may go negative (\<open>skipBits\<close> subtracts without a check): then \<^verbatim>\<open>subarray\<close>
  clamps to an empty view, and the reader is left with a negative bit count.\<close>

definition loadWord :: "exp_golomb \<Rightarrow> exp_golomb result" where
  "loadWord d = (let position = int (length (eg_data d)) - bytesAvailable d;
       availableBytes = min 4 (bytesAvailable d)
     in if availableBytes = 0 then Inl NoBytesAvailable
        else bindE (array_set (replicate 4 0)
               (subarray (eg_data d) position (position + availableBytes)) 0) (\<lambda>workingBytes.
             Inr (d\<lparr>eg_word := word_of_int (be_val workingBytes),
                    bitsAvailable := availableBytes * 8,
                    bytesAvailable := bytesAvailable d - availableBytes\<rparr>)))"

definition shl_word :: "32 word \<Rightarrow> int \<Rightarrow> 32 word" where
  "shl_word w n = push_bit (nat (n mod 32)) w"

definition skipBits :: "exp_golomb \<Rightarrow> int \<Rightarrow> exp_golomb result" where
  "skipBits d count =
     (if bitsAvailable d > count
      then Inr (d\<lparr>eg_word := shl_word (eg_word d) count, bitsAvailable := bitsAvailable d - count\<rparr>)
      else let count1 = count - bitsAvailable d;
               skipBytes = js_sar count1 3;
               count2 = count1 - js_shl skipBytes 3
           in bindE (loadWord (d\<lparr>bytesAvailable := bytesAvailable d - skipBytes\<rparr>)) (\<lambda>d1.
                Inr (d1\<lparr>eg_word := shl_word (eg_word d1) count2,
                        bitsAvailable := bitsAvailable d1 - count2\<rparr>)))"

lemma loadWord_bytesAvailable:
  "loadWord d = Inr d' \<Longrightarrow> \<bar>bytesAvailable d'\<bar> < \<bar>bytesAvailable d\<bar>"
  by (auto simp: loadWord_def Let_def bindE_Inr_iff split: if_splits)

text \<open>
  \<open>readBits\<close> reads what the current word still has and recurses for the rest. When the data is
  exhausted (no bit left, no byte left to load) the recursive call starts from the very state it
  was made in, so the JavaScript recursion ends in a stack overflow: \<open>CallStackExceeded\<close>. In
  every other recursion a word has been loaded, so fewer bytes are left.
\<close>

definition eg_exhausted :: "exp_golomb \<Rightarrow> bool" where
  "eg_exhausted d \<longleftrightarrow> bitsAvailable d = 0 \<and> bytesAvailable d \<le> 0"

definition readBits_step :: "exp_golomb \<Rightarrow> int \<Rightarrow> (int \<times> int \<times> exp_golomb) result" where
  "readBits_step d sz =
     (let bits = min (bitsAvailable d) sz;
          valu = uint (drop_bit (nat ((32 - bits) mod 32)) (eg_word d));
          d1 = d\<lparr>bitsAvailable := bitsAvailable d - bits\<rparr>
      in bindE (if bitsAvailable d1 > 0 then Inr (d1\<lparr>eg_word := shl_word (eg_word d1) bits\<rparr>)
                else if bytesAvailable d1 > 0 then loadWord d1
                else Inr d1) (\<lambda>d2. Inr (valu, sz - bits, d2)))"

lemma readBits_step_decreases:
  assumes "readBits_step d sz = Inr (valu, rest, d')" and "rest > 0" and "\<not> eg_exhausted d'"
  shows "\<bar>bytesAvailable d'\<bar> < \<bar>bytesAvailable d\<bar>"
  using assms
  by (auto simp: readBits_step_def Let_def bindE_Inr_iff eg_exhausted_def min_def
      dest!: loadWord_bytesAvailable split: if_splits)

function readBits :: "exp_golomb \<Rightarrow> int \<Rightarrow> (int \<times> exp_golomb) result" where
  "readBits d sz =
     (case readBits_step d sz of
        Inl e \<Rightarrow> Inl e
      | Inr (valu, rest, d') \<Rightarrow>
          if rest > 0 then
            if eg_exhausted d' then Inl CallStackExceeded
            else bindE (readBits d' rest) (\<lambda>(v, d''). Inr (js_or (js_shl valu rest) v, d''))
          else Inr (valu, d'))"
  by pat_completeness auto
termination
  by (relation "measure (\<lambda>(d, sz). nat \<bar>bytesAvailable d\<bar>)")
     (auto dest: readBits_step_decreases)

declare readBits.simps [simp del]

text \<open>\<^verbatim>\<open>skipLZ\<close>: \<open>skipLZ_scan\<close> is its \<^verbatim>\<open>for\<close> loop from index \<open>i\<close>, \<open>n\<close> bits left.\<close>

fun skipLZ_scan :: "32 word \<Rightarrow> nat \<Rightarrow> nat \<Rightarrow> nat option" where
  "skipLZ_scan w i 0 = None"
| "skipLZ_scan w i (Suc n) =
     (if w AND drop_bit i 0x80000000 \<noteq> 0 then Some i else skipLZ_scan w (Suc i) n)"

function skipLZ :: "exp_golomb \<Rightarrow> (int \<times> exp_golomb) result" where
  "skipLZ d =
     (case skipLZ_scan (eg_word d) 0 (nat (bitsAvailable d)) of
        Some k \<Rightarrow> Inr (int k, d\<lparr>eg_word := shl_word (eg_word d) (int k),
                              bitsAvailable := bitsAvailable d - int k\<rparr>)
      | None \<Rightarrow>
          (case loadWord d of
             Inl e \<Rightarrow> Inl e
           | Inr d' \<Rightarrow> bindE (skipLZ d') (\<lambda>(n, d''). Inr (max 0 (bitsAvailable d) + n, d''))))"
  by pat_completeness auto
termination
  by (relation "measure (\<lambda>d. nat \<bar>bytesAvailable d\<bar>)") (auto dest: loadWord_bytesAvailable)

declare skipLZ.simps [simp del]

definition skipUEG :: "exp_golomb \<Rightarrow> exp_golomb result" where
  "skipUEG d = bindE (skipLZ d) (\<lambda>(n, d'). skipBits d' (1 + n))"

definition skipEG :: "exp_golomb \<Rightarrow> exp_golomb result" where
  "skipEG d = bindE (skipLZ d) (\<lambda>(n, d'). skipBits d' (1 + n))"

definition readUEG :: "exp_golomb \<Rightarrow> (int \<times> exp_golomb) result" where
  "readUEG d = bindE (skipLZ d) (\<lambda>(clz, d1).
     bindE (readBits d1 (clz + 1)) (\<lambda>(v, d2). Inr (v - 1, d2)))"

definition readEG :: "exp_golomb \<Rightarrow> (int \<times> exp_golomb) result" where
  "readEG d = bindE (readUEG d) (\<lambda>(valu, d').
     if js_and 1 valu \<noteq> 0 then Inr (js_shr (1 + valu) 1, d')
     else Inr (- 1 * js_shr valu 1, d'))"

definition readBoolean :: "exp_golomb \<Rightarrow> (bool \<times> exp_golomb) result" where
  "readBoolean d = bindE (readBits d 1) (\<lambda>(v, d'). Inr (1 = v, d'))"

definition readUByte :: "exp_golomb \<Rightarrow> (int \<times> exp_golomb) result" where
  "readUByte d = readBits d 8"

definition readUShort :: "exp_golomb \<Rightarrow> (int \<times> exp_golomb) result" where
  "readUShort d = readBits d 16"

definition readUInt :: "exp_golomb \<Rightarrow> (int \<times> exp_golomb) result" where
  "readUInt d = readBits d 32"

subsection \<open>The bits still to come, and what a read delivers\<close>

definition eg_bits :: "exp_golomb \<Rightarrow> bool list" where
  "eg_bits d = msb_bits (nat (bitsAvailable d)) (drop_bit (32 - nat (bitsAvailable d)) (uint (eg_word d)))
     @ bytes_bits (drop (length (eg_data d) - nat (bytesAvailable d)) (eg_data d))"

definition eg_ok :: "exp_golomb \<Rightarrow> bool" where
  "eg_ok d \<longleftrightarrow> 0 \<le> bytesAvailable d \<and> bytesAvailable d \<le> int (length (eg_data d))
     \<and> 0 \<le> bitsAvailable d \<and> bitsAvailable d \<le> 32
     \<and> (bitsAvailable d = 0 \<longrightarrow> eg_word d = 0 \<or> bytesAvailable d = 0)"

lemma eg_ok_ExpGolomb: "eg_ok (ExpGolomb xs)"
  by (simp add: eg_ok_def ExpGolomb_def)

lemma eg_bits_ExpGolomb: "eg_bits (ExpGolomb xs) = bytes_bits xs"
  by (simp add: eg_bits_def ExpGolomb_def)

lemma length_eg_bits:
  "eg_ok d \<Longrightarrow> int (length (eg_bits d)) = bitsAvailable d + 8 * bytesAvailable d"
  by (auto simp: eg_bits_def eg_ok_def)

lemma be_val_pad: "be_val (xs @ replicate n 0) = be_val xs * 256 ^ n"
proof (induction n)
  case (Suc n)
  have "be_val (xs @ replicate (Suc n) 0) = be_val ((xs @ replicate n 0) @ [0])"
    by (simp add: replicate_append_same)
  then show ?case using Suc by (simp add: be_val_snoc del: append_assoc)
qed simp

lemma word_of_bytes_bits:
  assumes "length xs \<le> 4"
  shows "msb_bits (8 * length xs) (drop_bit (32 - 8 * length xs)
      (uint (word_of_int (be_val (xs @ replicate (4 - length xs) 0)) :: 32 word))) = bytes_bits xs"
proof -
  let ?k = "4 - length xs"
  have lt: "be_val xs * 256 ^ ?k < 256 ^ length xs * 256 ^ ?k"
    using be_val_less [of xs] by simp
  also have "(256::int) ^ length xs * 256 ^ ?k = 2 ^ 32"
    using assms by (simp add: power_add [symmetric])
  finally have u: "uint (word_of_int (be_val (xs @ replicate ?k 0)) :: 32 word) = be_val xs * 256 ^ ?k"
    unfolding be_val_pad uint_word_of_int by simp
  have "(256::int) ^ ?k = 2 ^ (32 - 8 * length xs)"
    using assms power_mult [of "2::int" 8 ?k] by (simp add: diff_mult_distrib2)
  then have "drop_bit (32 - 8 * length xs) (be_val xs * 256 ^ ?k) = be_val xs"
    by (simp add: drop_bit_eq_div)
  with u show ?thesis by (simp add: bytes_bits_msb_bits)
qed

lemma loadWord_ok:
  assumes "eg_ok d" and "0 < bytesAvailable d"
  obtains d' where "loadWord d = Inr d'" and "eg_ok d'"
    and "eg_bits d' = bytes_bits (drop (length (eg_data d) - nat (bytesAvailable d)) (eg_data d))"
    and "bitsAvailable d' = 8 * min 4 (bytesAvailable d)" and "eg_data d' = eg_data d"
proof -
  define b where "b = nat (bytesAvailable d)"
  define a where "a = min 4 b"
  let ?n = "length (eg_data d)"
  let ?xs = "take a (drop (?n - b) (eg_data d))"
  have b: "bytesAvailable d = int b" "0 < b" "b \<le> ?n"
    using assms by (auto simp: eg_ok_def b_def)
  then have a: "min 4 (bytesAvailable d) = int a" "a \<le> b" "a \<le> 4" "0 < a"
    by (auto simp: a_def)
  have lx: "length ?xs = a" using a b by simp
  have "subarray (eg_data d) (int ?n - int b) (int ?n - int b + int a) = ?xs"
  proof -
    have e: "int ?n - int b = int (?n - b)" "int (?n - b) + int a = int (?n - b + a)"
      using b by (simp_all add: of_nat_diff)
    show ?thesis unfolding e by (subst subarray_nat) simp_all
  qed
  moreover have "array_set (replicate 4 0) ?xs 0 = Inr (?xs @ replicate (4 - a) 0)"
    using lx a by (simp add: array_set_def)
  ultimately have ld: "loadWord d = Inr (d\<lparr>eg_word := word_of_int (be_val (?xs @ replicate (4 - a) 0)),
      bitsAvailable := int a * 8, bytesAvailable := int (b - a)\<rparr>)"
    using a b by (simp add: loadWord_def Let_def of_nat_diff)
  have "drop (?n - (b - a)) (eg_data d) = drop a (drop (?n - b) (eg_data d))"
    using a b by (simp add: add.commute)
  then have rest: "bytes_bits ?xs @ bytes_bits (drop (?n - (b - a)) (eg_data d))
      = bytes_bits (drop (?n - b) (eg_data d))"
    by (metis append_take_drop_id bytes_bits_append)
  have "nat (int a * 8) = 8 * a" "nat (int b - int a) = b - a" using a by simp_all
  with a b lx rest word_of_bytes_bits [of ?xs] show ?thesis
    by (intro that [OF ld]) (auto simp: eg_ok_def eg_bits_def b_def [symmetric])
qed

text \<open>One step of \<open>readBits\<close>: a whole read inside the current word, or the word's rest.\<close>

lemma uint_drop_bit_word:
  "n \<le> 32 \<Longrightarrow> uint (drop_bit (32 - n) (w :: 32 word)) = bits_val (msb_bits n (drop_bit (32 - n) (uint w)))"
  by (auto intro!: bit_eqI simp: bits_val_msb_bits unsigned_drop_bit_eq bit_simps)

lemma msb_bits_push:
  assumes "n \<le> B" and "B \<le> 32"
  shows "msb_bits (B - n) (drop_bit (32 - (B - n)) (uint (push_bit n (w :: 32 word))))
    = drop n (msb_bits B (drop_bit (32 - B) (uint w)))"
  using assms
  by (auto simp: drop_msb_bits intro!: msb_bits_cong)
     (auto simp: bit_simps bit_push_bit_iff)

lemma shift_count:
  assumes "0 < n" and "n \<le> 32"
  shows "nat (- int n mod 32) = 32 - n"
proof -
  have "- int n mod 32 = (32 - int n) mod 32" by simp
  also have "\<dots> = 32 - int n" using assms by (intro mod_pos_pos_trivial) auto
  finally show ?thesis using assms by simp
qed

lemma readBits_step_inside:
  assumes "eg_ok d" and "0 < n" and "int n < bitsAvailable d"
  obtains d' where "readBits_step d (int n) = Inr (bits_val (take n (eg_bits d)), 0, d')"
    and "eg_ok d'" and "eg_bits d' = drop n (eg_bits d)" and "eg_data d' = eg_data d"
    and "bytesAvailable d' = bytesAvailable d" and "bitsAvailable d' = bitsAvailable d - int n"
proof -
  define B where "B = nat (bitsAvailable d)"
  have B: "bitsAvailable d = int B" "n < B" "B \<le> 32"
    using assms by (auto simp: eg_ok_def B_def)
  let ?d' = "d\<lparr>bitsAvailable := int (B - n), eg_word := push_bit n (eg_word d)\<rparr>"
  have "take n (eg_bits d) = msb_bits n (drop_bit (32 - n) (uint (eg_word d)))"
    using B by (simp add: eg_bits_def take_msb_bits)
  then have "readBits_step d (int n) = Inr (bits_val (take n (eg_bits d)), 0, ?d')"
    using B assms uint_drop_bit_word [of n "eg_word d"]
    by (simp add: readBits_step_def Let_def shl_word_def shift_count min_def)
  moreover have "eg_bits ?d' = drop n (eg_bits d)"
    using B msb_bits_push [of n B "eg_word d"] by (simp add: eg_bits_def)
  ultimately show ?thesis using B assms by (intro that [of ?d']) (auto simp: eg_ok_def)
qed

lemma readBits_step_all:
  assumes "eg_ok d" and "bitsAvailable d \<le> int n" and "n \<le> 32" and "0 < n"
    and "0 < bytesAvailable d"
  obtains d' where "readBits_step d (int n)
      = Inr (uint (drop_bit (nat ((32 - bitsAvailable d) mod 32)) (eg_word d)), int n - bitsAvailable d, d')"
    and "eg_ok d'" and "eg_bits d' = drop (nat (bitsAvailable d)) (eg_bits d)"
    and "eg_data d' = eg_data d" and "bitsAvailable d' > 0"
proof -
  let ?d = "d\<lparr>bitsAvailable := 0\<rparr>"
  let ?e = "d\<lparr>bitsAvailable := 0, eg_word := 0\<rparr>"
  have "eg_ok ?e" using assms by (simp add: eg_ok_def)
  then obtain d' where d': "loadWord ?e = Inr d'" "eg_ok d'"
      "eg_bits d' = bytes_bits (drop (length (eg_data d) - nat (bytesAvailable d)) (eg_data d))"
      "eg_data d' = eg_data d" "bitsAvailable d' = 8 * min 4 (bytesAvailable d)"
    using assms(5) by (auto intro: loadWord_ok [of ?e])
  have "loadWord ?d = loadWord ?e" by (simp add: loadWord_def Let_def)
  moreover have "min (bitsAvailable d) (int n) = bitsAvailable d" using assms by simp
  ultimately have "readBits_step d (int n) = Inr (uint (drop_bit (nat ((32 - bitsAvailable d) mod 32))
      (eg_word d)), int n - bitsAvailable d, d')"
    using d' assms by (simp add: readBits_step_def Let_def)
  moreover have "eg_bits d' = drop (nat (bitsAvailable d)) (eg_bits d)"
    using d'(3) by (simp add: eg_bits_def)
  moreover have "0 < bitsAvailable d'" using d'(5) assms(5) by simp
  ultimately show ?thesis using d' by (intro that [of d'])
qed

text \<open>The bits of the current word, and the result of a read that goes on in the next one.\<close>

lemma word_bits_val:
  assumes "eg_ok d" "bitsAvailable d = int B" "B \<le> 32" "0 < bytesAvailable d"
  shows "uint (drop_bit (nat ((32 - bitsAvailable d) mod 32)) (eg_word d)) = bits_val (take B (eg_bits d))"
proof (cases "B = 0")
  case True
  with assms have "eg_word d = 0" by (simp add: eg_ok_def)
  then show ?thesis using True by simp
next
  case False
  with assms show ?thesis by (simp add: eg_bits_def uint_drop_bit_word shift_count)
qed

lemma join_bits:
  assumes "B < n" "n \<le> 31" "n \<le> length bs"
  shows "js_or (js_shl (bits_val (take B bs)) (int (n - B))) (bits_val (take (n - B) (drop B bs))) = bits_val (take n bs)"
proof -
  let ?t = "take (n - B) (drop B bs)"
  have t: "take n bs = take B bs @ ?t" using assms(1) take_add [of B "n - B" bs] by simp
  have t2: "length ?t = n - B" using assms(3) by simp
  have "bits_val (take n bs) < 2 ^ 31"
    using bits_val_less [of "take n bs"] assms(2,3) power_increasing [of n 31 "2::int"] by simp
  then have "bits_val (take B bs) * 2 ^ (n - B) + bits_val ?t < 2 ^ 31" unfolding t bits_val_append t2 .
  moreover have "bits_val ?t < 2 ^ (n - B)" using bits_val_less [of ?t] t2 by simp
  ultimately show ?thesis unfolding t bits_val_append t2 using assms(2) by (intro js_or_shl) auto
qed

lemma readBits_ok:
  assumes "eg_ok d" and "0 < n" and "n \<le> 31" and "n \<le> length (eg_bits d)"
  shows "\<exists>d'. readBits d (int n) = Inr (bits_val (take n (eg_bits d)), d') \<and> eg_ok d'
    \<and> eg_bits d' = drop n (eg_bits d) \<and> eg_data d' = eg_data d"
  using assms
proof (induction d "int n" arbitrary: n rule: readBits.induct)
  case (1 d)
  define B where "B = nat (bitsAvailable d)"
  have B: "bitsAvailable d = int B" "B \<le> 32" using 1 by (auto simp: eg_ok_def B_def)
  have len: "length (eg_bits d) = B + 8 * nat (bytesAvailable d)"
    using length_eg_bits [OF 1(2)] B 1(2) by (auto simp: eg_ok_def)
  let ?v = "uint (drop_bit (nat ((32 - bitsAvailable d) mod 32)) (eg_word d))"
  show ?case
  proof (cases "n < B \<or> bytesAvailable d = 0")
    case True
    with 1(3-5) len B have "n \<le> B" by auto
    then show ?thesis
    proof (cases "n = B")
      case n: True
      with True have b: "bytesAvailable d = 0" by simp
      have "bits_val (take n (eg_bits d)) = ?v"
        using n B b 1(3) by (simp add: eg_bits_def uint_drop_bit_word shift_count)
      then have "readBits_step d (int n) = Inr (bits_val (take n (eg_bits d)), 0, d\<lparr>bitsAvailable := 0\<rparr>)"
        using n B b by (simp add: readBits_step_def Let_def)
      then show ?thesis using 1(2) n B b
        by (auto simp: readBits.simps [of d] eg_ok_def eg_bits_def)
    next
      case n: False
      with \<open>n \<le> B\<close> B 1(2,3) show ?thesis
        by (elim readBits_step_inside [of d n]) (auto simp: readBits.simps [of d])
    qed
  next
    case False
    then have pos: "0 < bytesAvailable d" using 1(2) by (simp add: eg_ok_def)
    with False 1 B obtain d' where d': "readBits_step d (int n) = Inr (?v, int n - int B, d')"
      "eg_ok d'" "eg_bits d' = drop B (eg_bits d)" "eg_data d' = eg_data d" "bitsAvailable d' > 0"
      by (elim readBits_step_all [of d n]) auto
    have v: "?v = bits_val (take B (eg_bits d))" by (rule word_bits_val [OF 1(2) B pos])
    show ?thesis
    proof (cases "n = B")
      case True
      with d' v show ?thesis by (auto simp: readBits.simps [of d])
    next
      case F: False
      with False have lt: "B < n" by simp
      then have st: "readBits_step d (int n) = Inr (?v, int (n - B), d')" using d'(1) by simp
      have "\<exists>d''. readBits d' (int (n - B)) = Inr (bits_val (take (n - B) (eg_bits d')), d'')
        \<and> eg_ok d'' \<and> eg_bits d'' = drop (n - B) (eg_bits d') \<and> eg_data d'' = eg_data d'"
        by (rule 1(1) [OF st]) (use d' lt 1(3-5) len in \<open>auto simp: eg_exhausted_def\<close>)
      moreover have "js_or (js_shl ?v (int (n - B))) (bits_val (take (n - B) (eg_bits d'))) = bits_val (take n (eg_bits d))"
        unfolding v d'(3) by (rule join_bits [OF lt 1(4,5)])
      ultimately show ?thesis using d' lt st
        by (auto simp: readBits.simps [of d] eg_exhausted_def)
    qed
  qed
qed

subsection \<open>Exponential Golomb codes\<close>

lemma word_nonzero_bit: "(x :: 'a::len word) \<noteq> 0 \<longleftrightarrow> (\<exists>n<LENGTH('a). bit x n)"
  by (auto intro: bit_word_eqI)

lemma and_top_bit: "(w :: 32 word) AND drop_bit i 0x80000000 \<noteq> 0 \<longleftrightarrow> i < 32 \<and> bit w (31 - i)"
proof -
  have top: "(0x80000000 :: 32 word) = push_bit 31 1" by simp
  have "bit (0x80000000 :: 32 word) m \<longleftrightarrow> m = 31" for m
    unfolding top by (simp only: bit_push_bit_iff bit_1_iff possible_bit_word) auto
  then have "bit (drop_bit i (0x80000000 :: 32 word)) j \<longleftrightarrow> i + j = 31" for j
    by (simp add: bit_drop_bit_eq)
  then have "bit (w AND drop_bit i 0x80000000) j \<longleftrightarrow> bit w j \<and> i + j = 31" for j
    by (simp add: bit_and_iff)
  then have "w AND drop_bit i 0x80000000 \<noteq> 0 \<longleftrightarrow> (\<exists>j<32. bit w j \<and> i + j = 31)"
    unfolding word_nonzero_bit by simp
  also have "\<dots> \<longleftrightarrow> i < 32 \<and> bit w (31 - i)"
  proof
    assume "\<exists>j<32. bit w j \<and> i + j = 31"
    then obtain j where "bit w j" and "i + j = 31" by blast
    moreover from this have "j = 31 - i" by simp
    ultimately show "i < 32 \<and> bit w (31 - i)" by simp
  next
    assume "i < 32 \<and> bit w (31 - i)"
    then show "\<exists>j<32. bit w j \<and> i + j = 31" by (intro exI [of _ "31 - i"]) simp
  qed
  finally show ?thesis .
qed

lemma skipLZ_scan_None: "skipLZ_scan w i n = None \<longleftrightarrow> (\<forall>j<n. \<not> (i + j < 32 \<and> bit w (31 - (i + j))))"
proof (induction w i n rule: skipLZ_scan.induct)
  case (2 w i n)
  show ?case
    by (auto simp: 2 and_top_bit less_Suc_eq_0_disj All_less_Suc2)
qed simp

lemma skipLZ_scan_first:
  assumes "i \<le> k" and "k < i + n" and "k < 32" and "bit w (31 - k)"
    and "\<And>j. i \<le> j \<Longrightarrow> j < k \<Longrightarrow> \<not> bit w (31 - j)"
  shows "skipLZ_scan w i n = Some k"
  using assms
proof (induction w i n rule: skipLZ_scan.induct)
  case (2 w i n)
  show ?case
  proof (cases "i = k")
    case True
    with 2 show ?thesis by (simp add: and_top_bit)
  next
    case False
    then have "skipLZ_scan w (Suc i) n = Some k"
      using "2.prems" by (intro "2.IH") (auto simp: and_top_bit)
    then show ?thesis using False "2.prems" by (simp add: and_top_bit)
  qed
qed simp

lemma nth_eg_bits:
  "eg_ok d \<Longrightarrow> int i < bitsAvailable d \<Longrightarrow> eg_bits d ! i = bit (eg_word d) (31 - i)"
  by (auto simp: eg_bits_def eg_ok_def nth_append nth_msb_bits bit_simps bit_drop_bit_eq)

lemma skipLZ_ok:
  assumes "eg_ok d" and "eg_bits d = replicate k False @ True # rest"
  shows "\<exists>d'. skipLZ d = Inr (int k, d') \<and> eg_ok d' \<and> eg_bits d' = True # rest \<and> eg_data d' = eg_data d"
  using assms
proof (induction d arbitrary: k rule: skipLZ.induct)
  case (1 d)
  define B where "B = nat (bitsAvailable d)"
  have B: "bitsAvailable d = int B" "B \<le> 32" using 1(2) by (auto simp: eg_ok_def B_def)
  have bits: "eg_bits d ! i = bit (eg_word d) (31 - i)" if "i < B" for i
    using nth_eg_bits [OF 1(2)] that B by simp
  have zero: "\<not> bit (eg_word d) (31 - i)" if "i < B" "i < k" for i
    using bits [OF that(1)] that 1(3) by (simp add: nth_append)
  show ?case
  proof (cases "k < B")
    case True
    let ?d' = "d\<lparr>eg_word := push_bit k (eg_word d), bitsAvailable := int (B - k)\<rparr>"
    have "bit (eg_word d) (31 - k)" using bits [OF True] 1(3) by (simp add: nth_append)
    then have "skipLZ_scan (eg_word d) 0 B = Some k"
      using True B zero by (intro skipLZ_scan_first) auto
    moreover have "nat (int k mod 32) = k" using True B by (simp add: nat_mod_distrib)
    ultimately have "skipLZ d = Inr (int k, ?d')"
      using True B by (simp add: skipLZ.simps [of d] shl_word_def of_nat_diff)
    moreover have "eg_bits ?d' = drop k (eg_bits d)"
      using True B msb_bits_push [of k B "eg_word d"] by (simp add: eg_bits_def)
    moreover have "eg_ok ?d'" using True B 1(2) by (simp add: eg_ok_def)
    ultimately show ?thesis using 1(3) by simp
  next
    case False
    have None: "skipLZ_scan (eg_word d) 0 B = None"
      unfolding skipLZ_scan_None using zero False by auto
    have drop: "drop B (eg_bits d) = replicate (k - B) False @ True # rest"
      using False 1(3) by simp
    then have "B < length (eg_bits d)" by (metis drop_all append_is_Nil_conv list.distinct(1) not_le)
    then have pos: "0 < bytesAvailable d"
      using length_eg_bits [OF 1(2)] B by simp
    have "drop B (eg_bits d) = bytes_bits (drop (length (eg_data d) - nat (bytesAvailable d)) (eg_data d))"
      using B by (simp add: eg_bits_def)
    then obtain d' where d': "loadWord d = Inr d'" "eg_ok d'" "eg_bits d' = drop B (eg_bits d)"
        "eg_data d' = eg_data d"
      using loadWord_ok [OF 1(2) pos] by metis
    have "\<exists>d''. skipLZ d' = Inr (int (k - B), d'') \<and> eg_ok d'' \<and> eg_bits d'' = True # rest
        \<and> eg_data d'' = eg_data d'"
      by (rule 1(1)) (use None B d' drop in auto)
    then show ?thesis
      using None B d' False by (auto simp: skipLZ.simps [of d] of_nat_diff)
  qed
qed

text \<open>The code of a number: as many zeros as the binary numeral of its successor has digits
  after the first, then that numeral.\<close>

fun num_bits :: "nat \<Rightarrow> bool list" where
  "num_bits n = (if n = 0 then [] else num_bits (n div 2) @ [odd n])"

declare num_bits.simps [simp del]

definition ue_bits :: "nat \<Rightarrow> bool list" where
  "ue_bits n = replicate (length (num_bits (Suc n)) - 1) False @ num_bits (Suc n)"

lemma bits_val_num_bits: "bits_val (num_bits n) = int n"
proof (induction n rule: num_bits.induct)
  case (1 n)
  show ?case
  proof (cases "n = 0")
    case False
    with 1 have "bits_val (num_bits n) = 2 * int (n div 2) + of_bool (odd n)"
      by (subst num_bits.simps) simp
    also have "\<dots> = int n" by (cases "even n") (auto elim!: evenE oddE)
    finally show ?thesis .
  qed (simp add: num_bits.simps)
qed

lemma num_bits_True: "0 < n \<Longrightarrow> \<exists>bs. num_bits n = True # bs"
proof (induction n rule: num_bits.induct)
  case (1 n)
  show ?case
  proof (cases "n = 1")
    case False
    then have "0 < n div 2" using 1 by (simp add: div_greater_zero_iff)
    then obtain bs where "num_bits (n div 2) = True # bs" using 1 by auto
    then show ?thesis using 1 by (subst num_bits.simps) simp
  qed (simp add: num_bits.simps)
qed

lemma length_num_bits: "n < 2 ^ k \<Longrightarrow> length (num_bits n) \<le> k"
proof (induction k arbitrary: n)
  case (Suc k)
  then have "length (num_bits (n div 2)) \<le> k" by auto
  then show ?case by (subst num_bits.simps) simp
qed (simp add: num_bits.simps)

lemma readUEG_ue_bits:
  assumes "eg_ok d" and "eg_bits d = ue_bits n @ rest" and "n < 2 ^ 31 - 1"
  shows "\<exists>d'. readUEG d = Inr (int n, d') \<and> eg_ok d' \<and> eg_bits d' = rest \<and> eg_data d' = eg_data d"
proof -
  obtain bs where bs: "num_bits (Suc n) = True # bs" using num_bits_True by blast
  have "length (num_bits (Suc n)) \<le> 31" using assms by (intro length_num_bits) simp
  then have len: "Suc (length bs) \<le> 31" by (simp add: bs)
  obtain d1 where d1: "skipLZ d = Inr (int (length bs), d1)" "eg_ok d1"
      "eg_bits d1 = True # bs @ rest" "eg_data d1 = eg_data d"
    using skipLZ_ok [OF assms(1), of "length bs" "bs @ rest"] assms(2) by (auto simp: ue_bits_def bs)
  have "take (Suc (length bs)) (eg_bits d1) = num_bits (Suc n)" by (simp add: d1 bs)
  then obtain d2 where "readBits d1 (int (Suc (length bs))) = Inr (int (Suc n), d2)" "eg_ok d2"
      "eg_bits d2 = rest" "eg_data d2 = eg_data d1"
    using readBits_ok [OF d1(2), of "Suc (length bs)"] len d1
    by (auto simp: bits_val_num_bits simp del: of_nat_Suc)
  then show ?thesis using d1 by (auto simp: readUEG_def add.commute)
qed

text \<open>Reading past the data never returns a value: the recursion exhausts the stack.\<close>


lemma readBits_exhausted:
  assumes "eg_ok d" and "0 < n" and "length (eg_bits d) < n"
  shows "readBits d (int n) = Inl CallStackExceeded"
  using assms
proof (induction d "int n" arbitrary: n rule: readBits.induct)
  case (1 d)
  have len: "int (length (eg_bits d)) = bitsAvailable d + 8 * bytesAvailable d"
    using length_eg_bits [OF 1(2)] .
  have le: "min (bitsAvailable d) (int n) = bitsAvailable d" using 1 len by (auto simp: eg_ok_def)
  show ?case
  proof (cases "bytesAvailable d = 0")
    case True
    then show ?thesis using 1 len le
      by (simp add: readBits.simps [of d] readBits_step_def Let_def eg_exhausted_def)
  next
    case False
    then have pos: "0 < bytesAvailable d" using 1(2) by (simp add: eg_ok_def)
    define d0 where "d0 = d\<lparr>bitsAvailable := 0, eg_word := 0\<rparr>"
    have "eg_ok d0" using 1(2) by (simp add: eg_ok_def d0_def)
    then obtain d' where d': "loadWord d0 = Inr d'" "eg_ok d'"
        "eg_bits d' = bytes_bits (drop (length (eg_data d) - nat (bytesAvailable d)) (eg_data d))"
        "bitsAvailable d' = 8 * min 4 (bytesAvailable d)"
      using pos by (auto simp: d0_def intro: loadWord_ok [of d0])
    have ld: "loadWord (d\<lparr>bitsAvailable := 0\<rparr>) = loadWord d0"
      by (simp add: loadWord_def Let_def d0_def)
    obtain m where m: "int n - bitsAvailable d = int m"
      using 1(4) len pos by (metis diff_ge_0_iff_ge le min.bounded_iff nonneg_int_cases order_refl)
    obtain v where st: "readBits_step d (int n) = Inr (v, int m, d')"
      unfolding readBits_step_def Let_def le using pos d'(1) ld m by simp
    have "int (length (eg_bits d')) = 8 * bytesAvailable d"
      using 1(2) unfolding d'(3) by (auto simp: eg_ok_def)
    then have len': "length (eg_bits d') < m" "0 < m"
      using 1(4) len pos m by linarith+
    have "readBits d' (int m) = Inl CallStackExceeded"
      by (rule 1(1) [OF st]) (use d' pos len' in \<open>auto simp: eg_exhausted_def\<close>)
    then show ?thesis using st len' by (simp add: readBits.simps [of d] split: if_splits)
  qed
qed


section \<open>BitArray: the AAC bit reader\<close>

record bit_array =
  ba_src :: bytes
  bitpos :: int
  ba_byte :: int
  bytepos :: int

definition BitArray :: "bytes \<Rightarrow> bit_array result" where
  "BitArray src = bindE (getUint8 src 0) (\<lambda>b.
     Inr \<lparr>ba_src = src, bitpos = 0, ba_byte = b, bytepos = 0\<rparr>)"

text \<open>One turn of the loop of \<^verbatim>\<open>readBits\<close>: the next byte is fetched as soon as the last bit of
  the current one is taken, so taking the last bit of the array raises a \<^verbatim>\<open>RangeError\<close>.\<close>

definition ba_next :: "int \<Rightarrow> bit_array \<Rightarrow> (int \<times> bit_array) result" where
  "ba_next res b =
     (let pos = bitpos b + 1;
          res' = js_or (js_shl res 1) (js_and (js_sar (ba_byte b) (8 - pos)) 1);
          b1 = b\<lparr>bitpos := pos\<rparr>
      in if pos \<ge> 8 then
           bindE (getUint8 (ba_src b) (bytepos b + 1)) (\<lambda>x.
             Inr (res', b1\<lparr>ba_byte := x, bytepos := bytepos b + 1, bitpos := js_and pos 7\<rparr>))
         else Inr (res', b1))"

fun ba_loop :: "nat \<Rightarrow> int \<Rightarrow> bit_array \<Rightarrow> (int \<times> bit_array) result" where
  "ba_loop 0 res b = Inr (res, b)"
| "ba_loop (Suc i) res b = bindE (ba_next res b) (\<lambda>(res', b'). ba_loop i res' b')"

definition ba_readBits :: "bit_array \<Rightarrow> int \<Rightarrow> (int \<times> bit_array) result" where
  "ba_readBits b len =
     (if 32 < toInt32 len \<or> 0 = toInt32 len then Inl (ErrMsg ''too big'')
      else ba_loop (nat len) 0 b)"

definition ba_finished :: "bit_array \<Rightarrow> bool" where
  "ba_finished b \<longleftrightarrow> bytepos b \<ge> int (length (ba_src b))"

definition ba_skipBits :: "bit_array \<Rightarrow> int \<Rightarrow> bit_array result" where
  "ba_skipBits b len =
     (let b1 = b\<lparr>bitpos := bitpos b + js_and len 7, bytepos := bytepos b + js_shr len 3\<rparr>;
          b2 = (if bitpos b1 > 7
                then b1\<lparr>bitpos := js_and (bitpos b1) 7, bytepos := bytepos b1 + 1\<rparr> else b1)
      in if \<not> ba_finished b2
         then bindE (getUint8 (ba_src b2) (bytepos b2)) (\<lambda>x. Inr (b2\<lparr>ba_byte := x\<rparr>))
         else Inr b2)"

definition ba_bits :: "bit_array \<Rightarrow> bool list" where
  "ba_bits b = drop (nat (bitpos b)) (msb_bits 8 (ba_byte b))
     @ bytes_bits (drop (Suc (nat (bytepos b))) (ba_src b))"

definition ba_ok :: "bit_array \<Rightarrow> bool" where
  "ba_ok b \<longleftrightarrow> 0 \<le> bitpos b \<and> bitpos b < 8 \<and> 0 \<le> bytepos b
     \<and> bytepos b < int (length (ba_src b)) \<and> ba_byte b = uint (ba_src b ! nat (bytepos b))"

lemma BitArray_ok:
  assumes "xs \<noteq> []"
  shows "\<exists>b. BitArray xs = Inr b \<and> ba_ok b \<and> ba_bits b = bytes_bits xs \<and> ba_src b = xs
    \<and> bitpos b = 0 \<and> bytepos b = 0"
proof -
  obtain x ys where xs: "xs = x # ys" using assms by (cases xs) auto
  then have "getUint8 xs 0 = Inr (uint x)" using getUint8_nth [of 0 xs] by simp
  then show ?thesis by (auto simp: BitArray_def ba_ok_def ba_bits_def xs bytes_bits_Cons)
qed

lemma length_ba_bits:
  "ba_ok b \<Longrightarrow> int (length (ba_bits b)) = 8 * (int (length (ba_src b)) - bytepos b) - bitpos b"
  by (auto simp: ba_ok_def ba_bits_def)

lemma js_and_1: "js_and x 1 = of_bool (odd x)"
  unfolding js_and_eq and_one_eq by (subst toInt32_id) (auto simp: mod_2_eq_odd)

lemma js_or_shl1:
  assumes "0 \<le> r" and "2 * r + 1 < 2 ^ 31"
  shows "js_or (js_shl r 1) (of_bool b) = 2 * r + of_bool b"
  using js_or_shl [of r "of_bool b" 1] assms by (simp add: mult.commute)

lemma ba_next_ok:
  assumes "ba_ok b" and "ba_bits b = x # y # rest" and "0 \<le> r" and "2 * r + 1 < 2 ^ 31"
  shows "\<exists>b'. ba_next r b = Inr (2 * r + of_bool x, b') \<and> ba_ok b' \<and> ba_bits b' = y # rest
    \<and> ba_src b' = ba_src b"
proof -
  define p where "p = nat (bitpos b)"
  define q where "q = nat (bytepos b)"
  have b: "bitpos b = int p" "p < 8" "bytepos b = int q" "q < length (ba_src b)"
      "ba_byte b = uint (ba_src b ! q)"
    using assms(1) by (auto simp: ba_ok_def p_def q_def)
  have "0 \<le> ba_byte b" "ba_byte b < 256" using b uint_lt2p [of "ba_src b ! q"] by auto
  then have t: "toInt32 (ba_byte b) = ba_byte b" by (intro toInt32_id) auto
  have p8: "8 - p = Suc (7 - p)" using b by simp
  have split: "ba_bits b = bit (ba_byte b) (7 - p) # msb_bits (7 - p) (ba_byte b)
      @ bytes_bits (drop (Suc q) (ba_src b))"
    using b by (simp add: ba_bits_def drop_msb_bits p8 msb_bits_Suc)
  then have x: "x = bit (ba_byte b) (7 - p)"
    and yr: "y # rest = msb_bits (7 - p) (ba_byte b) @ bytes_bits (drop (Suc q) (ba_src b))"
    using assms(2) by simp_all
  have dig: "js_and (js_sar (ba_byte b) (8 - (int p + 1))) 1 = of_bool x"
    using b t by (simp add: x js_and_1 js_sar_def bit_iff_odd nat_diff_distrib)
  show ?thesis
  proof (cases "p = 7")
    case True
    have "q + 1 < length (ba_src b)"
      using length_ba_bits [OF assms(1)] b assms(2) True by simp
    then have "getUint8 (ba_src b) (int q + 1) = Inr (uint (ba_src b ! (q + 1)))"
      using getUint8_nth [of "q + 1" "ba_src b"] by (simp add: add.commute)
    moreover have "js_and 8 7 = 0" by (simp add: js_and_def)
    moreover have "drop (Suc q) (ba_src b) = ba_src b ! (q + 1) # drop (Suc (q + 1)) (ba_src b)"
      using \<open>q + 1 < length (ba_src b)\<close> by (simp add: Cons_nth_drop_Suc)
    ultimately show ?thesis
      using b True dig yr js_or_shl1 [OF assms(3,4)] \<open>q + 1 < length (ba_src b)\<close>
      by (auto simp: ba_next_def Let_def ba_ok_def ba_bits_def bytes_bits_Cons nat_add_distrib)
  next
    case False
    then have "7 - p = 8 - Suc p" "nat (int p + 1) = Suc p" using b by auto
    then show ?thesis
      using b False dig yr js_or_shl1 [OF assms(3,4)]
      by (auto simp: ba_next_def Let_def ba_ok_def ba_bits_def drop_msb_bits)
  qed
qed

lemma ba_loop_ok:
  assumes "ba_ok b" and "n < length (ba_bits b)" and "0 \<le> r" and "(r + 1) * 2 ^ n \<le> 2 ^ 31"
  shows "\<exists>b'. ba_loop n r b = Inr (r * 2 ^ n + bits_val (take n (ba_bits b)), b') \<and> ba_ok b'
    \<and> ba_bits b' = drop n (ba_bits b) \<and> ba_src b' = ba_src b"
  using assms
proof (induction n arbitrary: r b)
  case (Suc n)
  obtain x y rest where bits: "ba_bits b = x # y # rest"
    using Suc.prems(2) by (metis Suc_length_conv list.size(3) not_less_zero list.exhaust length_Cons
        less_Suc_eq_0_disj)
  have "2 * r + 1 < 2 ^ 31"
  proof -
    have "(2 * r + 2) * 2 ^ n \<le> 2 ^ 31" using Suc.prems(4) by (simp add: algebra_simps)
    moreover have "(2 * r + 2) * 1 \<le> (2 * r + 2) * 2 ^ n" using Suc.prems(3) by (intro mult_left_mono) auto
    ultimately show ?thesis by simp
  qed
  then obtain b1 where b1: "ba_next r b = Inr (2 * r + of_bool x, b1)" "ba_ok b1"
      "ba_bits b1 = y # rest" "ba_src b1 = ba_src b"
    using ba_next_ok [OF Suc.prems(1) bits Suc.prems(3)] by auto
  have "(2 * r + of_bool x + 1) * 2 ^ n \<le> (2 * r + 2) * 2 ^ n" by (intro mult_right_mono) auto
  also have "\<dots> \<le> 2 ^ 31" using Suc.prems(4) by (simp add: algebra_simps)
  finally have "\<exists>b'. ba_loop n (2 * r + of_bool x) b1 =
      Inr ((2 * r + of_bool x) * 2 ^ n + bits_val (take n (ba_bits b1)), b') \<and> ba_ok b'
      \<and> ba_bits b' = drop n (ba_bits b1) \<and> ba_src b' = ba_src b1"
    using Suc.prems b1 bits by (intro Suc.IH) auto
  then show ?case
    using b1 bits Suc.prems(2) by (auto simp: bits_val_Cons algebra_simps)
qed simp

lemma ba_readBits_ok:
  assumes "ba_ok b" and "0 < n" and "n \<le> 31" and "n < length (ba_bits b)"
  shows "\<exists>b'. ba_readBits b (int n) = Inr (bits_val (take n (ba_bits b)), b') \<and> ba_ok b'
    \<and> ba_bits b' = drop n (ba_bits b) \<and> ba_src b' = ba_src b"
proof -
  have "toInt32 (int n) = int n" using assms by (intro toInt32_id) auto
  moreover have "(0 + 1) * 2 ^ n \<le> (2 :: int) ^ 31"
    using assms power_increasing [of n 31 "2::int"] by simp
  ultimately show ?thesis
    using ba_loop_ok [OF assms(1,4), of 0] assms by (simp add: ba_readBits_def)
qed

text \<open>The last bit of the array cannot be read: fetching the byte after it raises.\<close>

lemma ba_next_last:
  assumes "ba_ok b" and "ba_bits b = [x]"
  shows "ba_next r b = Inl RangeErr"
proof -
  have "8 * (int (length (ba_src b)) - bytepos b) - bitpos b = 1"
    using length_ba_bits [OF assms(1)] assms(2) by simp
  then have "bitpos b = 7" "bytepos b + 1 = int (length (ba_src b))"
    using assms(1) by (auto simp: ba_ok_def)
  then show ?thesis by (simp add: ba_next_def Let_def get_n_out)
qed


section \<open>What a client may assume of a bit reader\<close>

fun read_fields :: "('s \<Rightarrow> int \<Rightarrow> (int \<times> 's) result) \<Rightarrow> 's \<Rightarrow> nat list \<Rightarrow> (int list \<times> 's) result" where
  "read_fields rd s [] = Inr ([], s)"
| "read_fields rd s (n # ns) = bindE (rd s (int n)) (\<lambda>(v, s1).
     bindE (read_fields rd s1 ns) (\<lambda>(vs, s2). Inr (v # vs, s2)))"

definition field_bits :: "(nat \<times> int) list \<Rightarrow> bool list" where
  "field_bits fs = concat (map (\<lambda>(n, v). msb_bits n v) fs)"

definition field_ok :: "nat \<times> int \<Rightarrow> bool" where
  "field_ok f \<longleftrightarrow> 0 < fst f \<and> fst f \<le> 31 \<and> 0 \<le> snd f \<and> snd f < 2 ^ fst f"

text \<open>
  \<open>spare\<close> is what a reader insists on having left after a read: none for \<open>ExpGolomb\<close>, one bit for
  \<open>BitArray\<close>, which fetches the next byte eagerly.
\<close>

locale bit_source =
  fixes rd :: "'s \<Rightarrow> int \<Rightarrow> (int \<times> 's) result"
    and bits :: "'s \<Rightarrow> bool list"
    and ok :: "'s \<Rightarrow> bool"
    and spare :: nat
  assumes rd_ok: "ok s \<Longrightarrow> 0 < n \<Longrightarrow> n \<le> 31 \<Longrightarrow> n + spare \<le> length (bits s) \<Longrightarrow>
    \<exists>s'. rd s (int n) = Inr (bits_val (take n (bits s)), s') \<and> ok s' \<and> bits s' = drop n (bits s)"
begin

lemma rd_field:
  assumes "ok s" and "bits s = msb_bits n v @ rest" and "field_ok (n, v)" and "spare \<le> length rest"
  shows "\<exists>s'. rd s (int n) = Inr (v, s') \<and> ok s' \<and> bits s' = rest"
proof -
  have "bits_val (take n (bits s)) = v"
    using assms(2,3) by (simp add: bits_val_msb_bits field_ok_def take_bit_int_eq_self)
  then show ?thesis
    using rd_ok [OF assms(1), of n] assms(2-4) by (simp add: field_ok_def)
qed

lemma read_fields_field_bits:
  assumes "ok s" and "bits s = field_bits fs @ rest" and "list_all field_ok fs" and "spare \<le> length rest"
  shows "\<exists>s'. read_fields rd s (map fst fs) = Inr (map snd fs, s') \<and> ok s' \<and> bits s' = rest"
  using assms
proof (induction fs arbitrary: s)
  case Nil
  then show ?case by (simp add: field_bits_def)
next
  case (Cons f fs)
  obtain n v where f: "f = (n, v)" by (cases f)
  have "bits s = msb_bits n v @ (field_bits fs @ rest)"
    using Cons.prems(2) by (simp add: field_bits_def f)
  then obtain s1 where s1: "rd s (int n) = Inr (v, s1)" "ok s1" "bits s1 = field_bits fs @ rest"
    using rd_field [OF Cons.prems(1), of n v] Cons.prems(3,4) f by auto
  with Cons.IH [OF s1(2,3)] Cons.prems(3,4) show ?case by (auto simp: f)
qed

end

interpretation eg: bit_source readBits eg_bits eg_ok 0
proof unfold_locales
  fix s n
  assume "eg_ok s" "0 < n" "n \<le> 31" "n + 0 \<le> length (eg_bits s)"
  then show "\<exists>s'. readBits s (int n) = Inr (bits_val (take n (eg_bits s)), s') \<and> eg_ok s'
      \<and> eg_bits s' = drop n (eg_bits s)"
    using readBits_ok [of s n] by auto
qed

interpretation ba: bit_source ba_readBits ba_bits ba_ok 1
proof unfold_locales
  fix s n
  assume "ba_ok s" "0 < n" "n \<le> 31" "n + 1 \<le> length (ba_bits s)"
  then show "\<exists>s'. ba_readBits s (int n) = Inr (bits_val (take n (ba_bits s)), s') \<and> ba_ok s'
      \<and> ba_bits s' = drop n (ba_bits s)"
    using ba_readBits_ok [of s n] by auto
qed

section \<open>Byte-array helpers\<close>

definition appendByteArray :: "bytes \<Rightarrow> bytes \<Rightarrow> bytes result" where
  "appendByteArray buffer1 buffer2 =
     bindE (array_set (replicate (length buffer1 + length buffer2) 0) buffer1 0) (\<lambda>tmp.
       array_set tmp buffer2 (length buffer1))"

lemma appendByteArray_append [simp]: "appendByteArray xs ys = Inr (xs @ ys)"
  by (simp add: appendByteArray_def array_set_def)

text \<open>An element read past the end is \<open>undefined\<close>, which the bit operators read as 0.\<close>

definition elem0 :: "bytes \<Rightarrow> int \<Rightarrow> int" where
  "elem0 xs i = (if 0 \<le> i \<and> i < int (length xs) then uint (xs ! nat i) else 0)"

definition bitSlice :: "bytes \<Rightarrow> int \<Rightarrow> int \<Rightarrow> bytes" where
  "bitSlice bytearray start en =
     (let byteLen = - ((start - en) div 8);
          startByte = js_shr start 3;
          endByte = js_shr en 3 - 1;
          bitOffset = js_and start 7;
          nBitOffset = 8 - bitOffset;
          endOffset = js_and (8 - en) 7
      in map (\<lambda>i. let tail = (if i < endByte
                     then (let t = js_sar (elem0 bytearray (startByte + i + 1)) nBitOffset
                           in if i = endByte - 1 \<and> endOffset < 8
                              then js_shl (js_sar t endOffset) endOffset else t)
                     else 0)
                  in u8 (js_or (js_shl (elem0 bytearray (startByte + i)) bitOffset) tail))
           [0..byteLen - 1])"

text \<open>A byte-aligned slice of whole bytes copies them.\<close>

lemma elem0_nth: "i < length xs \<Longrightarrow> elem0 xs (int i) = uint (xs ! i)"
  by (simp add: elem0_def)

lemma bitSlice_aligned:
  assumes "8 * (a + n) < 2 ^ 31" and "a + n \<le> length xs"
  shows "bitSlice xs (int (8 * a)) (int (8 * (a + n))) = take n (drop a xs)"
proof -
  have len: "- ((int (8 * a) - int (8 * (a + n))) div 8) = int n"
    by (simp add: algebra_simps)
  have sb: "js_shr (int (8 * a)) 3 = int a"
    using assms by (simp add: js_shr_def toUint32_mod)
  have bo: "js_and (int (8 * a)) 7 = 0"
  proof -
    have "int (8 * a) AND 7 = int (8 * a) mod 2 ^ 3"
      using take_bit_eq_mask [of 3 "int (8 * a)"] by (simp add: take_bit_eq_mod mask_eq_exp_minus_1)
    then show ?thesis by (simp add: js_and_eq toInt32_id)
  qed
  have tail: "js_sar (elem0 xs i) 8 = 0" "js_or (js_shl (elem0 xs i) 0) 0 = elem0 xs i" for i
  proof -
    have "0 \<le> elem0 xs i" "elem0 xs i < 256"
      using uint_lt2p [of "xs ! nat i"] by (auto simp: elem0_def)
    then show "js_sar (elem0 xs i) 8 = 0" "js_or (js_shl (elem0 xs i) 0) 0 = elem0 xs i"
      by (simp_all add: js_sar_def js_shl_eq js_or_eq toInt32_id)
  qed
  have z: "js_shl (js_sar 0 k) k = 0" for k
    by (simp add: js_sar_def js_shl_eq toInt32_id)
  have "bitSlice xs (int (8 * a)) (int (8 * (a + n))) = map (\<lambda>i. u8 (elem0 xs (int a + i))) [0..int n - 1]"
    unfolding bitSlice_def Let_def len sb bo by (simp add: tail z cong: if_cong)
  also have "\<dots> = take n (drop a xs)"
    using assms(2) by (intro nth_equalityI) (auto simp: elem0_def u8_def nat_add_distrib)
  finally show ?thesis .
qed

text \<open>An unaligned slice loses a bit that belongs to it: the last bit of the 16 from bit 15 on.\<close>

lemma bitSlice_15_31: "bitSlice [0, 1, 0xff, 0xff] 15 31 = [0xff, 0xfe]"
  by code_simp

section \<open>Parsing a sequence of syntax elements\<close>

text \<open>\<open>skipBits\<close> needs one bit left behind it: it loads the next word eagerly.\<close>

lemma eg_shift_ok:
  assumes "eg_ok d" and "int n < bitsAvailable d"
    and "d' = d\<lparr>eg_word := shl_word (eg_word d) (int n), bitsAvailable := bitsAvailable d - int n\<rparr>"
  shows "eg_ok d' \<and> eg_bits d' = drop n (eg_bits d) \<and> eg_data d' = eg_data d"
proof -
  define B where "B = nat (bitsAvailable d)"
  have B: "bitsAvailable d = int B" "n < B" "B \<le> 32"
    using assms by (auto simp: eg_ok_def B_def)
  then have "nat (int n mod 32) = n" by (simp add: nat_mod_distrib)
  then show ?thesis
    using B assms(1,3) msb_bits_push [of n B "eg_word d"] by (auto simp: eg_bits_def eg_ok_def shl_word_def)
qed

lemma loadWord_word: "loadWord (d\<lparr>bitsAvailable := x, eg_word := y\<rparr>) = loadWord d"
  by (simp add: loadWord_def Let_def)

lemma skipBits_ok:
  assumes "eg_ok d" and "n < length (eg_bits d)" and "n < 2 ^ 31"
  shows "\<exists>d'. skipBits d (int n) = Inr d' \<and> eg_ok d' \<and> eg_bits d' = drop n (eg_bits d)
    \<and> eg_data d' = eg_data d"
proof (cases "int n < bitsAvailable d")
  case True
  then show ?thesis using eg_shift_ok [OF assms(1) True refl] by (simp add: skipBits_def)
next
  case False
  define B b m q where "B = nat (bitsAvailable d)" and "b = nat (bytesAvailable d)"
    and "m = n - B" and "q = m div 8"
  have B: "bitsAvailable d = int B" "bytesAvailable d = int b" "B \<le> n" "b \<le> length (eg_data d)"
    using assms(1) False by (auto simp: eg_ok_def B_def b_def)
  have len: "n < B + 8 * b" using assms(2) length_eg_bits [OF assms(1)] B by simp
  then have q: "q < b" using B by (auto simp: q_def m_def)
  have m: "int n - int B = int m" using B by (simp add: m_def of_nat_diff)
  have m31: "toInt32 (int m) = int m" using assms(3) by (intro toInt32_id) (auto simp: m_def)
  have sq: "js_sar (int m) 3 = int q" using m31 by (simp add: js_sar_def q_def zdiv_int)
  have "toInt32 (int q * 8) = int q * 8"
    using assms(3) by (intro toInt32_id) (auto simp: q_def m_def)
  then have sh: "js_shl (int q) 3 = int q * 8" by (simp add: js_shl_eq)
  have mq: "int m - int q * 8 = int (m mod 8)"
    unfolding q_def by (metis minus_mult_div_eq_mod mult.commute of_nat_numeral zdiv_int zmod_int)
  have bq: "int b - int q = int (b - q)" using q by (simp add: of_nat_diff)
  define d0 where "d0 = d\<lparr>bytesAvailable := int (b - q), bitsAvailable := 0, eg_word := 0\<rparr>"
  have "eg_ok d0" "0 < bytesAvailable d0" using assms(1) B q by (auto simp: d0_def eg_ok_def)
  then obtain d1 where d1': "loadWord d0 = Inr d1" "eg_ok d1"
      "eg_bits d1 = bytes_bits (drop (length (eg_data d0) - nat (bytesAvailable d0)) (eg_data d0))"
      "bitsAvailable d1 = 8 * min 4 (bytesAvailable d0)" "eg_data d1 = eg_data d0"
    by (rule loadWord_ok)
  then have d1: "loadWord d0 = Inr d1" "eg_ok d1" "bitsAvailable d1 = 8 * min 4 (int (b - q))"
      "eg_bits d1 = bytes_bits (drop (length (eg_data d) - (b - q)) (eg_data d))" "eg_data d1 = eg_data d"
    by (simp_all add: d0_def)
  have ld: "loadWord (d\<lparr>bytesAvailable := int (b - q)\<rparr>) = Inr d1"
    using d1(1) unfolding d0_def loadWord_word .
  have "m mod 8 < 8" by simp
  moreover have "8 \<le> bitsAvailable d1" using d1(3) q by (simp add: min_def)
  ultimately have "int (m mod 8) < bitsAvailable d1" by linarith
  note sh1 = eg_shift_ok [OF d1(2) this refl]
  have "skipBits d (int n) = Inr (d1\<lparr>eg_word := shl_word (eg_word d1) (int (m mod 8)),
      bitsAvailable := bitsAvailable d1 - int (m mod 8)\<rparr>)"
    using False B ld by (simp add: skipBits_def Let_def m sq sh mq bq)
  moreover have "drop (m mod 8) (eg_bits d1) = drop n (eg_bits d)"
  proof -
    have dd: "drop (length (eg_data d) - (b - q)) (eg_data d) = drop q (drop (length (eg_data d) - b) (eg_data d))"
      using B q by (simp add: add.commute)
    have drop8: "bytes_bits (drop k xs) = drop (8 * k) (bytes_bits xs)" for k xs
      by (cases "k \<le> length xs")
        (metis append_take_drop_id bytes_bits_append append_eq_conv_conj length_bytes_bits length_take min.absorb2,
         simp)
    have "drop n (eg_bits d) = drop m (bytes_bits (drop (length (eg_data d) - b) (eg_data d)))"
      using B by (simp add: eg_bits_def m_def)
    also have "m = m mod 8 + 8 * q" by (simp add: q_def)
    finally show ?thesis unfolding d1(4) dd unfolding drop8 [of q] unfolding drop_drop by simp
  qed
  ultimately show ?thesis using sh1 d1(5) by auto
qed

text \<open>A parsing step reads (or skips) a code when it consumes exactly that code from the front and
  something follows.\<close>

definition eg_reads :: "(exp_golomb \<Rightarrow> ('a \<times> exp_golomb) result) \<Rightarrow> bool list \<Rightarrow> 'a \<Rightarrow> bool" where
  "eg_reads rd bs v \<longleftrightarrow> (\<forall>d rest. eg_ok d \<longrightarrow> eg_bits d = bs @ rest \<longrightarrow> rest \<noteq> [] \<longrightarrow>
     (\<exists>d'. rd d = Inr (v, d') \<and> eg_ok d' \<and> eg_bits d' = rest))"

definition eg_skips :: "(exp_golomb \<Rightarrow> exp_golomb result) \<Rightarrow> bool list \<Rightarrow> bool" where
  "eg_skips rd bs \<longleftrightarrow> (\<forall>d rest. eg_ok d \<longrightarrow> eg_bits d = bs @ rest \<longrightarrow> rest \<noteq> [] \<longrightarrow>
     (\<exists>d'. rd d = Inr d' \<and> eg_ok d' \<and> eg_bits d' = rest))"

lemma eg_readsD:
  "eg_reads rd bs v \<Longrightarrow> eg_ok d \<Longrightarrow> eg_bits d = bs @ rest \<Longrightarrow> rest \<noteq> [] \<Longrightarrow>
     \<exists>d'. rd d = Inr (v, d') \<and> eg_ok d' \<and> eg_bits d' = rest"
  by (simp add: eg_reads_def)

lemma eg_skipsD:
  "eg_skips rd bs \<Longrightarrow> eg_ok d \<Longrightarrow> eg_bits d = bs @ rest \<Longrightarrow> rest \<noteq> [] \<Longrightarrow>
     \<exists>d'. rd d = Inr d' \<and> eg_ok d' \<and> eg_bits d' = rest"
  by (simp add: eg_skips_def)

lemma eg_reads_return: "eg_reads (\<lambda>d. Inr (v, d)) [] v"
  by (simp add: eg_reads_def)

lemma eg_skips_return: "eg_skips Inr []"
  by (simp add: eg_skips_def)

lemma eg_reads_bind:
  assumes "eg_reads rd bs v" and "eg_reads (k v) cs w"
  shows "eg_reads (\<lambda>d. bindE (rd d) (\<lambda>(x, d'). k x d')) (bs @ cs) w"
  unfolding eg_reads_def
proof (intro allI impI)
  fix d rest
  assume a: "eg_ok d" "eg_bits d = (bs @ cs) @ rest" "rest \<noteq> []"
  then obtain d1 where "rd d = Inr (v, d1)" "eg_ok d1" "eg_bits d1 = cs @ rest"
    using eg_readsD [OF assms(1), of d "cs @ rest"] by auto
  with eg_readsD [OF assms(2), of d1 rest] a
  show "\<exists>d'. bindE (rd d) (\<lambda>(x, d'). k x d') = Inr (w, d') \<and> eg_ok d' \<and> eg_bits d' = rest" by auto
qed

lemma eg_reads_skip:
  assumes "eg_skips rd bs" and "eg_reads k cs w"
  shows "eg_reads (\<lambda>d. bindE (rd d) k) (bs @ cs) w"
  unfolding eg_reads_def
proof (intro allI impI)
  fix d rest
  assume a: "eg_ok d" "eg_bits d = (bs @ cs) @ rest" "rest \<noteq> []"
  then obtain d1 where "rd d = Inr d1" "eg_ok d1" "eg_bits d1 = cs @ rest"
    using eg_skipsD [OF assms(1), of d "cs @ rest"] by auto
  with eg_readsD [OF assms(2), of d1 rest] a
  show "\<exists>d'. bindE (rd d) k = Inr (w, d') \<and> eg_ok d' \<and> eg_bits d' = rest" by auto
qed

lemma eg_skips_bind:
  assumes "eg_reads rd bs v" and "eg_skips (k v) cs"
  shows "eg_skips (\<lambda>d. bindE (rd d) (\<lambda>(x, d'). k x d')) (bs @ cs)"
  unfolding eg_skips_def
proof (intro allI impI)
  fix d rest
  assume a: "eg_ok d" "eg_bits d = (bs @ cs) @ rest" "rest \<noteq> []"
  then obtain d1 where "rd d = Inr (v, d1)" "eg_ok d1" "eg_bits d1 = cs @ rest"
    using eg_readsD [OF assms(1), of d "cs @ rest"] by auto
  with eg_skipsD [OF assms(2), of d1 rest] a
  show "\<exists>d'. bindE (rd d) (\<lambda>(x, d'). k x d') = Inr d' \<and> eg_ok d' \<and> eg_bits d' = rest" by auto
qed

lemma eg_skips_seq:
  assumes "eg_skips rd bs" and "eg_skips k cs"
  shows "eg_skips (\<lambda>d. bindE (rd d) k) (bs @ cs)"
  unfolding eg_skips_def
proof (intro allI impI)
  fix d rest
  assume a: "eg_ok d" "eg_bits d = (bs @ cs) @ rest" "rest \<noteq> []"
  then obtain d1 where "rd d = Inr d1" "eg_ok d1" "eg_bits d1 = cs @ rest"
    using eg_skipsD [OF assms(1), of d "cs @ rest"] by auto
  with eg_skipsD [OF assms(2), of d1 rest] a
  show "\<exists>d'. bindE (rd d) k = Inr d' \<and> eg_ok d' \<and> eg_bits d' = rest" by auto
qed

lemma eg_reads_readBits:
  assumes "0 < n" and "n \<le> 31" and "length bs = n"
  shows "eg_reads (\<lambda>d. readBits d (int n)) bs (bits_val bs)"
  unfolding eg_reads_def
proof (intro allI impI)
  fix d rest
  assume a: "eg_ok d" "eg_bits d = bs @ rest" "rest \<noteq> []"
  with readBits_ok [OF a(1) assms(1,2)] assms(3)
  show "\<exists>d'. readBits d (int n) = Inr (bits_val bs, d') \<and> eg_ok d' \<and> eg_bits d' = rest" by auto
qed

lemma eg_reads_field:
  assumes "field_ok (n, v)"
  shows "eg_reads (\<lambda>d. readBits d (int n)) (msb_bits n v) v"
proof -
  have "bits_val (msb_bits n v) = v"
    using assms by (simp add: bits_val_msb_bits field_ok_def take_bit_int_eq_self)
  with eg_reads_readBits [of n "msb_bits n v"] assms show ?thesis by (simp add: field_ok_def)
qed

lemma eg_reads_readBoolean: "eg_reads readBoolean [b] b"
proof -
  have "bits_val [b] = of_bool b" by (simp add: bits_val_def)
  with eg_reads_readBits [of 1 "[b]"] show ?thesis
    by (fastforce simp: eg_reads_def readBoolean_def)
qed

lemma eg_skips_skipBits:
  assumes "length bs = n" and "n < 2 ^ 31"
  shows "eg_skips (\<lambda>d. skipBits d (int n)) bs"
  unfolding eg_skips_def
proof (intro allI impI)
  fix d rest
  assume a: "eg_ok d" "eg_bits d = bs @ rest" "rest \<noteq> []"
  then have "n < length (eg_bits d)" using assms(1) by simp
  from skipBits_ok [OF a(1) this assms(2)] a(2) assms(1)
  show "\<exists>d'. skipBits d (int n) = Inr d' \<and> eg_ok d' \<and> eg_bits d' = rest" by auto
qed

lemma eg_reads_readUEG: "n < 2 ^ 31 - 1 \<Longrightarrow> eg_reads readUEG (ue_bits n) (int n)"
  unfolding eg_reads_def using readUEG_ue_bits by blast

lemma ue_bits_split:
  "\<exists>bs. ue_bits n = replicate (length bs) False @ True # bs \<and> num_bits (Suc n) = True # bs"
  using num_bits_True [of "Suc n"] by (auto simp: ue_bits_def)

lemma eg_skips_skipUEG: "n < 2 ^ 31 - 1 \<Longrightarrow> eg_skips skipUEG (ue_bits n)"
  unfolding eg_skips_def
proof (intro allI impI)
  fix d rest
  assume n: "n < 2 ^ 31 - 1" and a: "eg_ok d" "eg_bits d = ue_bits n @ rest" "rest \<noteq> []"
  obtain bs where bs: "ue_bits n = replicate (length bs) False @ True # bs" "num_bits (Suc n) = True # bs"
    using ue_bits_split by blast
  have "length (num_bits (Suc n)) \<le> 31" using n by (intro length_num_bits) simp
  then have len: "Suc (length bs) < 2 ^ 31" by (simp add: bs)
  obtain d1 where d1: "skipLZ d = Inr (int (length bs), d1)" "eg_ok d1" "eg_bits d1 = True # bs @ rest"
    using skipLZ_ok [OF a(1), of "length bs" "bs @ rest"] a(2) bs by auto
  have "Suc (length bs) < length (eg_bits d1)" using d1(3) a(3) by simp
  from skipBits_ok [OF d1(2) this len] d1
  show "\<exists>d'. skipUEG d = Inr d' \<and> eg_ok d' \<and> eg_bits d' = rest"
    by (auto simp: skipUEG_def add.commute)
qed

lemma skipEG_eq: "skipEG = skipUEG"
  by (simp add: fun_eq_iff skipEG_def skipUEG_def)

text \<open>Signed codes: positive numbers take the odd code numbers, the others the even ones.\<close>

definition se_num :: "int \<Rightarrow> nat" where
  "se_num v = nat (if 0 < v then 2 * v - 1 else - 2 * v)"

definition se_bits :: "int \<Rightarrow> bool list" where
  "se_bits v = ue_bits (se_num v)"

lemma eg_reads_readEG:
  assumes "\<bar>v\<bar> < 2 ^ 30"
  shows "eg_reads readEG (se_bits v) v"
  unfolding eg_reads_def
proof (intro allI impI)
  fix d rest
  assume a: "eg_ok d" "eg_bits d = se_bits v @ rest" "rest \<noteq> []"
  let ?n = "int (se_num v)"
  have n: "0 \<le> ?n" "?n < 2 ^ 31 - 1" and n': "se_num v < 2 ^ 31 - 1"
    using assms by (auto simp: se_num_def)
  obtain d' where d': "readUEG d = Inr (?n, d')" "eg_ok d'" "eg_bits d' = rest"
    using eg_readsD [OF eg_reads_readUEG [OF n'], of d rest] a by (auto simp: se_bits_def)
  have and1: "js_and 1 ?n = of_bool (odd ?n)"
    using js_and_1 [of ?n] by (simp add: js_and_def and.commute)
  have sh: "js_shr (1 + ?n) 1 = (1 + ?n) div 2" "js_shr ?n 1 = ?n div 2"
    using n by (simp_all add: js_shr_def toUint32_mod)
  have "(if js_and 1 ?n \<noteq> 0 then js_shr (1 + ?n) 1 else - 1 * js_shr ?n 1) = v"
    unfolding and1 sh by (auto simp: se_num_def)
  then show "\<exists>d'. readEG d = Inr (v, d') \<and> eg_ok d' \<and> eg_bits d' = rest"
    using d' by (auto simp: readEG_def split: if_splits)
qed

section \<open>What the readers are for\<close>

fun read_codes :: "exp_golomb \<Rightarrow> nat \<Rightarrow> (int list \<times> exp_golomb) result" where
  "read_codes d 0 = Inr ([], d)"
| "read_codes d (Suc k) = bindE (readUEG d) (\<lambda>(v, d1).
     bindE (read_codes d1 k) (\<lambda>(vs, d2). Inr (v # vs, d2)))"

lemma read_codes_ok:
  assumes "eg_ok d" "eg_bits d = concat (map ue_bits ns) @ rest" "list_all (\<lambda>n. n < 2 ^ 31 - 1) ns"
  shows "\<exists>d'. read_codes d (length ns) = Inr (map int ns, d') \<and> eg_bits d' = rest"
  using assms
proof (induction ns arbitrary: d)
  case (Cons n ns)
  from Cons.prems obtain d1 where "readUEG d = Inr (int n, d1)" "eg_ok d1"
    "eg_bits d1 = concat (map ue_bits ns) @ rest"
    using readUEG_ue_bits [of d n "concat (map ue_bits ns) @ rest"] by auto
  with Cons.IH [of d1] Cons.prems(3) show ?case by auto
qed simp

text \<open>C31: A sequence of unsigned Exp-Golomb codes written into a byte string, at any bit alignment and
  with anything behind it, is read back number by number by \<^verbatim>\<open>readUEG\<close>, and the reader stands right
  behind the last code.\<close>

theorem golomb_codes_roundtrip:
  assumes "bytes_bits xs = concat (map ue_bits ns) @ rest" "list_all (\<lambda>n. n < 2 ^ 31 - 1) ns"
  shows "\<exists>d. read_codes (ExpGolomb xs) (length ns) = Inr (map int ns, d) \<and> eg_bits d = rest"
  using read_codes_ok [OF eg_ok_ExpGolomb [of xs] _ assms(2), of rest] assms(1) by (simp add: eg_bits_ExpGolomb)

lemma golomb_codes_roundtrip_witness:
  "\<exists>d. read_codes (ExpGolomb [0xA6, 0x42, 0x98]) 5 = Inr (map int [0, 1, 2, 3, 4], d) \<and> eg_bits d = [False, False, True, True, False, False, False]"
proof -
  have "bytes_bits [0xA6, 0x42, 0x98] = concat (map ue_bits [0, 1, 2, 3, 4]) @ [False, False, True, True, False, False, False]" by code_simp
  moreover have "length [0, 1, 2, 3, 4 :: nat] = 5" "list_all (\<lambda>n. n < 2 ^ 31 - 1) [0, 1, 2, 3, 4 :: nat]" by simp_all
  ultimately show ?thesis using golomb_codes_roundtrip by metis
qed

text \<open>C32: Fixed-width fields of up to 31 bits, packed without regard to byte boundaries, are read back
  by both bit readers of the player: by \<^verbatim>\<open>ExpGolomb\<close> (video parameter sets) and, when one more bit
  follows, by \<^verbatim>\<open>BitArray\<close> (audio configuration and access unit headers).\<close>

theorem bit_fields_roundtrip:
  assumes "bytes_bits xs = field_bits fs @ rest" "list_all field_ok fs" "rest \<noteq> []"
  shows "(\<exists>d. read_fields readBits (ExpGolomb xs) (map fst fs) = Inr (map snd fs, d) \<and> eg_bits d = rest)
    \<and> (\<exists>b b'. BitArray xs = Inr b \<and> read_fields ba_readBits b (map fst fs) = Inr (map snd fs, b') \<and> ba_bits b' = rest)"
proof (intro conjI)
  show "\<exists>d. read_fields readBits (ExpGolomb xs) (map fst fs) = Inr (map snd fs, d) \<and> eg_bits d = rest"
    using eg.read_fields_field_bits [OF eg_ok_ExpGolomb [of xs] _ assms(2)] assms(1) by (auto simp: eg_bits_ExpGolomb)
  have "xs \<noteq> []" using assms(1,3) by auto
  from BitArray_ok [OF this] obtain b where "BitArray xs = Inr b" "ba_ok b" "ba_bits b = bytes_bits xs" by blast
  moreover have "1 \<le> length rest" using assms(3) by (cases rest) auto
  ultimately show "\<exists>b b'. BitArray xs = Inr b \<and> read_fields ba_readBits b (map fst fs) = Inr (map snd fs, b') \<and> ba_bits b' = rest"
    using ba.read_fields_field_bits [of b fs rest] assms(1,2) by auto
qed

lemma bit_fields_roundtrip_witness:
  "(\<exists>d. read_fields readBits (ExpGolomb [0x12, 0x10]) [5, 4, 4] = Inr ([2, 4, 2], d) \<and> eg_bits d = [False, False, False])
    \<and> (\<exists>b b'. BitArray [0x12, 0x10] = Inr b \<and> read_fields ba_readBits b [5, 4, 4] = Inr ([2, 4, 2], b')
        \<and> ba_bits b' = [False, False, False])"
proof -
  have "bytes_bits [0x12, 0x10] = field_bits [(5, 2), (4, 4), (4, 2)] @ [False, False, False]" by code_simp
  from bit_fields_roundtrip [OF this] show ?thesis by (simp add: field_ok_def)
qed

text \<open>C38: Asking \<^verbatim>\<open>ExpGolomb.readBits\<close> for more bits than the data holds does not return a value and
  does not reach the guard of \<^verbatim>\<open>loadWord\<close>: the function calls itself until the stack is exhausted. With
  enough bits it always returns.\<close>

theorem readBits_total_iff:
  assumes "0 < n" "n \<le> 31"
  shows "(\<exists>v d. readBits (ExpGolomb xs) (int n) = Inr (v, d)) = (n \<le> 8 * length xs)
    \<and> (8 * length xs < n \<longrightarrow> readBits (ExpGolomb xs) (int n) = Inl CallStackExceeded)"
proof (cases "n \<le> 8 * length xs")
  case True
  then show ?thesis
    using eg.rd_ok [OF eg_ok_ExpGolomb [of xs] assms] by (auto simp: eg_bits_ExpGolomb)
next
  case False
  then show ?thesis
    using readBits_exhausted [OF eg_ok_ExpGolomb [of xs] assms(1)] by (simp add: eg_bits_ExpGolomb)
qed

lemma readBits_total_iff_witness:
  "(\<exists>v d. readBits (ExpGolomb [0xff, 0x00]) (int 16) = Inr (v, d)) \<and> readBits (ExpGolomb [0xff, 0x00]) (int 17) = Inl CallStackExceeded"
  using readBits_total_iff [of 16 "[0xff, 0x00]"] readBits_total_iff [of 17 "[0xff, 0x00]"] by simp

end
