(* ===== verification/JsText.thy ===== *)
theory JsText
  imports JsBase "HOL-Library.AList"
begin

text \<open>
  The strings, regular expressions and objects of the player's text protocols (RTSP, SDP, URLs).

  \<^item> A string is a list of characters with codes below 256; the protocols are ASCII.
  \<^item> A regular expression of the code is a value of type \<open>re\<close>; \<open>re_run\<close> lists its matches at the
    front of a string in the order in which a backtracking engine tries them, with the captured
    groups. All repetitions in the code repeat one character class.
  \<^item> An object used as a dictionary is an association list in insertion order, updated with
    \<open>AList.update\<close> as an assignment does.
\<close>

section \<open>Characters and numerals\<close>

definition ch_code :: "char \<Rightarrow> nat" where
  "ch_code c = of_char c"

definition is_digit :: "char \<Rightarrow> bool" where
  "is_digit c \<longleftrightarrow> 48 \<le> ch_code c \<and> ch_code c \<le> 57"

definition is_space :: "char \<Rightarrow> bool" where
  "is_space c \<longleftrightarrow> ch_code c \<in> {9, 10, 11, 12, 13, 32, 160}"

definition is_alpha :: "char \<Rightarrow> bool" where
  "is_alpha c \<longleftrightarrow> 65 \<le> ch_code c \<and> ch_code c \<le> 90 \<or> 97 \<le> ch_code c \<and> ch_code c \<le> 122"

definition lower_char :: "char \<Rightarrow> char" where
  "lower_char c = (if 65 \<le> ch_code c \<and> ch_code c \<le> 90 then char_of (ch_code c + 32) else c)"

definition upper_char :: "char \<Rightarrow> char" where
  "upper_char c = (if 97 \<le> ch_code c \<and> ch_code c \<le> 122 then char_of (ch_code c - 32) else c)"

definition toLowerCase :: "string \<Rightarrow> string" where
  "toLowerCase s = map lower_char s"

definition toUpperCase :: "string \<Rightarrow> string" where
  "toUpperCase s = map upper_char s"

definition js_trim :: "string \<Rightarrow> string" where
  "js_trim s = rev (dropWhile is_space (rev (dropWhile is_space s)))"

text \<open>\<^verbatim>\<open>n.toString(radix)\<close> of a whole number.\<close>

definition digit_char :: "nat \<Rightarrow> char" where
  "digit_char d = char_of (if d < 10 then 48 + d else 87 + d)"

fun nat_str :: "nat \<Rightarrow> nat \<Rightarrow> string" where
  "nat_str b n = (if b < 2 \<or> n < b then [digit_char n]
     else nat_str b (n div b) @ [digit_char (n mod b)])"

declare nat_str.simps [simp del]

definition int_str :: "int \<Rightarrow> string" where
  "int_str n = (if n < 0 then CHR ''-'' # nat_str 10 (nat (- n)) else nat_str 10 (nat n))"

text \<open>The digit a character stands for (36 if none), and \<^verbatim>\<open>parseInt\<close>: \<open>None\<close> is NaN.\<close>

definition char_digit :: "char \<Rightarrow> nat" where
  "char_digit c = (if is_digit c then ch_code c - 48
     else if is_alpha c then ch_code (lower_char c) - 87 else 36)"

definition digits_val :: "nat \<Rightarrow> string \<Rightarrow> int" where
  "digits_val b s = foldl (\<lambda>a c. a * int b + int (char_digit c)) 0 s"

definition parseInt :: "string \<Rightarrow> nat \<Rightarrow> int option" where
  "parseInt str radix =
     (let s = dropWhile is_space str;
          neg = (take 1 s = ''-'');
          s1 = (if take 1 s = ''-'' \<or> take 1 s = ''+'' then drop 1 s else s);
          hex = (radix \<in> {0, 16} \<and> toLowerCase (take 2 s1) = ''0x'');
          s2 = (if hex then drop 2 s1 else s1);
          b = (if hex then 16 else if radix = 0 then 10 else radix);
          ds = takeWhile (\<lambda>c. char_digit c < b) s2
      in if ds = [] then None else Some (if neg then - digits_val b ds else digits_val b ds))"

text \<open>\<^verbatim>\<open>Number(s)\<close> of the decimal forms the protocols use: an optional sign, digits, an optional
  fraction. Anything else is \<open>None\<close> (NaN); exponents and radix prefixes do not occur in these
  headers and are left out.\<close>

definition js_Number :: "string \<Rightarrow> rat option" where
  "js_Number str =
     (let s = js_trim str;
          neg = (take 1 s = ''-'');
          s1 = (if take 1 s = ''-'' \<or> take 1 s = ''+'' then drop 1 s else s);
          ip = takeWhile is_digit s1;
          r1 = drop (length ip) s1;
          fp = (if take 1 r1 = ''.'' then takeWhile is_digit (drop 1 r1) else []);
          r2 = (if take 1 r1 = ''.'' then drop (Suc (length fp)) r1 else r1);
          v = of_int (digits_val 10 (ip @ fp)) / 10 ^ length fp
      in if s = [] then Some 0
         else if ip @ fp = [] \<or> r2 \<noteq> [] then None
         else Some (if neg then - v else v))"

lemma digits_val_Nil [simp]: "digits_val b [] = 0"
  by (simp add: digits_val_def)

lemma digits_val_snoc [simp]: "digits_val b (s @ [c]) = digits_val b s * int b + int (char_digit c)"
  by (simp add: digits_val_def)

lemma ch_code_char_of [simp]: "n < 256 \<Longrightarrow> ch_code (char_of n) = n"
  by (simp add: ch_code_def)

lemma char_digit_digit_char [simp]: "d < 36 \<Longrightarrow> char_digit (digit_char d) = d"
  by (simp add: char_digit_def digit_char_def is_digit_def is_alpha_def lower_char_def)

lemma digits_val_nat_str: "2 \<le> b \<Longrightarrow> b \<le> 36 \<Longrightarrow> digits_val b (nat_str b n) = int n"
proof (induction b n rule: nat_str.induct)
  case (1 b n)
  show ?case
  proof (cases "n < b")
    case True
    with 1 have "nat_str b n = [] @ [digit_char n]" by (simp add: nat_str.simps)
    with True 1 show ?thesis by (simp del: append_Nil)
  next
    case False
    have "n mod b < 36" using 1(2,3) mod_less_divisor [of b n] by linarith
    with False 1 have "digits_val b (nat_str b n) = int (n div b) * int b + int (n mod b)"
      by (subst nat_str.simps) simp
    then show ?thesis by (simp add: zdiv_int zmod_int)
  qed
qed

lemma nat_str_digits: "2 \<le> b \<Longrightarrow> b \<le> 36 \<Longrightarrow> c \<in> set (nat_str b n) \<Longrightarrow> char_digit c < b"
proof (induction b n rule: nat_str.induct)
  case (1 b n)
  have "n mod b < b" "n mod b < 36"
    using 1(2,3) mod_less_divisor [of b n] by linarith+
  with 1 show ?case
    by (subst (asm) (2) nat_str.simps) (auto split: if_splits)
qed

lemma nat_str_nonempty [simp]: "nat_str b n \<noteq> []"
  by (subst nat_str.simps) simp

lemma nat_str_is_digit: "c \<in> set (nat_str 10 n) \<Longrightarrow> is_digit c"
  using nat_str_digits [of 10 c n] by (auto simp: char_digit_def split: if_splits)
    (auto simp: is_alpha_def lower_char_def split: if_splits)

lemma is_digit_not_space: "is_digit c \<Longrightarrow> \<not> is_space c"
  by (auto simp: is_digit_def is_space_def)

lemma js_trim_id: "s = [] \<or> \<not> is_space (hd s) \<and> \<not> is_space (last s) \<Longrightarrow> js_trim s = s"
  unfolding js_trim_def
  by (metis dropWhile.simps(1) dropWhile_eq_self_iff hd_rev rev_is_Nil_conv rev_rev_ident)

lemma js_Number_nat_str: "js_Number (nat_str 10 n) = Some (of_nat n)"
proof -
  let ?s = "nat_str 10 n"
  have dig: "\<forall>c \<in> set ?s. is_digit c" by (auto intro: nat_str_is_digit)
  then have "js_trim ?s = ?s"
    by (intro js_trim_id) (metis hd_in_set last_in_set nat_str_nonempty is_digit_not_space)
  moreover have "takeWhile is_digit ?s = ?s" using dig by (simp add: takeWhile_eq_all_conv)
  moreover obtain c cs where c: "?s = c # cs" by (cases ?s) auto
  with dig have "is_digit c" by simp
  then have "c \<noteq> CHR ''-''" "c \<noteq> CHR ''+''" by (auto simp: is_digit_def ch_code_def)
  ultimately show ?thesis
    using c digits_val_nat_str [of 10 n] by (simp add: js_Number_def Let_def)
qed

section \<open>Splitting and joining\<close>

text \<open>\<^verbatim>\<open>s.split(sep)\<close> for a non-empty separator; \<open>cur\<close> is the piece being collected.\<close>

fun split_acc :: "string \<Rightarrow> string \<Rightarrow> string \<Rightarrow> nat \<Rightarrow> string list" where
  "split_acc sep cur [] k = [cur]"
| "split_acc sep cur (c # cs) (Suc k) = split_acc sep cur cs k"
| "split_acc sep cur (c # cs) 0 =
     (if take (length sep) (c # cs) = sep then cur # split_acc sep [] cs (length sep - 1)
      else split_acc sep (cur @ [c]) cs 0)"

definition js_split :: "string \<Rightarrow> string \<Rightarrow> string list" where
  "js_split s sep = split_acc sep [] s 0"

fun js_join :: "string list \<Rightarrow> string \<Rightarrow> string" where
  "js_join [] sep = []"
| "js_join [x] sep = x"
| "js_join (x # y # xs) sep = x @ sep @ js_join (y # xs) sep"

definition indexOf_char :: "string \<Rightarrow> char \<Rightarrow> nat option" where
  "indexOf_char s c = (let n = length (takeWhile (\<lambda>d. d \<noteq> c) s) in if n < length s then Some n else None)"

text \<open>Whether \<open>sep\<close> occurs in \<open>s\<close>.\<close>

fun occurs :: "string \<Rightarrow> string \<Rightarrow> bool" where
  "occurs sep [] \<longleftrightarrow> sep = []"
| "occurs sep (c # cs) \<longleftrightarrow> take (length sep) (c # cs) = sep \<or> occurs sep cs"

lemma split_acc_skip: "split_acc sep cur xs k = split_acc sep cur (drop k xs) 0"
  by (induction sep cur xs k rule: split_acc.induct) auto

lemma split_acc_nonempty [simp]: "split_acc sep cur s k \<noteq> []"
  by (induction sep cur s k rule: split_acc.induct) auto

lemma split_acc_cur:
  "split_acc sep cur s 0 = (cur @ hd (split_acc sep [] s 0)) # tl (split_acc sep [] s 0)"
proof (induction s arbitrary: cur)
  case (Cons c cs)
  show ?case
  proof (cases "take (length sep) (c # cs) = sep")
    case False
    then show ?thesis
      using Cons.IH [of "cur @ [c]"] Cons.IH [of "[c]"] by simp
  qed simp
qed simp

lemma js_split_sep:
  assumes "sep \<noteq> []"
  shows "js_split (sep @ s) sep = [] # js_split s sep"
proof -
  obtain c cs where "sep = c # cs" using assms by (cases sep) auto
  then show ?thesis by (simp add: js_split_def split_acc_skip [of _ _ "cs @ s"])
qed

lemma js_split_no_sep: "sep \<noteq> [] \<Longrightarrow> \<not> occurs sep s \<Longrightarrow> js_split s sep = [s]"
proof -
  assume a: "sep \<noteq> []" "\<not> occurs sep s"
  have "split_acc sep cur s 0 = [cur @ s]" for cur
    using a by (induction s arbitrary: cur) auto
  then show ?thesis by (simp add: js_split_def)
qed

text \<open>Joining the pieces with the separator gives the string back.\<close>

lemma js_join_Cons: "xs \<noteq> [] \<Longrightarrow> js_join (x # xs) sep = x @ sep @ js_join xs sep"
  by (cases xs) auto

lemma js_join_split_acc:
  "sep \<noteq> [] \<Longrightarrow> js_join (split_acc sep cur s k) sep = cur @ drop k s"
proof (induction sep cur s k rule: split_acc.induct)
  case (3 sep cur c cs)
  show ?case
  proof (cases "take (length sep) (c # cs) = sep")
    case True
    then have "js_join (split_acc sep cur (c # cs) 0) sep = cur @ sep @ drop (length sep - 1) cs"
      using 3 by (simp add: js_join_Cons)
    moreover have "c # cs = sep @ drop (length sep - 1) cs"
      using True 3(3) by (metis append_take_drop_id drop_Cons' length_0_conv)
    ultimately show ?thesis by simp
  next
    case False
    with 3 show ?thesis by simp
  qed
qed simp_all

lemma js_join_split: "sep \<noteq> [] \<Longrightarrow> js_join (js_split s sep) sep = s"
  by (simp add: js_split_def js_join_split_acc)

text \<open>Splitting at one character is undone by joining pieces that do not contain it.\<close>

lemma js_split_char_acc:
  "c \<notin> set u \<Longrightarrow> split_acc [c] cur (u @ s) 0 = split_acc [c] (cur @ u) s 0"
  by (induction u arbitrary: cur) auto

lemma js_split_char:
  "c \<notin> set u \<Longrightarrow> js_split (u @ c # s) [c] = u # js_split s [c]"
  by (simp add: js_split_def js_split_char_acc)

lemma js_split_char_none: "c \<notin> set u \<Longrightarrow> js_split u [c] = [u]"
  using js_split_char_acc [of c u "[]" "[]"] by (simp add: js_split_def)

lemma js_split_join_char:
  "xs \<noteq> [] \<Longrightarrow> \<forall>x \<in> set xs. c \<notin> set x \<Longrightarrow> js_split (js_join xs [c]) [c] = xs"
proof (induction xs)
  case (Cons x xs)
  then show ?case
    by (cases "xs = []") (auto simp: js_join_Cons js_split_char js_split_char_none)
qed simp

lemma indexOf_char_append:
  "c \<notin> set u \<Longrightarrow> indexOf_char (u @ c # s) c = Some (length u)"
proof -
  assume "c \<notin> set u"
  then have "takeWhile (\<lambda>d. d \<noteq> c) (u @ c # s) = u" by (induction u) auto
  then show ?thesis by (simp add: indexOf_char_def)
qed

lemma indexOf_char_None: "indexOf_char s c = None \<longleftrightarrow> c \<notin> set s"
  by (induction s) (auto simp: indexOf_char_def Let_def split: if_splits)

section \<open>Dictionaries\<close>

lemma update_fresh: "k \<notin> fst ` set al \<Longrightarrow> AList.update k v al = al @ [(k, v)]"
  by (induction al) auto

end
