(* ===== verification/H264.thy ===== *)
theory H264
  imports Bits Mp4 JsText
begin

text \<open>
  H.264: the classes \<^verbatim>\<open>NALU\<close>, \<^verbatim>\<open>H264Parser\<close> and \<^verbatim>\<open>NALUAsm\<close> of \<^verbatim>\<open>rtsp.dev.js\<close>. A NAL unit
  keeps its payload without the header byte; \<open>NALU_getData\<close> writes it length-prefixed, as MP4 wants it.
  \<open>readSPS\<close> parses a sequence parameter set; the assembler puts NAL units together from RTP payloads
  (single units, aggregation packets, fragmentation units).
\<close>

section \<open>NAL units\<close>

datatype nal_kind = NDR | SLICE_PART_A | SLICE_PART_B | SLICE_PART_C | IDR | SEI | SPS | PPS
  | DELIMITER | EOSEQ | EOSTR | FILTER | STAP_A | STAP_B | FU_A | FU_B

fun nal_code :: "nal_kind \<Rightarrow> int" where
  "nal_code NDR = 1"
| "nal_code SLICE_PART_A = 2"
| "nal_code SLICE_PART_B = 3"
| "nal_code SLICE_PART_C = 4"
| "nal_code IDR = 5"
| "nal_code SEI = 6"
| "nal_code SPS = 7"
| "nal_code PPS = 8"
| "nal_code DELIMITER = 9"
| "nal_code EOSEQ = 10"
| "nal_code EOSTR = 11"
| "nal_code FILTER = 12"
| "nal_code STAP_A = 24"
| "nal_code STAP_B = 25"
| "nal_code FU_A = 28"
| "nal_code FU_B = 29"

record nalu =
  n_type :: int
  n_nri :: int
  n_data :: bytes
  n_dts :: rat
  n_pts :: rat
  n_sliceType :: "int option"

text \<open>\<^verbatim>\<open>pts ? pts : this.dts\<close>: a missing or zero presentation time is the decoding time.\<close>

definition pts_or_dts :: "rat option \<Rightarrow> rat \<Rightarrow> rat" where
  "pts_or_dts pts dts = (case pts of None \<Rightarrow> dts | Some p \<Rightarrow> if p = 0 then dts else p)"

definition NALU :: "int \<Rightarrow> int \<Rightarrow> bytes \<Rightarrow> rat \<Rightarrow> rat option \<Rightarrow> nalu" where
  "NALU ntype nri data dts pts = \<lparr>n_type = ntype, n_nri = nri, n_data = data, n_dts = dts,
     n_pts = pts_or_dts pts dts, n_sliceType = None\<rparr>"

definition NALU_TYPES :: "int \<Rightarrow> string option" where
  "NALU_TYPES t = map_of [(nal_code IDR, ''IDR''), (nal_code SEI, ''SEI''), (nal_code SPS, ''SPS''),
     (nal_code PPS, ''PPS''), (nal_code NDR, ''NDR'')] t"

definition NALU_type_name :: "nalu \<Rightarrow> string" where
  "NALU_type_name u = (case NALU_TYPES (n_type u) of Some s \<Rightarrow> s | None \<Rightarrow> ''UNKNOWN'')"

definition NALU_appendData :: "nalu \<Rightarrow> bytes \<Rightarrow> nalu result" where
  "NALU_appendData u idata = bindE (appendByteArray (n_data u) idata) (\<lambda>data. Inr (u\<lparr>n_data := data\<rparr>))"

definition NALU_getNri :: "nalu \<Rightarrow> int" where
  "NALU_getNri u = js_sar (n_nri u) 5"

definition NALU_isKeyframe :: "nalu \<Rightarrow> bool" where
  "NALU_isKeyframe u \<longleftrightarrow> n_type u = nal_code IDR \<or> n_sliceType u = Some 7"

definition NALU_getSize :: "nalu \<Rightarrow> int" where
  "NALU_getSize u = 4 + 1 + int (length (n_data u))"

definition NALU_getData :: "nalu \<Rightarrow> bytes" where
  "NALU_getData u = be32 (int (length (n_data u)) + 1)
     @ [u8 (js_or (js_or (js_and 0 0x80) (js_and (n_nri u) 0x60)) (js_and (n_type u) 0x1F))]
     @ n_data u"

lemma length_NALU_getData: "int (length (NALU_getData u)) = NALU_getSize u"
  by (simp add: NALU_getData_def NALU_getSize_def)

section \<open>Parameter sets\<close>

fun scaling_loop :: "nat \<Rightarrow> int \<Rightarrow> int \<Rightarrow> exp_golomb \<Rightarrow> exp_golomb result" where
  "scaling_loop 0 lastScale nextScale d = Inr d"
| "scaling_loop (Suc j) lastScale nextScale d =
     (if nextScale \<noteq> 0 then
        bindE (readEG d) (\<lambda>(deltaScale, d1).
          let next' = js_rem (lastScale + deltaScale + 256) 256
          in scaling_loop j (if next' = 0 then lastScale else next') next' d1)
      else scaling_loop j (if nextScale = 0 then lastScale else nextScale) nextScale d)"

definition skipScalingList :: "exp_golomb \<Rightarrow> nat \<Rightarrow> exp_golomb result" where
  "skipScalingList d count = scaling_loop count 8 8 d"

text \<open>\<open>readSPS\<close> in the order of its sections. The extension of the high profiles:\<close>

definition sps_has_chroma :: "int \<Rightarrow> bool" where
  "sps_has_chroma profileIdc \<longleftrightarrow> profileIdc = 100 \<or> profileIdc = 110 \<or> profileIdc = 122
     \<or> profileIdc = 244 \<or> profileIdc = 44 \<or> profileIdc = 83 \<or> profileIdc = 86 \<or> profileIdc = 118
     \<or> profileIdc = 128"

definition sps_scaling_list :: "exp_golomb \<Rightarrow> nat \<Rightarrow> exp_golomb result" where
  "sps_scaling_list d i = bindE (readBoolean d) (\<lambda>(present, d1).
     if present then if i < 6 then skipScalingList d1 16 else skipScalingList d1 64 else Inr d1)"

definition sps_chroma :: "exp_golomb \<Rightarrow> exp_golomb result" where
  "sps_chroma d =
     bindE (readUEG d) (\<lambda>(chromaFormatIdc, d).
     bindE (if chromaFormatIdc = 3 then skipBits d 1 else Inr d) (\<lambda>d.
     bindE (skipUEG d) (\<lambda>d.
     bindE (skipUEG d) (\<lambda>d.
     bindE (skipBits d 1) (\<lambda>d.
     bindE (readBoolean d) (\<lambda>(matrix, d).
     if matrix then foldE sps_scaling_list d [0..<(if chromaFormatIdc \<noteq> 3 then 8 else 12)]
     else Inr d))))))"

fun skip_ref_frames :: "nat \<Rightarrow> exp_golomb \<Rightarrow> exp_golomb result" where
  "skip_ref_frames 0 d = Inr d"
| "skip_ref_frames (Suc n) d = bindE (skipEG d) (skip_ref_frames n)"

definition sps_poc :: "exp_golomb \<Rightarrow> exp_golomb result" where
  "sps_poc d =
     bindE (readUEG d) (\<lambda>(picOrderCntType, d).
     if picOrderCntType = 0 then bindE (readUEG d) (\<lambda>(_, d). Inr d)
     else if picOrderCntType = 1 then
       bindE (skipBits d 1) (\<lambda>d.
       bindE (skipEG d) (\<lambda>d.
       bindE (skipEG d) (\<lambda>d.
       bindE (readUEG d) (\<lambda>(n, d). skip_ref_frames (nat n) d))))
     else Inr d)"

definition sps_cropping :: "exp_golomb \<Rightarrow> ((int \<times> int \<times> int \<times> int) \<times> exp_golomb) result" where
  "sps_cropping d = bindE (readBoolean d) (\<lambda>(cropping, d).
     if cropping then
       bindE (readUEG d) (\<lambda>(cropLeft, d).
       bindE (readUEG d) (\<lambda>(cropRight, d).
       bindE (readUEG d) (\<lambda>(cropTop, d).
       bindE (readUEG d) (\<lambda>(cropBottom, d). Inr ((cropLeft, cropRight, cropTop, cropBottom), d)))))
     else Inr ((0, 0, 0, 0), d))"

definition sar_table :: "(int \<times> int \<times> int) list" where
  "sar_table = [(1, 1, 1), (2, 12, 11), (3, 10, 11), (4, 16, 11), (5, 40, 33), (6, 24, 11),
     (7, 20, 11), (8, 32, 11), (9, 80, 33), (10, 18, 11), (11, 15, 11), (12, 64, 33),
     (13, 160, 99), (14, 4, 3), (15, 3, 2), (16, 2, 1)]"

text \<open>The sample aspect ratio; \<open>None\<close> is a quotient that is not a finite number (a zero height).\<close>

definition sar_scale :: "int \<Rightarrow> int \<Rightarrow> rat option" where
  "sar_scale w h = (if h = 0 then None else Some (js_div (of_int w) (of_int h)))"

definition sps_aspect :: "exp_golomb \<Rightarrow> (rat option \<times> exp_golomb) result" where
  "sps_aspect d = bindE (readBoolean d) (\<lambda>(present, d).
     if \<not> present then Inr (Some 1, d) else
     bindE (readUByte d) (\<lambda>(aspectRatioIdc, d).
     case map_of sar_table aspectRatioIdc of
       Some (w, h) \<Rightarrow> Inr (sar_scale w h, d)
     | None \<Rightarrow>
         if aspectRatioIdc = 255 then
           bindE (readUByte d) (\<lambda>(w1, d).
           bindE (readUByte d) (\<lambda>(w0, d).
           bindE (readUByte d) (\<lambda>(h1, d).
           bindE (readUByte d) (\<lambda>(h0, d).
             Inr (sar_scale (js_or (js_shl w1 8) w0) (js_or (js_shl h1 8) h0), d)))))
         else Inr (Some 1, d)))"

definition sps_overscan :: "exp_golomb \<Rightarrow> exp_golomb result" where
  "sps_overscan d = bindE (readBoolean d) (\<lambda>(present, d). if present then skipBits d 1 else Inr d)"

definition sps_video_signal :: "exp_golomb \<Rightarrow> exp_golomb result" where
  "sps_video_signal d = bindE (readBoolean d) (\<lambda>(present, d).
     if present then bindE (skipBits d 4) (\<lambda>d. bindE (readBoolean d) (\<lambda>(colour, d).
       if colour then skipBits d 24 else Inr d))
     else Inr d)"

definition sps_chroma_loc :: "exp_golomb \<Rightarrow> exp_golomb result" where
  "sps_chroma_loc d = bindE (readBoolean d) (\<lambda>(present, d).
     if present then bindE (skipUEG d) skipUEG else Inr d)"

definition sps_timing :: "exp_golomb \<Rightarrow> exp_golomb result" where
  "sps_timing d = bindE (readBoolean d) (\<lambda>(present, d).
     if present then
       bindE (readUInt d) (\<lambda>(unitsInTick, d).
       bindE (readUInt d) (\<lambda>(timeScale, d).
       bindE (readBoolean d) (\<lambda>(fixedFrameRate, d). Inr d)))
     else Inr d)"

definition sps_vui :: "exp_golomb \<Rightarrow> (rat option \<times> exp_golomb) result" where
  "sps_vui d = bindE (readBoolean d) (\<lambda>(vui, d).
     if vui then
       bindE (sps_aspect d) (\<lambda>(sarScale, d).
       bindE (sps_overscan d) (\<lambda>d.
       bindE (sps_video_signal d) (\<lambda>d.
       bindE (sps_chroma_loc d) (\<lambda>d.
       bindE (sps_timing d) (\<lambda>d. Inr (sarScale, d))))))
     else Inr (Some 1, d))"

record sps_config =
  cfg_width :: "int option"
  cfg_height :: int

definition sps_width :: "int \<Rightarrow> int \<Rightarrow> int \<Rightarrow> rat \<Rightarrow> int" where
  "sps_width widthMbs1 cropLeft cropRight sarScale =
     \<lceil>js_mul (of_int ((widthMbs1 + 1) * 16 - cropLeft * 2 - cropRight * 2)) sarScale\<rceil>"

definition sps_height :: "int \<Rightarrow> int \<Rightarrow> int \<Rightarrow> int \<Rightarrow> int" where
  "sps_height frameMbsOnlyFlag heightMap1 cropTop cropBottom =
     (2 - frameMbsOnlyFlag) * (heightMap1 + 1) * 16
     - (if frameMbsOnlyFlag \<noteq> 0 then 2 else 4) * (cropTop + cropBottom)"

definition readSPS_elems :: "exp_golomb \<Rightarrow> (sps_config \<times> exp_golomb) result" where
  "readSPS_elems d =
     bindE (readUByte d) (\<lambda>(_, d).
     bindE (readUByte d) (\<lambda>(profileIdc, d).
     bindE (readBits d 5) (\<lambda>(profileCompat, d).
     bindE (skipBits d 3) (\<lambda>d.
     bindE (readUByte d) (\<lambda>(levelIdc, d).
     bindE (skipUEG d) (\<lambda>d.
     bindE (if sps_has_chroma profileIdc then sps_chroma d else Inr d) (\<lambda>d.
     bindE (skipUEG d) (\<lambda>d.
     bindE (sps_poc d) (\<lambda>d.
     bindE (skipUEG d) (\<lambda>d.
     bindE (skipBits d 1) (\<lambda>d.
     bindE (readUEG d) (\<lambda>(picWidthInMbsMinus1, d).
     bindE (readUEG d) (\<lambda>(picHeightInMapUnitsMinus1, d).
     bindE (readBits d 1) (\<lambda>(frameMbsOnlyFlag, d).
     bindE (if frameMbsOnlyFlag = 0 then skipBits d 1 else Inr d) (\<lambda>d.
     bindE (skipBits d 1) (\<lambda>d.
     bindE (sps_cropping d) (\<lambda>((cropLeft, cropRight, cropTop, cropBottom), d).
     bindE (sps_vui d) (\<lambda>(sarScale, d).
       Inr (\<lparr>cfg_width = map_option (sps_width picWidthInMbsMinus1 cropLeft cropRight) sarScale,
             cfg_height = sps_height frameMbsOnlyFlag picHeightInMapUnitsMinus1 cropTop cropBottom\<rparr>, d)
     ))))))))))))))))))"

definition readSPS :: "bytes \<Rightarrow> sps_config result" where
  "readSPS data = bindE (readSPS_elems (ExpGolomb data)) (\<lambda>(config, _). Inr config)"

definition readSliceType :: "exp_golomb \<Rightarrow> (int \<times> exp_golomb) result" where
  "readSliceType d = bindE (readUByte d) (\<lambda>(_, d). bindE (readUEG d) (\<lambda>(_, d). readUEG d))"

definition parceSliceHeader :: "bytes \<Rightarrow> int result" where
  "parceSliceHeader data =
     bindE (readUEG (ExpGolomb data)) (\<lambda>(first_mb, d).
     bindE (readUEG d) (\<lambda>(slice_type, d).
     bindE (readUEG d) (\<lambda>(ppsid, d).
     bindE (readUByte d) (\<lambda>(frame_num, d). Inr slice_type))))"

section \<open>The parser: which units are pushed, when the track is ready\<close>

record h264_parser =
  hp_track :: mp4_track
  hp_firstFound :: bool
  hp_ready :: bool          \<comment> \<open>\<^verbatim>\<open>remuxer.readyToDecode\<close>\<close>

text \<open>\<^verbatim>\<open>msToScaled\<close>, with the remuxer's time offset and scale factor.\<close>

definition msToScaled :: "rat \<Rightarrow> rat \<Rightarrow> rat \<Rightarrow> rat" where
  "msToScaled timeOffset scaleFactor timestamp = js_mul (js_sub timestamp timeOffset) scaleFactor"

definition hex2 :: "byte \<Rightarrow> string" where
  "hex2 b = (let h = nat_str 16 (unat b) in if length h < 2 then CHR ''0'' # h else h)"

text \<open>A size that is not a finite number behaves as 0 under the bit operators that store it.
  The codec string takes three bytes through a view of four, which must lie inside the set.\<close>

definition parseSPS :: "mp4_track \<Rightarrow> bytes \<Rightarrow> mp4_track result" where
  "parseSPS track sps =
     bindE (readSPS sps) (\<lambda>config.
     if length sps < 5 then Inl RangeErr
     else Inr (track\<lparr>t_width := (case cfg_width config of Some w \<Rightarrow> w | None \<Rightarrow> 0),
       t_height := cfg_height config, t_sps := [sps],
       t_codec := ''avc1.'' @ concat (map hex2 (take 3 (drop 1 sps)))\<rparr>))"

definition parsePPS :: "mp4_track \<Rightarrow> bytes \<Rightarrow> mp4_track" where
  "parsePPS track pps = track\<lparr>t_pps := [pps]\<rparr>"

text \<open>\<^verbatim>\<open>if (!readyToDecode && track.pps && track.sps) readyToDecode = true\<close>\<close>

definition check_ready :: "h264_parser \<Rightarrow> h264_parser" where
  "check_ready p = (if \<not> hp_ready p \<and> t_pps (hp_track p) \<noteq> [] \<and> t_sps (hp_track p) \<noteq> []
     then p\<lparr>hp_ready := True\<rparr> else p)"

text \<open>The SEI branch only reads the message for a log line, and raises when it is cut short:
  payload type, the 255-terminated size, then a view that is clamped.\<close>

fun sei_size :: "bytes \<Rightarrow> int result" where
  "sei_size [] = Inl RangeErr"
| "sei_size (sz # bs) = (if uint sz = 255 then bindE (sei_size bs) (\<lambda>n. Inr (255 + n)) else Inr (uint sz))"

definition read_SEI :: "bytes \<Rightarrow> (int \<times> int) result" where
  "read_SEI data = bindE (getUint8 data 0) (\<lambda>pay_type.
     bindE (sei_size (drop 1 data)) (\<lambda>pay_size. Inr (pay_type, pay_size)))"

text \<open>\<open>parseNAL\<close> returns the unit as well: its slice type is set on the object.  The last
  statement turns an undecided (\<^verbatim>\<open>null\<close>) answer into a push of a reference unit; the caller only
  tests the answer for truth, so \<^verbatim>\<open>null\<close> and \<^verbatim>\<open>false\<close> are both \<open>False\<close>.\<close>

definition parseNAL :: "h264_parser \<Rightarrow> nalu \<Rightarrow> (bool \<times> nalu \<times> h264_parser) result" where
  "parseNAL p unt =
     (let t = n_type unt in
      if t = nal_code NDR \<or> t = nal_code IDR then
        bindE (parceSliceHeader (n_data unt)) (\<lambda>st.
          let u = unt\<lparr>n_sliceType := Some st\<rparr>;
              p1 = (if NALU_isKeyframe u \<and> \<not> hp_firstFound p then p\<lparr>hp_firstFound := True\<rparr> else p)
          in Inr (hp_firstFound p1, u, p1))
      else if t = nal_code PPS then
        Inr (False, unt, if t_pps (hp_track p) = []
          then check_ready (p\<lparr>hp_track := parsePPS (hp_track p) (drop 4 (NALU_getData unt))\<rparr>) else p)
      else if t = nal_code SPS then
        (if t_sps (hp_track p) = []
         then bindE (parseSPS (hp_track p) (drop 4 (NALU_getData unt))) (\<lambda>track.
           Inr (False, unt, check_ready (p\<lparr>hp_track := track\<rparr>)))
         else Inr (False, unt, p))
      else if t = nal_code SEI then
        bindE (read_SEI (n_data unt)) (\<lambda>_. Inr (False, unt, p))
      else if t = nal_code EOSEQ \<or> t = nal_code EOSTR then Inr (False, unt, p)
      else Inr (NALU_getNri unt > 0, unt, p))"

section \<open>The assembler\<close>

type_synonym nalu_asm = "nalu option"   \<comment> \<open>\<^verbatim>\<open>fragmented_nalu\<close>\<close>

definition parseNALHeader :: "int \<Rightarrow> int \<times> int" where
  "parseNALHeader hdr = (js_and hdr 0x60, js_and hdr 0x1F)"

definition parseSingleNALUPacket :: "bytes \<Rightarrow> int \<times> int \<Rightarrow> rat \<Rightarrow> rat option \<Rightarrow> nalu" where
  "parseSingleNALUPacket rawData header dts pts = NALU (snd header) (fst header) rawData dts pts"

text \<open>The aggregation loop from \<open>nal_start_idx\<close>: a 16-bit size, a header byte, then as many bytes
  as the size says \<^emph>\<open>after\<close> the header. Each turn moves on by at least three bytes.\<close>

function aggregation_loop :: "bytes \<Rightarrow> nat \<Rightarrow> rat \<Rightarrow> rat option \<Rightarrow> nalu list result" where
  "aggregation_loop raw idx dts pts =
     (if idx < length raw then
        bindE (getUint16 raw (int idx)) (\<lambda>size.
        bindE (getUint8 raw (int idx + 2)) (\<lambda>hdr.
          let start = idx + 3;
              nalu = parseSingleNALUPacket (subarray raw (int start) (int start + size))
                (parseNALHeader hdr) dts pts
          in bindE (aggregation_loop raw (start + nat size) dts pts) (\<lambda>ret. Inr (nalu # ret))))
      else Inr [])"
  by pat_completeness auto
termination
  by (relation "measure (\<lambda>(raw, idx, dts, pts). length raw - idx)") auto

declare aggregation_loop.simps [simp del]

definition parseAggregationPacket :: "bytes \<Rightarrow> int \<times> int \<Rightarrow> rat \<Rightarrow> rat option \<Rightarrow> nalu list result" where
  "parseAggregationPacket raw header dts pts =
     (if nal_code STAP_B = snd header
      then bindE (getUint16 raw 0) (\<lambda>don. aggregation_loop raw 2 dts pts)
      else aggregation_loop raw 0 dts pts)"

definition parseFragmentationUnit ::
  "nalu_asm \<Rightarrow> bytes \<Rightarrow> int \<times> int \<Rightarrow> rat \<Rightarrow> rat option \<Rightarrow> (nalu option \<times> nalu_asm) result" where
  "parseFragmentationUnit asm raw header dts pts =
     bindE (getUint8 raw 0) (\<lambda>fu_header.
       let is_start = (js_shr (js_and fu_header 0x80) 7 \<noteq> 0);
           is_end = (js_shr (js_and fu_header 0x40) 6 \<noteq> 0);
           payload_type = js_and fu_header 0x1F
       in bindE (if nal_code FU_B = snd header then bindE (getUint16 raw 1) (\<lambda>don. Inr 3) else Inr 1)
          (\<lambda>nal_start_idx.
            let data = drop nal_start_idx raw;
                asm1 = (if is_start then Some (NALU payload_type (fst header) data dts pts) else asm)
            in case asm1 of
                 None \<Rightarrow> Inr (None, None)
               | Some u \<Rightarrow>
                   if n_type u = payload_type then
                     bindE (if \<not> is_start then NALU_appendData u data else Inr u) (\<lambda>u1.
                       if is_end then Inr (Some u1, None) else Inr (None, Some u1))
                   else Inr (None, Some u)))"

definition onNALUFragment :: "nalu_asm \<Rightarrow> bytes \<Rightarrow> rat \<Rightarrow> rat option \<Rightarrow> (nalu list option \<times> nalu_asm) result" where
  "onNALUFragment asm raw dts pts =
     bindE (getUint8 raw 0) (\<lambda>hdr.
       let header = parseNALHeader hdr; t = snd header; body = drop 1 raw in
       if t > 0 \<and> t < 24 then Inr (Some [parseSingleNALUPacket body header dts pts], asm)
       else if t = nal_code FU_A \<or> t = nal_code FU_B then
         bindE (parseFragmentationUnit asm body header dts pts) (\<lambda>(unt, asm1).
           Inr (map_option (\<lambda>u. [u]) unt, asm1))
       else if t = nal_code STAP_A \<or> t = nal_code STAP_B then
         bindE (parseAggregationPacket body header dts pts) (\<lambda>us. Inr (Some us, asm))
       else Inr (None, asm))"

section \<open>Length-prefixed units\<close>

text \<open>A reader of the format \<open>NALU_getData\<close> writes: 32-bit length, header byte, payload. It returns
  reference bits, type and payload.\<close>

definition write_unit :: "int \<times> int \<times> bytes \<Rightarrow> bytes" where
  "write_unit = (\<lambda>(nri, ty, data). NALU_getData (NALU ty nri data 0 None))"

definition read_unit :: "bytes \<Rightarrow> ((int \<times> int \<times> bytes) \<times> bytes) option" where
  "read_unit xs = (let n = nat (be_val (take 4 xs)) in
     if n = 0 \<or> length xs < 4 + n then None
     else let (nri, ty) = parseNALHeader (uint (xs ! 4))
          in Some ((nri, ty, take (n - 1) (drop 5 xs)), drop (4 + n) xs))"

definition unit_ok :: "int \<times> int \<times> bytes \<Rightarrow> bool" where
  "unit_ok = (\<lambda>(nri, ty, data). nri \<in> {0, 0x20, 0x40, 0x60} \<and> 0 \<le> ty \<and> ty < 32
     \<and> length data + 1 < 2 ^ 32)"

definition nal_header :: "int \<Rightarrow> int \<Rightarrow> byte" where
  "nal_header nri ty = u8 (js_or (js_or (js_and 0 0x80) (js_and nri 0x60)) (js_and ty 0x1F))"

lemma js_and_mask5: "0 \<le> ty \<Longrightarrow> ty < 32 \<Longrightarrow> js_and ty 0x1F = ty"
proof -
  assume a: "0 \<le> ty" "ty < 32"
  have "ty AND 0x1F = take_bit 5 ty" by (simp add: take_bit_eq_mask mask_eq_exp_minus_1)
  also have "\<dots> = ty" using a by (intro take_bit_int_eq_self) auto
  finally show ?thesis using a by (simp add: js_and_eq toInt32_id)
qed

lemma header_value:
  assumes "nri \<in> {0, 0x20, 0x40, 0x60}" and "0 \<le> ty" and "ty < 32"
  shows "uint (nal_header nri ty) = nri + ty"
proof -
  have n: "js_or (js_and 0 0x80) (js_and nri 0x60) = nri"
    using assms(1) by (auto simp: js_or_def js_and_def)
  have "nri div 32 * 2 ^ 5 OR ty = nri div 32 * 2 ^ 5 + ty"
    using assms by (intro or_shift_plus) auto
  moreover have "nri div 32 * 2 ^ 5 = nri" using assms(1) by auto
  ultimately have "js_or nri ty = nri + ty"
    using assms by (auto simp: js_or_eq toInt32_id)
  then have "uint (nal_header nri ty) = (nri + ty) mod 256"
    using assms by (simp add: nal_header_def n js_and_mask5 uint_u8)
  then show ?thesis using assms by auto
qed

lemma parseNALHeader_header:
  assumes "nri \<in> {0, 0x20, 0x40, 0x60}" and "0 \<le> ty" and "ty < 32"
  shows "parseNALHeader (uint (nal_header nri ty)) = (nri, ty)"
proof -
  have m5: "(nri + ty) AND 0x1F = ty"
  proof -
    have "(nri + ty) AND 0x1F = (nri + ty) mod 2 ^ 5"
      using take_bit_eq_mask [of 5 "nri + ty"] by (simp add: take_bit_eq_mod mask_eq_exp_minus_1)
    also have "\<dots> = (nri mod 32 + ty) mod 32" by (simp add: mod_simps)
    also have "\<dots> = ty" using assms by auto
    finally show ?thesis .
  qed
  have "\<forall>t \<in> set (map int [0..<32]). \<forall>n \<in> set [0, 0x20, 0x40, 0x60]. (n + t) AND 0x60 = n" by code_simp
  moreover have "ty \<in> set (map int [0..<32])"
    using assms by (auto intro: image_eqI [of _ _ "nat ty"])
  ultimately have m7: "(nri + ty) AND 0x60 = nri" using assms(1) by auto
  show ?thesis using assms
    by (auto simp: header_value parseNALHeader_def js_and_eq m5 m7 toInt32_id)
qed

lemma NALU_getData_header: "NALU_getData u = be32 (int (length (n_data u)) + 1)
    @ nal_header (n_nri u) (n_type u) # n_data u"
  by (simp add: NALU_getData_def nal_header_def)

interpretation nal_unit: chunk_codec write_unit read_unit unit_ok
proof unfold_locales
  fix x :: "int \<times> int \<times> bytes" and rest
  assume ok: "unit_ok x"
  obtain nri ty data where x: "x = (nri, ty, data)" by (cases x)
  have w: "write_unit x @ rest = be32 (int (length data) + 1) @ nal_header nri ty # data @ rest"
    by (simp add: write_unit_def x NALU_getData_header NALU_def)
  have "be_val (be32 (int (length data) + 1)) = int (length data) + 1"
    unfolding be_val_be32 using ok by (intro mod_pos_pos_trivial) (auto simp: unit_ok_def x)
  moreover have "take 4 (be32 (int (length data) + 1) @ ys) = be32 (int (length data) + 1)"
    "drop (4 + k) (be32 (int (length data) + 1) @ ys) = drop k ys"
    "(be32 (int (length data) + 1) @ y # ys) ! 4 = y" for ys y k
    by (simp_all add: nth_append)
  moreover have "parseNALHeader (uint (nal_header nri ty)) = (nri, ty)"
    using ok by (intro parseNALHeader_header) (auto simp: unit_ok_def x)
  moreover have "nat (int (length data) + 1) = Suc (length data)" by simp
  ultimately show "read_unit (write_unit x @ rest) = Some (x, rest)"
    unfolding w read_unit_def Let_def by (simp add: x nth_append)
next
  fix x show "write_unit x \<noteq> []" by (auto simp: write_unit_def NALU_getData_header split: prod.splits)
qed

section \<open>Fragmentation units\<close>

text \<open>The sender's side (RFC 6184, 5.8): indicator, fragment header with the start and end bits, a
  piece of the payload.\<close>

definition fu_packet :: "int \<Rightarrow> int \<Rightarrow> bool \<Rightarrow> bool \<Rightarrow> bytes \<Rightarrow> bytes" where
  "fu_packet nri ty s e piece =
     [u8 (nri + 28), u8 ((if s then 0x80 else 0) + (if e then 0x40 else 0) + ty)] @ piece"

fun asm_run :: "nalu_asm \<Rightarrow> bytes list \<Rightarrow> rat \<Rightarrow> (nalu list option list \<times> nalu_asm) result" where
  "asm_run asm [] dts = Inr ([], asm)"
| "asm_run asm (p # ps) dts = bindE (onNALUFragment asm p dts None) (\<lambda>(us, asm1).
     bindE (asm_run asm1 ps dts) (\<lambda>(uss, asm2). Inr (us # uss, asm2)))"

lemma asm_run_append:
  "asm_run asm (ps @ qs) dts = bindE (asm_run asm ps dts) (\<lambda>(us, asm1).
     bindE (asm_run asm1 qs dts) (\<lambda>(vs, asm2). Inr (us @ vs, asm2)))"
proof (induction ps arbitrary: asm)
  case Nil
  show ?case by (cases "asm_run asm qs dts") auto
next
  case (Cons p ps)
  show ?case
  proof (cases "onNALUFragment asm p dts None")
    case (Inr r)
    obtain us asm1 where r: "r = (us, asm1)" by (cases r)
    show ?thesis
      by (cases "asm_run asm1 ps dts") (auto simp: Inr r Cons bindE_assoc split: prod.splits
          intro!: bindE_cong)
  qed simp
qed

lemma fu_bits:
  assumes "0 \<le> ty" and "ty < 32"
  shows "uint (u8 ((if s then 0x80 else 0) + (if e then 0x40 else 0) + ty))
      = (if s then 0x80 else 0) + (if e then 0x40 else 0) + ty"
    and "(js_shr (js_and ((if s then 0x80 else 0) + (if e then 0x40 else 0) + ty) 0x80) 7 \<noteq> 0) = s"
    and "(js_shr (js_and ((if s then 0x80 else 0) + (if e then 0x40 else 0) + ty) 0x40) 6 \<noteq> 0) = e"
    and "js_and ((if s then 0x80 else 0) + (if e then 0x40 else 0) + ty) 0x1F = ty"
proof -
  let ?h = "\<lambda>s e t. (if s then 0x80 else 0) + (if e then 0x40 else 0) + (t :: int)"
  have all: "\<forall>t \<in> set (map int [0..<32]). \<forall>s \<in> set [True, False]. \<forall>e \<in> set [True, False].
      uint (u8 (?h s e t)) = ?h s e t \<and> (js_shr (js_and (?h s e t) 0x80) 7 \<noteq> 0) = s
      \<and> (js_shr (js_and (?h s e t) 0x40) 6 \<noteq> 0) = e \<and> js_and (?h s e t) 0x1F = t" by code_simp
  have "ty \<in> set (map int [0..<32])" using assms by (auto intro: image_eqI [of _ _ "nat ty"])
  then have "uint (u8 (?h s e ty)) = ?h s e ty \<and> (js_shr (js_and (?h s e ty) 0x80) 7 \<noteq> 0) = s
      \<and> (js_shr (js_and (?h s e ty) 0x40) 6 \<noteq> 0) = e \<and> js_and (?h s e ty) 0x1F = ty"
    by (intro all [THEN bspec, THEN bspec, THEN bspec]) (cases s; cases e; simp)+
  then show "uint (u8 (?h s e ty)) = ?h s e ty" "(js_shr (js_and (?h s e ty) 0x80) 7 \<noteq> 0) = s"
    "(js_shr (js_and (?h s e ty) 0x40) 6 \<noteq> 0) = e" "js_and (?h s e ty) 0x1F = ty" by blast+
qed

lemma fu_step:
  assumes "nri \<in> {0, 0x20, 0x40, 0x60}" and "0 \<le> ty" and "ty < 32"
  shows "onNALUFragment asm (fu_packet nri ty s e piece) dts None =
    (let asm1 = (if s then Some (NALU ty nri piece dts None) else asm) in
     case asm1 of None \<Rightarrow> Inr (None, None)
     | Some u \<Rightarrow> if n_type u = ty then
           let u1 = (if s then u else u\<lparr>n_data := n_data u @ piece\<rparr>)
           in if e then Inr (Some [u1], None) else Inr (None, Some u1)
         else Inr (None, Some u))"
proof -
  have h: "uint (u8 (nri + 28)) = nri + 28" using assms(1) by (auto simp: uint_u8)
  have "u8 (nri + 28) = nal_header nri 28"
    using header_value [of nri 28] assms(1) h by (simp add: word_uint_eq_iff)
  then have hdr: "parseNALHeader (uint (u8 (nri + 28))) = (nri, 28)"
    using parseNALHeader_header [of nri 28] assms(1) by simp
  have g0: "getUint8 (b # bs) 0 = Inr (uint b)" for b bs
    using getUint8_nth [of 0 "b # bs"] by simp
  have d1: "drop 1 (b # bs) = bs" for b :: byte and bs by simp
  note fu = fu_bits [OF assms(2,3), of s e]
  show ?thesis
    unfolding fu_packet_def append_Cons append_Nil onNALUFragment_def g0 bindE.simps Let_def hdr
      parseFragmentationUnit_def d1
    by (auto simp only: g0 fu) (auto simp: NALU_appendData_def NALU_def g0 fu split: option.splits)
qed

text \<open>A unit cut into two or more pieces comes out of the assembler, once, with the last piece,
  whatever the assembler held before.\<close>

definition fu_packets :: "int \<Rightarrow> int \<Rightarrow> bytes \<Rightarrow> bytes list \<Rightarrow> bytes \<Rightarrow> bytes list" where
  "fu_packets nri ty first mid final = fu_packet nri ty True False first
     # map (fu_packet nri ty False False) mid @ [fu_packet nri ty False True final]"

lemma fu_middle:
  assumes "nri \<in> {0, 0x20, 0x40, 0x60}" and "0 \<le> ty" and "ty < 32" and "n_type u = ty"
  shows "asm_run (Some u) (map (fu_packet nri ty False False) mid) dts
    = Inr (replicate (length mid) None, Some (u\<lparr>n_data := n_data u @ concat mid\<rparr>))"
  using assms(4)
proof (induction mid arbitrary: u)
  case (Cons m mid)
  then show ?case by (simp add: fu_step [OF assms(1-3)] Let_def)
qed simp

lemma fu_reassembly:
  assumes "nri \<in> {0, 0x20, 0x40, 0x60}" and "0 \<le> ty" and "ty < 32"
  shows "asm_run asm (fu_packets nri ty first mid final) dts
    = Inr (replicate (Suc (length mid)) None @ [Some [NALU ty nri (first @ concat mid @ final) dts None]], None)"
  using assms
  by (simp add: fu_packets_def asm_run_append fu_step fu_middle Let_def NALU_def)

text \<open>Fragments whose start was lost deliver nothing and leave the assembler empty.\<close>

lemma fu_orphans:
  assumes "nri \<in> {0, 0x20, 0x40, 0x60}" and "0 \<le> ty" and "ty < 32"
  shows "asm_run None (map (\<lambda>(e, piece). fu_packet nri ty False e piece) frags) dts
    = Inr (replicate (length frags) None, None)"
proof (induction frags)
  case (Cons f frags)
  then show ?case by (cases f) (simp add: fu_step [OF assms] Let_def)
qed simp

section \<open>Aggregation packets\<close>

text \<open>One aggregation unit of RFC 6184, 5.7: the 16-bit size counts the NAL header byte. The loop of
  the code takes \<open>sz\<close> bytes after the header.\<close>

definition stap_unit :: "int \<times> int \<times> bytes \<Rightarrow> bytes" where
  "stap_unit = (\<lambda>(nri, ty, data). be16 (int (length data) + 1) @ nal_header nri ty # data)"

lemma aggregation_step:
  assumes "getUint16 raw (int idx) = Inr sz" and "getUint8 raw (int idx + 2) = Inr hdr"
  shows "aggregation_loop raw idx dts pts = bindE (aggregation_loop raw (idx + 3 + nat sz) dts pts)
    (\<lambda>ret. Inr (NALU (snd (parseNALHeader hdr)) (fst (parseNALHeader hdr))
       (take (nat sz) (drop (idx + 3) raw)) dts pts # ret))"
proof -
  have "idx < length raw" "0 \<le> sz"
    using assms(1) by (auto simp: get_n_def split: if_splits)
  moreover have "subarray raw (int (idx + 3)) (int (idx + 3) + sz) = take (nat sz) (drop (idx + 3) raw)"
    using \<open>0 \<le> sz\<close> subarray_nat [of "idx + 3" "idx + 3 + nat sz" raw] by simp
  ultimately show ?thesis
    using assms by (subst aggregation_loop.simps) (simp add: Let_def parseSingleNALUPacket_def)
qed

lemma aggregation_end: "length raw \<le> idx \<Longrightarrow> aggregation_loop raw idx dts pts = Inr []"
  by (subst aggregation_loop.simps) simp

text \<open>A lone aggregation unit is read right, because the view is clamped at the end of the packet.\<close>

lemma stap_single:
  assumes "unit_ok (nri, ty, data)" and "length data + 1 < 2 ^ 16"
  shows "aggregation_loop (stap_unit (nri, ty, data)) 0 dts pts = Inr [NALU ty nri data dts pts]"
proof -
  let ?raw = "stap_unit (nri, ty, data)"
  have g: "getUint16 ?raw (int 0) = Inr (int (length data) + 1)"
  proof -
    have "be_val (be16 (int (length data) + 1)) = int (length data) + 1"
      unfolding be_val_be16 using assms(2) by (intro mod_pos_pos_trivial) auto
    then show ?thesis by (simp add: get_n_def stap_unit_def)
  qed
  have h: "getUint8 ?raw (int 0 + 2) = Inr (uint (nal_header nri ty))"
    using getUint8_nth [of 2 ?raw] by (simp add: stap_unit_def nth_append)
  have hd: "parseNALHeader (uint (nal_header nri ty)) = (nri, ty)"
    using assms(1) by (intro parseNALHeader_header) (auto simp: unit_ok_def)
  have "aggregation_loop ?raw (0 + 3 + nat (int (length data) + 1)) dts pts = Inr []"
    by (rule aggregation_end) (simp add: stap_unit_def)
  moreover have "take (nat (int (length data) + 1)) (drop (0 + 3) ?raw) = data"
    by (simp add: stap_unit_def eval_nat_numeral)
  ultimately show ?thesis
    unfolding aggregation_step [OF g h] hd by simp
qed

text \<open>With a second unit behind it, the first one always comes out with one byte too many: the high
  byte of the second one's sz.\<close>

lemma stap_first_overrun:
  assumes "length data + 1 < 2 ^ 16" and "unit_ok (nri, ty, data)"
    and "aggregation_loop (stap_unit (nri, ty, data) @ stap_unit u @ rest) 0 dts pts = Inr us"
  shows "\<exists>us'. us = NALU ty nri (data @ take 1 (stap_unit u)) dts pts # us'"
proof -
  let ?raw = "stap_unit (nri, ty, data) @ stap_unit u @ rest"
  obtain b bs where b: "stap_unit u = b # bs"
    by (cases "stap_unit u") (auto simp: stap_unit_def be16_def split: prod.splits)
  have g: "getUint16 ?raw (int 0) = Inr (int (length data) + 1)"
  proof -
    have "be_val (be16 (int (length data) + 1)) = int (length data) + 1"
      unfolding be_val_be16 using assms(1) by (intro mod_pos_pos_trivial) auto
    then show ?thesis by (simp add: get_n_def stap_unit_def split: prod.splits)
  qed
  have h: "getUint8 ?raw (int 0 + 2) = Inr (uint (nal_header nri ty))"
    using getUint8_nth [of 2 ?raw] by (simp add: stap_unit_def nth_append split: prod.splits)
  have hd: "parseNALHeader (uint (nal_header nri ty)) = (nri, ty)"
    using assms(2) by (intro parseNALHeader_header) (auto simp: unit_ok_def)
  have n1: "nat (int (length data) + 1) = Suc (length data)" by simp
  have "take (nat (int (length data) + 1)) (drop (0 + 3) ?raw) = data @ take 1 (stap_unit u)"
    unfolding b n1 by (simp add: stap_unit_def eval_nat_numeral)
  then show ?thesis
    using assms(3) unfolding aggregation_step [OF g h] hd by (auto simp: bindE_Inr_iff)
qed

section \<open>Which units the parser lets through\<close>

lemma check_ready_track [simp]: "hp_track (check_ready p) = hp_track p"
  "hp_firstFound (check_ready p) = hp_firstFound p"
  by (simp_all add: check_ready_def)

lemma check_ready_ready [simp]: "hp_ready (check_ready p) \<longleftrightarrow>
    hp_ready p \<or> t_pps (hp_track p) \<noteq> [] \<and> t_sps (hp_track p) \<noteq> []"
  by (simp add: check_ready_def)

definition parser_ok :: "h264_parser \<Rightarrow> bool" where
  "parser_ok p \<longleftrightarrow> hp_ready p = (t_pps (hp_track p) \<noteq> [] \<and> t_sps (hp_track p) \<noteq> [])"

lemma parseSPS_pps: "parseSPS track sps = Inr track' \<Longrightarrow> t_pps track' = t_pps track \<and> t_sps track' = [sps]"
  by (auto simp: parseSPS_def bindE_Inr_iff split: if_splits)

lemma parseNAL_parser_ok:
  assumes "parser_ok p" and "parseNAL p u = Inr (b, u', p')"
  shows "parser_ok p'"
  using assms
  by (auto simp: parseNAL_def Let_def parser_ok_def parsePPS_def bindE_Inr_iff
      split: if_splits dest!: parseSPS_pps)

section \<open>What the assembler and the parser promise\<close>

text \<open>C15: A NAL unit sent in two or more fragmentation units is delivered once, with its last fragment,
  complete and with the header the sender took off, whatever an earlier, broken unit left behind in the
  assembler; every earlier fragment delivers nothing.\<close>

theorem fragments_reassembled:
  assumes "nri \<in> {0, 0x20, 0x40, 0x60}" "0 \<le> ty" "ty < 32"
  shows "asm_run asm (fu_packets nri ty first mid final) dts
    = Inr (replicate (Suc (length mid)) None @ [Some [NALU ty nri (first @ concat mid @ final) dts None]], None)"
  by (rule fu_reassembly [OF assms])

lemma fragments_reassembled_witness:
  "asm_run None (fu_packets 0x60 5 [1, 2] [[3], [4, 5]] [6]) 0
    = Inr ([None, None, None, Some [NALU 5 0x60 [1, 2, 3, 4, 5, 6] 0 None]], None)"
  using fragments_reassembled 
    [where nri = "0x60" and ty = "5" and asm = "None" and first = "[1, 2]" and mid = "[[3], [4, 5]]" and final = "[6]" and dts = "0"]
  by simp

text \<open>Fragments whose first one was lost deliver nothing and leave the assembler empty.\<close>

lemma orphan_fragments_dropped:
  assumes "nri \<in> {0, 0x20, 0x40, 0x60}" "0 \<le> ty" "ty < 32"
  shows "asm_run None (map (\<lambda>(e, piece). fu_packet nri ty False e piece) frags) dts
    = Inr (replicate (length frags) None, None)"
  by (rule fu_orphans [OF assms])

lemma orphan_fragments_dropped_witness:
  "asm_run None [fu_packet 0x60 5 False False [1], fu_packet 0x60 5 False True [2]] 0 = Inr ([None, None], None)"
  using orphan_fragments_dropped 
    [where nri = "0x60" and ty = "5" and frags = "[(False, [1]), (True, [2])]" and dts = "0"] by simp

text \<open>In an aggregation packet with more than one unit, the first unit comes out one byte too
  long: the code takes the announced size after the header byte, which the size already counts. So the
  extra byte is the first byte of the next unit's size field.\<close>

lemma aggregation_first_unit_overrun:
  assumes "length data + 1 < 2 ^ 16" "unit_ok (nri, ty, data)"
    and "aggregation_loop (stap_unit (nri, ty, data) @ stap_unit u @ rest) 0 dts pts = Inr us"
  shows "\<exists>us'. us = NALU ty nri (data @ take 1 (stap_unit u)) dts pts # us'"
  by (rule stap_first_overrun [OF assms])

lemma aggregation_first_unit_overrun_witness:
  "\<exists>us'. projr (aggregation_loop (stap_unit (0x60, 7, [0x64]) @ stap_unit (0x60, 8, [0xEE, 0xEF]) @ []) 0 0 None)
    = NALU 7 0x60 ([0x64] @ take 1 (stap_unit (0x60, 8, [0xEE, 0xEF]))) 0 None # us'"
proof -
  have "\<not> isl (aggregation_loop (stap_unit (0x60, 7, [0x64]) @ stap_unit (0x60, 8, [0xEE, 0xEF]) @ []) 0 0 None)"
    by code_simp
  then obtain us where us: "aggregation_loop (stap_unit (0x60, 7, [0x64]) @ stap_unit (0x60, 8, [0xEE, 0xEF]) @ []) 0 0 None = Inr us"
    by (cases "aggregation_loop (stap_unit (0x60, 7, [0x64]) @ stap_unit (0x60, 8, [0xEE, 0xEF]) @ []) 0 0 None") auto
  from aggregation_first_unit_overrun [OF _ _ us] show ?thesis unfolding us by (simp add: unit_ok_def)
qed

text \<open>Units parsed one after the other; what is let through, and the parser at the end.\<close>

fun parse_run :: "h264_parser \<Rightarrow> nalu list \<Rightarrow> (bool list \<times> h264_parser) result" where
  "parse_run p [] = Inr ([], p)"
| "parse_run p (u # us) = bindE (parseNAL p u) (\<lambda>(push, u', p1).
     bindE (parse_run p1 us) (\<lambda>(pushes, p2). Inr (push # pushes, p2)))"

text \<open>The gate told apart from the parser. A key frame is an IDR slice, or a slice whose header says type 7 (only
  intra-coded macroblocks).\<close>

definition slice_unit :: "nalu \<Rightarrow> bool" where
  "slice_unit u \<longleftrightarrow> n_type u = 1 \<or> n_type u = 5"

definition key_unit :: "nalu \<Rightarrow> bool" where
  "key_unit u \<longleftrightarrow> n_type u = 5 \<or> n_type u = 1 \<and> parceSliceHeader (n_data u) = Inr 7"

definition let_through :: "bool \<Rightarrow> nalu \<Rightarrow> bool" where
  "let_through key_seen u \<longleftrightarrow> (if slice_unit u then key_seen \<or> key_unit u
     else n_type u \<notin> {6, 7, 8, 10, 11} \<and> 0 < NALU_getNri u)"

fun gate :: "bool \<Rightarrow> nalu list \<Rightarrow> bool list" where
  "gate key_seen [] = []"
| "gate key_seen (u # us) = let_through key_seen u # gate (key_seen \<or> key_unit u) us"

text \<open>The set that a track has after parameter sets went by: the first one.\<close>

definition first_set :: "bytes list \<Rightarrow> int \<Rightarrow> nalu list \<Rightarrow> bytes list" where
  "first_set had ty us = (if had \<noteq> [] then had else take 1 (map (\<lambda>u. drop 4 (NALU_getData u)) (filter (\<lambda>u. n_type u = ty) us)))"

lemma parseNAL_gate:
  assumes "parseNAL p u = Inr (push, u', p')"
  shows "push = let_through (hp_firstFound p) u \<and> hp_firstFound p' = (hp_firstFound p \<or> key_unit u) \<and>
    t_sps (hp_track p') = first_set (t_sps (hp_track p)) 7 [u] \<and> t_pps (hp_track p') = first_set (t_pps (hp_track p)) 8 [u]"
  using assms
  by (auto simp: parseNAL_def Let_def bindE_Inr_iff let_through_def slice_unit_def key_unit_def NALU_isKeyframe_def
      first_set_def check_ready_def parsePPS_def split: if_splits dest!: parseSPS_pps)

lemma first_set_Cons: "first_set had ty (u # us) = first_set (first_set had ty [u]) ty us"
  by (simp add: first_set_def)


definition bare_parser :: h264_parser where
  "bare_parser = \<lparr>hp_track = \<lparr>t_id = 1, t_type = VideoTrack, t_timescale = 90000, t_duration = 90000,
     t_width = 0, t_height = 0, t_volume = None, t_sps = [[0x67]], t_pps = [], t_config = [], t_channelCount = 0,
     t_audiosamplerate = 0, t_samples = [], t_len = 0, t_codec = []\<rparr>, hp_firstFound = False, hp_ready = False\<rparr>"

text \<open>A predicted slice, a picture parameter set, a delimiter that is referenced, a slice of type 7, a predicted slice.\<close>

definition example_units :: "nalu list" where
  "example_units = [NALU 1 0x60 [0xE0, 0x20, 0, 0] 0 None, NALU 8 0x60 [0xEE] 0 None, NALU 9 0x60 [0xF0] 0 None,
     NALU 1 0x60 [0x88, 0x84, 0, 0] 0 None, NALU 1 0x60 [0xE0, 0x20, 0, 0] 0 None]"


end
