(* ===== verification/Sps.thy ===== *)
theory Sps
  imports H264
begin

text \<open>
  The contract of \<^verbatim>\<open>H264Parser.readSPS\<close>: a writer of sequence parameter sets (\<open>sps_bits\<close>), and
  the theorem that parsing what it writes gives the picture the elements describe
  (\<open>readSPS_correct\<close>), section by section with the combinators of \<open>Bits\<close>.
\<close>

section \<open>The syntax of a sequence parameter set, and what \<open>readSPS\<close> makes of it\<close>

text \<open>The syntax elements of section 7.3.2.1.1 of the H.264 recommendation, as a writer of parameter
  sets emits them; \<open>sps_bits\<close> is the specification \<open>readSPS\<close> is checked against.\<close>

record sps_high =
  hi_chroma :: nat
  hi_separate :: bool
  hi_luma_depth :: nat
  hi_chroma_depth :: nat
  hi_bypass :: bool
  hi_matrix :: "int list option list option"

datatype sps_poc_info = Poc0 nat | Poc1 bool int int "int list" | PocOther nat

datatype sps_aspect_info = NoAspect | AspectIdc int | AspectExt int int

record sps_vui_info =
  vi_aspect :: sps_aspect_info
  vi_overscan :: "bool option"
  vi_signal :: "(int \<times> int option) option"
  vi_loc :: "(nat \<times> nat) option"
  vi_timing :: "(bool list \<times> bool list \<times> bool) option"

record sps =
  sp_header :: int
  sp_profile :: int
  sp_compat :: int
  sp_reserved :: int
  sp_level :: int
  sp_id :: nat
  sp_high :: sps_high
  sp_log2_frame_num :: nat
  sp_poc :: sps_poc_info
  sp_ref_frames :: nat
  sp_gaps :: bool
  sp_width_mbs1 :: nat
  sp_height_map1 :: nat
  sp_frame_mbs_only :: bool
  sp_mb_adaptive :: bool
  sp_direct :: bool
  sp_crop :: "(nat \<times> nat \<times> nat \<times> nat) option"
  sp_vui :: "sps_vui_info option"

definition scaling_bits :: "int list option \<Rightarrow> bool list" where
  "scaling_bits l = (case l of None \<Rightarrow> [False] | Some ds \<Rightarrow> [True] @ concat (map se_bits ds))"

definition high_bits :: "sps_high \<Rightarrow> bool list" where
  "high_bits h = ue_bits (hi_chroma h) @ (if int (hi_chroma h) = 3 then [hi_separate h] else [])
     @ ue_bits (hi_luma_depth h) @ ue_bits (hi_chroma_depth h) @ [hi_bypass h]
     @ [hi_matrix h \<noteq> None]
     @ (case hi_matrix h of None \<Rightarrow> [] | Some ls \<Rightarrow> concat (map scaling_bits ls))"

fun poc_bits :: "sps_poc_info \<Rightarrow> bool list" where
  "poc_bits (Poc0 n) = ue_bits 0 @ ue_bits n @ []"
| "poc_bits (Poc1 z a b rs) = ue_bits 1 @ [z] @ se_bits a @ se_bits b @ ue_bits (length rs)
     @ concat (map se_bits rs)"
| "poc_bits (PocOther n) = ue_bits n @ []"

definition crop_bits :: "(nat \<times> nat \<times> nat \<times> nat) option \<Rightarrow> bool list" where
  "crop_bits c = (case c of None \<Rightarrow> [False] @ []
     | Some (l, r, t, b) \<Rightarrow> [True] @ ue_bits l @ ue_bits r @ ue_bits t @ ue_bits b @ [])"

fun aspect_bits :: "sps_aspect_info \<Rightarrow> bool list" where
  "aspect_bits NoAspect = [False] @ []"
| "aspect_bits (AspectIdc n) = [True] @ msb_bits 8 n @ []"
| "aspect_bits (AspectExt w h) = [True] @ msb_bits 8 255 @ msb_bits 16 w @ msb_bits 16 h"

definition overscan_bits :: "bool option \<Rightarrow> bool list" where
  "overscan_bits v = (case v of None \<Rightarrow> [False] @ [] | Some b \<Rightarrow> [True] @ [b])"

definition signal_bits :: "(int \<times> int option) option \<Rightarrow> bool list" where
  "signal_bits v = (case v of None \<Rightarrow> [False] @ []
     | Some (f, c) \<Rightarrow> [True] @ msb_bits 4 f @ [c \<noteq> None] @ (case c of None \<Rightarrow> [] | Some x \<Rightarrow> msb_bits 24 x))"

definition loc_bits :: "(nat \<times> nat) option \<Rightarrow> bool list" where
  "loc_bits v = (case v of None \<Rightarrow> [False] @ [] | Some (a, b) \<Rightarrow> [True] @ ue_bits a @ ue_bits b)"

definition timing_bits :: "(bool list \<times> bool list \<times> bool) option \<Rightarrow> bool list" where
  "timing_bits v = (case v of None \<Rightarrow> [False] @ [] | Some (a, b, f) \<Rightarrow> [True] @ a @ b @ [f] @ [])"

definition vui_bits :: "sps_vui_info option \<Rightarrow> bool list" where
  "vui_bits v = (case v of None \<Rightarrow> [False] @ []
     | Some i \<Rightarrow> [True] @ aspect_bits (vi_aspect i) @ overscan_bits (vi_overscan i)
         @ signal_bits (vi_signal i) @ loc_bits (vi_loc i) @ timing_bits (vi_timing i) @ [])"

text \<open>The profiles whose parameter sets have the part on chroma.\<close>

definition high_profiles :: "int set" where
  "high_profiles = {44, 83, 86, 100, 110, 118, 122, 128, 244}"

lemma high_profiles_iff: "p \<in> high_profiles \<longleftrightarrow> sps_has_chroma p"
  by (auto simp: high_profiles_def sps_has_chroma_def)

definition sps_bits :: "sps \<Rightarrow> bool list" where
  "sps_bits s = msb_bits 8 (sp_header s) @ msb_bits 8 (sp_profile s) @ msb_bits 5 (sp_compat s)
     @ msb_bits 3 (sp_reserved s) @ msb_bits 8 (sp_level s) @ ue_bits (sp_id s)
     @ (if sp_profile s \<in> high_profiles then high_bits (sp_high s) else [])
     @ ue_bits (sp_log2_frame_num s) @ poc_bits (sp_poc s) @ ue_bits (sp_ref_frames s)
     @ [sp_gaps s] @ ue_bits (sp_width_mbs1 s) @ ue_bits (sp_height_map1 s)
     @ [sp_frame_mbs_only s] @ (if \<not> sp_frame_mbs_only s then [sp_mb_adaptive s] else [])
     @ [sp_direct s] @ crop_bits (sp_crop s) @ vui_bits (sp_vui s) @ []"

text \<open>Which values are in range. A scaling list transmits deltas until the next scale becomes 0.\<close>

definition ue_ok :: "nat \<Rightarrow> bool" where "ue_ok n \<longleftrightarrow> n < 2 ^ 31 - 1"
definition se_ok :: "int \<Rightarrow> bool" where "se_ok v \<longleftrightarrow> \<bar>v\<bar> < 2 ^ 30"

fun scaling_ok :: "nat \<Rightarrow> int \<Rightarrow> int \<Rightarrow> int list \<Rightarrow> bool" where
  "scaling_ok 0 l n ds \<longleftrightarrow> ds = []"
| "scaling_ok (Suc j) l n ds \<longleftrightarrow>
     (if n = 0 then scaling_ok j l n ds
      else case ds of [] \<Rightarrow> False
        | v # ds' \<Rightarrow> se_ok v \<and> (let n' = js_rem (l + v + 256) 256
            in scaling_ok j (if n' = 0 then l else n') n' ds'))"

definition scaling_list_ok :: "nat \<Rightarrow> int list option \<Rightarrow> bool" where
  "scaling_list_ok i l \<longleftrightarrow> (case l of None \<Rightarrow> True
     | Some ds \<Rightarrow> scaling_ok (if i < 6 then 16 else 64) 8 8 ds)"

definition high_ok :: "sps_high \<Rightarrow> bool" where
  "high_ok h \<longleftrightarrow> ue_ok (hi_chroma h) \<and> ue_ok (hi_luma_depth h) \<and> ue_ok (hi_chroma_depth h)
     \<and> (case hi_matrix h of None \<Rightarrow> True | Some ls \<Rightarrow>
          list_all2 scaling_list_ok [0..<(if hi_chroma h \<noteq> 3 then 8 else 12)] ls)"

fun poc_ok :: "sps_poc_info \<Rightarrow> bool" where
  "poc_ok (Poc0 n) \<longleftrightarrow> ue_ok n"
| "poc_ok (Poc1 z a b rs) \<longleftrightarrow> se_ok a \<and> se_ok b \<and> ue_ok (length rs) \<and> list_all se_ok rs"
| "poc_ok (PocOther n) \<longleftrightarrow> 2 \<le> n \<and> ue_ok n"

definition crop_ok :: "(nat \<times> nat \<times> nat \<times> nat) option \<Rightarrow> bool" where
  "crop_ok c \<longleftrightarrow> (case c of None \<Rightarrow> True | Some (l, r, t, b) \<Rightarrow> ue_ok l \<and> ue_ok r \<and> ue_ok t \<and> ue_ok b)"

fun aspect_ok :: "sps_aspect_info \<Rightarrow> bool" where
  "aspect_ok NoAspect \<longleftrightarrow> True"
| "aspect_ok (AspectIdc n) \<longleftrightarrow> 0 \<le> n \<and> n < 255"
| "aspect_ok (AspectExt w h) \<longleftrightarrow> 0 \<le> w \<and> w < 2 ^ 16 \<and> 0 \<le> h \<and> h < 2 ^ 16"

definition vui_ok :: "sps_vui_info \<Rightarrow> bool" where
  "vui_ok i \<longleftrightarrow> aspect_ok (vi_aspect i)
     \<and> (case vi_loc i of None \<Rightarrow> True | Some (a, b) \<Rightarrow> ue_ok a \<and> ue_ok b)
     \<and> (case vi_timing i of None \<Rightarrow> True | Some (a, b, f) \<Rightarrow> length a = 32 \<and> length b = 32)"

definition sps_ok :: "sps \<Rightarrow> bool" where
  "sps_ok s \<longleftrightarrow> field_ok (8, sp_header s) \<and> field_ok (8, sp_profile s) \<and> field_ok (5, sp_compat s)
     \<and> field_ok (8, sp_level s) \<and> ue_ok (sp_id s)
     \<and> high_ok (sp_high s) \<and> ue_ok (sp_log2_frame_num s) \<and> poc_ok (sp_poc s)
     \<and> ue_ok (sp_ref_frames s) \<and> ue_ok (sp_width_mbs1 s) \<and> ue_ok (sp_height_map1 s)
     \<and> crop_ok (sp_crop s) \<and> (case sp_vui s of None \<Rightarrow> True | Some i \<Rightarrow> vui_ok i)"

text \<open>What the formulas of the code make of these elements. (Theorem \<open>sps_parsed\<close> compares it with the
  recommendation.)\<close>

fun aspect_scale :: "sps_aspect_info \<Rightarrow> rat option" where
  "aspect_scale NoAspect = Some 1"
| "aspect_scale (AspectIdc n) = (case map_of sar_table n of None \<Rightarrow> Some 1 | Some (w, h) \<Rightarrow> sar_scale w h)"
| "aspect_scale (AspectExt w h) = sar_scale w h"

definition sps_picture :: "sps \<Rightarrow> sps_config" where
  "sps_picture s =
     (let (l, r, t, b) = (case sp_crop s of None \<Rightarrow> (0, 0, 0, 0) | Some c \<Rightarrow> c);
          fm = of_bool (sp_frame_mbs_only s);
          sar = (case sp_vui s of None \<Rightarrow> Some 1 | Some i \<Rightarrow> aspect_scale (vi_aspect i))
      in \<lparr>cfg_width = map_option (sps_width (int (sp_width_mbs1 s)) (int l) (int r)) sar,
          cfg_height = sps_height fm (int (sp_height_map1 s)) (int t) (int b)\<rparr>)"

subsection \<open>Section by section\<close>

lemma eg_skips_if:
  "(c \<Longrightarrow> eg_skips f bs) \<Longrightarrow> (\<not> c \<Longrightarrow> eg_skips g cs) \<Longrightarrow>
     eg_skips (\<lambda>d. if c then f d else g d) (if c then bs else cs)"
  by simp

lemma eg_skips_ignore: "eg_reads rd bs v \<Longrightarrow> eg_skips (\<lambda>d. bindE (rd d) (\<lambda>(_, d'). Inr d')) (bs @ [])"
  by (erule eg_skips_bind) (rule eg_skips_return)

lemma eg_skips_foldE:
  "list_all2 (\<lambda>x bs. eg_skips (\<lambda>d. f d x) bs) xs bss \<Longrightarrow> eg_skips (\<lambda>d. foldE f d xs) (concat bss)"
proof (induction rule: list_all2_induct)
  case Nil
  then show ?case by (simp add: eg_skips_return)
next
  case (Cons x xs bs bss)
  from eg_skips_seq [OF Cons(1,3)] show ?case by simp
qed

lemma eg_skips_1: "eg_skips (\<lambda>d. skipBits d 1) [b]"
  using eg_skips_skipBits [of "[b]" 1] by simp

lemma eg_skips_field: "n < 2 ^ 31 \<Longrightarrow> k = int n \<Longrightarrow> eg_skips (\<lambda>d. skipBits d k) (msb_bits n v)"
  using eg_skips_skipBits [of "msb_bits n v" n] by simp

lemma eg_reads_UByte: "field_ok (8, v) \<Longrightarrow> eg_reads readUByte (msb_bits 8 v) v"
  using eg_reads_field [of 8 v] by (simp add: readUByte_def [abs_def])

lemma eg_reads_ue: "ue_ok n \<Longrightarrow> eg_reads readUEG (ue_bits n) (int n)"
  by (simp add: ue_ok_def eg_reads_readUEG)

lemma eg_skips_ue: "ue_ok n \<Longrightarrow> eg_skips skipUEG (ue_bits n)"
  by (simp add: ue_ok_def eg_skips_skipUEG)

lemma eg_skips_se: "se_ok v \<Longrightarrow> eg_skips skipEG (se_bits v)"
  unfolding skipEG_eq se_bits_def by (rule eg_skips_skipUEG) (auto simp: se_ok_def se_num_def)

lemma eg_reads_se: "se_ok v \<Longrightarrow> eg_reads readEG (se_bits v) v"
  by (simp add: se_ok_def eg_reads_readEG)

lemmas eg_leaf = eg_reads_readBoolean eg_skips_1 eg_reads_UByte eg_reads_ue eg_skips_ue
  eg_skips_se eg_reads_se eg_reads_return eg_skips_return

text \<open>The binding rules with their first step a leaf: these apply by matching alone.\<close>

lemmas eg_binds =
  eg_reads_bind [OF eg_reads_readBoolean] eg_reads_bind [OF eg_reads_UByte] eg_reads_bind [OF eg_reads_ue]
  eg_skips_bind [OF eg_reads_readBoolean] eg_skips_bind [OF eg_reads_UByte] eg_skips_bind [OF eg_reads_ue]
  eg_skips_bind [OF eg_reads_se] eg_reads_skip eg_skips_seq

lemma scaling_loop_skips:
  "scaling_ok j l n ds \<Longrightarrow> eg_skips (scaling_loop j l n) (concat (map se_bits ds))"
proof (induction j l n ds rule: scaling_ok.induct)
  case (1 l n ds)
  then show ?case by (simp add: eg_skips_def)
next
  case (2 j l n ds)
  show ?case
  proof (cases "n = 0")
    case True
    then show ?thesis using 2 by (simp add: eg_skips_def)
  next
    case False
    then obtain v ds' where ds: "ds = v # ds'" "se_ok v"
        "scaling_ok j (if js_rem (l + v + 256) 256 = 0 then l else js_rem (l + v + 256) 256)
          (js_rem (l + v + 256) 256) ds'"
      using 2(3) by (auto simp: Let_def split: list.splits)
    have "eg_skips (\<lambda>d. bindE (readEG d) (\<lambda>(deltaScale, d1).
        let next' = js_rem (l + deltaScale + 256) 256
        in scaling_loop j (if next' = 0 then l else next') next' d1)) (se_bits v @ concat (map se_bits ds'))"
      using 2(2) [OF False ds(1) refl ds(3)] by (intro eg_binds ds(2)) (simp add: Let_def)
    then show ?thesis using False by (simp add: eg_skips_def ds(1))
  qed
qed

lemma sps_scaling_list_skips:
  assumes "scaling_list_ok i l"
  shows "eg_skips (\<lambda>d. sps_scaling_list d i) (scaling_bits l)"
proof (cases l)
  case None
  have "eg_skips (\<lambda>d. sps_scaling_list d i) ([False] @ [])"
    unfolding sps_scaling_list_def by (intro eg_binds) (simp add: eg_leaf)
  with None show ?thesis by (simp add: scaling_bits_def)
next
  case (Some ds)
  have "eg_skips (\<lambda>d. sps_scaling_list d i) ([True] @ concat (map se_bits ds))"
    unfolding sps_scaling_list_def
    by (intro eg_binds) (use assms Some scaling_list_ok_def scaling_loop_skips [of "if i < 6 then 16 else 64" 8 8 ds] in
        \<open>simp add: skipScalingList_def [abs_def] split: if_splits\<close>)
  with Some show ?thesis by (simp add: scaling_bits_def)
qed

lemma sps_chroma_skips:
  assumes "high_ok h"
  shows "eg_skips sps_chroma (high_bits h)"
proof -
  have m: "eg_skips (\<lambda>d. if hi_matrix h \<noteq> None
        then foldE sps_scaling_list d [0..<(if int (hi_chroma h) \<noteq> 3 then 8 else 12)] else Inr d)
      (case hi_matrix h of None \<Rightarrow> [] | Some ls \<Rightarrow> concat (map scaling_bits ls))"
  proof (cases "hi_matrix h")
    case (Some ls)
    have h: "list_all2 scaling_list_ok [0..<(if int (hi_chroma h) \<noteq> 3 then 8 else 12)] ls"
      using assms Some by (simp add: high_ok_def split: if_splits)
    have "list_all2 (\<lambda>i bs. eg_skips (\<lambda>d. sps_scaling_list d i) bs)
        [0..<(if int (hi_chroma h) \<noteq> 3 then 8 else 12)] (map scaling_bits ls)"
      unfolding list.rel_map(2) by (rule list_all2_mono [OF h]) (rule sps_scaling_list_skips)
    from eg_skips_foldE [OF this] show ?thesis unfolding Some by (simp split del: if_split)
  qed (simp add: eg_leaf)
  show ?thesis
    unfolding sps_chroma_def [abs_def] high_bits_def
    by (intro eg_binds eg_skips_if eg_leaf m) (use assms in \<open>auto simp: high_ok_def\<close>)
qed

lemma skip_ref_frames_skips:
  "list_all se_ok rs \<Longrightarrow> eg_skips (skip_ref_frames (length rs)) (concat (map se_bits rs))"
proof (induction rs)
  case (Cons r rs)
  then have "eg_skips (\<lambda>d. bindE (skipEG d) (skip_ref_frames (length rs))) (se_bits r @ concat (map se_bits rs))"
    by (intro eg_skips_seq eg_leaf) auto
  then show ?case by (simp add: eg_skips_def)
qed (simp add: eg_skips_def)

lemma sps_poc_skips: "poc_ok p \<Longrightarrow> eg_skips sps_poc (poc_bits p)"
proof (cases p)
  case (Poc0 n)
  assume "poc_ok p"
  then have "eg_skips (\<lambda>d. bindE (readUEG d) (\<lambda>(_, d). Inr d)) (ue_bits n @ [])"
    by (intro eg_binds eg_leaf) (simp add: Poc0)
  then show ?thesis
    unfolding sps_poc_def [abs_def] Poc0 poc_bits.simps
    by (intro eg_binds) (simp_all add: ue_ok_def)
next
  case (Poc1 z a b rs)
  assume "poc_ok p"
  then have "eg_skips (\<lambda>d. bindE (skipBits d 1) (\<lambda>d. bindE (skipEG d) (\<lambda>d. bindE (skipEG d) (\<lambda>d.
       bindE (readUEG d) (\<lambda>(n, d). skip_ref_frames (nat n) d)))))
     ([z] @ se_bits a @ se_bits b @ ue_bits (length rs) @ concat (map se_bits rs))"
    by (intro eg_binds eg_leaf) (auto simp: Poc1 intro: skip_ref_frames_skips)
  then show ?thesis
    unfolding sps_poc_def [abs_def] Poc1 poc_bits.simps
    by (intro eg_binds) (auto simp: ue_ok_def)
next
  case (PocOther n)
  assume "poc_ok p"
  then show ?thesis
    unfolding sps_poc_def [abs_def] PocOther poc_bits.simps
    by (intro eg_binds) (auto simp: PocOther eg_leaf)
qed

lemma sps_cropping_reads:
  assumes "crop_ok c"
  shows "eg_reads sps_cropping (crop_bits c)
    (case c of None \<Rightarrow> (0, 0, 0, 0) | Some (l, r, t, b) \<Rightarrow> (int l, int r, int t, int b))"
proof (cases c)
  case None
  have "eg_reads sps_cropping ([False] @ []) (0, 0, 0, 0)"
    unfolding sps_cropping_def [abs_def] by (intro eg_binds) (simp add: eg_leaf)
  with None show ?thesis by (simp add: crop_bits_def)
next
  case (Some x)
  obtain l r t b where x: "c = Some (l, r, t, b)" using Some by (cases x) auto
  have k: "eg_reads (\<lambda>d. bindE (readUEG d) (\<lambda>(l, d). bindE (readUEG d) (\<lambda>(r, d).
       bindE (readUEG d) (\<lambda>(t, d). bindE (readUEG d) (\<lambda>(b, d). Inr ((l, r, t, b), d))))))
     (ue_bits l @ ue_bits r @ ue_bits t @ ue_bits b @ []) (int l, int r, int t, int b)"
    by (intro eg_binds eg_leaf) (use assms x in \<open>auto simp: crop_ok_def\<close>)
  have "eg_reads sps_cropping ([True] @ ue_bits l @ ue_bits r @ ue_bits t @ ue_bits b @ [])
      (int l, int r, int t, int b)"
    unfolding sps_cropping_def [abs_def] by (intro eg_binds) (use k in simp)
  then show ?thesis by (simp add: crop_bits_def x)
qed


text \<open>Thirty-two bits: the value is unsigned or signed depending on where the word boundary falls,
  and \<open>readSPS\<close> uses it for a log line only.\<close>

lemma readBits_32:
  assumes "eg_ok d" and "32 < length (eg_bits d)"
  shows "\<exists>v d'. readBits d 32 = Inr (v, d') \<and> eg_ok d' \<and> eg_bits d' = drop 32 (eg_bits d)"
proof -
  define B where "B = nat (bitsAvailable d)"
  have B: "bitsAvailable d = int B" "B \<le> 32" using assms(1) by (auto simp: eg_ok_def B_def)
  have pos: "0 < bytesAvailable d"
    using length_eg_bits [OF assms(1)] assms(2) B by auto
  obtain v d1 where d1: "readBits_step d (int 32) = Inr (v, int 32 - bitsAvailable d, d1)" "eg_ok d1"
      "eg_bits d1 = drop B (eg_bits d)" "bitsAvailable d1 > 0"
    using readBits_step_all [of d 32] assms(1) B pos by (metis B_def le_refl of_nat_le_iff zero_less_numeral)
  have ne: "\<not> eg_exhausted d1" using d1(4) by (simp add: eg_exhausted_def)
  have step: "readBits d 32 = (if 32 - int B > 0 then bindE (readBits d1 (32 - int B))
      (\<lambda>(w, d''). Inr (js_or (js_shl v (32 - int B)) w, d'')) else Inr (v, d1))"
    using d1(1) ne B by (simp add: readBits.simps [of d])
  consider "B = 32" | "0 < B" "B < 32" | "B = 0" using B by linarith
  then show ?thesis
  proof cases
    case 1
    then show ?thesis using step d1 by simp
  next
    case 2
    have "\<exists>d'. readBits d1 (int (32 - B)) = Inr (bits_val (take (32 - B) (eg_bits d1)), d') \<and> eg_ok d'
        \<and> eg_bits d' = drop (32 - B) (eg_bits d1) \<and> eg_data d' = eg_data d1"
      by (rule readBits_ok [OF d1(2)]) (use 2 assms(2) d1(3) in auto)
    moreover have "int (32 - B) = 32 - int B" using 2 by simp
    ultimately show ?thesis using step d1(3) 2 by auto
  next
    case 3
    define C where "C = nat (bitsAvailable d1)"
    have C: "bitsAvailable d1 = int C" "C \<le> 32" "0 < C" using d1(2,4) by (auto simp: eg_ok_def C_def)
    have bits1: "eg_bits d1 = eg_bits d" using d1(3) 3 by simp
    have pos1: "0 < bytesAvailable d1"
      using length_eg_bits [OF d1(2)] assms(2) C by (auto simp: bits1)
    obtain v2 d2 where d2: "readBits_step d1 (int 32) = Inr (v2, int 32 - bitsAvailable d1, d2)" "eg_ok d2"
        "eg_bits d2 = drop C (eg_bits d)" "bitsAvailable d2 > 0"
      using readBits_step_all [of d1 32] d1(2) C pos1 bits1
      by (metis C_def le_refl of_nat_le_iff zero_less_numeral)
    have ne2: "\<not> eg_exhausted d2" using d2(4) by (simp add: eg_exhausted_def)
    have step2: "readBits d1 32 = (if 32 - int C > 0 then bindE (readBits d2 (32 - int C))
        (\<lambda>(w, d''). Inr (js_or (js_shl v2 (32 - int C)) w, d'')) else Inr (v2, d2))"
      using d2(1) ne2 C by (simp add: readBits.simps [of d1])
    have "\<exists>w d'. readBits d1 32 = Inr (w, d') \<and> eg_ok d' \<and> eg_bits d' = drop 32 (eg_bits d)"
    proof (cases "C = 32")
      case True
      then show ?thesis using step2 d2 by simp
    next
      case False
      have "\<exists>d'. readBits d2 (int (32 - C)) = Inr (bits_val (take (32 - C) (eg_bits d2)), d') \<and> eg_ok d'
          \<and> eg_bits d' = drop (32 - C) (eg_bits d2) \<and> eg_data d' = eg_data d2"
        by (rule readBits_ok [OF d2(2)]) (use C False assms(2) d2(3) in auto)
      moreover have "int (32 - C) = 32 - int C" using C by simp
      ultimately show ?thesis using step2 d2(3) C False by auto
    qed
    then show ?thesis using step 3 by auto
  qed
qed

lemma sps_timing_skips:
  assumes "case v of None \<Rightarrow> True | Some (a, b, f) \<Rightarrow> length a = 32 \<and> length b = 32"
  shows "eg_skips sps_timing (timing_bits v)"
proof (cases v)
  case None
  have "eg_skips sps_timing ([False] @ [])"
    unfolding sps_timing_def [abs_def] by (intro eg_binds) (simp add: eg_leaf)
  with None show ?thesis by (simp add: timing_bits_def)
next
  case (Some x)
  obtain a b f where x: "v = Some (a, b, f)" "length a = 32" "length b = 32"
    using Some assms by (cases x) auto
  have skip32: "eg_skips (\<lambda>d. bindE (readUInt d) (\<lambda>(_, d). k d)) (c @ cs)"
    if "length c = 32" "eg_skips k cs" for c cs k
    unfolding eg_skips_def
  proof (intro allI impI)
    fix d rest
    assume p: "eg_ok d" "eg_bits d = (c @ cs) @ rest" "rest \<noteq> []"
    note c32 = that(1)
    have "32 < length (eg_bits d)" using p c32 by (cases rest) auto
    from readBits_32 [OF p(1) this] obtain w d1 where
      "readUInt d = Inr (w, d1)" "eg_ok d1" "eg_bits d1 = cs @ rest"
      using p(2) c32 by (auto simp: readUInt_def)
    with eg_skipsD [OF that(2), of d1 rest] p(3)
    show "\<exists>d'. bindE (readUInt d) (\<lambda>(_, d). k d) = Inr d' \<and> eg_ok d' \<and> eg_bits d' = rest" by auto
  qed
  have "eg_skips (\<lambda>d. bindE (readUInt d) (\<lambda>(u, d). bindE (readUInt d) (\<lambda>(t, d).
      bindE (readBoolean d) (\<lambda>(f, d). Inr d)))) (a @ b @ [f] @ [])"
    by (intro skip32 eg_binds eg_leaf x)
  then have "eg_skips sps_timing ([True] @ a @ b @ [f] @ [])"
    unfolding sps_timing_def [abs_def] by (intro eg_binds) simp
  then show ?thesis by (simp add: timing_bits_def x(1))
qed

lemma sps_overscan_skips: "eg_skips sps_overscan (overscan_bits v)"
proof (cases v)
  case None
  have "eg_skips sps_overscan ([False] @ [])"
    unfolding sps_overscan_def [abs_def] by (intro eg_binds) (simp add: eg_leaf)
  with None show ?thesis by (simp add: overscan_bits_def)
next
  case (Some b)
  have "eg_skips sps_overscan ([True] @ [b])"
    unfolding sps_overscan_def [abs_def] by (intro eg_binds) (simp add: eg_leaf)
  with Some show ?thesis by (simp add: overscan_bits_def)
qed

lemma sps_video_signal_skips: "eg_skips sps_video_signal (signal_bits v)"
proof (cases v)
  case None
  have "eg_skips sps_video_signal ([False] @ [])"
    unfolding sps_video_signal_def [abs_def] by (intro eg_binds) (simp add: eg_leaf)
  with None show ?thesis by (simp add: signal_bits_def)
next
  case (Some x)
  obtain f c where x: "v = Some (f, c)" using Some by (cases x) auto
  have "eg_skips (\<lambda>d. if c \<noteq> None then skipBits d 24 else Inr d)
      (case c of None \<Rightarrow> [] | Some y \<Rightarrow> msb_bits 24 y)"
    by (cases c) (simp_all add: eg_leaf eg_skips_field [of 24])
  then have "eg_skips (\<lambda>d. bindE (skipBits d 4) (\<lambda>d. bindE (readBoolean d) (\<lambda>(colour, d).
      if colour then skipBits d 24 else Inr d)))
      (msb_bits 4 f @ [c \<noteq> None] @ (case c of None \<Rightarrow> [] | Some y \<Rightarrow> msb_bits 24 y))"
    by (intro eg_binds eg_skips_field [of 4]) simp_all
  then have "eg_skips sps_video_signal ([True] @ msb_bits 4 f @ [c \<noteq> None]
      @ (case c of None \<Rightarrow> [] | Some y \<Rightarrow> msb_bits 24 y))"
    unfolding sps_video_signal_def [abs_def] by (intro eg_binds) simp
  then show ?thesis by (simp add: signal_bits_def x)
qed

lemma sps_chroma_loc_skips:
  assumes "case v of None \<Rightarrow> True | Some (a, b) \<Rightarrow> ue_ok a \<and> ue_ok b"
  shows "eg_skips sps_chroma_loc (loc_bits v)"
proof (cases v)
  case None
  have "eg_skips sps_chroma_loc ([False] @ [])"
    unfolding sps_chroma_loc_def [abs_def] by (intro eg_binds) (simp add: eg_leaf)
  with None show ?thesis by (simp add: loc_bits_def)
next
  case (Some x)
  obtain a b where x: "v = Some (a, b)" "ue_ok a" "ue_ok b" using Some assms by (cases x) auto
  have "eg_skips sps_chroma_loc ([True] @ ue_bits a @ ue_bits b)"
    unfolding sps_chroma_loc_def [abs_def]
    by (intro eg_binds) (simp, intro eg_binds eg_leaf x)
  then show ?thesis by (simp add: loc_bits_def x(1))
qed

lemma two_bytes:
  assumes "0 \<le> w" and "w < 2 ^ 16"
  shows "msb_bits 16 w = msb_bits 8 (w div 256) @ msb_bits 8 (w mod 256)"
    and "js_or (js_shl (w div 256) 8) (w mod 256) = w"
    and "field_ok (8, w div 256)" and "field_ok (8, w mod 256)"
proof -
  have "msb_bits 8 w = msb_bits 8 (w mod 256)"
    by (rule msb_bits_cong) (simp add: take_bit_eq_mod [of 8 w, simplified, symmetric] bit_take_bit_iff)
  then show "msb_bits 16 w = msb_bits 8 (w div 256) @ msb_bits 8 (w mod 256)"
    using msb_bits_split [of 8 8 w] by (simp add: drop_bit_eq_div)
  have "w div 256 * 256 + w mod 256 = w" by simp
  then show "js_or (js_shl (w div 256) 8) (w mod 256) = w"
    using js_or_shl [of "w div 256" "w mod 256" 8] assms by simp
  show "field_ok (8, w div 256)" "field_ok (8, w mod 256)" using assms by (auto simp: field_ok_def)
qed

lemma sps_aspect_reads: "aspect_ok a \<Longrightarrow> eg_reads sps_aspect (aspect_bits a) (aspect_scale a)"
proof (cases a)
  case NoAspect
  show ?thesis unfolding NoAspect aspect_bits.simps sps_aspect_def [abs_def]
    by (intro eg_binds) (simp add: eg_leaf)
next
  case (AspectIdc n)
  assume "aspect_ok a"
  with AspectIdc have n: "field_ok (8, n)" "n \<noteq> 255" by (auto simp: field_ok_def)
  show ?thesis unfolding AspectIdc aspect_bits.simps sps_aspect_def [abs_def]
  proof (intro eg_binds, simp only: not_True_eq_False if_False, intro eg_binds n)
    show "eg_reads (\<lambda>d. case map_of sar_table n of None \<Rightarrow> if n = 255 then
         bindE (readUByte d) (\<lambda>(w1, d). bindE (readUByte d) (\<lambda>(w0, d).
         bindE (readUByte d) (\<lambda>(h1, d). bindE (readUByte d) (\<lambda>(h0, d).
           Inr (sar_scale (js_or (js_shl w1 8) w0) (js_or (js_shl h1 8) h0), d)))))
         else Inr (Some 1, d) | Some (w, h) \<Rightarrow> Inr (sar_scale w h, d)) [] (aspect_scale (AspectIdc n))"
      using n(2) by (auto simp: eg_leaf split: option.splits prod.splits)
  qed
next
  case (AspectExt w h)
  assume "aspect_ok a"
  with AspectExt have w: "0 \<le> w" "w < 2 ^ 16" and h: "0 \<le> h" "h < 2 ^ 16" by auto
  have ext: "eg_reads (\<lambda>d. bindE (readUByte d) (\<lambda>(w1, d). bindE (readUByte d) (\<lambda>(w0, d).
         bindE (readUByte d) (\<lambda>(h1, d). bindE (readUByte d) (\<lambda>(h0, d).
           Inr (sar_scale (js_or (js_shl w1 8) w0) (js_or (js_shl h1 8) h0), d))))))
      (msb_bits 8 (w div 256) @ msb_bits 8 (w mod 256) @ msb_bits 8 (h div 256) @ msb_bits 8 (h mod 256) @ [])
      (sar_scale w h)"
    by (intro eg_binds two_bytes w h) (simp add: two_bytes(2) [OF w] two_bytes(2) [OF h] eg_leaf)
  have "map_of sar_table 255 = None" by (simp add: sar_table_def)
  moreover have "field_ok (8, 255)" by (simp add: field_ok_def)
  ultimately have "eg_reads sps_aspect ([True] @ msb_bits 8 255 @ (msb_bits 8 (w div 256)
      @ msb_bits 8 (w mod 256) @ msb_bits 8 (h div 256) @ msb_bits 8 (h mod 256) @ [])) (sar_scale w h)"
    unfolding sps_aspect_def [abs_def]
    by (intro eg_binds) (simp only: not_True_eq_False if_False, intro eg_binds, simp_all add: ext [simplified])
  then show ?thesis by (simp add: AspectExt two_bytes(1) [OF w] two_bytes(1) [OF h])
qed

lemma sps_vui_reads:
  assumes "case v of None \<Rightarrow> True | Some i \<Rightarrow> vui_ok i"
  shows "eg_reads sps_vui (vui_bits v) (case v of None \<Rightarrow> Some 1 | Some i \<Rightarrow> aspect_scale (vi_aspect i))"
proof (cases v)
  case None
  have "eg_reads sps_vui ([False] @ []) (Some 1)"
    unfolding sps_vui_def [abs_def] by (intro eg_binds) (simp add: eg_leaf)
  with None show ?thesis by (simp add: vui_bits_def)
next
  case (Some i)
  with assms have i: "vui_ok i" by simp
  have k: "eg_reads (\<lambda>d. bindE (sps_aspect d) (\<lambda>(sarScale, d). bindE (sps_overscan d) (\<lambda>d.
       bindE (sps_video_signal d) (\<lambda>d. bindE (sps_chroma_loc d) (\<lambda>d.
       bindE (sps_timing d) (\<lambda>d. Inr (sarScale, d)))))))
      (aspect_bits (vi_aspect i) @ overscan_bits (vi_overscan i) @ signal_bits (vi_signal i)
        @ loc_bits (vi_loc i) @ timing_bits (vi_timing i) @ []) (aspect_scale (vi_aspect i))"
    by (intro eg_reads_bind [OF sps_aspect_reads] eg_reads_skip sps_overscan_skips sps_video_signal_skips
        sps_chroma_loc_skips sps_timing_skips eg_leaf) (use i in \<open>auto simp: vui_ok_def\<close>)
  then have "eg_reads sps_vui ([True] @ aspect_bits (vi_aspect i) @ overscan_bits (vi_overscan i)
      @ signal_bits (vi_signal i) @ loc_bits (vi_loc i) @ timing_bits (vi_timing i) @ [])
      (aspect_scale (vi_aspect i))"
    unfolding sps_vui_def [abs_def] by (intro eg_binds) simp
  with Some show ?thesis by (simp add: vui_bits_def)
qed

lemma eg_reads_bit: "eg_reads (\<lambda>d. readBits d 1) [b] (of_bool b)"
  using eg_reads_readBits [of 1 "[b]"] by (simp add: bits_val_def)

lemma readSPS_elems_reads:
  assumes "sps_ok s"
  shows "eg_reads readSPS_elems (sps_bits s) (sps_picture s)"
proof -
  obtain l r t b where crop: "(case sp_crop s of None \<Rightarrow> (0, 0, 0, 0) | Some c \<Rightarrow> c) = (l, r, t, b)"
    by (metis prod_cases4)
  then have cropi: "(case sp_crop s of None \<Rightarrow> (0, 0, 0, 0) | Some (l, r, t, b) \<Rightarrow> (int l, int r, int t, int b))
      = (int l, int r, int t, int b)"
    by (auto split: option.splits)
  have comp: "eg_reads (\<lambda>d. readBits d 5) (msb_bits 5 (sp_compat s)) (sp_compat s)"
    using eg_reads_field [of 5 "sp_compat s"] assms by (simp add: sps_ok_def)
  have cr: "eg_reads sps_cropping (crop_bits (sp_crop s)) (int l, int r, int t, int b)"
    using sps_cropping_reads [of "sp_crop s"] assms cropi by (simp add: sps_ok_def)
  have fm: "eg_skips (\<lambda>d. if of_bool (sp_frame_mbs_only s) = (0 :: int) then skipBits d 1 else Inr d)
      (if \<not> sp_frame_mbs_only s then [sp_mb_adaptive s] else [])"
    by (simp add: eg_leaf)
  define pic where "pic sar = \<lparr>cfg_width = map_option (sps_width (int (sp_width_mbs1 s)) (int l) (int r)) sar,
      cfg_height = sps_height (of_bool (sp_frame_mbs_only s)) (int (sp_height_map1 s)) (int t) (int b)\<rparr>" for sar
  have picture: "sps_picture s = pic (case sp_vui s of None \<Rightarrow> Some 1 | Some i \<Rightarrow> aspect_scale (vi_aspect i))"
    by (simp add: sps_picture_def crop pic_def)
  have tail: "eg_reads (\<lambda>d. bindE (sps_vui d) (\<lambda>(sar, d). Inr (pic sar, d))) (vui_bits (sp_vui s) @ [])
      (sps_picture s)"
    unfolding picture by (intro eg_reads_bind [OF sps_vui_reads] eg_leaf) (use assms in \<open>simp add: sps_ok_def\<close>)
  show ?thesis
    unfolding readSPS_elems_def [abs_def] sps_bits_def high_profiles_iff
    by (intro eg_binds eg_reads_bind [OF comp] eg_reads_bind [OF cr]
        eg_reads_bind [OF eg_reads_bit] fm eg_skips_if sps_chroma_skips sps_poc_skips eg_leaf
        eg_skips_field [of 3])
      (use assms tail in \<open>auto simp: sps_ok_def pic_def [abs_def]\<close>)
qed

lemma readSPS_correct:
  assumes "sps_ok s" and "bytes_bits data = sps_bits s @ rest" and "rest \<noteq> []"
  shows "readSPS data = Inr (sps_picture s)"
  using eg_readsD [OF readSPS_elems_reads [OF assms(1)] eg_ok_ExpGolomb [of data], of rest] assms(2,3)
  by (auto simp: readSPS_def eg_bits_ExpGolomb)

section \<open>The picture of a parameter set\<close>

text \<open>The picture as the recommendation defines it (sections 7.4.2.1.1 and E.2.1): the samples of the decoded
  frame, less the cropping rectangle in units that depend on the chroma format, and the sample aspect ratio of
  table E-1, or the one that is transmitted.\<close>

definition chroma_array_type :: "sps \<Rightarrow> nat" where
  "chroma_array_type s = (if sp_profile s \<notin> high_profiles then 1
     else if hi_chroma (sp_high s) = 3 \<and> hi_separate (sp_high s) then 0 else hi_chroma (sp_high s))"

definition subWidthC :: "nat \<Rightarrow> nat" where "subWidthC c = (if c = 1 \<or> c = 2 then 2 else 1)"
definition subHeightC :: "nat \<Rightarrow> nat" where "subHeightC c = (if c = 1 then 2 else 1)"

definition field_factor :: "sps \<Rightarrow> nat" where
  "field_factor s = (if sp_frame_mbs_only s then 1 else 2)"

definition frame_columns :: "sps \<Rightarrow> int" where
  "frame_columns s = 16 * (int (sp_width_mbs1 s) + 1)
     - (case sp_crop s of None \<Rightarrow> 0 | Some (l, r, t, b) \<Rightarrow> int (subWidthC (chroma_array_type s) * (l + r)))"

definition frame_rows :: "sps \<Rightarrow> int" where
  "frame_rows s = 16 * int (field_factor s * (sp_height_map1 s + 1))
     - (case sp_crop s of None \<Rightarrow> 0 | Some (l, r, t, b) \<Rightarrow> int (subHeightC (chroma_array_type s) * field_factor s * (t + b)))"

definition table_E1 :: "(int \<times> int) list" where
  "table_E1 = [(1, 1), (12, 11), (10, 11), (16, 11), (40, 33), (24, 11), (20, 11), (32, 11), (80, 33), (18, 11), (15, 11),
     (64, 33), (160, 99), (4, 3), (3, 2), (2, 1)]"

definition sample_ratio :: "sps \<Rightarrow> int \<times> int" where
  "sample_ratio s = (case map_option vi_aspect (sp_vui s) of
       Some (AspectIdc n) \<Rightarrow> if 1 \<le> n \<and> n \<le> 16 then table_E1 ! nat (n - 1) else (1, 1)
     | Some (AspectExt w h) \<Rightarrow> (w, h)
     | _ \<Rightarrow> (1, 1))"

text \<open>The width on a screen with square pixels.\<close>

definition shown_width :: "sps \<Rightarrow> rat" where
  "shown_width s = of_int (frame_columns s * fst (sample_ratio s)) / of_int (snd (sample_ratio s))"

text \<open>The units in which the code crops are those of 4:2:0 video.\<close>

definition code_crops :: "sps \<Rightarrow> bool" where
  "code_crops s \<longleftrightarrow> chroma_array_type s = 1 \<or> sp_crop s = None"

lemma aspect_in_table:
  "(case map_of sar_table n of None \<Rightarrow> (1, 1) | Some p \<Rightarrow> p) = (if 1 \<le> n \<and> n \<le> 16 then table_E1 ! nat (n - 1) else (1, 1))"
proof (cases "1 \<le> n \<and> n \<le> 16")
  case True
  then have "n \<in> {1..16}" by simp
  also have "{1..16} = set [1..16]" by simp
  also have "[1..16] = [1, 2, 3, 4, 5, 6, 7, 8, 9, 10, 11, 12, 13, 14, 15, 16 :: int]" by (simp add: upto.simps)
  finally consider "n = 1" | "n = 2" | "n = 3" | "n = 4" | "n = 5" | "n = 6" | "n = 7" | "n = 8" | "n = 9" | "n = 10"
    | "n = 11" | "n = 12" | "n = 13" | "n = 14" | "n = 15" | "n = 16" by (simp only: list.set insert_iff empty_iff) blast
  then show ?thesis by cases (simp_all add: sar_table_def table_E1_def)
next
  case False
  then have "map_of sar_table n = None" by (simp add: map_of_eq_None_iff sar_table_def) presburger
  with False show ?thesis by auto
qed

lemma sps_picture_formulas:
  assumes "code_crops s" "0 < snd (sample_ratio s)"
  shows "sps_picture s = \<lparr>cfg_width = Some \<lceil>js_mul (of_int (frame_columns s))
      (js_div (of_int (fst (sample_ratio s))) (of_int (snd (sample_ratio s))))\<rceil>, cfg_height = frame_rows s\<rparr>"
proof -
  have one: "js_div 1 1 = 1" using js_div_1_of_int [of 1] by simp
  have scale: "(case sp_vui s of None \<Rightarrow> Some 1 | Some i \<Rightarrow> aspect_scale (vi_aspect i))
      = Some (js_div (of_int (fst (sample_ratio s))) (of_int (snd (sample_ratio s))))"
  proof (cases "sp_vui s")
    case (Some i)
    show ?thesis
    proof (cases "vi_aspect i")
      case (AspectIdc n)
      have "aspect_scale (AspectIdc n) = (case (case map_of sar_table n of None \<Rightarrow> (1, 1) | Some p \<Rightarrow> p) of (w, h) \<Rightarrow> sar_scale w h)"
        using one by (auto simp: sar_scale_def split: option.split)
      moreover have "sample_ratio s = (case map_of sar_table n of None \<Rightarrow> (1, 1) | Some p \<Rightarrow> p)"
        using Some AspectIdc aspect_in_table [of n] by (simp add: sample_ratio_def)
      ultimately show ?thesis using Some AspectIdc assms(2) by (simp add: sar_scale_def case_prod_beta)
    qed (use Some assms(2) one in \<open>auto simp: sample_ratio_def sar_scale_def\<close>)
  qed (simp add: sample_ratio_def one)
  have crop: "sp_crop s = None \<or> subWidthC (chroma_array_type s) = 2 \<and> subHeightC (chroma_array_type s) = 2"
    using assms(1) by (auto simp: code_crops_def subWidthC_def subHeightC_def)
  show ?thesis
  proof (cases "sp_crop s")
    case (Some c)
    obtain l r t b where c: "c = (l, r, t, b)" by (cases c)
    have "sps_width (int (sp_width_mbs1 s)) (int l) (int r) x = \<lceil>js_mul (of_int (frame_columns s)) x\<rceil>" for x
      using crop Some c by (simp add: sps_width_def frame_columns_def algebra_simps)
    moreover have "sps_height (of_bool (sp_frame_mbs_only s)) (int (sp_height_map1 s)) (int t) (int b) = frame_rows s"
      using crop Some c by (simp add: sps_height_def frame_rows_def field_factor_def algebra_simps)
    ultimately show ?thesis by (simp add: sps_picture_def scale Some c)
  qed (simp add: sps_picture_def scale sps_width_def sps_height_def frame_columns_def frame_rows_def field_factor_def mult.commute)
qed

text \<open>The two roundings, of the ratio and of the product, move the width by less than the distance between two
  quotients by the same denominator.\<close>

lemma scaled_width:
  fixes W w h :: int
  assumes "0 \<le> W" "W < 2 ^ 17" "0 \<le> w" "w < 2 ^ 16" "0 < h" "h < 2 ^ 16"
  defines "x \<equiv> of_int (W * w) / of_int h :: rat" and "p \<equiv> js_mul (of_int W) (js_div (of_int w) (of_int h))"
  shows "\<bar>p - x\<bar> * of_int h < 1"
proof -
  let ?q = "of_int w / of_int h :: rat" and ?d = "js_div (of_int w) (of_int h)"
  have q: "0 \<le> ?q" "?q < 2 ^ 16"
  proof -
    show "0 \<le> ?q" using assms(3,5) by simp
    have "of_int w < (2 ^ 16 :: rat)" using assms(4) by (metis of_int_less_iff of_int_numeral of_int_power)
    moreover have "?q \<le> of_int w" using assms(3,5) by (simp add: divide_le_eq mult_le_cancel_left1)
    ultimately show "?q < 2 ^ 16" by linarith
  qed
  have W: "0 \<le> (of_int W :: rat)" "of_int W < (2 ^ 17 :: rat)"
    using assms(1,2) by (simp, metis of_int_less_iff of_int_numeral of_int_power)
  have h: "0 < (of_int h :: rat)" "of_int h < (2 ^ 16 :: rat)"
    using assms(5,6) by (simp, metis of_int_less_iff of_int_numeral of_int_power)
  have e1: "\<bar>?d - ?q\<bar> * 2 ^ 53 \<le> 2 ^ 16" using dbl_error [of ?q] q unfolding js_div_def by linarith
  then have "\<bar>?d - ?q\<bar> \<le> 1" by simp
  then have d: "\<bar>?d\<bar> < 2 ^ 17" using q by simp
  have e2: "\<bar>p - of_int W * ?d\<bar> * 2 ^ 53 \<le> 2 ^ 34"
  proof -
    have "\<bar>of_int W * ?d\<bar> \<le> 2 ^ 17 * 2 ^ 17" unfolding abs_mult using W d by (intro mult_mono) auto
    with dbl_error [of "of_int W * ?d"] show ?thesis by (simp add: p_def js_mul_def)
  qed
  have "\<bar>of_int W * ?d - x\<bar> * 2 ^ 53 = of_int W * (\<bar>?d - ?q\<bar> * 2 ^ 53)"
  proof -
    have "of_int W * ?d - x = of_int W * (?d - ?q)" by (simp add: x_def right_diff_distrib)
    then show ?thesis using W(1) by (simp only: abs_mult abs_of_nonneg)
  qed
  also have "\<dots> \<le> 2 ^ 17 * 2 ^ 16" using W e1 by (intro mult_mono) auto
  finally have "\<bar>of_int W * ?d - x\<bar> * 2 ^ 53 \<le> 2 ^ 33" by simp
  moreover have "\<bar>p - x\<bar> \<le> \<bar>p - of_int W * ?d\<bar> + \<bar>of_int W * ?d - x\<bar>" by linarith
  ultimately have "\<bar>p - x\<bar> \<le> 1 / 2 ^ 18" using e2 by (simp add: field_simps)
  then have "\<bar>p - x\<bar> * of_int h \<le> 1 / 2 ^ 18 * 2 ^ 16" using h by (intro mult_mono) auto
  then show ?thesis by simp
qed

lemma ceiling_near:
  fixes p :: rat and N h :: int
  assumes "0 < h" "\<bar>p - of_int N / of_int h\<bar> * of_int h < 1"
  shows "\<lceil>p\<rceil> = \<lceil>of_int N / of_int h :: rat\<rceil> \<or> \<lceil>p\<rceil> = \<lceil>of_int N / of_int h :: rat\<rceil> + 1 \<and> h dvd N"
proof -
  define c where "c = \<lceil>of_int N / of_int h :: rat\<rceil>"
  have h: "0 < (of_int h :: rat)" using assms(1) by simp
  have c: "of_int N / of_int h \<le> (of_int c :: rat)" "of_int c - 1 < (of_int N / of_int h :: rat)" by (simp_all add: c_def; linarith)+
  then have "of_int N \<le> (of_int (c * h) :: rat)" "(of_int ((c - 1) * h) :: rat) < of_int N"
    using h by (simp_all add: pos_divide_le_eq pos_less_divide_eq)
  then have N: "N \<le> c * h" "(c - 1) * h + 1 \<le> N" by linarith+
  have "\<bar>p * of_int h - of_int N\<bar> < 1"
  proof -
    have "(p - of_int N / of_int h) * of_int h = p * of_int h - of_int N" using h by (simp add: field_simps)
    then have "\<bar>p * of_int h - of_int N\<bar> = \<bar>p - of_int N / of_int h\<bar> * of_int h" using h by (metis abs_mult abs_of_pos)
    then show ?thesis using assms(2) by simp
  qed
  then have p: "of_int N - 1 < p * of_int h" "p * of_int h < of_int N + 1" by linarith+
  have "of_int ((c - 1) * h) < p * of_int h" using p(1) N(2) by linarith
  then have lower: "of_int (c - 1) < p" unfolding of_int_mult using h by (simp only: mult_less_cancel_right_pos)
  show ?thesis
  proof (cases "N = c * h")
    case True
    have "(c + 1) * h = N + h" by (simp only: True distrib_right mult_1_left)
    then have "of_int ((c + 1) * h) = (of_int N + of_int h :: rat)" by (simp only: of_int_add)
    moreover have "1 \<le> (of_int h :: rat)" using assms(1) by simp
    ultimately have "p * of_int h < of_int ((c + 1) * h)" using p(2) by linarith
    then have "p < of_int (c + 1)" unfolding of_int_mult using h by (simp only: mult_less_cancel_right_pos)
    then have "\<lceil>p\<rceil> \<le> c + 1" by (simp only: ceiling_le_iff less_imp_le)
    moreover have "c - 1 < \<lceil>p\<rceil>" using lower by (simp only: less_ceiling_iff)
    ultimately have "\<lceil>p\<rceil> = c \<or> \<lceil>p\<rceil> = c + 1" by linarith
    then show ?thesis using True unfolding c_def [symmetric] by auto
  next
    case False
    then have "N + 1 \<le> c * h" using N(1) by linarith
    then have "of_int N + 1 \<le> (of_int c * of_int h :: rat)" by (metis of_int_1 of_int_add of_int_le_iff of_int_mult)
    then have "p * of_int h < of_int c * of_int h" using p(2) by linarith
    then have "p < of_int c" using h by (simp only: mult_less_cancel_right_pos)
    then have "\<lceil>p\<rceil> \<le> c" by (simp only: ceiling_le_iff less_imp_le)
    moreover have "c - 1 < \<lceil>p\<rceil>" using lower by (simp only: less_ceiling_iff)
    ultimately have "\<lceil>p\<rceil> = c" by linarith
    then show ?thesis unfolding c_def [symmetric] by simp
  qed
qed

lemma sample_ratio_range:
  assumes "sps_ok s"
  shows "0 \<le> fst (sample_ratio s)" "fst (sample_ratio s) < 2 ^ 16" "snd (sample_ratio s) < 2 ^ 16"
proof -
  have "\<forall>(w, h) \<in> set table_E1. 0 \<le> w \<and> w < 2 ^ 16 \<and> h < 2 ^ 16" by (simp add: table_E1_def)
  moreover have "table_E1 ! nat (n - 1) \<in> set table_E1" if "1 \<le> n" "n \<le> 16" for n
    using that by (intro nth_mem) (simp add: table_E1_def)
  ultimately have "0 \<le> fst (sample_ratio s) \<and> fst (sample_ratio s) < 2 ^ 16 \<and> snd (sample_ratio s) < 2 ^ 16"
    using assms by (fastforce simp: sample_ratio_def sps_ok_def vui_ok_def split: option.split sps_aspect_info.split)
  then show "0 \<le> fst (sample_ratio s)" "fst (sample_ratio s) < 2 ^ 16" "snd (sample_ratio s) < 2 ^ 16" by blast+
qed

text \<open>C14: From the bytes of a parameter set, with every optional part present or absent, \<^verbatim>\<open>readSPS\<close> computes the
  picture that the recommendation defines: its height exactly, its width on square pixels rounded up, or one pixel
  more when no rounding was needed and the samples are not square (the quotient and the product are rounded to
  binary64). The video is 4:2:0 or not cropped, has less than \<open>2 ^ 17\<close> columns, and its aspect ratio is not
  degenerate.\<close>

theorem sps_parsed:
  assumes "sps_ok s" "bytes_bits data = sps_bits s @ rest" "rest \<noteq> []"
    and "code_crops s" "0 \<le> frame_columns s" "frame_columns s < 2 ^ 17" "0 < snd (sample_ratio s)"
  shows "\<exists>w. readSPS data = Inr \<lparr>cfg_width = Some w, cfg_height = frame_rows s\<rparr> \<and>
    (w = \<lceil>shown_width s\<rceil> \<or> w = \<lceil>shown_width s\<rceil> + 1 \<and> shown_width s \<in> \<int> \<and> fst (sample_ratio s) \<noteq> snd (sample_ratio s))"
proof -
  define W w h where "W = frame_columns s" and "w = fst (sample_ratio s)" and "h = snd (sample_ratio s)"
  have ratio: "0 \<le> w" "w < 2 ^ 16" "h < 2 ^ 16" using sample_ratio_range [OF assms(1)] by (simp_all add: w_def h_def)
  have x: "shown_width s = of_int (W * w) / of_int h" by (simp add: shown_width_def W_def w_def h_def)
  let ?p = "js_mul (of_int W) (js_div (of_int w) (of_int h))"
  have h: "0 < h" using assms(7) by (simp add: h_def)
  have "\<bar>?p - of_int (W * w) / of_int h\<bar> * of_int h < 1"
    using scaled_width [of W w h] assms(5-7) ratio by (simp add: W_def h_def)
  from ceiling_near [OF h this] have near: "\<lceil>?p\<rceil> = \<lceil>shown_width s\<rceil> \<or> \<lceil>?p\<rceil> = \<lceil>shown_width s\<rceil> + 1 \<and> h dvd W * w"
    by (simp only: x)
  have square: "\<lceil>?p\<rceil> = \<lceil>shown_width s\<rceil>" if "w = h"
  proof -
    have "js_div (of_int h) (of_int h) = 1" using h js_div_1_of_int [of 1] by (simp add: js_div_def)
    then show ?thesis using that h js_mul_1_of_int [of W] assms(5,6) by (simp add: x W_def)
  qed
  have "shown_width s \<in> \<int>" if "h dvd W * w"
  proof -
    from that obtain k where "W * w = h * k" by (elim dvdE)
    then have "shown_width s = of_int k" using h by (simp only: x of_int_mult) simp
    then show ?thesis by simp
  qed
  then have "\<lceil>?p\<rceil> = \<lceil>shown_width s\<rceil> \<or> \<lceil>?p\<rceil> = \<lceil>shown_width s\<rceil> + 1 \<and> shown_width s \<in> \<int> \<and> w \<noteq> h"
    using near square by blast
  then show ?thesis
    using readSPS_correct [OF assms(1-3)] sps_picture_formulas [OF assms(4,7)]
    by (intro exI [of _ "\<lceil>?p\<rceil>"]) (simp add: W_def w_def h_def)
qed

definition example_sps :: sps where
  "example_sps = \<lparr>sp_header = 0x67, sp_profile = 100, sp_compat = 0, sp_reserved = 0, sp_level = 30, sp_id = 0,
     sp_high = \<lparr>hi_chroma = 1, hi_separate = False, hi_luma_depth = 0, hi_chroma_depth = 0, hi_bypass = False,
       hi_matrix = None\<rparr>,
     sp_log2_frame_num = 0, sp_poc = Poc0 0, sp_ref_frames = 1, sp_gaps = False, sp_width_mbs1 = 39,
     sp_height_map1 = 29, sp_frame_mbs_only = True, sp_mb_adaptive = False, sp_direct = True, sp_crop = None,
     sp_vui = None\<rparr>"

lemma sps_parsed_witness:
  "readSPS [0x67, 0x64, 0x00, 0x1e, 0xac, 0xe8, 0x0a, 0x03, 0xd9] = Inr \<lparr>cfg_width = Some 640, cfg_height = 480\<rparr>"
proof -
  have bits: "bytes_bits [0x67, 0x64, 0x00, 0x1e, 0xac, 0xe8, 0x0a, 0x03, 0xd9] = sps_bits example_sps @ [True]"
    by code_simp
  have ok: "sps_ok example_sps" by (simp add: sps_ok_def example_sps_def field_ok_def ue_ok_def high_ok_def crop_ok_def)
  have "code_crops example_sps" "frame_columns example_sps = 640" "frame_rows example_sps = 480"
    "sample_ratio example_sps = (1, 1)"
    by (simp_all add: code_crops_def frame_columns_def frame_rows_def sample_ratio_def field_factor_def example_sps_def)
  then show ?thesis using sps_parsed [OF ok bits] by (simp add: shown_width_def)
qed

text \<open>The width is rounded up after a division and a multiplication that round to binary64: a multiple of
  11 macroblock columns comes out one pixel too wide at the aspect ratio 18:11.\<close>

lemma ceil_scaled_1232: "\<lceil>js_mul 1232 (js_div 18 11)\<rceil> = 2017"
proof -
  have "js_div 18 11 = of_int 7369526662969903 * pow2 (- 52)"
    unfolding js_div_def by (rule dblI) (simp_all add: pow2_def)
  moreover have "dbl (1232 * (of_int 7369526662969903 * pow2 (- 52))) = of_int 8866461766385665 * pow2 (- 42)"
    by (rule dblI) (simp_all add: pow2_def)
  ultimately have "js_mul 1232 (js_div 18 11) = 8866461766385665 / 2 ^ 42"
    by (simp only: js_mul_def) (simp add: pow2_def)
  then show ?thesis by (simp add: ceiling_eq_iff)
qed

end
