(* ===== verification/JsRegex.thy ===== *)
theory JsRegex
  imports JsText
begin

text \<open>
  The regular expressions of the player. \<open>re_run\<close> is the backtracking matcher: the matches at the
  front of a string, in the order the engine tries them (greedy repetitions, alternatives from the
  left), each with its captured groups, the text consumed and the text left. \<open>re_match\<close> is the
  declarative meaning; \<open>re_run_iff\<close> says that the matcher finds exactly those matches. The lemmas
  at the end evaluate the pattern shapes that the parsers use.
\<close>

datatype re =
    Lit string                              \<comment> \<open>a literal\<close>
  | Rep "char \<Rightarrow> bool" nat "nat option"     \<comment> \<open>a class, repeated at least and at most so often\<close>
  | Alt re re
  | Seq re re
  | Cap re                                  \<comment> \<open>a group\<close>
  | Eos                                     \<comment> \<open>\<^verbatim>\<open>$\<close>\<close>

abbreviation Plus :: "(char \<Rightarrow> bool) \<Rightarrow> re" where "Plus p \<equiv> Rep p 1 None"
abbreviation Star :: "(char \<Rightarrow> bool) \<Rightarrow> re" where "Star p \<equiv> Rep p 0 None"
abbreviation Opt :: "(char \<Rightarrow> bool) \<Rightarrow> re" where "Opt p \<equiv> Rep p 0 (Some 1)"

fun re_seq :: "re list \<Rightarrow> re" where
  "re_seq [] = Lit []"
| "re_seq [r] = r"
| "re_seq (r # q # rs) = Seq r (re_seq (q # rs))"

definition rep_max :: "(char \<Rightarrow> bool) \<Rightarrow> nat option \<Rightarrow> string \<Rightarrow> nat" where
  "rep_max p n s = (let k = length (takeWhile p s) in case n of None \<Rightarrow> k | Some m \<Rightarrow> min k m)"

fun re_run :: "re \<Rightarrow> string \<Rightarrow> (string list \<times> string \<times> string) list" where
  "re_run (Lit t) s = (if take (length t) s = t then [([], t, drop (length t) s)] else [])"
| "re_run (Rep p m n) s = map (\<lambda>j. ([], take j s, drop j s)) (rev [m..<Suc (rep_max p n s)])"
| "re_run (Alt r q) s = re_run r s @ re_run q s"
| "re_run (Seq r q) s = concat (map (\<lambda>(cs, u, s'). map (\<lambda>(ds, v, s''). (cs @ ds, u @ v, s''))
     (re_run q s')) (re_run r s))"
| "re_run (Cap r) s = map (\<lambda>(cs, u, s'). (u # cs, u, s')) (re_run r s)"
| "re_run Eos s = (if s = [] then [([], [], [])] else [])"

text \<open>\<^verbatim>\<open>s.match(/^r/)\<close>: the whole match followed by its groups; \<open>re_search\<close> is the unanchored
  \<^verbatim>\<open>s.match(/r/)\<close>, which also tries every later start.\<close>

definition re_exec :: "re \<Rightarrow> string \<Rightarrow> string list option" where
  "re_exec r s = (case re_run r s of [] \<Rightarrow> None | (cs, u, s') # _ \<Rightarrow> Some (u # cs))"

fun re_search :: "re \<Rightarrow> string \<Rightarrow> string list option" where
  "re_search r [] = re_exec r []"
| "re_search r (c # cs) = (case re_exec r (c # cs) of Some m \<Rightarrow> Some m | None \<Rightarrow> re_search r cs)"

section \<open>The matcher finds exactly the matches\<close>

inductive re_match :: "re \<Rightarrow> string list \<Rightarrow> string \<Rightarrow> string \<Rightarrow> bool" where
  m_Lit: "re_match (Lit t) [] t s"
| m_Rep: "\<lbrakk>m \<le> length u; case n of None \<Rightarrow> True | Some k \<Rightarrow> length u \<le> k; \<forall>c \<in> set u. p c\<rbrakk>
    \<Longrightarrow> re_match (Rep p m n) [] u s"
| m_Alt1: "re_match r cs u s \<Longrightarrow> re_match (Alt r q) cs u s"
| m_Alt2: "re_match q cs u s \<Longrightarrow> re_match (Alt r q) cs u s"
| m_Seq: "\<lbrakk>re_match r cs u (v @ s); re_match q ds v s\<rbrakk> \<Longrightarrow> re_match (Seq r q) (cs @ ds) (u @ v) s"
| m_Cap: "re_match r cs u s \<Longrightarrow> re_match (Cap r) (u # cs) u s"
| m_Eos: "re_match Eos [] [] []"

inductive_simps re_match_Lit [simp]: "re_match (Lit t) cs u s"
inductive_simps re_match_Rep: "re_match (Rep p m n) cs u s"
inductive_simps re_match_Alt [simp]: "re_match (Alt r q) cs u s"
inductive_simps re_match_Seq: "re_match (Seq r q) cs u s"
inductive_simps re_match_Cap: "re_match (Cap r) cs u s"
inductive_simps re_match_Eos [simp]: "re_match Eos cs u s"

lemma takeWhile_prefix_iff:
  "j \<le> length s \<Longrightarrow> (\<forall>c \<in> set (take j s). p c) \<longleftrightarrow> j \<le> length (takeWhile p s)"
proof (induction s arbitrary: j)
  case (Cons c s)
  then show ?case by (cases j) auto
qed simp

lemma re_run_Rep_iff:
  "(cs, u, s') \<in> set (re_run (Rep p m n) s) \<longleftrightarrow> s = u @ s' \<and> re_match (Rep p m n) cs u s'"
proof -
  have le: "rep_max p n s \<le> length s" for s
    using length_takeWhile_le [of p s] by (auto simp: rep_max_def Let_def min_def split: option.splits)
  have rep: "j \<le> rep_max p n s \<longleftrightarrow> j \<le> length s \<and> (case n of None \<Rightarrow> True | Some k \<Rightarrow> j \<le> k)
      \<and> (\<forall>c \<in> set (take j s). p c)" for j
    using takeWhile_prefix_iff [of j s p] length_takeWhile_le [of p s]
    by (cases n) (auto simp: rep_max_def Let_def)
  show ?thesis
  proof
    assume "(cs, u, s') \<in> set (re_run (Rep p m n) s)"
    then obtain j where j: "m \<le> j" "j \<le> rep_max p n s" "cs = []" "u = take j s" "s' = drop j s"
      by auto
    with rep [of j] show "s = u @ s' \<and> re_match (Rep p m n) cs u s'"
      by (cases n) (auto simp: re_match_Rep min_def)
  next
    assume a: "s = u @ s' \<and> re_match (Rep p m n) cs u s'"
    then have "length u \<le> rep_max p n s" "m \<le> length u" "cs = []"
      using rep [of "length u"] by (auto simp: re_match_Rep)
    with a show "(cs, u, s') \<in> set (re_run (Rep p m n) s)"
      by (auto intro!: image_eqI [of _ _ "length u"])
  qed
qed

lemma in_concat_map3:
  "y \<in> set (concat (map (\<lambda>(a, b, c). f a b c) xs)) \<longleftrightarrow> (\<exists>a b c. (a, b, c) \<in> set xs \<and> y \<in> set (f a b c))"
  by force

lemma in_map3:
  "y \<in> set (map (\<lambda>(a, b, c). f a b c) xs) \<longleftrightarrow> (\<exists>a b c. (a, b, c) \<in> set xs \<and> y = f a b c)"
  by force

lemma re_run_iff:
  "(cs, u, s') \<in> set (re_run r s) \<longleftrightarrow> s = u @ s' \<and> re_match r cs u s'"
proof (induction r arbitrary: cs u s s')
  case (Lit t)
  have "take (length t) s = t \<longleftrightarrow> s = t @ drop (length t) s"
    by (metis append_eq_conv_conj append_take_drop_id)
  then show ?case by (auto simp del: append_take_drop_id)
next
  case (Rep p m n)
  show ?case by (rule re_run_Rep_iff)
next
  case (Seq r q)
  have "(cs, u, s') \<in> set (re_run (Seq r q) s) \<longleftrightarrow> (\<exists>cs1 u1 t cs2 u2. (cs1, u1, t) \<in> set (re_run r s)
      \<and> (cs2, u2, s') \<in> set (re_run q t) \<and> cs = cs1 @ cs2 \<and> u = u1 @ u2)"
    unfolding re_run.simps in_concat_map3 in_map3 by simp
  also have "\<dots> \<longleftrightarrow> s = u @ s' \<and> re_match (Seq r q) cs u s'"
    unfolding Seq.IH re_match_Seq by (intro iffI; elim exE conjE; simp) blast+
  finally show ?case .
next
  case (Cap r)
  have "(cs, u, s') \<in> set (re_run (Cap r) s) \<longleftrightarrow> (\<exists>ds. cs = u # ds \<and> (ds, u, s') \<in> set (re_run r s))"
    unfolding re_run.simps in_map3 by auto
  then show ?case unfolding Cap.IH by (auto simp: re_match_Cap)
next
  case (Alt r q)
  then show ?case by auto
next
  case Eos
  then show ?case by auto
qed

lemma re_exec_Some:
  "re_exec r s = Some m \<Longrightarrow> \<exists>u cs s'. m = u # cs \<and> s = u @ s' \<and> re_match r cs u s'"
proof -
  assume "re_exec r s = Some m"
  then obtain cs u s' xs where "re_run r s = (cs, u, s') # xs" "m = u # cs"
    by (auto simp: re_exec_def split: list.splits)
  then show ?thesis using re_run_iff [of cs u s' r s] by auto
qed

lemma re_exec_None: "re_exec r s = None \<longleftrightarrow> (\<nexists>cs u s'. s = u @ s' \<and> re_match r cs u s')"
proof -
  have "re_exec r s = None \<longleftrightarrow> re_run r s = []"
    by (auto simp: re_exec_def split: list.splits)
  also have "\<dots> \<longleftrightarrow> (\<nexists>cs u s'. (cs, u, s') \<in> set (re_run r s))"
    by (cases "re_run r s") auto
  finally show ?thesis by (simp only: re_run_iff)
qed

section \<open>Evaluating the shapes that occur\<close>

text \<open>A repetition that must be followed by something its class excludes, or by the end, has one
  way to match: everything up to there.\<close>

definition stops :: "(char \<Rightarrow> bool) \<Rightarrow> string \<Rightarrow> bool" where
  "stops p s \<longleftrightarrow> (case s of [] \<Rightarrow> True | c # _ \<Rightarrow> \<not> p c)"

definition head_excl :: "(char \<Rightarrow> bool) \<Rightarrow> re \<Rightarrow> bool" where
  "head_excl p q \<longleftrightarrow> (\<forall>s. \<not> stops p s \<longrightarrow> re_run q s = [])"

lemma head_excl_Lit: "\<not> p c \<Longrightarrow> head_excl p (Lit (c # t))"
  by (auto simp: head_excl_def stops_def split: list.splits)

lemma head_excl_Eos: "head_excl p Eos"
  by (auto simp: head_excl_def stops_def split: list.splits)

lemma head_excl_Seq: "head_excl p r \<Longrightarrow> head_excl p (Seq r q)"
  by (simp add: head_excl_def)

lemma head_excl_Rep1: "(\<And>c. q c \<Longrightarrow> \<not> p c) \<Longrightarrow> head_excl p (Rep q (Suc m) None)"
  by (auto simp: head_excl_def stops_def rep_max_def split: list.splits)

lemma head_excl_Cap: "head_excl p r \<Longrightarrow> head_excl p (Cap r)"
  by (simp add: head_excl_def)

lemma takeWhile_stops: "\<forall>c \<in> set u. p c \<Longrightarrow> stops p s \<Longrightarrow> takeWhile p (u @ s) = u"
  by (induction u) (auto simp: stops_def split: list.splits)

lemma concat_map_last:
  "\<forall>j \<in> set xs. f j = [] \<Longrightarrow> concat (map f (x # xs)) = f x"
  by auto

lemma re_run_Rep_Seq:
  assumes "\<forall>c \<in> set u. p c" and "stops p s" and "m \<le> length u" and "head_excl p q"
  shows "re_run (Seq (Rep p m None) q) (u @ s) = map (\<lambda>(ds, v, r). (ds, u @ v, r)) (re_run q s)"
proof -
  have k: "rep_max p None (u @ s) = length u"
    using takeWhile_stops [OF assms(1,2)] by (simp add: rep_max_def)
  have "\<not> stops p (drop j (u @ s))" if "j < length u" for j
  proof -
    have "drop j (u @ s) = u ! j # drop (Suc j) (u @ s)"
      using that by (simp add: Cons_nth_drop_Suc [symmetric])
    then show ?thesis using assms(1) that by (simp add: stops_def)
  qed
  then have no: "re_run q (drop j (u @ s)) = []" if "j < length u" for j
    using assms(4) that by (auto simp: head_excl_def)
  let ?f = "\<lambda>(cs, v, s'). map (\<lambda>(ds, w, s''). (cs @ ds, v @ w, s'')) (re_run q s')"
  have "rev [m..<Suc (length u)] = length u # rev [m..<length u]" using assms(3) by simp
  then have "re_run (Seq (Rep p m None) q) (u @ s)
      = concat (map (\<lambda>j. ?f ([], take j (u @ s), drop j (u @ s))) (length u # rev [m..<length u]))"
    by (simp add: k comp_def)
  also have "\<dots> = ?f ([], take (length u) (u @ s), drop (length u) (u @ s))"
    by (rule concat_map_last) (use no in auto)
  finally show ?thesis by simp
qed

lemma re_run_Cap_Rep_Seq:
  assumes "\<forall>c \<in> set u. p c" and "stops p s" and "m \<le> length u" and "head_excl p q"
  shows "re_run (Seq (Cap (Rep p m None)) q) (u @ s)
    = map (\<lambda>(ds, v, r). (u # ds, u @ v, r)) (re_run q s)"
proof -
  have k: "rep_max p None (u @ s) = length u"
    using takeWhile_stops [OF assms(1,2)] by (simp add: rep_max_def)
  have no: "re_run q (drop j (u @ s)) = []" if "j < length u" for j
  proof -
    have "drop j (u @ s) = u ! j # drop (Suc j) (u @ s)"
      using that by (simp add: Cons_nth_drop_Suc [symmetric])
    then have "\<not> stops p (drop j (u @ s))" using assms(1) that by (simp add: stops_def)
    then show ?thesis using assms(4) by (auto simp: head_excl_def)
  qed
  let ?f = "\<lambda>(cs, v, s'). map (\<lambda>(ds, w, s''). (cs @ ds, v @ w, s'')) (re_run q s')"
  have "rev [m..<Suc (length u)] = length u # rev [m..<length u]" using assms(3) by simp
  then have "re_run (Seq (Cap (Rep p m None)) q) (u @ s)
      = concat (map (\<lambda>j. ?f ([take j (u @ s)], take j (u @ s), drop j (u @ s)))
          (length u # rev [m..<length u]))"
    by (simp add: k comp_def)
  also have "\<dots> = ?f ([take (length u) (u @ s)], take (length u) (u @ s), drop (length u) (u @ s))"
    by (rule concat_map_last) (use no in auto)
  finally show ?thesis by simp
qed

lemma re_run_Lit_Seq:
  "re_run (Seq (Lit t) q) (t @ s) = map (\<lambda>(ds, v, r). (ds, t @ v, r)) (re_run q s)"
  by simp

lemma re_run_Lit_Seq_no: "take (length t) s \<noteq> t \<Longrightarrow> re_run (Seq (Lit t) q) s = []"
  by simp

lemma re_exec_map:
  "re_exec r s = (case map (\<lambda>(cs, u, s'). u # cs) (re_run r s) of [] \<Rightarrow> None | m # _ \<Rightarrow> Some m)"
  by (cases "re_run r s") (auto simp: re_exec_def)

end
