(* ===== verification/Sdp.thy ===== *)
theory Sdp
  imports JsRegex
begin

text \<open>
  The class \<^verbatim>\<open>SDPParser\<close> of \<^verbatim>\<open>rtsp.dev.js\<close>. The parser keeps a store of blocks: block 0 is
  \<^verbatim>\<open>sessionBlock\<close>, one more for every media line. \<^verbatim>\<open>media\<close> and \<^verbatim>\<open>mediaMap\<close> refer to blocks by their
  place in the store, because an attribute line after the media line still changes the object both
  tables point to. A rejected promise and an exception inside the executor are both \<open>Inl\<close>.
\<close>

section \<open>Payload types\<close>

datatype payload_type = PT_H264 | PT_AAC

fun pt_code :: "payload_type \<Rightarrow> int" where
  "pt_code PT_H264 = 1"
| "pt_code PT_AAC = 2"

text \<open>Keys of an object are visited in ascending order: the order of the type.\<close>

instantiation payload_type :: linorder
begin

definition less_eq_payload_type :: "payload_type \<Rightarrow> payload_type \<Rightarrow> bool" where
  "less_eq_payload_type x y \<longleftrightarrow> pt_code x \<le> pt_code y"

definition less_payload_type :: "payload_type \<Rightarrow> payload_type \<Rightarrow> bool" where
  "less_payload_type x y \<longleftrightarrow> pt_code x < pt_code y"

instance
proof
  fix x y z :: payload_type
  show "x < y \<longleftrightarrow> x \<le> y \<and> \<not> y \<le> x" by (auto simp: less_eq_payload_type_def less_payload_type_def)
  show "x \<le> x" by (simp add: less_eq_payload_type_def)
  show "x \<le> y \<Longrightarrow> y \<le> z \<Longrightarrow> x \<le> z" by (simp add: less_eq_payload_type_def)
  show "x \<le> y \<Longrightarrow> y \<le> x \<Longrightarrow> x = y"
    by (cases x; cases y) (auto simp: less_eq_payload_type_def)
  show "x \<le> y \<or> y \<le> x" by (auto simp: less_eq_payload_type_def)
qed

end

fun pt_map :: "payload_type \<Rightarrow> string" where
  "pt_map PT_H264 = ''video''"
| "pt_map PT_AAC = ''audio''"

definition pt_string_map :: "string \<Rightarrow> payload_type option" where
  "pt_string_map = map_of [(''H264'', PT_H264), (''AAC'', PT_AAC), (''MP4A-LATM'', PT_AAC),
     (''MPEG4-GENERIC'', PT_AAC)]"

section \<open>The parser's state\<close>

record rtpmap_entry =
  rm_name :: string
  rm_clock :: "string option"
  rm_encparams :: "string option"

record media_block =
  mb_type :: "string option"
  mb_port :: "string option"
  mb_proto :: "string option"
  mb_fmt :: "int option list option"
  mb_rtpmap :: "(int \<times> rtpmap_entry) list option"
  mb_mode :: "string option"
  mb_range :: "(rat option \<times> rat option \<times> string) option"
  mb_control :: "string option"
  mb_ptype :: "payload_type option"
  mb_fmtp :: "(string \<times> string) list option"

definition empty_block :: media_block where
  "empty_block = \<lparr>mb_type = None, mb_port = None, mb_proto = None, mb_fmt = None, mb_rtpmap = None,
     mb_mode = None, mb_range = None, mb_control = None, mb_ptype = None, mb_fmtp = None\<rparr>"

record sdp_origin =
  or_username :: string
  or_sessionid :: string
  or_sessionversion :: string
  or_nettype :: string
  or_addresstype :: string
  or_unicastaddress :: string

record sdp =
  sd_version :: "string option"
  sd_origin :: "sdp_origin option"
  sd_sessionName :: "string option"
  sd_timing :: "(string \<times> string) option"
  sd_blocks :: "media_block list"
  sd_media :: "(string \<times> nat) list"             \<comment> \<open>\<^verbatim>\<open>media\<close>, keyed by the type\<close>
  sd_mediaMap :: "(int option \<times> nat) list"      \<comment> \<open>\<^verbatim>\<open>mediaMap\<close>, keyed by the payload type\<close>

text \<open>The key under which a block is filed: a block whose media line was malformed or missing has no type, and
  the property name for \<^verbatim>\<open>undefined\<close> is that word. (What every object inherits, such as \<^verbatim>\<open>toString\<close>, is left
  aside.)\<close>

definition type_key :: "string option \<Rightarrow> string" where
  "type_key t = (case t of Some t \<Rightarrow> t | None \<Rightarrow> ''undefined'')"

lemma type_key_Some [simp]: "type_key (Some t) = t"
  by (simp add: type_key_def)

definition SDPParser :: sdp where
  "SDPParser = \<lparr>sd_version = None, sd_origin = None, sd_sessionName = None, sd_timing = None,
     sd_blocks = [empty_block], sd_media = [], sd_mediaMap = []\<rparr>"

section \<open>The line parsers\<close>

definition not_sp :: "char \<Rightarrow> bool" where "not_sp c \<longleftrightarrow> c \<noteq> CHR '' ''"
definition not_crlf :: "char \<Rightarrow> bool" where "not_crlf c \<longleftrightarrow> ch_code c \<noteq> 10 \<and> ch_code c \<noteq> 13"

definition re_version :: re where
  "re_version = re_seq [Lit ''v='', Cap (Plus is_digit), Eos]"

definition re_origin :: re where
  "re_origin = re_seq [Lit ''o='', Cap (Plus not_sp), Lit '' '',
     Cap (Seq (Opt (\<lambda>c. c = CHR ''-'')) (Plus is_digit)), Lit '' '',
     Cap (Seq (Opt (\<lambda>c. c = CHR ''-'')) (Plus is_digit)), Lit '' '',
     Cap (Lit ''IN''), Lit '' '', Cap (Alt (Lit ''IP4'') (Lit ''IP6'')), Lit '' '',
     Cap (Plus not_sp), Eos]"

definition re_session_name :: re where
  "re_session_name = re_seq [Lit ''s='', Cap (Plus not_crlf), Eos]"

definition re_timing :: re where
  "re_timing = re_seq [Lit ''t='', Cap (Plus is_digit), Lit '' '', Cap (Plus is_digit), Eos]"

definition re_media :: re where
  "re_media = re_seq [Lit ''m='', Cap (Plus not_sp), Lit '' '', Cap (Plus not_sp), Lit '' '',
     Cap (Plus not_sp), Lit '' '']"

definition range_unit_char :: "char \<Rightarrow> bool" where "range_unit_char c \<longleftrightarrow> is_alpha c \<or> c = CHR ''-''"
definition range_num_char :: "char \<Rightarrow> bool" where "range_num_char c \<longleftrightarrow> is_digit c \<or> c = CHR ''.''"

definition re_range :: re where
  "re_range = re_seq [Lit ''a=range:'', Star is_space, Cap (Plus range_unit_char), Lit ''='',
     Cap (Alt (Plus range_num_char) (Lit ''now'')), Star is_space, Lit ''-'', Star is_space,
     Cap (Star range_num_char), Eos]"

definition re_rtpmap :: re where
  "re_rtpmap = re_seq [Lit ''a=rtpmap:'', Cap (Plus is_digit), Lit '' '', Cap (Star not_crlf), Eos]"

definition re_fmtp :: re where
  "re_fmtp = re_seq [Lit ''a=fmtp:'', Cap (Plus is_digit), Lit '' '', Cap (Star not_crlf), Eos]"

text \<open>\<^verbatim>\<open>0 != this.version\<close> compares as numbers. The boolean is the line parser's answer.\<close>

definition parseVersion :: "sdp \<Rightarrow> string \<Rightarrow> bool \<times> sdp" where
  "parseVersion s line = (case re_exec re_version line of
     Some [_, v] \<Rightarrow> (js_Number v = Some 0, s\<lparr>sd_version := Some v\<rparr>)
   | _ \<Rightarrow> (False, s))"

definition parseOrigin :: "sdp \<Rightarrow> string \<Rightarrow> bool \<times> sdp" where
  "parseOrigin s line = (case re_exec re_origin line of
     Some [_, user, sid, ver, net, addr, uni] \<Rightarrow>
       (True, s\<lparr>sd_origin := Some \<lparr>or_username = user, or_sessionid = sid, or_sessionversion = ver,
          or_nettype = net, or_addresstype = addr, or_unicastaddress = uni\<rparr>\<rparr>)
   | _ \<Rightarrow> (False, s))"

definition parseSessionName :: "sdp \<Rightarrow> string \<Rightarrow> bool \<times> sdp" where
  "parseSessionName s line = (case re_exec re_session_name line of
     Some [_, name] \<Rightarrow> (True, s\<lparr>sd_sessionName := Some name\<rparr>) | _ \<Rightarrow> (False, s))"

definition parseTiming :: "sdp \<Rightarrow> string \<Rightarrow> bool \<times> sdp" where
  "parseTiming s line = (case re_exec re_timing line of
     Some [_, start, stop] \<Rightarrow> (True, s\<lparr>sd_timing := Some (start, stop)\<rparr>) | _ \<Rightarrow> (False, s))"

text \<open>\<open>m\<close> is the place of the block the line describes.\<close>

definition parseMediaDescription :: "sdp \<Rightarrow> nat \<Rightarrow> string \<Rightarrow> bool \<times> sdp" where
  "parseMediaDescription s m line = (case re_exec re_media line of
     Some [whole, ty, port, proto] \<Rightarrow>
       let fmt = map (\<lambda>f. parseInt f 0) (js_split (drop (length whole) line) '' '');
           block = (sd_blocks s ! m)\<lparr>mb_type := Some ty, mb_port := Some port,
             mb_proto := Some proto, mb_fmt := Some fmt\<rparr>
       in (True, s\<lparr>sd_blocks := (sd_blocks s)[m := block],
                  sd_mediaMap := foldl (\<lambda>mm f. AList.update f m mm) (sd_mediaMap s) fmt\<rparr>)
   | _ \<Rightarrow> (False, s))"

definition parse_fmtp_param :: "(string \<times> string) list \<Rightarrow> string \<Rightarrow> (string \<times> string) list" where
  "parse_fmtp_param fmtp param = (case indexOf_char param (CHR ''='') of
     Some idx \<Rightarrow> AList.update (js_trim (toLowerCase (take idx param))) (js_trim (drop (idx + 1) param)) fmtp
   | None \<Rightarrow> AList.update [] (js_trim param) fmtp)"

definition parse_rtpmap :: "media_block \<Rightarrow> string \<Rightarrow> string \<Rightarrow> media_block result" where
  "parse_rtpmap media pay desc =
     (let payload = digits_val 10 pay;
          attrs = js_split desc ''/'';
          name = toUpperCase (attrs ! 0)
      in case mb_rtpmap media of
           None \<Rightarrow> Inl TypeErr
         | Some rm \<Rightarrow> Inr (media\<lparr>mb_rtpmap := Some (AList.update payload
               \<lparr>rm_name = name,
                rm_clock = (if length attrs > 1 then Some (attrs ! 1) else None),
                rm_encparams = (if length attrs > 2 then Some (attrs ! 2) else None)\<rparr> rm),
             mb_ptype := pt_string_map name\<rparr>))"

text \<open>\<open>_parseAttribute\<close> on one block. The match of \<^verbatim>\<open>range\<close> and of \<^verbatim>\<open>fmtp\<close> is used without a
  null check (\<^verbatim>\<open>matches.length\<close> of null raises).\<close>

definition parseAttribute :: "media_block \<Rightarrow> string \<Rightarrow> media_block result" where
  "parseAttribute media line =
     (let attribute = takeWhile (\<lambda>c. c \<noteq> CHR '':'') line in
      if attribute \<in> {''a=recvonly'', ''a=sendrecv'', ''a=sendonly'', ''a=inactive''}
      then Inr (media\<lparr>mb_mode := Some (drop (length ''a='') line)\<rparr>)
      else if attribute = ''a=range'' then
        (case re_exec re_range line of
           Some [_, unt, start, stop] \<Rightarrow> Inr (media\<lparr>mb_range :=
             Some (if start = ''now'' then Some (- 1) else js_Number start, js_Number stop, unt)\<rparr>)
         | _ \<Rightarrow> Inl TypeErr)
      else if attribute = ''a=control'' then Inr (media\<lparr>mb_control := Some (drop (length ''a=control:'') line)\<rparr>)
      else if attribute = ''a=rtpmap'' then
        (case re_exec re_rtpmap line of
           Some [_, pay, desc] \<Rightarrow> parse_rtpmap media pay desc
         | _ \<Rightarrow> Inr media)
      else if attribute = ''a=fmtp'' then
        (case re_exec re_fmtp line of
           Some [_, pay, params] \<Rightarrow> Inr (media\<lparr>mb_fmtp := Some (foldl parse_fmtp_param [] (js_split params '';''))\<rparr>)
         | _ \<Rightarrow> Inl TypeErr)
      else Inr media)"

section \<open>The whole description\<close>

text \<open>\<^verbatim>\<open>line.replace(/\r/, '')\<close> removes the first carriage return only.\<close>

definition remove_cr :: "string \<Rightarrow> string" where
  "remove_cr line = remove1 (CHR 0x0D) line"

definition rejected :: js_error where "rejected = ErrMsg ''undefined''"

definition accept :: "bool \<times> sdp \<Rightarrow> nat \<Rightarrow> (sdp \<times> nat) result" where
  "accept r cur = (if fst r then Inr (snd r, cur) else Inl rejected)"

text \<open>One line. The second component is \<^verbatim>\<open>currentMediaBlock\<close>.\<close>

definition sdp_line :: "sdp \<times> nat \<Rightarrow> string \<Rightarrow> (sdp \<times> nat) result" where
  "sdp_line st raw =
     (let (s, cur) = st; line = remove_cr raw in
      case line of
        [] \<Rightarrow> Inr (s, cur)
      | c # _ \<Rightarrow>
          if c = CHR ''v'' then
            (if sd_version s \<noteq> None then Inl rejected else accept (parseVersion s line) cur)
          else if c = CHR ''o'' then
            (if sd_origin s \<noteq> None then Inl rejected else accept (parseOrigin s line) cur)
          else if c = CHR ''s'' then
            (if sd_sessionName s \<noteq> None then Inl rejected else accept (parseSessionName s line) cur)
          else if c = CHR ''t'' then
            (if sd_timing s \<noteq> None then Inl rejected else accept (parseTiming s line) cur)
          else if c = CHR ''m'' then
            (let s1 = (if cur \<noteq> 0
                       then s\<lparr>sd_media := AList.update (type_key (mb_type (sd_blocks s ! cur))) cur (sd_media s)\<rparr>
                       else s);
                 m = length (sd_blocks s1);
                 s2 = s1\<lparr>sd_blocks := sd_blocks s1 @ [empty_block\<lparr>mb_rtpmap := Some []\<rparr>]\<rparr>
             in Inr (snd (parseMediaDescription s2 m line), m))
          else if c = CHR ''a'' then
            bindE (parseAttribute (sd_blocks s ! cur) line) (\<lambda>block.
              Inr (s\<lparr>sd_blocks := (sd_blocks s)[cur := block]\<rparr>, cur))
          else Inr (s, cur))"

definition sdp_parse :: "string \<Rightarrow> sdp result" where
  "sdp_parse content =
     bindE (foldE sdp_line (SDPParser, 0) (js_split content [CHR 0x0A])) (\<lambda>(s, cur).
       Inr (s\<lparr>sd_media := AList.update (type_key (mb_type (sd_blocks s ! cur))) cur (sd_media s)\<rparr>))"

definition getSessionBlock :: "sdp \<Rightarrow> media_block" where
  "getSessionBlock s = sd_blocks s ! 0"

definition hasMedia :: "sdp \<Rightarrow> string \<Rightarrow> bool" where
  "hasMedia s t \<longleftrightarrow> map_of (sd_media s) t \<noteq> None"

definition getMediaBlock :: "sdp \<Rightarrow> string \<Rightarrow> media_block option" where
  "getMediaBlock s t = map_option (\<lambda>i. sd_blocks s ! i) (map_of (sd_media s) t)"

definition getMediaBlockByPayloadType :: "sdp \<Rightarrow> int \<Rightarrow> media_block option" where
  "getMediaBlockByPayloadType s pt = map_option (\<lambda>i. sd_blocks s ! i) (map_of (sd_mediaMap s) (Some pt))"

definition getMediaBlockList :: "sdp \<Rightarrow> string list" where
  "getMediaBlockList s = map fst (sd_media s)"

section \<open>Consistency of the tables\<close>

definition sdp_inv :: "sdp \<times> nat \<Rightarrow> bool" where
  "sdp_inv = (\<lambda>(s, cur). cur < length (sd_blocks s)
     \<and> (\<forall>(k, i) \<in> set (sd_media s). i < length (sd_blocks s) \<and> type_key (mb_type (sd_blocks s ! i)) = k)
     \<and> (\<forall>(k, i) \<in> set (sd_mediaMap s). i < length (sd_blocks s)
          \<and> (\<exists>f. mb_fmt (sd_blocks s ! i) = Some f \<and> k \<in> set f)))"

lemma set_update_subset: "set (AList.update k v al) \<subseteq> insert (k, v) (set al)"
  by (induction al) auto

lemma set_foldl_update: "set (foldl (\<lambda>mm f. AList.update f m mm) mm fs) \<subseteq> set mm \<union> (\<lambda>f. (f, m)) ` set fs"
proof (induction fs arbitrary: mm)
  case (Cons f fs)
  then show ?case using set_update_subset [of f m mm] by fastforce
qed simp

lemma parseAttribute_keeps:
  "parseAttribute b line = Inr b' \<Longrightarrow> mb_type b' = mb_type b \<and> mb_fmt b' = mb_fmt b"
  by (auto simp: parseAttribute_def parse_rtpmap_def Let_def split: if_splits option.splits list.splits)

lemma sdp_inv_same_blocks:
  assumes "sdp_inv (s, cur)" and "sd_blocks s' = sd_blocks s" and "sd_media s' = sd_media s"
    and "sd_mediaMap s' = sd_mediaMap s"
  shows "sdp_inv (s', cur)"
  using assms by (simp add: sdp_inv_def)

definition same_tables :: "sdp \<Rightarrow> sdp \<Rightarrow> bool" where
  "same_tables s s' \<longleftrightarrow> sd_blocks s' = sd_blocks s \<and> sd_media s' = sd_media s \<and> sd_mediaMap s' = sd_mediaMap s"

lemma header_lines_keep:
  "same_tables s (snd (parseVersion s line))" "same_tables s (snd (parseOrigin s line))"
  "same_tables s (snd (parseSessionName s line))" "same_tables s (snd (parseTiming s line))"
  by (simp_all add: same_tables_def parseVersion_def parseOrigin_def parseSessionName_def parseTiming_def
      split: option.split list.split)

lemma sdp_inv_accept:
  assumes "accept r cur = Inr st'" and "sdp_inv (s, cur)"
    and "same_tables s (snd r)"
  shows "sdp_inv st'"
proof -
  have "st' = (snd r, cur)" using assms(1) by (simp add: accept_def split: if_splits)
  with sdp_inv_same_blocks [OF assms(2), of "snd r"] assms(3) show ?thesis by (simp add: same_tables_def)
qed

text \<open>Closing a block: it is filed under its type.\<close>

lemma sdp_inv_file:
  assumes "sdp_inv (s, cur)"
  shows "sdp_inv (s\<lparr>sd_media := AList.update (type_key (mb_type (sd_blocks s ! cur))) cur (sd_media s)\<rparr>, cur)"
  using assms set_update_subset [of "type_key (mb_type (sd_blocks s ! cur))" cur "sd_media s"]
  by (fastforce simp: sdp_inv_def)

lemma sdp_inv_new_block:
  assumes "sdp_inv (s, cur)"
  shows "sdp_inv (s\<lparr>sd_blocks := sd_blocks s @ [b]\<rparr>, length (sd_blocks s))"
  using assms by (fastforce simp: sdp_inv_def nth_append)

lemma sdp_inv_media:
  assumes "sdp_inv (s, m)" and "\<forall>(k, i) \<in> set (sd_media s). i \<noteq> m" and "\<forall>(k, i) \<in> set (sd_mediaMap s). i \<noteq> m"
  shows "sdp_inv (snd (parseMediaDescription s m line), m)"
proof (cases "\<exists>whole ty port proto. re_exec re_media line = Some [whole, ty, port, proto]")
  case True
  then obtain whole ty port proto where e: "re_exec re_media line = Some [whole, ty, port, proto]" by blast
  let ?fmt = "map (\<lambda>f. parseInt f 0) (js_split (drop (length whole) line) '' '')"
  let ?b = "(sd_blocks s ! m)\<lparr>mb_type := Some ty, mb_port := Some port, mb_proto := Some proto,
      mb_fmt := Some ?fmt\<rparr>"
  let ?mm = "foldl (\<lambda>mm f. AList.update f m mm) (sd_mediaMap s) ?fmt"
  have st: "snd (parseMediaDescription s m line)
      = s\<lparr>sd_blocks := (sd_blocks s)[m := ?b], sd_mediaMap := ?mm\<rparr>"
    by (simp add: parseMediaDescription_def e Let_def)
  have m: "m < length (sd_blocks s)" using assms(1) by (simp add: sdp_inv_def)
  have old: "i < length (sd_blocks s) \<and> (\<exists>f. mb_fmt (sd_blocks s ! i) = Some f \<and> k \<in> set f) \<and> i \<noteq> m"
    if "(k, i) \<in> set (sd_mediaMap s)" for k i
    using that assms(1,3) by (auto simp: sdp_inv_def)
  have "i < length (sd_blocks s) \<and> (\<exists>f. mb_fmt ((sd_blocks s)[m := ?b] ! i) = Some f \<and> k \<in> set f)"
    if "(k, i) \<in> set ?mm" for k i
  proof -
    from that set_foldl_update [of m "sd_mediaMap s" ?fmt]
    consider "(k, i) \<in> set (sd_mediaMap s)" | "k \<in> set ?fmt" "i = m" by auto
    then show ?thesis
      by cases (use old m in \<open>auto simp: nth_list_update\<close>)
  qed
  moreover have "i < length (sd_blocks s) \<and> type_key (mb_type ((sd_blocks s)[m := ?b] ! i)) = k"
    if "(k, i) \<in> set (sd_media s)" for k i
    using that assms(1,2) by (fastforce simp: sdp_inv_def)
  ultimately show ?thesis using m unfolding st by (auto simp: sdp_inv_def)
next
  case False
  then have "snd (parseMediaDescription s m line) = s"
    by (auto simp: parseMediaDescription_def split: option.splits list.splits)
  with assms(1) show ?thesis by simp
qed

text \<open>The lines that are not about media, and a media line.\<close>

lemma session_line_keeps:
  assumes "remove_cr raw = c # cs" "c \<in> set ''vost''"
  shows "sdp_line (s, cur) raw = Inl rejected \<or> (\<exists>r. sdp_line (s, cur) raw = accept r cur \<and> same_tables s (snd r))"
proof -
  have "c = CHR ''v'' \<or> c = CHR ''o'' \<or> c = CHR ''s'' \<or> c = CHR ''t''" using assms(2) by auto
  then have "sdp_line (s, cur) raw = Inl rejected
      \<or> (\<exists>r \<in> {parseVersion s (c # cs), parseOrigin s (c # cs), parseSessionName s (c # cs),
          parseTiming s (c # cs)}. sdp_line (s, cur) raw = accept r cur)"
    by (elim disjE) (simp_all add: sdp_line_def assms(1))
  then show ?thesis using header_lines_keep [of s "c # cs"] by blast
qed

lemma media_line_inv:
  assumes "sdp_inv (s, cur)" "remove_cr raw = CHR ''m'' # cs" "sdp_line (s, cur) raw = Inr st'"
  shows "sdp_inv st'"
proof -
  define s1 where "s1 = (if cur \<noteq> 0
      then s\<lparr>sd_media := AList.update (type_key (mb_type (sd_blocks s ! cur))) cur (sd_media s)\<rparr> else s)"
  have i1: "sdp_inv (s1, cur)" using assms(1) sdp_inv_file [of s cur] by (auto simp: s1_def)
  define s2 where "s2 = s1\<lparr>sd_blocks := sd_blocks s1 @ [empty_block\<lparr>mb_rtpmap := Some []\<rparr>]\<rparr>"
  let ?n = "length (sd_blocks s1)"
  have "sdp_inv (s2, ?n)" using sdp_inv_new_block [OF i1] by (simp add: s2_def)
  moreover have "\<forall>(k, i) \<in> set (sd_media s2). i \<noteq> ?n" "\<forall>(k, i) \<in> set (sd_mediaMap s2). i \<noteq> ?n"
    using i1 by (auto simp: sdp_inv_def s2_def)
  ultimately have "sdp_inv (snd (parseMediaDescription s2 ?n (CHR ''m'' # cs)), ?n)" by (rule sdp_inv_media)
  moreover have "sdp_line (s, cur) raw = Inr (snd (parseMediaDescription s2 ?n (CHR ''m'' # cs)), ?n)"
    by (simp add: sdp_line_def assms(2) s1_def s2_def Let_def)
  ultimately show ?thesis using assms(3) by simp
qed

lemma sdp_line_inv:
  assumes "sdp_inv st" and "sdp_line st raw = Inr st'"
  shows "sdp_inv st'"
proof -
  obtain s cur where st: "st = (s, cur)" by (cases st)
  show ?thesis
  proof (cases "remove_cr raw")
    case Nil
    with assms show ?thesis by (simp add: sdp_line_def st)
  next
    case (Cons c cs)
    note L = Cons
    consider (hd) r where "sdp_line st raw = accept r cur" "same_tables s (snd r)"
      | (rej) "sdp_line st raw = Inl rejected"
      | (m) "c = CHR ''m''" | (a) "c = CHR ''a''"
      | (other) "c \<notin> set ''vostma''"
    proof (cases "c \<in> set ''vost''")
      case True
      then show ?thesis using session_line_keeps [OF L True, of s cur] that unfolding st by blast
    next
      case False
      then have "c = CHR ''m'' \<or> c = CHR ''a'' \<or> c \<notin> set ''vostma''" by auto
      then show ?thesis using that by blast
    qed
    then show ?thesis
    proof cases
      case hd
      with assms sdp_inv_accept [of r cur st' s] show ?thesis by (simp add: st)
    next
      case rej
      with assms show ?thesis by simp
    next
      case m
      then show ?thesis using media_line_inv [of s cur raw cs st'] assms L unfolding st by simp
    next
      case a
      then obtain b where b: "parseAttribute (sd_blocks s ! cur) (c # cs) = Inr b"
          "st' = (s\<lparr>sd_blocks := (sd_blocks s)[cur := b]\<rparr>, cur)"
        using assms(2) by (auto simp: sdp_line_def st L bindE_Inr_iff)
      with parseAttribute_keeps [OF b(1)] assms(1) show ?thesis
        by (fastforce simp: sdp_inv_def st nth_list_update)
    next
      case other
      with assms show ?thesis by (auto simp: sdp_line_def st L)
    qed
  qed
qed

lemma map_of_in_set: "map_of xs k = Some v \<Longrightarrow> (k, v) \<in> set xs"
  by (rule map_of_SomeD)

lemma sdp_parse_inv:
  assumes "sdp_parse content = Inr s"
  shows "\<exists>cur. sdp_inv (s, cur)"
proof -
  obtain s0 cur where f: "foldE sdp_line (SDPParser, 0) (js_split content [CHR 0x0A]) = Inr (s0, cur)"
      "s = s0\<lparr>sd_media := AList.update (type_key (mb_type (sd_blocks s0 ! cur))) cur (sd_media s0)\<rparr>"
    using assms by (auto simp: sdp_parse_def bindE_Inr_iff)
  have "sdp_inv (SDPParser, 0)" by (simp add: sdp_inv_def SDPParser_def)
  then have "sdp_inv (s0, cur)"
    using foldE_invariant [OF f(1), of sdp_inv] sdp_line_inv by blast
  then show ?thesis using sdp_inv_file f(2) by blast
qed

text \<open>What the tables promise to the RTP layer and to the client.\<close>

lemma sdp_parse_lookup:
  assumes "sdp_parse content = Inr s"
  shows "getMediaBlockByPayloadType s pt = Some b \<Longrightarrow> \<exists>fmt. mb_fmt b = Some fmt \<and> Some pt \<in> set fmt"
    and "getMediaBlock s t = Some b \<Longrightarrow> type_key (mb_type b) = t"
proof -
  obtain cur where i: "sdp_inv (s, cur)" using sdp_parse_inv [OF assms] ..
  show "getMediaBlockByPayloadType s pt = Some b \<Longrightarrow> \<exists>fmt. mb_fmt b = Some fmt \<and> Some pt \<in> set fmt"
    using i by (fastforce simp: getMediaBlockByPayloadType_def sdp_inv_def dest: map_of_in_set)
  show "getMediaBlock s t = Some b \<Longrightarrow> type_key (mb_type b) = t"
    using i by (fastforce simp: getMediaBlock_def sdp_inv_def dest: map_of_in_set)
qed

section \<open>A malformed \<^verbatim>\<open>fmtp\<close> raises\<close>

lemma fmtp_no_match_raises:
  assumes "takeWhile (\<lambda>c. c \<noteq> CHR '':'') line = ''a=fmtp''" and "re_exec re_fmtp line = None"
  shows "parseAttribute media line = Inl TypeErr"
  using assms by (simp add: parseAttribute_def Let_def)

end
