(* ===== verification/SdpPrint.thy ===== *)
theory SdpPrint
  imports Sdp
begin

text \<open>
  The contract of \<^verbatim>\<open>SDPParser.parse\<close>: a printer of session descriptions, and the theorem that parsing
  a printed description finds every track again, under its type and under its payload type.
\<close>

section \<open>Reading back a printed description\<close>

text \<open>A description as a server prints it, one media block per track: media line, payload format,
  format parameters, control URL.\<close>

record media_desc =
  md_type :: string
  md_port :: string
  md_proto :: string
  md_pt :: nat
  md_codec :: string
  md_clock :: string
  md_params :: "(string \<times> string) list"
  md_control :: string

record sdp_desc =
  sp_user :: string
  sp_sessid :: nat
  sp_sessver :: nat
  sp_addr :: string
  sp_name :: string
  sp_control :: string
  sp_media :: "media_desc list"

definition print_param :: "string \<times> string \<Rightarrow> string" where
  "print_param = (\<lambda>(k, v). k @ ''='' @ v)"

definition media_lines :: "media_desc \<Rightarrow> string list" where
  "media_lines m =
     [''m='' @ md_type m @ '' '' @ md_port m @ '' '' @ md_proto m @ '' '' @ nat_str 10 (md_pt m),
      ''a=rtpmap:'' @ nat_str 10 (md_pt m) @ '' '' @ md_codec m @ ''/'' @ md_clock m,
      ''a=fmtp:'' @ nat_str 10 (md_pt m) @ '' '' @ js_join (map print_param (md_params m)) '';'',
      ''a=control:'' @ md_control m]"

definition session_lines :: "sdp_desc \<Rightarrow> string list" where
  "session_lines d =
     [''v=0'',
      ''o='' @ sp_user d @ '' '' @ nat_str 10 (sp_sessid d) @ '' '' @ nat_str 10 (sp_sessver d)
        @ '' IN IP4 '' @ sp_addr d,
      ''s='' @ sp_name d, ''t=0 0'', ''a=control:'' @ sp_control d]"

definition print_lines :: "string list \<Rightarrow> string" where
  "print_lines ls = concat (map (\<lambda>l. l @ [CHR 0x0D, CHR 0x0A]) ls)"

definition print_sdp :: "sdp_desc \<Rightarrow> string" where
  "print_sdp d = print_lines (session_lines d @ concat (map media_lines (sp_media d)))"

definition line_ok :: "string \<Rightarrow> bool" where
  "line_ok l \<longleftrightarrow> list_all not_crlf l"

definition word_ok :: "string \<Rightarrow> bool" where
  "word_ok w \<longleftrightarrow> w \<noteq> [] \<and> list_all not_sp w \<and> line_ok w"

definition param_ok :: "string \<times> string \<Rightarrow> bool" where
  "param_ok = (\<lambda>(k, v). CHR ''='' \<notin> set k \<and> CHR '';'' \<notin> set k \<and> line_ok k \<and> toLowerCase k = k
     \<and> js_trim k = k \<and> CHR '';'' \<notin> set v \<and> line_ok v \<and> js_trim v = v)"

definition media_ok :: "media_desc \<Rightarrow> bool" where
  "media_ok m \<longleftrightarrow> word_ok (md_type m) \<and> word_ok (md_port m) \<and> word_ok (md_proto m)
     \<and> CHR ''/'' \<notin> set (md_codec m) \<and> line_ok (md_codec m) \<and> toUpperCase (md_codec m) = md_codec m
     \<and> CHR ''/'' \<notin> set (md_clock m) \<and> line_ok (md_clock m)
     \<and> md_params m \<noteq> [] \<and> list_all param_ok (md_params m) \<and> distinct (map fst (md_params m))
     \<and> line_ok (md_control m)"

definition desc_ok :: "sdp_desc \<Rightarrow> bool" where
  "desc_ok d \<longleftrightarrow> word_ok (sp_user d) \<and> word_ok (sp_addr d) \<and> sp_name d \<noteq> [] \<and> line_ok (sp_name d)
     \<and> line_ok (sp_control d) \<and> list_all media_ok (sp_media d)
     \<and> distinct (map md_type (sp_media d)) \<and> distinct (map md_pt (sp_media d))"

text \<open>The block a media description stands for.\<close>

definition block_of :: "media_desc \<Rightarrow> media_block" where
  "block_of m = \<lparr>mb_type = Some (md_type m), mb_port = Some (md_port m), mb_proto = Some (md_proto m),
     mb_fmt = Some [Some (int (md_pt m))],
     mb_rtpmap = Some [(int (md_pt m), \<lparr>rm_name = md_codec m, rm_clock = Some (md_clock m), rm_encparams = None\<rparr>)],
     mb_mode = None, mb_range = None, mb_control = Some (md_control m),
     mb_ptype = pt_string_map (md_codec m), mb_fmtp = Some (md_params m)\<rparr>"

subsection \<open>The lines of a printed text\<close>

lemma not_crlf_iff: "not_crlf c \<longleftrightarrow> c \<noteq> CHR 0x0D \<and> c \<noteq> CHR 0x0A"
proof -
  have "ch_code c = ch_code d \<longleftrightarrow> c = d" for d by (simp add: ch_code_def of_char_eq_iff)
  from this [of "CHR 0x0D"] this [of "CHR 0x0A"] show ?thesis
    by (auto simp: not_crlf_def) (simp_all add: ch_code_def)
qed

lemma line_ok_app [simp]: "line_ok (xs @ ys) \<longleftrightarrow> line_ok xs \<and> line_ok ys"
  by (simp add: line_ok_def)

lemma line_ok_Nil [simp]: "line_ok []"
  by (simp add: line_ok_def)

lemma line_ok_Cons [simp]: "line_ok (c # cs) \<longleftrightarrow> not_crlf c \<and> line_ok cs"
  by (simp add: line_ok_def)

lemma js_split_lines:
  "list_all line_ok ls \<Longrightarrow> js_split (print_lines ls) [CHR 0x0A] = map (\<lambda>l. l @ [CHR 0x0D]) ls @ [[]]"
proof (induction ls)
  case (Cons l ls)
  have n: "CHR 0x0A \<notin> set (l @ [CHR 0x0D])"
    using Cons.prems by (auto simp: line_ok_def list_all_iff not_crlf_iff)
  have "print_lines (l # ls) = (l @ [CHR 0x0D]) @ CHR 0x0A # print_lines ls" by (simp add: print_lines_def)
  with js_split_char [OF n, of "print_lines ls"] Cons show ?case by simp
qed (simp add: print_lines_def js_split_def)

lemma remove_cr_line: "line_ok l \<Longrightarrow> remove_cr (l @ [CHR 0x0D]) = l"
proof -
  assume "line_ok l"
  then have "CHR 0x0D \<notin> set l" by (auto simp: line_ok_def list_all_iff not_crlf_iff)
  then show ?thesis by (simp add: remove_cr_def remove1_append)
qed

lemma nat_str_line_ok [simp]: "line_ok (nat_str 10 n)"
  using nat_str_is_digit [of _ n] by (fastforce simp: line_ok_def list_all_iff not_crlf_def is_digit_def)

lemma nat_str_word_ok: "word_ok (nat_str 10 n)"
  using nat_str_is_digit [of _ n] by (fastforce simp: word_ok_def list_all_iff not_sp_def is_digit_def ch_code_def)

subsection \<open>The patterns on printed lines\<close>

lemma stops_Cons [simp]: "stops p (c # s) \<longleftrightarrow> \<not> p c"
  by (simp add: stops_def)

lemma stops_Nil [simp]: "stops p []"
  by (simp add: stops_def)

lemma re_exec_map2:
  "map (\<lambda>(cs, u, s'). (cs, u)) (re_run r s) = [(cs, u)] \<Longrightarrow> re_exec r s = Some (u # cs)"
  by (cases "re_run r s") (auto simp: re_exec_def)

text \<open>A captured word before a blank, or digits before a blank, or a word at the end.\<close>

lemma cap_word_sp:
  assumes "word_ok w"
  shows "re_run (Seq (Cap (Plus not_sp)) (Seq (Lit '' '') q)) (w @ CHR '' '' # s)
    = map (\<lambda>(ds, v, r). (w # ds, w @ CHR '' '' # v, r)) (re_run q s)"
proof -
  have "re_run (Seq (Cap (Plus not_sp)) (Seq (Lit '' '') q)) (w @ CHR '' '' # s)
      = map (\<lambda>(ds, v, r). (w # ds, w @ v, r)) (re_run (Seq (Lit '' '') q) (CHR '' '' # s))"
    using assms by (intro re_run_Cap_Rep_Seq head_excl_Seq head_excl_Lit)
      (auto simp: word_ok_def list_all_iff not_sp_def Suc_le_eq)
  also have "re_run (Seq (Lit '' '') q) (CHR '' '' # s) = map (\<lambda>(ds, v, r). (ds, CHR '' '' # v, r)) (re_run q s)"
    using re_run_Lit_Seq [of "'' ''" q s] by simp
  finally show ?thesis by (simp add: split_beta comp_def)
qed

lemma cap_digits_sp:
  "re_run (Seq (Cap (Plus is_digit)) (Seq (Lit '' '') q)) (nat_str 10 n @ CHR '' '' # s)
    = map (\<lambda>(ds, v, r). (nat_str 10 n # ds, nat_str 10 n @ CHR '' '' # v, r)) (re_run q s)"
proof -
  have "re_run (Seq (Cap (Plus is_digit)) (Seq (Lit '' '') q)) (nat_str 10 n @ CHR '' '' # s)
      = map (\<lambda>(ds, v, r). (nat_str 10 n # ds, nat_str 10 n @ v, r)) (re_run (Seq (Lit '' '') q) (CHR '' '' # s))"
    by (intro re_run_Cap_Rep_Seq head_excl_Seq head_excl_Lit)
      (auto simp: is_digit_def ch_code_def Suc_le_eq dest: nat_str_is_digit)
  also have "re_run (Seq (Lit '' '') q) (CHR '' '' # s) = map (\<lambda>(ds, v, r). (ds, CHR '' '' # v, r)) (re_run q s)"
    using re_run_Lit_Seq [of "'' ''" q s] by simp
  finally show ?thesis by (simp add: split_beta comp_def)
qed

lemma cap_rest_end:
  "list_all p s \<Longrightarrow> m \<le> length s \<Longrightarrow> re_run (Seq (Cap (Rep p m None)) Eos) s = [([s], s, [])]"
  using re_run_Cap_Rep_Seq [of s p "[]" m Eos] by (simp add: list_all_iff head_excl_Eos)

lemma exec_media:
  assumes "word_ok t" and "word_ok p" and "word_ok q"
  shows "re_exec re_media (''m='' @ t @ '' '' @ p @ '' '' @ q @ '' '' @ s)
    = Some [''m='' @ t @ '' '' @ p @ '' '' @ q @ '' '', t, p, q]"
proof -
  have "re_run (Seq (Cap (Plus not_sp)) (Lit '' '')) (q @ CHR '' '' # s)
      = map (\<lambda>(ds, v, r). (q # ds, q @ v, r)) (re_run (Lit '' '') (CHR '' '' # s))"
    using assms by (intro re_run_Cap_Rep_Seq head_excl_Lit)
      (auto simp: word_ok_def list_all_iff not_sp_def Suc_le_eq)
  then have last: "re_run (Seq (Cap (Plus not_sp)) (Lit '' '')) (q @ CHR '' '' # s) = [([q], q @ '' '', s)]"
    by simp
  have "re_run re_media (''m='' @ t @ CHR '' '' # p @ CHR '' '' # q @ CHR '' '' # s)
      = [([t, p, q], ''m='' @ t @ CHR '' '' # p @ CHR '' '' # q @ '' '', s)]"
    unfolding re_media_def re_seq.simps re_run_Lit_Seq cap_word_sp [OF assms(1)] cap_word_sp [OF assms(2)] last
    by simp
  then show ?thesis by (simp add: re_exec_def)
qed

lemma exec_rtpmap:
  "line_ok s \<Longrightarrow> re_exec re_rtpmap (''a=rtpmap:'' @ nat_str 10 n @ '' '' @ s)
    = Some [''a=rtpmap:'' @ nat_str 10 n @ '' '' @ s, nat_str 10 n, s]"
proof -
  assume "line_ok s"
  then have last: "re_run (Seq (Cap (Star not_crlf)) Eos) s = [([s], s, [])]"
    by (intro cap_rest_end) (auto simp: line_ok_def)
  have "re_run re_rtpmap (''a=rtpmap:'' @ nat_str 10 n @ CHR '' '' # s)
      = [([nat_str 10 n, s], ''a=rtpmap:'' @ nat_str 10 n @ CHR '' '' # s, [])]"
    unfolding re_rtpmap_def re_seq.simps re_run_Lit_Seq cap_digits_sp last by simp
  then show ?thesis by (simp add: re_exec_def)
qed

lemma exec_fmtp:
  "line_ok s \<Longrightarrow> re_exec re_fmtp (''a=fmtp:'' @ nat_str 10 n @ '' '' @ s)
    = Some [''a=fmtp:'' @ nat_str 10 n @ '' '' @ s, nat_str 10 n, s]"
proof -
  assume "line_ok s"
  then have last: "re_run (Seq (Cap (Star not_crlf)) Eos) s = [([s], s, [])]"
    by (intro cap_rest_end) (auto simp: line_ok_def)
  have "re_run re_fmtp (''a=fmtp:'' @ nat_str 10 n @ CHR '' '' # s)
      = [([nat_str 10 n, s], ''a=fmtp:'' @ nat_str 10 n @ CHR '' '' # s, [])]"
    unfolding re_fmtp_def re_seq.simps re_run_Lit_Seq cap_digits_sp last by simp
  then show ?thesis by (simp add: re_exec_def)
qed

lemma exec_session_name:
  "line_ok s \<Longrightarrow> s \<noteq> [] \<Longrightarrow> re_exec re_session_name (''s='' @ s) = Some [''s='' @ s, s]"
proof -
  assume "line_ok s" "s \<noteq> []"
  then have last: "re_run (Seq (Cap (Plus not_crlf)) Eos) s = [([s], s, [])]"
    by (intro cap_rest_end) (auto simp: line_ok_def Suc_le_eq)
  have "re_run re_session_name (''s='' @ s) = [([s], ''s='' @ s, [])]"
    unfolding re_session_name_def re_seq.simps re_run_Lit_Seq last by simp
  then show ?thesis by (simp add: re_exec_def)
qed


lemma opt_minus_digits:
  "re_run (Seq (Opt (\<lambda>c. c = CHR ''-'')) q) (nat_str 10 n @ s) = re_run q (nat_str 10 n @ s)"
proof -
  obtain c cs where c: "nat_str 10 n = c # cs" by (cases "nat_str 10 n") auto
  then have "is_digit c" using nat_str_is_digit [of c n] by simp
  then have "c \<noteq> CHR ''-''" by (auto simp: is_digit_def ch_code_def)
  then have "rep_max (\<lambda>c. c = CHR ''-'') (Some 1) (c # cs @ s) = 0" by (simp add: rep_max_def)
  then show ?thesis by (simp add: c)
qed

lemma cap_signed_sp:
  "re_run (Seq (Cap (Seq (Opt (\<lambda>c. c = CHR ''-'')) (Plus is_digit))) (Seq (Lit '' '') q)) (nat_str 10 n @ CHR '' '' # s)
    = map (\<lambda>(ds, v, r). (nat_str 10 n # ds, nat_str 10 n @ CHR '' '' # v, r)) (re_run q s)"
  unfolding cap_digits_sp [of q n s, symmetric] re_run.simps(4) [of "Cap _"] re_run.simps(5) opt_minus_digits ..

lemma cap_lit: "re_run (Seq (Cap (Lit t)) q) (t @ s) = map (\<lambda>(ds, v, r). (t # ds, t @ v, r)) (re_run q s)"
  by simp

lemma cap_ip4:
  "re_run (Seq (Cap (Alt (Lit ''IP4'') (Lit ''IP6''))) q) (''IP4'' @ s)
    = map (\<lambda>(ds, v, r). (''IP4'' # ds, ''IP4'' @ v, r)) (re_run q s)"
  by simp

lemma exec_origin:
  assumes "word_ok user" and "word_ok addr"
  shows "re_exec re_origin (''o='' @ user @ '' '' @ nat_str 10 a @ '' '' @ nat_str 10 b @ '' IN IP4 '' @ addr)
    = Some [''o='' @ user @ '' '' @ nat_str 10 a @ '' '' @ nat_str 10 b @ '' IN IP4 '' @ addr,
        user, nat_str 10 a, nat_str 10 b, ''IN'', ''IP4'', addr]"
proof -
  have last: "re_run (Seq (Cap (Plus not_sp)) Eos) addr = [([addr], addr, [])]"
    using assms(2) by (intro cap_rest_end) (auto simp: word_ok_def Suc_le_eq)
  have line: "''o='' @ user @ '' '' @ nat_str 10 a @ '' '' @ nat_str 10 b @ '' IN IP4 '' @ addr
      = ''o='' @ user @ CHR '' '' # nat_str 10 a @ CHR '' '' # nat_str 10 b @ CHR '' '' # ''IN'' @ '' ''
        @ ''IP4'' @ '' '' @ addr"
    by simp
  have "re_run re_origin (''o='' @ user @ CHR '' '' # nat_str 10 a @ CHR '' '' # nat_str 10 b @ CHR '' '' # ''IN'' @ '' ''
        @ ''IP4'' @ '' '' @ addr)
      = [([user, nat_str 10 a, nat_str 10 b, ''IN'', ''IP4'', addr],
         ''o='' @ user @ CHR '' '' # nat_str 10 a @ CHR '' '' # nat_str 10 b @ CHR '' '' # ''IN'' @ '' ''
        @ ''IP4'' @ '' '' @ addr, [])]"
    unfolding re_origin_def re_seq.simps re_run_Lit_Seq cap_word_sp [OF assms(1)] cap_signed_sp cap_lit cap_ip4
      last
    by simp
  then show ?thesis unfolding line by (simp add: re_exec_def)
qed

lemma exec_version: "re_exec re_version ''v=0'' = Some [''v=0'', ''0'']"
  by code_simp

lemma exec_timing: "re_exec re_timing ''t=0 0'' = Some [''t=0 0'', ''0'', ''0'']"
  by code_simp

subsection \<open>Block by block\<close>

lemma parseInt_nat_str: "parseInt (nat_str 10 n) 0 = Some (int n)"
proof -
  let ?s = "nat_str 10 n"
  obtain c cs where c: "?s = c # cs" by (cases ?s) auto
  have dig: "\<forall>c \<in> set ?s. is_digit c" by (auto intro: nat_str_is_digit)
  then have "is_digit c" by (simp add: c)
  then have c3: "\<not> is_space c" "c \<noteq> CHR ''-''" "c \<noteq> CHR ''+''"
    using is_digit_not_space by (auto simp: is_digit_def ch_code_def)
  have nohex: "toLowerCase (take 2 ?s) \<noteq> ''0x''"
  proof
    assume x: "toLowerCase (take 2 ?s) = ''0x''"
    then have "length (toLowerCase (take 2 ?s)) = 2" by simp
    then have l: "2 \<le> length ?s" by (simp add: toLowerCase_def)
    then have "lower_char (?s ! 1) = CHR ''x''"
      using arg_cong [OF x, of "\<lambda>l. l ! 1"] by (simp add: toLowerCase_def)
    moreover have "is_digit (?s ! 1)" using dig l by simp
    ultimately show False by (auto simp: lower_char_def is_digit_def ch_code_def split: if_splits)
  qed
  have "\<forall>c \<in> set ?s. char_digit c < 10" using nat_str_digits [of 10 _ n] by auto
  then have "takeWhile (\<lambda>c. char_digit c < 10) ?s = ?s" by (simp add: takeWhile_eq_all_conv)
  then show ?thesis
    using c c3 nohex digits_val_nat_str [of 10 n] by (simp add: parseInt_def Let_def)
qed

lemma fmtp_params:
  assumes "list_all param_ok ps" and "distinct (map fst ps)"
  shows "foldl parse_fmtp_param [] (map print_param ps) = ps"
  using assms
proof (induction ps rule: rev_induct)
  case (snoc p ps)
  obtain k v where p: "p = (k, v)" by (cases p)
  have ok: "param_ok (k, v)" using snoc.prems p by simp
  have idx: "indexOf_char (k @ ''='' @ v) (CHR ''='') = Some (length k)"
    using ok indexOf_char_append [of "CHR ''=''" k v] by (simp add: param_ok_def)
  have fresh: "AList.update k v al = al @ [(k, v)]" if "k \<notin> fst ` set al" for al
    using that by (induction al) auto
  have "parse_fmtp_param ps (print_param p) = ps @ [p]"
    using ok idx fresh [of ps] snoc.prems(2)
    by (simp add: parse_fmtp_param_def print_param_def p param_ok_def)
  then show ?case using snoc by simp
qed simp

lemma split_params:
  assumes "list_all param_ok ps" and "ps \<noteq> []"
  shows "js_split (js_join (map print_param ps) '';'') '';'' = map print_param ps"
  using assms by (intro js_split_join_char) (auto simp: list_all_iff param_ok_def print_param_def)

lemma join_line_ok: "list_all line_ok xs \<Longrightarrow> line_ok sep \<Longrightarrow> line_ok (js_join xs sep)"
  by (induction xs sep rule: js_join.induct) auto

lemma print_param_ok: "param_ok p \<Longrightarrow> line_ok (print_param p)"
  by (cases p) (simp add: param_ok_def print_param_def not_crlf_def ch_code_def)

lemma params_line_ok: "list_all param_ok ps \<Longrightarrow> line_ok (js_join (map print_param ps) '';'')"
  by (intro join_line_ok) (auto simp: list_all_iff print_param_ok not_crlf_def ch_code_def)

lemma media_lines_ok: "media_ok m \<Longrightarrow> list_all line_ok (media_lines m)"
  by (simp add: media_ok_def media_lines_def word_ok_def not_crlf_def ch_code_def params_line_ok)

lemma session_lines_ok: "desc_ok d \<Longrightarrow> list_all line_ok (session_lines d)"
  by (auto simp: desc_ok_def session_lines_def word_ok_def not_crlf_def ch_code_def)


text \<open>The four lines of a block, from any state.\<close>

definition add_media :: "sdp \<Rightarrow> nat \<Rightarrow> media_desc \<Rightarrow> sdp" where
  "add_media s cur m =
     (let s1 = (if cur \<noteq> 0 then s\<lparr>sd_media := AList.update (type_key (mb_type (sd_blocks s ! cur))) cur (sd_media s)\<rparr> else s)
      in s1\<lparr>sd_blocks := sd_blocks s1 @ [block_of m],
            sd_mediaMap := AList.update (Some (int (md_pt m))) (length (sd_blocks s1)) (sd_mediaMap s1)\<rparr>)"

lemma attribute_line:
  assumes "line_ok (CHR ''a'' # l)" and "parseAttribute b (CHR ''a'' # l) = Inr b'"
    and "sd_blocks s = bs @ [b]" and "cur = length bs"
  shows "sdp_line (s, cur) ((CHR ''a'' # l) @ [CHR 0x0D]) = Inr (s\<lparr>sd_blocks := bs @ [b']\<rparr>, cur)"
proof -
  have "sdp_line (s, cur) ((CHR ''a'' # l) @ [CHR 0x0D])
      = bindE (parseAttribute (sd_blocks s ! cur) (CHR ''a'' # l)) (\<lambda>block.
          Inr (s\<lparr>sd_blocks := (sd_blocks s)[cur := block]\<rparr>, cur))"
    unfolding sdp_line_def remove_cr_line [OF assms(1)] by simp
  with assms(2-4) show ?thesis by simp
qed

lemma attr_rtpmap:
  assumes "media_ok m" and "mb_rtpmap b = Some []"
  shows "parseAttribute b (''a=rtpmap:'' @ nat_str 10 (md_pt m) @ '' '' @ md_codec m @ ''/'' @ md_clock m)
    = Inr (b\<lparr>mb_rtpmap := Some [(int (md_pt m), \<lparr>rm_name = md_codec m, rm_clock = Some (md_clock m),
        rm_encparams = None\<rparr>)], mb_ptype := pt_string_map (md_codec m)\<rparr>)"
proof -
  have "line_ok (md_codec m @ ''/'' @ md_clock m)"
    using assms(1) by (simp add: media_ok_def not_crlf_def ch_code_def)
  note ex = exec_rtpmap [OF this, of "md_pt m"]
  have "js_split (md_codec m @ ''/'' @ md_clock m) ''/'' = [md_codec m, md_clock m]"
    using assms(1) js_split_char [of "CHR ''/''" "md_codec m" "md_clock m"]
    by (simp add: media_ok_def js_split_char_none)
  then have "parse_rtpmap b (nat_str 10 (md_pt m)) (md_codec m @ ''/'' @ md_clock m)
      = Inr (b\<lparr>mb_rtpmap := Some [(int (md_pt m), \<lparr>rm_name = md_codec m, rm_clock = Some (md_clock m),
        rm_encparams = None\<rparr>)], mb_ptype := pt_string_map (md_codec m)\<rparr>)"
    using assms digits_val_nat_str [of 10 "md_pt m"] by (simp add: parse_rtpmap_def Let_def media_ok_def)
  then show ?thesis using ex by (simp add: parseAttribute_def Let_def)
qed

lemma attr_fmtp:
  assumes "media_ok m"
  shows "parseAttribute b (''a=fmtp:'' @ nat_str 10 (md_pt m) @ '' '' @ js_join (map print_param (md_params m)) '';'')
    = Inr (b\<lparr>mb_fmtp := Some (md_params m)\<rparr>)"
proof -
  have "line_ok (js_join (map print_param (md_params m)) '';'')"
    using assms by (intro params_line_ok) (simp add: media_ok_def)
  note ex = exec_fmtp [OF this, of "md_pt m"]
  have "foldl parse_fmtp_param [] (js_split (js_join (map print_param (md_params m)) '';'') '';'') = md_params m"
    using assms by (simp add: media_ok_def split_params fmtp_params)
  then show ?thesis using ex by (simp add: parseAttribute_def Let_def)
qed

lemma attr_control: "parseAttribute b (''a=control:'' @ c) = Inr (b\<lparr>mb_control := Some c\<rparr>)"
  by (simp add: parseAttribute_def Let_def)

lemma media_line:
  assumes "media_ok m" and "l = ''m='' @ md_type m @ '' '' @ md_port m @ '' '' @ md_proto m @ '' '' @ nat_str 10 (md_pt m)"
  shows "sdp_line (s, cur) (l @ [CHR 0x0D]) =
    (let s1 = (if cur \<noteq> 0 then s\<lparr>sd_media := AList.update (type_key (mb_type (sd_blocks s ! cur))) cur (sd_media s)\<rparr> else s)
     in Inr (s1\<lparr>sd_blocks := sd_blocks s1 @ [empty_block\<lparr>mb_rtpmap := Some [], mb_type := Some (md_type m),
             mb_port := Some (md_port m), mb_proto := Some (md_proto m), mb_fmt := Some [Some (int (md_pt m))]\<rparr>],
           sd_mediaMap := AList.update (Some (int (md_pt m))) (length (sd_blocks s1)) (sd_mediaMap s1)\<rparr>,
         length (sd_blocks s1)))"
proof -
  have ok: "line_ok l" using media_lines_ok [OF assms(1)] by (simp add: media_lines_def assms(2))
  have ex: "re_exec re_media l = Some [''m='' @ md_type m @ '' '' @ md_port m @ '' '' @ md_proto m @ '' '',
      md_type m, md_port m, md_proto m]"
    unfolding assms(2) using assms(1) by (intro exec_media) (auto simp: media_ok_def)
  have rest: "drop (length (''m='' @ md_type m @ '' '' @ md_port m @ '' '' @ md_proto m @ '' '')) l = nat_str 10 (md_pt m)"
    unfolding assms(2) append_assoc [symmetric] by (rule append_eq_conv_conj [THEN iffD1, THEN conjunct2, OF refl, symmetric])
  have "CHR '' '' \<notin> set (nat_str 10 (md_pt m))"
    using nat_str_word_ok [of "md_pt m"] by (auto simp: word_ok_def list_all_iff not_sp_def)
  then have fmt: "map (\<lambda>f. parseInt f 0) (js_split (nat_str 10 (md_pt m)) '' '') = [Some (int (md_pt m))]"
    by (simp add: js_split_char_none parseInt_nat_str)
  have pm: "snd (parseMediaDescription s2 k l) = s2\<lparr>sd_blocks := (sd_blocks s2)[k := (sd_blocks s2 ! k)
      \<lparr>mb_type := Some (md_type m), mb_port := Some (md_port m), mb_proto := Some (md_proto m),
       mb_fmt := Some [Some (int (md_pt m))]\<rparr>],
      sd_mediaMap := AList.update (Some (int (md_pt m))) k (sd_mediaMap s2)\<rparr>" for s2 k
    unfolding parseMediaDescription_def ex by (simp only: option.case list.case Let_def rest fmt) simp
  obtain l' where l: "l = CHR ''m'' # l'" by (simp add: assms(2))
  show ?thesis
    unfolding sdp_line_def Let_def prod.case remove_cr_line [OF ok] unfolding l list.case
    by (simp only: l [symmetric] pm) (simp add: list_update_append)
qed

lemma media_block:
  assumes "media_ok m"
  shows "foldE sdp_line (s, cur) (map (\<lambda>l. l @ [CHR 0x0D]) (media_lines m))
    = Inr (add_media s cur m, length (sd_blocks s))"
proof -
  define s1 where "s1 = (if cur \<noteq> 0
    then s\<lparr>sd_media := AList.update (type_key (mb_type (sd_blocks s ! cur))) cur (sd_media s)\<rparr> else s)"
  have bl: "sd_blocks s1 = sd_blocks s" by (simp add: s1_def)
  have ok: "list_all line_ok (media_lines m)" by (rule media_lines_ok [OF assms])
  define b0 where "b0 = empty_block\<lparr>mb_rtpmap := Some [], mb_type := Some (md_type m),
     mb_port := Some (md_port m), mb_proto := Some (md_proto m), mb_fmt := Some [Some (int (md_pt m))]\<rparr>"
  define s2 where "s2 = s1\<lparr>sd_blocks := sd_blocks s @ [b0],
     sd_mediaMap := AList.update (Some (int (md_pt m))) (length (sd_blocks s)) (sd_mediaMap s1)\<rparr>"
  have l1: "sdp_line (s, cur) ((media_lines m ! 0) @ [CHR 0x0D]) = Inr (s2, length (sd_blocks s))"
    using media_line [OF assms refl, of s cur]
    by (simp add: media_lines_def s2_def b0_def s1_def Let_def)
  have al: "sdp_line (t, length (sd_blocks s)) (l @ [CHR 0x0D]) = Inr (t\<lparr>sd_blocks := sd_blocks s @ [b']\<rparr>, length (sd_blocks s))"
    if "l \<in> set (media_lines m)" "hd l = CHR ''a''" "parseAttribute b l = Inr b'" "sd_blocks t = sd_blocks s @ [b]"
    for t l b b'
  proof -
    note h = that
    have "l \<noteq> []" using that(1) by (auto simp: media_lines_def)
    then obtain l' where l: "l = CHR ''a'' # l'" using h(2) by (cases l) auto
    have "line_ok l" using ok that(1) by (auto simp: list_all_iff)
    with attribute_line [of l' b b' t "sd_blocks s"] that(3,4) show ?thesis by (simp add: l)
  qed
  define b1 where "b1 = b0\<lparr>mb_rtpmap := Some [(int (md_pt m), \<lparr>rm_name = md_codec m, rm_clock = Some (md_clock m),
        rm_encparams = None\<rparr>)], mb_ptype := pt_string_map (md_codec m)\<rparr>"
  have l2: "sdp_line (s2, length (sd_blocks s)) ((media_lines m ! 1) @ [CHR 0x0D])
      = Inr (s2\<lparr>sd_blocks := sd_blocks s @ [b1]\<rparr>, length (sd_blocks s))"
    using attr_rtpmap [OF assms, of b0] by (intro al [of _ b0]) (simp_all add: media_lines_def b1_def s2_def b0_def)
  define b2 where "b2 = b1\<lparr>mb_fmtp := Some (md_params m)\<rparr>"
  have l3: "sdp_line (s2\<lparr>sd_blocks := sd_blocks s @ [b1]\<rparr>, length (sd_blocks s)) ((media_lines m ! 2) @ [CHR 0x0D])
      = Inr (s2\<lparr>sd_blocks := sd_blocks s @ [b2]\<rparr>, length (sd_blocks s))"
    using attr_fmtp [OF assms, of b1] al [of "media_lines m ! 2" b1 b2 "s2\<lparr>sd_blocks := sd_blocks s @ [b1]\<rparr>"]
    by (simp add: media_lines_def b2_def)
  have l4: "sdp_line (s2\<lparr>sd_blocks := sd_blocks s @ [b2]\<rparr>, length (sd_blocks s)) ((media_lines m ! 3) @ [CHR 0x0D])
      = Inr (s2\<lparr>sd_blocks := sd_blocks s @ [b2\<lparr>mb_control := Some (md_control m)\<rparr>]\<rparr>, length (sd_blocks s))"
    using attr_control [of b2 "md_control m"]
      al [of "media_lines m ! 3" b2 "b2\<lparr>mb_control := Some (md_control m)\<rparr>" "s2\<lparr>sd_blocks := sd_blocks s @ [b2]\<rparr>"]
    by (simp add: media_lines_def)
  have b3: "b2\<lparr>mb_control := Some (md_control m)\<rparr> = block_of m"
    by (simp add: b2_def b1_def b0_def block_of_def empty_block_def)
  have ml: "map (\<lambda>l. l @ [CHR 0x0D]) (media_lines m) = [media_lines m ! 0 @ [CHR 0x0D],
      media_lines m ! 1 @ [CHR 0x0D], media_lines m ! 2 @ [CHR 0x0D], media_lines m ! 3 @ [CHR 0x0D]]"
    by (simp add: media_lines_def)
  have "foldE sdp_line (s, cur) (map (\<lambda>l. l @ [CHR 0x0D]) (media_lines m))
      = Inr (s2\<lparr>sd_blocks := sd_blocks s @ [block_of m]\<rparr>, length (sd_blocks s))"
    unfolding ml foldE.simps l1 l2 l3 l4 bindE.simps b3 ..
  then show ?thesis
    by (simp add: add_media_def s1_def s2_def Let_def)
qed


text \<open>All the blocks. The block being filled is filed when the next one starts.\<close>

definition filed :: "media_desc list \<Rightarrow> (string \<times> nat) list" where
  "filed ms = map (\<lambda>i. (md_type (ms ! i), Suc i)) [0..<length ms]"

definition mapped :: "media_desc list \<Rightarrow> (int option \<times> nat) list" where
  "mapped ms = map (\<lambda>i. (Some (int (md_pt (ms ! i))), Suc i)) [0..<length ms]"

lemma filed_snoc: "filed (ms @ [m]) = filed ms @ [(md_type m, Suc (length ms))]"
  by (simp add: filed_def nth_append)

lemma mapped_snoc: "mapped (ms @ [m]) = mapped ms @ [(Some (int (md_pt m)), Suc (length ms))]"
  by (simp add: mapped_def nth_append)

lemma fst_filed: "fst ` set (filed ms) = md_type ` set ms"
  by (force simp: filed_def in_set_conv_nth)

lemma fst_mapped: "fst ` set (mapped ms) = (\<lambda>m. Some (int (md_pt m))) ` set ms"
  by (force simp: mapped_def in_set_conv_nth)

definition blocks_state :: "sdp \<Rightarrow> media_desc list \<Rightarrow> sdp" where
  "blocks_state s ms = s\<lparr>sd_blocks := sd_blocks s @ map block_of ms, sd_media := filed (butlast ms),
     sd_mediaMap := mapped ms\<rparr>"

lemma all_blocks:
  assumes "list_all media_ok ms" and "distinct (map md_type ms)" and "distinct (map md_pt ms)"
    and "length (sd_blocks s) = 1" and "sd_media s = []" and "sd_mediaMap s = []"
  shows "foldE sdp_line (s, 0) (map (\<lambda>l. l @ [CHR 0x0D]) (concat (map media_lines ms)))
    = Inr (blocks_state s ms, length ms)"
  using assms(1-3)
proof (induction ms rule: rev_induct)
  case Nil
  then show ?case using assms by (simp add: blocks_state_def filed_def mapped_def)
next
  case (snoc m ms)
  have IH: "foldE sdp_line (s, 0) (map (\<lambda>l. l @ [CHR 0x0D]) (concat (map media_lines ms)))
      = Inr (blocks_state s ms, length ms)" using snoc by simp
  note snoc_prems = snoc.prems
  have m: "media_ok m" using snoc.prems by simp
  have len: "length (sd_blocks (blocks_state s ms)) = Suc (length ms)"
    using assms(4) by (simp add: blocks_state_def)
  have fm: "sd_media (if length ms \<noteq> 0 then (blocks_state s ms)\<lparr>sd_media := AList.update
      (type_key (mb_type (sd_blocks (blocks_state s ms) ! length ms))) (length ms) (sd_media (blocks_state s ms))\<rparr>
      else blocks_state s ms) = filed ms"
  proof (cases ms rule: rev_cases)
    case (snoc ys y)
    then have "md_type y \<notin> fst ` set (filed ys)" using snoc_prems(2) by (auto simp: fst_filed snoc)
    then show ?thesis
      using snoc assms(4) by (simp add: blocks_state_def nth_append block_of_def update_fresh filed_snoc)
  qed (simp add: blocks_state_def filed_def)
  have "Some (int (md_pt m)) \<notin> fst ` set (mapped ms)" using snoc.prems(3) by (auto simp: fst_mapped)
  then have "add_media (blocks_state s ms) (length ms) m = blocks_state s (ms @ [m])"
    using fm len by (auto simp: add_media_def Let_def blocks_state_def update_fresh mapped_snoc)
  then show ?case using IH media_block [OF m, of "blocks_state s ms" "length ms"] len
    by (simp add: foldE_append)
qed

lemma char_of_48: "char_of (48 :: nat) = CHR ''0''"
  by code_simp

lemma session_part:
  assumes "desc_ok d"
  defines "b \<equiv> empty_block\<lparr>mb_control := Some (sp_control d)\<rparr>"
  shows "foldE sdp_line (SDPParser, 0) (map (\<lambda>l. l @ [CHR 0x0D]) (session_lines d))
    = Inr (SDPParser\<lparr>sd_version := Some ''0'', sd_origin := Some \<lparr>or_username = sp_user d,
        or_sessionid = nat_str 10 (sp_sessid d), or_sessionversion = nat_str 10 (sp_sessver d),
        or_nettype = ''IN'', or_addresstype = ''IP4'', or_unicastaddress = sp_addr d\<rparr>,
      sd_sessionName := Some (sp_name d), sd_timing := Some (''0'', ''0''), sd_blocks := [b]\<rparr>, 0)"
proof -
  have ok: "remove_cr (l @ [CHR 0x0D]) = l" if "l \<in> set (session_lines d)" for l
    using session_lines_ok [OF assms(1)] that by (auto simp: list_all_iff remove_cr_line)
  note ok' = ok [unfolded session_lines_def]
  have v: "parseVersion s ''v=0'' = (True, s\<lparr>sd_version := Some ''0''\<rparr>)" for s
    unfolding parseVersion_def exec_version using js_Number_nat_str [of 0]
    by (simp add: nat_str.simps [of 10 0] digit_char_def char_of_48)
  have t: "parseTiming s ''t=0 0'' = (True, s\<lparr>sd_timing := Some (''0'', ''0'')\<rparr>)" for s
    by (simp add: parseTiming_def exec_timing)
  have n: "parseSessionName s (''s='' @ sp_name d) = (True, s\<lparr>sd_sessionName := Some (sp_name d)\<rparr>)" for s
    using assms(1) exec_session_name [of "sp_name d"] by (simp add: parseSessionName_def desc_ok_def)
  have o: "parseOrigin s (''o='' @ sp_user d @ '' '' @ nat_str 10 (sp_sessid d) @ '' ''
      @ nat_str 10 (sp_sessver d) @ '' IN IP4 '' @ sp_addr d) = (True, s\<lparr>sd_origin := Some \<lparr>or_username = sp_user d,
        or_sessionid = nat_str 10 (sp_sessid d), or_sessionversion = nat_str 10 (sp_sessver d),
        or_nettype = ''IN'', or_addresstype = ''IP4'', or_unicastaddress = sp_addr d\<rparr>\<rparr>)" for s
    using assms(1) exec_origin [of "sp_user d" "sp_addr d"] by (simp add: parseOrigin_def desc_ok_def)
  let ?o = "''o='' @ sp_user d @ '' '' @ nat_str 10 (sp_sessid d) @ '' '' @ nat_str 10 (sp_sessver d)
      @ '' IN IP4 '' @ sp_addr d"
  have r: "remove_cr (''v=0'' @ [CHR 0x0D]) = ''v=0''" "remove_cr (?o @ [CHR 0x0D]) = ?o"
    "remove_cr ((''s='' @ sp_name d) @ [CHR 0x0D]) = ''s='' @ sp_name d"
    "remove_cr (''t=0 0'' @ [CHR 0x0D]) = ''t=0 0''"
    by (intro ok; simp add: session_lines_def)+
  have head: "?o = CHR ''o'' # tl ?o" "''s='' @ sp_name d = CHR ''s'' # tl (''s='' @ sp_name d)" by simp_all
  have l1: "sdp_line (s, cur) (''v=0'' @ [CHR 0x0D]) = Inr (s\<lparr>sd_version := Some ''0''\<rparr>, cur)"
    if "sd_version s = None" for s cur
    unfolding sdp_line_def Let_def prod.case r by (simp add: that v accept_def)
  have l2: "sdp_line (s, cur) (?o @ [CHR 0x0D]) = accept (parseOrigin s ?o) cur"
    if "sd_origin s = None" for s cur
    unfolding sdp_line_def Let_def prod.case r by (simp add: that)
  have l3: "sdp_line (s, cur) ((''s='' @ sp_name d) @ [CHR 0x0D]) = accept (parseSessionName s (''s='' @ sp_name d)) cur"
    if "sd_sessionName s = None" for s cur
    unfolding sdp_line_def Let_def prod.case r by (simp add: that)
  have l4: "sdp_line (s, cur) (''t=0 0'' @ [CHR 0x0D]) = Inr (s\<lparr>sd_timing := Some (''0'', ''0'')\<rparr>, cur)"
    if "sd_timing s = None" for s cur
    unfolding sdp_line_def Let_def prod.case r by (simp add: that t accept_def)
  have l5: "sdp_line (s, 0) ((''a=control:'' @ sp_control d) @ [CHR 0x0D]) = Inr (s\<lparr>sd_blocks := [b]\<rparr>, 0)"
    if "sd_blocks s = [empty_block]" for s
    using attribute_line [of "''=control:'' @ sp_control d" empty_block b s "[]" 0] attr_control [of empty_block "sp_control d"]
      session_lines_ok [OF assms(1)] that by (simp add: session_lines_def b_def)
  have ml: "map (\<lambda>l. l @ [CHR 0x0D]) (session_lines d) = [''v=0'' @ [CHR 0x0D], ?o @ [CHR 0x0D],
      (''s='' @ sp_name d) @ [CHR 0x0D], ''t=0 0'' @ [CHR 0x0D], (''a=control:'' @ sp_control d) @ [CHR 0x0D]]"
    by (simp add: session_lines_def)
  let ?s1 = "SDPParser\<lparr>sd_version := Some ''0''\<rparr>"
  let ?s2 = "?s1\<lparr>sd_origin := Some \<lparr>or_username = sp_user d, or_sessionid = nat_str 10 (sp_sessid d),
      or_sessionversion = nat_str 10 (sp_sessver d), or_nettype = ''IN'', or_addresstype = ''IP4'',
      or_unicastaddress = sp_addr d\<rparr>\<rparr>"
  let ?s3 = "?s2\<lparr>sd_sessionName := Some (sp_name d)\<rparr>"
  have e1: "sdp_line (SDPParser, 0) (''v=0'' @ [CHR 0x0D]) = Inr (?s1, 0)"
    by (rule l1) (simp add: SDPParser_def)
  have e2: "sdp_line (?s1, 0) (?o @ [CHR 0x0D]) = Inr (?s2, 0)"
    by (rule l2 [unfolded o accept_def fst_conv snd_conv if_True]) (simp add: SDPParser_def)
  have e3: "sdp_line (?s2, 0) ((''s='' @ sp_name d) @ [CHR 0x0D]) = Inr (?s3, 0)"
    by (rule l3 [unfolded n accept_def fst_conv snd_conv if_True]) (simp add: SDPParser_def)
  have e4: "sdp_line (?s3, 0) (''t=0 0'' @ [CHR 0x0D]) = Inr (?s3\<lparr>sd_timing := Some (''0'', ''0'')\<rparr>, 0)"
    by (rule l4) (simp add: SDPParser_def)
  have e5: "sdp_line (?s3\<lparr>sd_timing := Some (''0'', ''0'')\<rparr>, 0) ((''a=control:'' @ sp_control d) @ [CHR 0x0D])
      = Inr (?s3\<lparr>sd_timing := Some (''0'', ''0''), sd_blocks := [b]\<rparr>, 0)"
    by (rule l5) (simp add: SDPParser_def)
  show ?thesis
    unfolding ml foldE.simps e1 bindE.simps e2 e3 e4 e5 ..
qed

text \<open>The description comes back: each track's block is found under its type and under its payload
  type, and the session block holds the session's control URL.\<close>

lemma sdp_parsed_state:
  assumes "desc_ok d" and "sp_media d \<noteq> []"
  shows "\<exists>s. sdp_parse (print_sdp d) = Inr s \<and> sd_media s = filed (sp_media d) \<and> sd_mediaMap s = mapped (sp_media d)
    \<and> sd_blocks s = empty_block\<lparr>mb_control := Some (sp_control d)\<rparr> # map block_of (sp_media d)"
proof -
  define ms where "ms = sp_media d"
  have ms: "list_all media_ok ms" "distinct (map md_type ms)" "distinct (map md_pt ms)"
    using assms(1) by (auto simp: desc_ok_def ms_def)
  obtain s0 where s0: "foldE sdp_line (SDPParser, 0) (map (\<lambda>l. l @ [CHR 0x0D]) (session_lines d)) = Inr (s0, 0)"
      "sd_blocks s0 = [empty_block\<lparr>mb_control := Some (sp_control d)\<rparr>]" "sd_media s0 = []" "sd_mediaMap s0 = []"
    using session_part [OF assms(1)] by (simp add: SDPParser_def)
  have "list_all line_ok (session_lines d @ concat (map media_lines ms))"
    using session_lines_ok [OF assms(1)] ms(1) media_lines_ok by (auto simp: list_all_iff)
  then have "foldE sdp_line (SDPParser, 0) (js_split (print_sdp d) [CHR 0x0A]) = Inr (blocks_state s0 ms, length ms)"
    using s0 all_blocks [OF ms, of s0]
    by (simp add: print_sdp_def js_split_lines ms_def foldE_append sdp_line_def remove_cr_def)
  moreover obtain ys y where yy: "ms = ys @ [y]" using assms(2) by (cases ms rule: rev_cases) (auto simp: ms_def)
  moreover have "md_type y \<notin> fst ` set (filed ys)" using ms(2) yy by (auto simp: fst_filed)
  ultimately have "sdp_parse (print_sdp d) = Inr ((blocks_state s0 ms)\<lparr>sd_media := filed ms\<rparr>)"
    using s0(2) by (simp add: sdp_parse_def blocks_state_def nth_append block_of_def update_fresh filed_snoc)
  then show ?thesis using s0(2) by (simp add: blocks_state_def ms_def)
qed

lemma sdp_roundtrip:
  assumes "desc_ok d" and "m \<in> set (sp_media d)"
  shows "\<exists>s. sdp_parse (print_sdp d) = Inr s \<and> getMediaBlock s (md_type m) = Some (block_of m)
    \<and> getMediaBlockByPayloadType s (int (md_pt m)) = Some (block_of m)
    \<and> mb_control (getSessionBlock s) = Some (sp_control d)"
proof -
  define ms where "ms = sp_media d"
  have ms: "distinct (map md_type ms)" "distinct (map md_pt ms)"
    using assms(1) by (auto simp: desc_ok_def ms_def)
  have "sp_media d \<noteq> []" using assms(2) by auto
  with sdp_parsed_state [OF assms(1)] obtain s where s: "sdp_parse (print_sdp d) = Inr s" "sd_media s = filed ms"
    "sd_mediaMap s = mapped ms" "sd_blocks s = empty_block\<lparr>mb_control := Some (sp_control d)\<rparr> # map block_of ms"
    by (auto simp: ms_def)
  obtain i where i: "i < length ms" "m = ms ! i" using assms(2) by (auto simp: in_set_conv_nth ms_def)
  have "map_of (filed ms) (md_type m) = Some (Suc i)"
    using i ms(1) by (intro map_of_is_SomeI) (auto simp: filed_def comp_def distinct_map inj_on_def nth_eq_iff_index_eq
        distinct_conv_nth)
  moreover have "map_of (mapped ms) (Some (int (md_pt m))) = Some (Suc i)"
    using i ms(2) by (intro map_of_is_SomeI) (auto simp: mapped_def comp_def distinct_map inj_on_def nth_eq_iff_index_eq
        distinct_conv_nth)
  ultimately show ?thesis
    using s i by (simp add: getMediaBlock_def getMediaBlockByPayloadType_def getSessionBlock_def)
qed

section \<open>What the session description gives the client\<close>

text \<open>C7: A session description printed line by line with CRLF ends, one block per track, parses; every
  track is found under its media type and under its RTP payload type with its port, protocol, codec,
  clock rate, format parameters and control URL, and the session block has the session's control URL.\<close>

theorem sdp_print_parse:
  assumes "desc_ok d"
  shows "\<exists>s. sdp_parse (print_sdp d) = Inr s
    \<and> (\<forall>m \<in> set (sp_media d). getMediaBlock s (md_type m) = Some (block_of m)
         \<and> getMediaBlockByPayloadType s (int (md_pt m)) = Some (block_of m)
         \<and> mb_control (getSessionBlock s) = Some (sp_control d))"
proof (cases "sp_media d")
  case Nil
  obtain s0 where "foldE sdp_line (SDPParser, 0) (map (\<lambda>l. l @ [CHR 0x0D]) (session_lines d)) = Inr (s0, 0)"
    using session_part [OF assms] by (auto simp: SDPParser_def)
  moreover have "list_all line_ok (session_lines d)" by (rule session_lines_ok [OF assms])
  ultimately have "\<exists>s. sdp_parse (print_sdp d) = Inr s"
    by (simp add: sdp_parse_def print_sdp_def js_split_lines Nil foldE_append sdp_line_def remove_cr_def)
  then show ?thesis by (simp add: Nil)
next
  case (Cons m ms)
  then show ?thesis using sdp_roundtrip [OF assms] by (metis list.set_intros(1) sum.inject(2))
qed

definition example_desc :: sdp_desc where
  "example_desc = \<lparr>sp_user = ''-'', sp_sessid = 7, sp_sessver = 1, sp_addr = ''127.0.0.1'', sp_name = ''live'',
     sp_control = ''*'', sp_media = [\<lparr>md_type = ''video'', md_port = ''0'', md_proto = ''RTP/AVP'', md_pt = 96,
       md_codec = ''H264'', md_clock = ''90000'', md_params = [(''packetization-mode'', ''1'')],
       md_control = ''streamid=0''\<rparr>]\<rparr>"

lemma example_desc_ok: "desc_ok example_desc"
  by code_simp

lemma sdp_print_parse_witness:
  "\<exists>s. sdp_parse (print_sdp example_desc) = Inr s
    \<and> (\<forall>m \<in> set (sp_media example_desc). getMediaBlock s (md_type m) = Some (block_of m)
         \<and> getMediaBlockByPayloadType s (int (md_pt m)) = Some (block_of m)
         \<and> mb_control (getSessionBlock s) = Some (sp_control example_desc))"
  by (rule sdp_print_parse [OF example_desc_ok])

text \<open>C29: Whatever text was parsed, the tables agree with the blocks: a block found by payload type lists that
  type in its format list; a block found by media type has that type, or it has no type, because its media line
  was malformed or missing, and the name is the word \<^verbatim>\<open>undefined\<close>; and the names listed are those under which
  a block is found.\<close>

theorem sdp_tables_agree:
  assumes "sdp_parse content = Inr s"
  shows "(\<forall>pt b. getMediaBlockByPayloadType s pt = Some b \<longrightarrow> (\<exists>fmt. mb_fmt b = Some fmt \<and> Some pt \<in> set fmt))
    \<and> (\<forall>t b. getMediaBlock s t = Some b \<longrightarrow> mb_type b = Some t \<or> mb_type b = None \<and> t = ''undefined'')
    \<and> (\<forall>t. t \<in> set (getMediaBlockList s) \<longleftrightarrow> hasMedia s t)"
proof -
  have "mb_type b = Some t \<or> mb_type b = None \<and> t = ''undefined''" if "getMediaBlock s t = Some b" for t b
    using sdp_parse_lookup(2) [OF assms that] by (cases "mb_type b") (auto simp: type_key_def)
  moreover have "t \<in> set (getMediaBlockList s) \<longleftrightarrow> hasMedia s t" for t
    by (auto simp: getMediaBlockList_def hasMedia_def map_of_eq_None_iff)
  ultimately show ?thesis using sdp_parse_lookup(1) [OF assms] by blast
qed

text \<open>A description without a media line: the block of the session is filed as \<^verbatim>\<open>undefined\<close>.\<close>

lemma session_block_filed:
  "sdp_parse ''s=live'' = Inr (SDPParser\<lparr>sd_sessionName := Some ''live'', sd_media := [(''undefined'', 0)]\<rparr>)"
  by code_simp

lemma sdp_tables_agree_witness:
  "\<exists>s. sdp_parse (print_sdp example_desc) = Inr s \<and> hasMedia s ''video'' \<and> ''video'' \<in> set (getMediaBlockList s)
    \<and> (\<forall>b. getMediaBlock s ''video'' = Some b \<longrightarrow> mb_type b = Some ''video'')"
proof -
  define m where "m = hd (sp_media example_desc)"
  have m: "m \<in> set (sp_media example_desc)" "md_type m = ''video''" by (simp_all add: m_def example_desc_def)
  from sdp_roundtrip [OF example_desc_ok m(1)] obtain s where s: "sdp_parse (print_sdp example_desc) = Inr s"
    "getMediaBlock s ''video'' = Some (block_of m)" unfolding m(2) by blast
  then have "hasMedia s ''video''" by (auto simp: getMediaBlock_def hasMedia_def)
  moreover have "''video'' \<noteq> ''undefined''" by simp
  ultimately show ?thesis using s(1) sdp_tables_agree [OF s(1)] by metis
qed

text \<open>A line \<^verbatim>\<open>a=fmtp\<close> that does not have the expected form raises a \<^verbatim>\<open>TypeError\<close> out of the
  parser: the guard meant to skip it tests the length of a match that is null.\<close>

lemma sdp_bad_fmtp_raises:
  assumes "takeWhile (\<lambda>c. c \<noteq> CHR '':'') line = ''a=fmtp''" "re_exec re_fmtp line = None"
  shows "parseAttribute media line = Inl TypeErr"
  by (rule fmtp_no_match_raises [OF assms])

lemma sdp_bad_fmtp_raises_witness: "parseAttribute empty_block ''a=fmtp:video 1'' = Inl TypeErr"
  by (rule sdp_bad_fmtp_raises) code_simp+

end
