(* ===== verification/Rtp.thy ===== *)
theory Rtp
  imports Sdp H264
begin

text \<open>
  The classes \<^verbatim>\<open>RTP\<close>, \<^verbatim>\<open>RTPFactory\<close> and \<^verbatim>\<open>RTPH264Parser\<close> of \<^verbatim>\<open>rtsp.dev.js\<close>: the packet header as the
  constructor reads it, and the timestamp unwrapping of the factory. The header model keeps the
  operator precedence of the code: \<^verbatim>\<open>b & 0x20 >>> 5\<close> is \<^verbatim>\<open>b & (0x20 >>> 5)\<close>, so both the padding and
  the extension flag are bit 0 of the first byte.
\<close>

section \<open>The packet\<close>

record rtp =
  r_version :: int
  r_padding :: int
  r_has_extension :: int
  r_csrc :: int
  r_marker :: int
  r_pt :: int
  r_sequence :: int
  r_timestamp :: int
  r_ssrc :: int
  r_csrcs :: "int list"
  r_extension :: "int option"
  r_ehl :: "int option"
  r_header_data :: "bytes option"
  r_headerLength :: int
  r_media :: "media_block option"
  r_type :: "payload_type option"
  r_data :: bytes

text \<open>The optional parts of the header, from index 12: \<^verbatim>\<open>(csrcs, extension, ehl, header_data, pktIndex)\<close>.\<close>

definition rtp_csrcs :: "bytes \<Rightarrow> int \<Rightarrow> (int list \<times> int) result" where
  "rtp_csrcs pkt csrc = (if csrc > 0
     then bindE (getUint32 pkt 12) (\<lambda>c. Inr ([c], 12 + 4)) else Inr ([], 12))"

definition rtp_extension :: "bytes \<Rightarrow> int \<Rightarrow> int \<Rightarrow> ((int \<times> int \<times> bytes) option \<times> int) result" where
  "rtp_extension pkt has_extension pktIndex = (if has_extension = 1 then
     bindE (getUint16 pkt pktIndex) (\<lambda>extension.
     bindE (getUint16 pkt (pktIndex + 2)) (\<lambda>ehl.
       Inr (Some (extension, ehl, subarray pkt (pktIndex + 4) ehl), pktIndex + 4 + ehl)))
     else Inr (None, pktIndex))"

definition RTP :: "bytes \<Rightarrow> sdp \<Rightarrow> rtp result" where
  "RTP pkt sdp =
     bindE (getUint8 pkt 0) (\<lambda>b0.
     bindE (getUint8 pkt 1) (\<lambda>b1.
     bindE (getUint16 pkt 2) (\<lambda>sequence.
     bindE (getUint32 pkt 4) (\<lambda>timestamp.
     bindE (getUint32 pkt 8) (\<lambda>ssrc.
       let padding = js_and b0 (js_shr 0x20 5);
           has_extension = js_and b0 (js_shr 0x10 4);
           csrc = js_and b0 0x0F;
           pt = js_and b1 0x7F
       in bindE (rtp_csrcs pkt csrc) (\<lambda>(csrcs, idx1).
          bindE (rtp_extension pkt has_extension idx1) (\<lambda>(ext, idx2).
          bindE (if padding \<noteq> 0 then getUint8 pkt (int (length pkt) - 1) else Inr 0) (\<lambda>padLength.
            let media = getMediaBlockByPayloadType sdp pt
            in Inr \<lparr>r_version = js_shr b0 6, r_padding = padding, r_has_extension = has_extension,
                 r_csrc = csrc, r_marker = js_shr b1 7, r_pt = pt, r_sequence = sequence,
                 r_timestamp = timestamp, r_ssrc = ssrc, r_csrcs = csrcs,
                 r_extension = map_option fst ext, r_ehl = map_option (fst \<circ> snd) ext,
                 r_header_data = map_option (snd \<circ> snd) ext, r_headerLength = idx2,
                 r_media = media, r_type = (case media of Some m \<Rightarrow> mb_ptype m | None \<Rightarrow> None),
                 r_data = subarray_from pkt idx2\<rparr>))))))))"

definition RTP_getPayload :: "rtp \<Rightarrow> bytes" where
  "RTP_getPayload r = r_data r"

definition RTP_getTimestampMS :: "rtp \<Rightarrow> int" where
  "RTP_getTimestampMS r = r_timestamp r"

text \<open>A property of the missing media block (\<^verbatim>\<open>null\<close>) raises.\<close>

definition RTP_media :: "rtp \<Rightarrow> media_block result" where
  "RTP_media r = (case r_media r of Some m \<Rightarrow> Inr m | None \<Rightarrow> Inl TypeErr)"

definition RTP_isVideo :: "rtp \<Rightarrow> bool result" where
  "RTP_isVideo r = bindE (RTP_media r) (\<lambda>m. Inr (mb_type m = Some ''video''))"

definition RTP_isAudio :: "rtp \<Rightarrow> bool result" where
  "RTP_isAudio r = bindE (RTP_media r) (\<lambda>m. Inr (mb_type m = Some ''audio''))"

definition RTP_toString :: "rtp \<Rightarrow> string" where
  "RTP_toString r = ''RTP('' @
     ''version:'' @ int_str (r_version r) @ '', '' @
     ''padding:'' @ int_str (r_padding r) @ '', '' @
     ''has_extension:'' @ int_str (r_has_extension r) @ '', '' @
     ''csrc:'' @ int_str (r_csrc r) @ '', '' @
     ''marker:'' @ int_str (r_marker r) @ '', '' @
     ''pt:'' @ int_str (r_pt r) @ '', '' @
     ''sequence:'' @ int_str (r_sequence r) @ '', '' @
     ''timestamp:'' @ int_str (r_timestamp r) @ '', '' @
     ''ssrc:'' @ int_str (r_ssrc r) @ '')''"

section \<open>The factory\<close>

record ts_offset =
  ts_last :: int
  ts_overflow :: int

type_synonym rtp_factory = "(int option \<times> ts_offset) list"

text \<open>One entry for every payload type of every media block; a block without a format list raises.\<close>

definition RTPFactory :: "sdp \<Rightarrow> rtp_factory result" where
  "RTPFactory sdp = foldE (\<lambda>offs (_, i).
     case mb_fmt (sd_blocks sdp ! i) of
       None \<Rightarrow> Inl TypeErr
     | Some fmt \<Rightarrow> Inr (foldl (\<lambda>o' pt. AList.update pt \<lparr>ts_last = 0, ts_overflow = 0\<rparr> o') offs fmt))
     [] (sd_media sdp)"

text \<open>The adjustment of one timestamp.\<close>

definition unwrap_ts :: "ts_offset \<Rightarrow> int \<Rightarrow> int \<times> ts_offset" where
  "unwrap_ts off raw =
     (let t = raw + ts_overflow off in
      if ts_last off \<noteq> 0 \<and> \<bar>t - ts_last off\<bar> > 0x7fffffff
      then (t + 0xffffffff, \<lparr>ts_last = t + 0xffffffff, ts_overflow = ts_overflow off + 0xffffffff\<rparr>)
      else (t, off\<lparr>ts_last := t\<rparr>))"

definition RTPFactory_build :: "rtp_factory \<Rightarrow> bytes \<Rightarrow> sdp \<Rightarrow> (rtp \<times> rtp_factory) result" where
  "RTPFactory_build fac pkt sdp = bindE (RTP pkt sdp) (\<lambda>r.
     case map_of fac (Some (r_pt r)) of
       None \<Rightarrow> Inr (r, fac)
     | Some off \<Rightarrow> (let (t, off') = unwrap_ts off (r_timestamp r)
         in Inr (r\<lparr>r_timestamp := t\<rparr>, AList.update (Some (r_pt r)) off' fac)))"

definition RTPH264Parser_parse :: "nalu_asm \<Rightarrow> rtp \<Rightarrow> (nalu list option \<times> nalu_asm) result" where
  "RTPH264Parser_parse asm r =
     onNALUFragment asm (RTP_getPayload r) (of_int (RTP_getTimestampMS r)) None"

section \<open>A packet without optional parts\<close>

text \<open>The fixed header of RFC 3550: version 2, no padding, no extension, no contributing source.\<close>

definition rtp_packet :: "bool \<Rightarrow> int \<Rightarrow> int \<Rightarrow> int \<Rightarrow> int \<Rightarrow> bytes \<Rightarrow> bytes" where
  "rtp_packet marker pt sq ts ssrc payload =
     [0x80, u8 ((if marker then 0x80 else 0) + pt)] @ be16 sq @ be32 ts @ be32 ssrc @ payload"

lemma get_n_at:
  assumes "xs = ys @ zs @ ws" and "i = int (length ys)" and "length zs = n"
  shows "get_n n xs i = Inr (be_val zs)"
  using get_n_append [OF assms(2,3), of ws] assms(1) by simp

lemma marker_pt:
  assumes "0 \<le> pt" and "pt < 128"
  shows "js_and (uint (u8 ((if m then 0x80 else 0) + pt))) 0x7F = pt"
    and "js_shr (uint (u8 ((if m then 0x80 else 0) + pt))) 7 = of_bool m"
proof -
  have all: "\<forall>p \<in> set (map int [0..<128]). \<forall>m \<in> set [True, False].
      js_and (uint (u8 ((if m then 0x80 else 0) + p))) 0x7F = p
      \<and> js_shr (uint (u8 ((if m then 0x80 else 0) + p))) 7 = of_bool m" by code_simp
  have "pt \<in> set (map int [0..<128])" using assms by (auto intro: image_eqI [of _ _ "nat pt"])
  moreover have "m \<in> set [True, False]" by (cases m) auto
  ultimately have "js_and (uint (u8 ((if m then 0x80 else 0) + pt))) 0x7F = pt
      \<and> js_shr (uint (u8 ((if m then 0x80 else 0) + pt))) 7 = of_bool m" using all by blast
  then show "js_and (uint (u8 ((if m then 0x80 else 0) + pt))) 0x7F = pt"
    "js_shr (uint (u8 ((if m then 0x80 else 0) + pt))) 7 = of_bool m" by blast+
qed

lemma RTP_packet:
  assumes "0 \<le> pt" and "pt < 128" and "0 \<le> sq" and "sq < 2 ^ 16" and "0 \<le> ts" and "ts < 2 ^ 32"
    and "0 \<le> ssrc" and "ssrc < 2 ^ 32"
  shows "\<exists>r. RTP (rtp_packet marker pt sq ts ssrc payload) sdp = Inr r \<and> r_version r = 2
    \<and> r_marker r = of_bool marker \<and> r_pt r = pt \<and> r_sequence r = sq \<and> r_timestamp r = ts
    \<and> r_ssrc r = ssrc \<and> r_media r = getMediaBlockByPayloadType sdp pt \<and> RTP_getPayload r = payload"
proof -
  let ?p = "rtp_packet marker pt sq ts ssrc payload"
  let ?b1 = "u8 ((if marker then 0x80 else 0) + pt)"
  have g0: "getUint8 ?p 0 = Inr 128" "getUint8 ?p 1 = Inr (uint ?b1)"
    using getUint8_nth [of 0 ?p] getUint8_nth [of 1 ?p] by (simp_all add: rtp_packet_def)
  have g2: "getUint16 ?p 2 = Inr sq"
    using get_n_at [of ?p "[0x80, ?b1]" "be16 sq" "be32 ts @ be32 ssrc @ payload" 2 2] assms
    by (simp add: rtp_packet_def be_val_be16)
  have g4: "getUint32 ?p 4 = Inr ts"
    using get_n_at [of ?p "[0x80, ?b1] @ be16 sq" "be32 ts" "be32 ssrc @ payload" 4 4] assms
    by (simp add: rtp_packet_def be_val_be32)
  have g8: "getUint32 ?p 8 = Inr ssrc"
    using get_n_at [of ?p "[0x80, ?b1] @ be16 sq @ be32 ts" "be32 ssrc" payload 8 4] assms
    by (simp add: rtp_packet_def be_val_be32)
  have bits: "js_and 128 (js_shr 32 5) = 0" "js_and 128 (js_shr 16 4) = 0" "js_and 128 15 = 0" "js_shr 128 6 = 2"
    by code_simp+
  have d: "subarray_from ?p 12 = payload"
    using subarray_from_nat [of ?p 12] by (simp add: rtp_packet_def be16_def be32_def)
  show ?thesis
    unfolding RTP_def g0 g2 g4 g8 bindE.simps Let_def bits marker_pt [OF assms(1,2)]
    by (simp add: rtp_csrcs_def rtp_extension_def d RTP_getPayload_def)
qed

text \<open>Whatever the first byte says, the flags \<^verbatim>\<open>padding\<close> and \<^verbatim>\<open>has_extension\<close> are its lowest bit, and
  the packet's padding bytes stay in the payload.\<close>

lemma js_and_b1: "js_and b (js_shr 0x20 5) = of_bool (odd b)" "js_and b (js_shr 0x10 4) = of_bool (odd b)"
proof -
  have "js_shr 0x20 5 = 1" "js_shr 0x10 4 = 1" by code_simp+
  then show "js_and b (js_shr 0x20 5) = of_bool (odd b)" "js_and b (js_shr 0x10 4) = of_bool (odd b)"
    by (simp_all add: js_and_1)
qed

lemma RTP_flags:
  assumes "RTP pkt sdp = Inr r"
  shows "r_padding r = of_bool (odd (uint (pkt ! 0))) \<and> r_has_extension r = of_bool (odd (uint (pkt ! 0)))
    \<and> r_csrc r = js_and (uint (pkt ! 0)) 0x0F
    \<and> RTP_getPayload r = subarray_from pkt (r_headerLength r)
    \<and> (r_csrc r = 0 \<longrightarrow> r_headerLength r = 12)"
proof -
  have nz: "\<not> odd b" if "js_and b 0x0F = 0" for b :: int
  proof -
    have "bit (b AND 0x0F) 0 = bit (toInt32 (b AND 0x0F)) 0"
      by (simp add: toInt32_def signed_of_int bit_simps)
    also have "\<dots> = False" using that by (simp add: js_and_eq)
    finally have "even (b AND 0x0F)" by (simp add: bit_0)
    then show ?thesis using even_and_iff [of b 15] by simp
  qed
  have "getUint8 pkt 0 = Inr (uint (pkt ! 0))"
    using assms getUint8_nth [of 0 pkt] by (cases pkt) (auto simp: RTP_def get_n_def bindE_Inr_iff)
  with assms nz show ?thesis
    by (auto simp: RTP_def Let_def bindE_Inr_iff js_and_b1 RTP_getPayload_def rtp_csrcs_def rtp_extension_def
        split: if_splits)
qed

text \<open>So the extension of a packet with the extension bit and no contributing source is delivered as payload.\<close>

section \<open>Timestamps over the 32-bit wrap\<close>

fun unwrap_run :: "ts_offset \<Rightarrow> int list \<Rightarrow> int list" where
  "unwrap_run off [] = []"
| "unwrap_run off (raw # raws) = (let (t, off') = unwrap_ts off raw in t # unwrap_run off' raws)"

text \<open>The sender's clock: non-decreasing, steps below half the range.\<close>

fun steady :: "int list \<Rightarrow> bool" where
  "steady [] \<longleftrightarrow> True"
| "steady [t] \<longleftrightarrow> True"
| "steady (t # u # ts) \<longleftrightarrow> t \<le> u \<and> u - t \<le> 0x7fffffff \<and> steady (u # ts)"

definition loses :: "int \<Rightarrow> int" where "loses t = t - t div 2 ^ 32"

lemma unwrap_step:
  assumes "ts_last off = loses t" and "ts_overflow off = (t div 2 ^ 32) * 0xffffffff"
    and "0 \<le> t" and "t \<le> u" and "u - t \<le> 0x7fffffff"
  shows "unwrap_ts off (u mod 2 ^ 32) = (loses u, \<lparr>ts_last = loses u, ts_overflow = (u div 2 ^ 32) * 0xffffffff\<rparr>)"
proof -
  define k where "k = t div 2 ^ 32"
  have k: "k * 2 ^ 32 \<le> t" "t < (k + 1) * 2 ^ 32" "0 \<le> k"
    using assms(3) by (auto simp: k_def pos_imp_zdiv_nonneg_iff)
  have tk: "t div 4294967296 = k" by (simp add: k_def)
  have um: "u mod 2 ^ 32 = u - u div 2 ^ 32 * 2 ^ 32" by (simp add: minus_div_mult_eq_mod)
  consider "u div 2 ^ 32 = k" | "u div 2 ^ 32 = k + 1"
  proof -
    have "k \<le> u div 2 ^ 32" using assms(4) by (simp add: k_def zdiv_mono1)
    moreover have "u div 2 ^ 32 \<le> (t + 2 ^ 32) div 2 ^ 32" using assms(5) by (intro zdiv_mono1) auto
    moreover have "(t + 2 ^ 32) div 2 ^ 32 = k + 1" by (simp add: k_def)
    ultimately show ?thesis using that by linarith
  qed
  then show ?thesis
  proof cases
    case 1
    then show ?thesis
      using assms k unfolding um by (simp add: unwrap_ts_def Let_def loses_def tk)
  next
    case 2
    have "t \<noteq> 0" using 2 assms(4,5) by (auto simp: k_def)
    then have "loses t \<noteq> 0" using k unfolding loses_def k_def [symmetric] by auto
    then show ?thesis
      using assms k 2 unfolding um by (simp add: unwrap_ts_def Let_def loses_def tk algebra_simps)
  qed
qed

lemma unwrap_run_steady:
  assumes "ts_last off = loses t" and "ts_overflow off = (t div 2 ^ 32) * 0xffffffff" and "0 \<le> t"
    and "steady (t # us)"
  shows "unwrap_run off (map (\<lambda>u. u mod 2 ^ 32) us) = map loses us"
  using assms
proof (induction us arbitrary: off t)
  case (Cons u us)
  have u: "t \<le> u" "u - t \<le> 0x7fffffff" "steady (u # us)" using Cons.prems(4) by auto
  note st = unwrap_step [OF Cons.prems(1-3) u(1,2)]
  have "unwrap_run \<lparr>ts_last = loses u, ts_overflow = (u div 2 ^ 32) * 0xffffffff\<rparr> (map (\<lambda>u. u mod 2 ^ 32) us) = map loses us"
    using u Cons.prems(3) by (intro Cons.IH [of _ u]) auto
  with st show ?case by (simp add: Let_def)
qed simp

text \<open>From a fresh entry: the timestamps handed on never go back, and after \<open>k\<close> wraps they are \<open>k\<close> behind.\<close>

lemma unwrap_stream:
  assumes "0 \<le> t" and "t < 2 ^ 32" and "steady (t # us)"
  shows "unwrap_run \<lparr>ts_last = 0, ts_overflow = 0\<rparr> (map (\<lambda>u. u mod 2 ^ 32) (t # us)) = map loses (t # us)"
proof -
  have "unwrap_ts \<lparr>ts_last = 0, ts_overflow = 0\<rparr> (t mod 2 ^ 32) = (t, \<lparr>ts_last = t, ts_overflow = 0\<rparr>)"
    using assms by (simp add: unwrap_ts_def)
  moreover have "loses t = t" using assms by (simp add: loses_def)
  ultimately show ?thesis
    using unwrap_run_steady [of "\<lparr>ts_last = t, ts_overflow = 0\<rparr>" t us] assms by simp
qed

lemma loses_mono: "t \<le> u \<Longrightarrow> loses t \<le> loses u"
proof -
  assume "t \<le> u"
  have "u div 2 ^ 32 - t div 2 ^ 32 \<le> u - t"
  proof -
    define a c m n where "a = t div 2 ^ 32" and "c = u div 2 ^ 32" and "m = t mod 2 ^ 32" and "n = u mod 2 ^ 32"
    have "t = 4294967296 * a + m" "u = 4294967296 * c + n" "0 \<le> m" "m < 4294967296" "0 \<le> n" "a \<le> c"
      using \<open>t \<le> u\<close> by (auto simp: a_def c_def m_def n_def intro: zdiv_mono1)
    then show ?thesis using \<open>t \<le> u\<close> unfolding a_def [symmetric] c_def [symmetric]
      by (cases "a = c") linarith+
  qed
  then show ?thesis by (simp add: loses_def)
qed

text \<open>A packet from before the wrap that arrives after it counts as a second wrap.\<close>

lemma unwrap_reordered:
  "unwrap_run \<lparr>ts_last = 0, ts_overflow = 0\<rparr> [0xfffffff0, 0x10, 0xfffffff8, 0x20]
    = [0xfffffff0, 0x10000000f, 0x2fffffff6, 0x30000001d]"
  by code_simp

section \<open>What the RTP layer promises\<close>

text \<open>A packet with the fixed header of RFC 3550 (version 2, no padding, no extension, no
  contributing source) is taken apart field by field: marker, payload type, sequence number, timestamp,
  source, the media block the payload type selects, and exactly the payload behind the 12 header bytes.\<close>

lemma rtp_fixed_header:
  assumes "0 \<le> pt" "pt < 128" "0 \<le> sq" "sq < 2 ^ 16" "0 \<le> ts" "ts < 2 ^ 32" "0 \<le> ssrc" "ssrc < 2 ^ 32"
  shows "\<exists>r. RTP (rtp_packet marker pt sq ts ssrc payload) sdp = Inr r \<and> r_version r = 2
    \<and> r_marker r = of_bool marker \<and> r_pt r = pt \<and> r_sequence r = sq \<and> r_timestamp r = ts
    \<and> r_ssrc r = ssrc \<and> r_media r = getMediaBlockByPayloadType sdp pt \<and> RTP_getPayload r = payload"
  by (rule RTP_packet [OF assms])

lemma rtp_fixed_header_witness:
  "\<exists>r. RTP (rtp_packet True 96 65535 4294967295 7 [1, 2, 3]) SDPParser = Inr r \<and> r_version r = 2
    \<and> r_marker r = of_bool True \<and> r_pt r = 96 \<and> r_sequence r = 65535 \<and> r_timestamp r = 4294967295
    \<and> r_ssrc r = 7 \<and> r_media r = getMediaBlockByPayloadType SDPParser 96 \<and> RTP_getPayload r = [1, 2, 3]"
  by (rule rtp_fixed_header) simp_all

text \<open>For every packet the constructor accepts, the padding and the extension flag are both the
  lowest bit of the first byte, not its bits 5 and 4: the flag of an extension header is not seen, and
  without contributing sources the payload always starts at byte 12.\<close>

lemma rtp_flags_from_low_bit:
  assumes "RTP pkt sdp = Inr r"
  shows "r_padding r = of_bool (odd (uint (pkt ! 0))) \<and> r_has_extension r = of_bool (odd (uint (pkt ! 0)))
    \<and> r_csrc r = js_and (uint (pkt ! 0)) 0x0F
    \<and> RTP_getPayload r = subarray_from pkt (r_headerLength r)
    \<and> (r_csrc r = 0 \<longrightarrow> r_headerLength r = 12)"
  by (rule RTP_flags [OF assms])

definition extension_packet :: bytes where
  "extension_packet = [0x90, 0x60, 0, 1, 0, 0, 0, 2, 0, 0, 0, 3, 0xBE, 0xDE, 0, 1, 9, 9, 9, 9, 0x65, 0x88]"

lemma rtp_flags_from_low_bit_witness:
  "\<exists>r. RTP extension_packet SDPParser = Inr r \<and> r_has_extension r = 0 \<and> r_headerLength r = 12
    \<and> RTP_getPayload r = subarray_from extension_packet 12"
proof -
  have "\<not> isl (RTP extension_packet SDPParser)" by code_simp
  then obtain r where r: "RTP extension_packet SDPParser = Inr r" by (cases "RTP extension_packet SDPParser") auto
  have "even (uint (extension_packet ! 0))" "js_and (uint (extension_packet ! 0)) 0x0F = 0" by code_simp+
  with rtp_flags_from_low_bit [OF r] r show ?thesis by auto
qed

text \<open>C24: The factory turns the 32-bit timestamps of a sender whose clock never goes back and steps by
  less than half the range into a sequence that never goes back, over any number of wraps; the result
  is one tick short for every wrap passed, because a wrap adds 0xffffffff.\<close>

theorem timestamps_unwrapped:
  assumes "0 \<le> t" "t < 2 ^ 32" "steady (t # us)"
  shows "unwrap_run \<lparr>ts_last = 0, ts_overflow = 0\<rparr> (map (\<lambda>u. u mod 2 ^ 32) (t # us))
      = map (\<lambda>u. u - u div 2 ^ 32) (t # us)
    \<and> sorted (unwrap_run \<lparr>ts_last = 0, ts_overflow = 0\<rparr> (map (\<lambda>u. u mod 2 ^ 32) (t # us)))"
proof -
  have "steady ts \<Longrightarrow> sorted ts" for ts
    by (induction ts rule: steady.induct) (auto intro: order_trans)
  then have "sorted (t # us)" using assms(3) by blast
  then have "sorted (map loses (t # us))"
    by (intro sorted_map_mono [of _ loses]) (auto simp: monotone_on_def intro: loses_mono)
  then show ?thesis using unwrap_stream [OF assms] by (simp add: loses_def [abs_def])
qed

lemma timestamps_unwrapped_witness:
  "unwrap_run \<lparr>ts_last = 0, ts_overflow = 0\<rparr> [4294960000, 2704, 2147480000, 4294960000, 1406]
    = [4294960000, 4294969999, 6442447295, 8589927295, 8589935294 + 702]"
  using timestamps_unwrapped [of 4294960000 "[4294970000, 6442447296, 8589927296, 8589935296 + 702]"] by simp

end
