(* ===== verification/Aac.thy ===== *)
theory Aac
  imports Rtp JsNumber
begin

text \<open>
  AAC: the classes \<^verbatim>\<open>AACParser\<close> (audio configuration), \<^verbatim>\<open>AACFrame\<close>, \<^verbatim>\<open>AACAsm\<close> (RFC 3640 payloads
  to frames), \<^verbatim>\<open>RTPAACParser\<close> and \<^verbatim>\<open>RTPPayloadParser\<close> of \<^verbatim>\<open>rtsp.dev.js\<close>.
\<close>

section \<open>The audio configuration\<close>

record aac_config =
  ac_config :: bytes
  ac_codec :: string
  ac_samplerate :: "int option"    \<comment> \<open>\<^verbatim>\<open>undefined\<close> for a reserved index\<close>
  ac_channels :: int

definition SampleRates :: "int list" where
  "SampleRates = [96000, 88200, 64000, 48000, 44100, 32000, 24000, 22050, 16000, 12000, 11025, 8000, 7350]"

definition sample_rate :: "int \<Rightarrow> int option" where
  "sample_rate sfi = (if 0 \<le> sfi \<and> sfi < int (length SampleRates) then Some (SampleRates ! nat sfi) else None)"

text \<open>The parser proper works on a bit reader; the slice is taken from the reader's whole buffer.\<close>

definition parse_config_bits :: "bit_array \<Rightarrow> aac_config result" where
  "parse_config_bits b =
     (let pos = bitpos b + bytepos b * 8 in
      bindE (ba_readBits b 5) (\<lambda>(prof, b).
      bindE (ba_readBits b 4) (\<lambda>(sfi, b).
      bindE (if sfi = 0xf then ba_skipBits b 24 else Inr b) (\<lambda>b.
      bindE (ba_readBits b 4) (\<lambda>(channels, b).
        Inr \<lparr>ac_config = bitSlice (ba_src b) pos (pos + 16),
             ac_codec = ''mp4a.40.'' @ int_str prof,
             ac_samplerate = sample_rate sfi,
             ac_channels = channels\<rparr>)))))"

text \<open>An empty array is taken for a reader (\<^verbatim>\<open>byteLength\<close> is 0) and has no \<^verbatim>\<open>src\<close>.\<close>

definition parseAudioSpecificConfig :: "bytes \<Rightarrow> aac_config result" where
  "parseAudioSpecificConfig xs = (if xs = [] then Inl TypeErr
     else bindE (BitArray xs) parse_config_bits)"

text \<open>\<open>None\<close> is the \<^verbatim>\<open>undefined\<close> of the branch that returns nothing.\<close>

definition parseStreamMuxConfig :: "bytes \<Rightarrow> aac_config option result" where
  "parseStreamMuxConfig xs =
     bindE (BitArray xs) (\<lambda>b.
     bindE (ba_readBits b 1) (\<lambda>(flag, b).
     if flag = 0 then
       bindE (ba_skipBits b 14) (\<lambda>b. bindE (parse_config_bits b) (\<lambda>c. Inr (Some c)))
     else Inr None))"

section \<open>Frames from payloads\<close>

record aac_frame =
  af_data :: bytes
  af_dts :: rat
  af_pts :: rat

definition AACFrame :: "bytes \<Rightarrow> rat \<Rightarrow> rat option \<Rightarrow> aac_frame" where
  "AACFrame data dts pts = \<lparr>af_data = data, af_dts = dts, af_pts = pts_or_dts pts dts\<rparr>"

definition AACFrame_getData :: "aac_frame \<Rightarrow> bytes" where
  "AACFrame_getData f = af_data f"

definition AACFrame_getSize :: "aac_frame \<Rightarrow> int" where
  "AACFrame_getSize f = int (length (af_data f))"

text \<open>\<^verbatim>\<open>Number(fmtp[key] || 0)\<close>; \<open>None\<close> is NaN. A parameter is used as a length (\<^verbatim>\<open>readBits\<close>), as a
  truth value and as a summand.\<close>

definition fmtp_number :: "(string \<times> string) list \<Rightarrow> string \<Rightarrow> rat option" where
  "fmtp_number fmtp key = (case map_of fmtp key of
     None \<Rightarrow> Some 0 | Some v \<Rightarrow> if v = [] then Some 0 else js_Number v)"

fun num_add :: "rat option \<Rightarrow> rat option \<Rightarrow> rat option" where
  "num_add (Some a) (Some b) = Some (js_add a b)"
| "num_add _ _ = None"

fun num_max :: "rat option \<Rightarrow> rat option \<Rightarrow> rat option" where
  "num_max (Some a) (Some b) = Some (max a b)"
| "num_max _ _ = None"

definition num_true :: "rat option \<Rightarrow> bool" where
  "num_true n \<longleftrightarrow> n \<noteq> None \<and> n \<noteq> Some 0"

definition read_num :: "bit_array \<Rightarrow> rat option \<Rightarrow> (int \<times> bit_array) result" where
  "read_num b len = (case len of
     None \<Rightarrow> Inl (ErrMsg ''too big'')
   | Some r \<Rightarrow> if 32 < toInt32 (js_trunc r) \<or> 0 = toInt32 (js_trunc r) then Inl (ErrMsg ''too big'')
       else ba_loop (nat \<lceil>r\<rceil>) 0 b)"

definition skip_num :: "bit_array \<Rightarrow> rat option \<Rightarrow> bit_array result" where
  "skip_num b len = ba_skipBits b (case len of None \<Rightarrow> 0 | Some r \<Rightarrow> toInt32 (js_trunc r))"

record au_params =
  au_size :: "rat option"
  au_index :: "rat option"
  au_delta :: "rat option"
  au_cts :: "rat option"
  au_dts :: "rat option"
  au_rap :: "rat option"
  au_state :: "rat option"
  au_aux :: "rat option"

definition au_params_of :: "(string \<times> string) list \<Rightarrow> au_params" where
  "au_params_of fmtp = \<lparr>au_size = fmtp_number fmtp ''sizelength'', au_index = fmtp_number fmtp ''indexlength'',
     au_delta = fmtp_number fmtp ''indexdeltalength'', au_cts = fmtp_number fmtp ''ctsdeltalength'',
     au_dts = fmtp_number fmtp ''dtsdeltalength'', au_rap = fmtp_number fmtp ''randomaccessindication'',
     au_state = fmtp_number fmtp ''streamstateindication'', au_aux = fmtp_number fmtp ''auxiliarydatasizelength''\<rparr>"

definition configHeaderLength :: "au_params \<Rightarrow> rat option" where
  "configHeaderLength P = num_add (num_add (num_add (num_add (num_add (num_add (au_size P)
     (num_max (au_index P) (au_delta P))) (au_cts P)) (au_dts P)) (au_rap P)) (au_state P)) (au_aux P)"

text \<open>The state of the loop over the AU headers.\<close>

record au_loop_state =
  al_offset :: "rat option"
  al_bits :: bit_array
  al_cts :: int
  al_dts :: int
  al_frameOffset :: int
  al_frames :: "aac_frame list"

definition au_step :: "au_params \<Rightarrow> bytes \<Rightarrow> int \<Rightarrow> rat \<Rightarrow> au_loop_state \<Rightarrow> au_loop_state result" where
  "au_step P raw padded ts st =
     (let later = num_true (al_offset st);
          indexLen = (if later then au_delta P else au_index P) in
      bindE (read_num (al_bits st) (au_size P)) (\<lambda>(sz, b).
      bindE (read_num b indexLen) (\<lambda>(idx, b).
      let o1 = num_add (al_offset st) (num_add (au_size P) indexLen) in
      bindE (if num_true (au_cts P)
             then bindE (ba_readBits b 1) (\<lambda>(present, b). bindE (read_num b (au_cts P)) (\<lambda>(v, b).
               Inr (v, b, num_add o1 (au_cts P))))
             else Inr (al_cts st, b, o1)) (\<lambda>(cts, b, o2).
      bindE (if num_true (au_dts P)
             then bindE (ba_readBits b 1) (\<lambda>(present, b). bindE (read_num b (au_dts P)) (\<lambda>(v, b).
               Inr (v, b, num_add o2 (au_cts P))))
             else Inr (al_dts st, b, o2)) (\<lambda>(dts, b, o3).
      bindE (if num_true (au_rap P)
             then bindE (ba_skipBits b 1) (\<lambda>b. Inr (b, num_add o3 (Some 1)))
             else Inr (b, o3)) (\<lambda>(b, o4).
      bindE (if num_true (au_state P)
             then bindE (skip_num b (au_state P)) (\<lambda>b. Inr (b, num_add o4 (au_state P)))
             else Inr (b, o4)) (\<lambda>(b, o5).
        Inr \<lparr>al_offset = o5, al_bits = b, al_cts = cts, al_dts = dts,
             al_frameOffset = al_frameOffset st + sz,
             al_frames = al_frames st @ [AACFrame (subarray raw (padded + al_frameOffset st)
               (padded + al_frameOffset st + sz)) (js_add ts (of_int dts)) (Some (js_add ts (of_int cts)))]\<rparr>)))))))"

text \<open>The loop. A negative \<^verbatim>\<open>sizelength\<close> reads nothing and moves the offset back for ever: then the
  value is \<open>None\<close>.\<close>

definition au_more :: "int \<Rightarrow> au_loop_state \<Rightarrow> bool" where
  "au_more headerBits st = (case al_offset st of None \<Rightarrow> False | Some o' \<Rightarrow> o' < of_int headerBits)"

partial_function (option) au_loop ::
  "au_params \<Rightarrow> bytes \<Rightarrow> int \<Rightarrow> rat \<Rightarrow> int \<Rightarrow> au_loop_state \<Rightarrow> aac_frame list result option" where
  "au_loop P raw padded ts headerBits st =
     (if au_more headerBits st then
        (case au_step P raw padded ts st of
           Inl e \<Rightarrow> Some (Inl e)
         | Inr st' \<Rightarrow> au_loop P raw padded ts headerBits st')
      else Some (Inr (al_frames st)))"

text \<open>The timestamp: rounded to whole AAC frames of 1024 ticks, then to the 90 kHz clock.\<close>

definition aac_ts :: "int \<Rightarrow> int \<Rightarrow> rat" where
  "aac_ts timestamp samplerate =
     js_div (js_mul (of_int (js_shl (js_round (js_div (of_int timestamp) 1024)) 10)) 90000) (of_int samplerate)"

text \<open>Without AU headers: the leading bytes 255 and the byte after them are skipped.\<close>

definition skip_ff :: "bytes \<Rightarrow> bytes" where
  "skip_ff raw = drop (length (takeWhile (\<lambda>b. b = 255) raw) + 1) raw"

text \<open>\<open>onAACFragment\<close>; the configuration is the sampling rate of \<^verbatim>\<open>this.config\<close> (\<open>None\<close>: still null).
  The outer option is termination, the inner one the \<^verbatim>\<open>null\<close> answer for a packet without media block.\<close>

definition onAACFragment :: "int option \<Rightarrow> rtp \<Rightarrow> aac_frame list option result option" where
  "onAACFragment config pkt =
     (let raw = RTP_getPayload pkt in
      case r_media pkt of
        None \<Rightarrow> Some (Inr None)
      | Some media \<Rightarrow> (case mb_fmtp media of
          None \<Rightarrow> Some (Inl TypeErr)
        | Some fmtp \<Rightarrow> (case config of
            None \<Rightarrow> Some (Inl TypeErr)
          | Some samplerate \<Rightarrow>
              (let P = au_params_of fmtp; ts = aac_ts (RTP_getTimestampMS pkt) samplerate in
               if configHeaderLength P \<noteq> Some 0 then
                 (case getUint16 raw 0 of
                    Inl e \<Rightarrow> Some (Inl e)
                  | Inr headerBits \<Rightarrow>
                      (let padded = 2 + js_shr headerBits 3 + (if js_and headerBits 7 \<noteq> 0 then 1 else 0) in
                       case BitArray (drop 2 raw) of
                         Inl e \<Rightarrow> Some (Inl e)
                       | Inr b \<Rightarrow> map_option (map_sum id Some) (au_loop P raw padded ts headerBits
                           \<lparr>al_offset = Some 0, al_bits = b, al_cts = 0, al_dts = 0, al_frameOffset = 0,
                            al_frames = []\<rparr>)))
               else Some (Inr (Some [AACFrame (skip_ff raw) ts None]))))))"

section \<open>The payload parser\<close>

datatype media_unit = VideoUnit nalu | AudioUnit aac_frame

record payload_parser =
  pp_asm :: nalu_asm
  pp_config :: "int option"

definition RTPPayloadParser_new :: payload_parser where
  "RTPPayloadParser_new = \<lparr>pp_asm = None, pp_config = None\<rparr>"

definition RTPAACParser_setConfig :: "payload_parser \<Rightarrow> int \<Rightarrow> payload_parser" where
  "RTPAACParser_setConfig p samplerate = p\<lparr>pp_config := Some samplerate\<rparr>"

definition RTPPayloadParser_parse ::
  "payload_parser \<Rightarrow> rtp \<Rightarrow> (media_unit list option \<times> payload_parser) result option" where
  "RTPPayloadParser_parse p r =
     (case RTP_media r of
        Inl e \<Rightarrow> Some (Inl e)
      | Inr m \<Rightarrow>
          if mb_type m = Some ''video'' then
            Some (bindE (RTPH264Parser_parse (pp_asm p) r) (\<lambda>(us, asm).
              Inr (map_option (map VideoUnit) us, p\<lparr>pp_asm := asm\<rparr>)))
          else if mb_type m = Some ''audio'' then
            map_option (\<lambda>x. bindE x (\<lambda>us. Inr (map_option (map AudioUnit) us, p))) (onAACFragment (pp_config p) r)
          else Some (Inr (None, p)))"

section \<open>The configuration read back\<close>

text \<open>Skipping bits, as long as one bit is left behind them.\<close>

lemma ba_skipBits_ok:
  assumes "ba_ok b" and "n < length (ba_bits b)" and "n < 2 ^ 28"
  shows "\<exists>b'. ba_skipBits b (int n) = Inr b' \<and> ba_ok b' \<and> ba_bits b' = drop n (ba_bits b) \<and> ba_src b' = ba_src b
    \<and> bitpos b' + bytepos b' * 8 = bitpos b + bytepos b * 8 + int n"
proof -
  define p q where "p = nat (bitpos b)" and "q = nat (bytepos b)"
  have b: "bitpos b = int p" "p < 8" "bytepos b = int q" "q < length (ba_src b)"
      "ba_byte b = uint (ba_src b ! q)"
    using assms(1) by (auto simp: ba_ok_def p_def q_def)
  have m7: "js_and (int k) 7 = int (k mod 8)" if "k < 2 ^ 31" for k
  proof -
    have "int k AND 7 = int k mod 2 ^ 3"
      using take_bit_eq_mask [of 3 "int k"] by (simp add: take_bit_eq_mod mask_eq_exp_minus_1)
    then show ?thesis by (simp add: js_and_eq toInt32_id zmod_int)
  qed
  have d8: "js_shr (int n) 3 = int (n div 8)"
    using assms(3) by (simp add: js_shr_def toUint32_mod zdiv_int)
  define r where "r = p + n mod 8"
  have r: "r < 16" "int p + int (n mod 8) = int r" using b(2) by (auto simp: r_def)
  define P Q where "P = r mod 8" and "Q = q + n div 8 + r div 8"
  have "r < 2 ^ 31" using r(1) by simp
  then have s1: "(if int r > 7 then js_and (int r) 7 else int r) = int P"
    using m7 [of r] by (simp add: P_def)
  have "r div 8 = (if r > 7 then 1 else 0)"
  proof (cases "r > 7")
    case True
    then have "r div 8 = (r - 8) div 8 + 1" by (simp add: le_div_geq)
    with True r(1) show ?thesis by simp
  qed simp
  then have s2: "(if int r > 7 then int q + int (n div 8) + 1 else int q + int (n div 8)) = int Q"
    by (simp add: Q_def)
  have len: "length (ba_bits b) = 8 * (length (ba_src b) - q) - p"
    using b by (simp add: ba_bits_def)
  have PQ: "8 * Q + P = 8 * q + p + n"
    using div_mult_mod_eq [of r 8] div_mult_mod_eq [of n 8] unfolding P_def Q_def r_def by simp
  have Q: "Q < length (ba_src b)" using assms(2) len PQ b by linarith
  let ?b' = "b\<lparr>bitpos := int P, bytepos := int Q, ba_byte := uint (ba_src b ! Q)\<rparr>"
  have sk: "ba_skipBits b (int n) = Inr ?b'"
    using s1 s2 b r(2) Q m7 [of n] assms(3) d8 getUint8_nth [OF Q]
    by (auto simp: ba_skipBits_def Let_def ba_finished_def split: if_splits)
  have all: "ba_bits c = drop (8 * nat (bytepos c) + nat (bitpos c)) (bytes_bits (ba_src c))" if "ba_ok c" for c
  proof -
    have bd: "bytes_bits (drop k xs) = drop (8 * k) (bytes_bits xs)" for k and xs :: bytes
      by (cases "k \<le> length xs")
        (metis append_take_drop_id bytes_bits_append append_eq_conv_conj length_bytes_bits length_take min.absorb2,
         simp)
    have c: "nat (bytepos c) < length (ba_src c)" "nat (bitpos c) < 8"
        "ba_byte c = uint (ba_src c ! nat (bytepos c))" using that by (auto simp: ba_ok_def)
    have e: "msb_bits 8 (ba_byte c) @ bytes_bits (drop (Suc (nat (bytepos c))) (ba_src c))
        = bytes_bits (drop (nat (bytepos c)) (ba_src c))"
      unfolding c(3) bytes_bits_Cons [symmetric] Cons_nth_drop_Suc [OF c(1)] ..
    have "ba_bits c = drop (nat (bitpos c)) (msb_bits 8 (ba_byte c) @ bytes_bits (drop (Suc (nat (bytepos c))) (ba_src c)))"
      using c(2) by (simp add: ba_bits_def)
    then have "ba_bits c = drop (nat (bitpos c)) (bytes_bits (drop (nat (bytepos c)) (ba_src c)))"
      unfolding e .
    then show ?thesis by (simp add: bd add.commute)
  qed
  have ok: "ba_ok ?b'" using Q by (simp add: ba_ok_def P_def)
  have "ba_bits ?b' = drop n (ba_bits b)"
    using all [OF ok] all [OF assms(1)] PQ b by (simp add: add.commute add.left_commute)
  with sk ok PQ b show ?thesis by (auto simp: algebra_simps)
qed


lemma parse_config_ok:
  assumes "ba_ok b" and "ba_bits b = msb_bits 5 prof @ msb_bits 4 sfi @ msb_bits 4 ch @ rest" and "rest \<noteq> []"
    and "field_ok (5, prof)" and "field_ok (4, sfi)" and "field_ok (4, ch)" and "sfi \<noteq> 15"
  shows "parse_config_bits b = Inr \<lparr>ac_config = bitSlice (ba_src b) (bitpos b + bytepos b * 8)
      (bitpos b + bytepos b * 8 + 16), ac_codec = ''mp4a.40.'' @ int_str prof,
      ac_samplerate = sample_rate sfi, ac_channels = ch\<rparr>"
proof -
  have r: "1 \<le> length rest" using assms(3) by (cases rest) auto
  obtain b1 where b1: "ba_readBits b 5 = Inr (prof, b1)" "ba_ok b1"
      "ba_bits b1 = msb_bits 4 sfi @ msb_bits 4 ch @ rest"
    using ba.rd_field [OF assms(1,2,4)] by auto
  obtain b2 where b2: "ba_readBits b1 4 = Inr (sfi, b2)" "ba_ok b2" "ba_bits b2 = msb_bits 4 ch @ rest"
    using ba.rd_field [OF b1(2,3) assms(5)] by auto
  obtain b3 where b3: "ba_readBits b2 4 = Inr (ch, b3)"
    using ba.rd_field [OF b2(2,3) assms(6) r] by auto
  have src: "ba_src b2 = ba_src b"
  proof -
    have "\<exists>b'. ba_readBits b (int 5) = Inr (bits_val (take 5 (ba_bits b)), b') \<and> ba_src b' = ba_src b"
      using ba_readBits_ok [OF assms(1), of 5] r by (auto simp: assms(2))
    moreover have "\<exists>b'. ba_readBits b1 (int 4) = Inr (bits_val (take 4 (ba_bits b1)), b') \<and> ba_src b' = ba_src b1"
      using ba_readBits_ok [OF b1(2), of 4] r by (auto simp: b1(3))
    ultimately show ?thesis using b1(1) b2(1) by auto
  qed
  have "ba_src b3 = ba_src b2"
    using ba_readBits_ok [OF b2(2), of 4] r b3 assms(3) by (auto simp: b2(3))
  then show ?thesis using b1(1) b2(1) b3 src assms(7) by (simp add: parse_config_bits_def Let_def)
qed

lemma parseAudioSpecificConfig_ok:
  assumes "bytes_bits xs = msb_bits 5 prof @ msb_bits 4 sfi @ msb_bits 4 ch @ rest"
    and "field_ok (5, prof)" and "field_ok (4, sfi)" and "field_ok (4, ch)" and "sfi \<noteq> 15"
  shows "parseAudioSpecificConfig xs = Inr \<lparr>ac_config = take 2 xs, ac_codec = ''mp4a.40.'' @ int_str prof,
      ac_samplerate = sample_rate sfi, ac_channels = ch\<rparr>"
proof -
  have len: "8 * length xs = 13 + length rest"
    using arg_cong [OF assms(1), of length] by simp
  then have l2: "2 \<le> length xs" and "rest \<noteq> []" by (auto simp: Suc_le_eq intro!: gr0I) presburger+
  obtain b where b: "BitArray xs = Inr b" "ba_ok b" "ba_bits b = bytes_bits xs" "ba_src b = xs"
      "bitpos b = 0" "bytepos b = 0"
  proof -
    have ne: "xs \<noteq> []" using l2 by auto
    then obtain b where "BitArray xs = Inr b" "ba_ok b" "ba_bits b = bytes_bits xs" "ba_src b = xs"
      using BitArray_ok by blast
    moreover have "bitpos b = 0" "bytepos b = 0" using \<open>BitArray xs = Inr b\<close> by (auto simp: BitArray_def bindE_Inr_iff)
    ultimately show ?thesis by (rule that)
  qed
  have "bitSlice xs 0 16 = take 2 xs"
    using bitSlice_aligned [of 0 2 xs] l2 by simp
  then show ?thesis
    using parse_config_ok [OF b(2) _ \<open>rest \<noteq> []\<close> assms(2-5)] b l2 assms(1)
    by (auto simp: parseAudioSpecificConfig_def)
qed

section \<open>AU headers read back\<close>

text \<open>The packets of RFC 3640 in the high-bit-rate mode (13 bits of size, 3 of index): the length of
  the header section in bits, one header per frame, the frames.\<close>

definition aac_packet :: "bytes list \<Rightarrow> bytes" where
  "aac_packet fs = be16 (16 * int (length fs)) @ concat (map (\<lambda>d. be16 (8 * int (length d))) fs) @ concat fs"

definition hbr :: au_params where
  "hbr = \<lparr>au_size = Some 13, au_index = Some 3, au_delta = Some 3, au_cts = Some 0, au_dts = Some 0,
     au_rap = Some 0, au_state = Some 0, au_aux = Some 0\<rparr>"

lemma au_header_bits:
  assumes "n < 2 ^ 13"
  shows "bytes_bits (be16 (8 * int n)) = msb_bits 13 (int n) @ msb_bits 3 0"
proof -
  have "be_val (be16 (8 * int n)) = 8 * int n"
    unfolding be_val_be16 using assms by (intro mod_pos_pos_trivial) auto
  then have "bytes_bits (be16 (8 * int n)) = msb_bits (13 + 3) (8 * int n)"
    by (simp add: bytes_bits_msb_bits)
  also have "\<dots> = msb_bits 13 (drop_bit 3 (8 * int n)) @ msb_bits 3 (8 * int n)"
    by (rule msb_bits_split)
  also have "drop_bit 3 (8 * int n) = int n" by (simp add: drop_bit_eq_div)
  also have "msb_bits 3 (8 * int n) = msb_bits 3 0"
  proof (rule msb_bits_cong)
    fix i :: nat assume "i < 3"
    have "8 * int n = push_bit 3 (int n)" by (simp add: push_bit_eq_mult)
    with \<open>i < 3\<close> show "bit (8 * int n) i = bit 0 i" by (simp add: bit_push_bit_iff)
  qed
  finally show ?thesis .
qed

lemma read_num_nat:
  assumes "0 < n" and "n \<le> 31" shows "read_num b (Some (of_nat n)) = ba_readBits b (int n)"
proof -
  have "js_trunc (of_nat n) = int n" "\<lceil>of_nat n :: rat\<rceil> = int n"
    using js_trunc_of_int [of "int n"] by simp_all
  moreover have "toInt32 (int n) = int n" using assms by (intro toInt32_id) auto
  ultimately show ?thesis using assms by (simp add: read_num_def ba_readBits_def)
qed

lemma au_step_hbr:
  assumes "ba_ok (al_bits st)" and "ba_bits (al_bits st) = bytes_bits (be16 (8 * int (length d))) @ rest"
    and "rest \<noteq> []" and "length d < 2 ^ 13" and "al_offset st = Some (of_int k)" and "0 \<le> k" and "k < 2 ^ 16"
    and "al_cts st = 0" and "al_dts st = 0" and "0 \<le> padded" and "0 \<le> al_frameOffset st"
    and "drop (nat (padded + al_frameOffset st)) raw = d @ tail"
  shows "\<exists>b. au_step hbr raw padded ts st = Inr (st\<lparr>al_offset := Some (of_int (k + 16)), al_bits := b,
      al_frameOffset := al_frameOffset st + int (length d),
      al_frames := al_frames st @ [AACFrame d (js_add ts 0) (Some (js_add ts 0))]\<rparr>)
    \<and> ba_ok b \<and> ba_bits b = rest"
proof -
  have f: "field_ok (13, int (length d))" "field_ok (3, 0)" using assms(4) by (auto simp: field_ok_def)
  have r: "1 \<le> length rest" using assms(3) by (cases rest) auto
  obtain b1 where b1: "ba_readBits (al_bits st) 13 = Inr (int (length d), b1)" "ba_ok b1"
      "ba_bits b1 = msb_bits 3 0 @ rest"
    using ba.rd_field [OF assms(1) _ f(1), of "msb_bits 3 0 @ rest"] assms(2) au_header_bits [OF assms(4)] by auto
  obtain b2 where b2: "ba_readBits b1 3 = Inr (0, b2)" "ba_ok b2" "ba_bits b2 = rest"
    using ba.rd_field [OF b1(2,3) f(2) r] by auto
  have n13: "read_num b (Some 13) = ba_readBits b 13" "read_num b (Some 3) = ba_readBits b 3" for b
    using read_num_nat [of 13 b] read_num_nat [of 3 b] by simp_all
  have add: "num_add (Some (of_int k)) (num_add (Some 13) (Some 3)) = Some (of_int (k + 16))"
    using js_add_of_int [of 13 3] js_add_of_int [of k 16] assms(6,7) by simp
  have sub: "subarray raw (padded + al_frameOffset st) (padded + al_frameOffset st + int (length d)) = d"
  proof -
    define i where "i = nat (padded + al_frameOffset st)"
    have i: "padded + al_frameOffset st = int i" using assms(10,11) by (simp add: i_def)
    have "subarray raw (int i) (int (i + length d)) = take (length d) (drop i raw)"
      by (subst subarray_nat) simp_all
    with assms(12) show ?thesis by (simp add: i)
  qed
  show ?thesis
    using b1(1) b2 assms(5,8,9) add sub
    by (cases st) (auto simp: au_step_def Let_def hbr_def n13 num_true_def)
qed

lemma au_loop_hbr:
  assumes "list_all (\<lambda>d. length d < 2 ^ 13) ds"
    and "ba_ok (al_bits st)" and "ba_bits (al_bits st) = bytes_bits (concat (map (\<lambda>d. be16 (8 * int (length d))) ds)) @ rest"
    and "rest \<noteq> []" and "al_offset st = Some (of_int k)" and "0 \<le> k" and "k + 16 * int (length ds) < 2 ^ 16"
    and "al_cts st = 0" and "al_dts st = 0" and "0 \<le> padded" and "0 \<le> al_frameOffset st"
    and "drop (nat (padded + al_frameOffset st)) raw = concat ds"
  shows "au_loop hbr raw padded ts (k + 16 * int (length ds)) st
    = Some (Inr (al_frames st @ map (\<lambda>d. AACFrame d (js_add ts 0) (Some (js_add ts 0))) ds))"
  using assms
proof (induction ds arbitrary: st k)
  case Nil
  then show ?case by (subst au_loop.simps) (simp add: au_more_def)
next
  case (Cons d ds)
  let ?st = "\<lambda>b. st\<lparr>al_offset := Some (of_int (k + 16)), al_bits := b,
      al_frameOffset := al_frameOffset st + int (length d),
      al_frames := al_frames st @ [AACFrame d (js_add ts 0) (Some (js_add ts 0))]\<rparr>"
  have "\<exists>b. au_step hbr raw padded ts st = Inr (?st b) \<and> ba_ok b
      \<and> ba_bits b = bytes_bits (concat (map (\<lambda>d. be16 (8 * int (length d))) ds)) @ rest"
    using Cons.prems by (intro au_step_hbr [where tail = "concat ds"]) auto
  then obtain b where b: "au_step hbr raw padded ts st = Inr (?st b)" "ba_ok b"
      "ba_bits b = bytes_bits (concat (map (\<lambda>d. be16 (8 * int (length d))) ds)) @ rest" by blast
  have more: "au_more (k + 16 * int (length (d # ds))) st"
    using Cons.prems(5) by (simp add: au_more_def)
  have "nat (padded + al_frameOffset (?st b)) = nat (padded + al_frameOffset st) + length d"
    using Cons.prems(10,11) by simp
  then have dr: "drop (nat (padded + al_frameOffset (?st b))) raw = concat ds"
    using Cons.prems(12) by (simp add: add.commute flip: drop_drop)
  have "au_loop hbr raw padded ts (k + 16 + 16 * int (length ds)) (?st b)
      = Some (Inr (al_frames (?st b) @ map (\<lambda>d. AACFrame d (js_add ts 0) (Some (js_add ts 0))) ds))"
    by (rule Cons.IH) (use Cons.prems b dr in auto)
  then show ?case
    using more b(1) by (subst au_loop.simps) (simp add: algebra_simps)
qed

lemma aac_depacketize:
  assumes "r_media pkt = Some m" and "mb_fmtp m = Some fmtp" and "au_params_of fmtp = hbr"
    and "RTP_getPayload pkt = aac_packet fs" and "list_all (\<lambda>d. length d < 2 ^ 13) fs"
    and "concat fs \<noteq> []" and "16 * length fs < 2 ^ 16"
  shows "\<exists>t. onAACFragment (Some rate) pkt = Some (Inr (Some (map (\<lambda>d. \<lparr>af_data = d, af_dts = t, af_pts = t\<rparr>) fs)))"
proof -
  let ?ts = "aac_ts (RTP_getTimestampMS pkt) rate"
  let ?n = "length fs"
  let ?H = "concat (map (\<lambda>d. be16 (8 * int (length d))) fs)"
  have chl: "configHeaderLength hbr \<noteq> Some 0"
    using js_add_of_int [of 13 3] js_add_of_int [of 16 0] by (simp add: configHeaderLength_def hbr_def)
  have lenH: "length ?H = 2 * ?n" by (induction fs) auto
  have hb: "getUint16 (aac_packet fs) 0 = Inr (16 * int ?n)"
  proof -
    have "be_val (be16 (16 * int ?n)) = 16 * int ?n"
      unfolding be_val_be16 using assms(7) by (intro mod_pos_pos_trivial) auto
    then show ?thesis by (simp add: aac_packet_def get_n_def)
  qed
  have sh: "js_shr (16 * int ?n) 3 = 2 * int ?n"
    using assms(7) by (simp add: js_shr_def toUint32_mod)
  have an: "js_and (16 * int ?n) 7 = 0"
  proof -
    have "16 * int ?n AND 7 = 16 * int ?n mod 2 ^ 3"
      using take_bit_eq_mask [of 3 "16 * int ?n"] by (simp add: take_bit_eq_mod mask_eq_exp_minus_1)
    also have "\<dots> = 0" by (simp add: mod_mult_left_eq [symmetric, of 16])
    finally show ?thesis by (simp add: js_and_eq toInt32_id)
  qed
  have d2: "drop 2 (aac_packet fs) = ?H @ concat fs" by (simp add: aac_packet_def)
  obtain b where b: "BitArray (?H @ concat fs) = Inr b" "ba_ok b" "ba_bits b = bytes_bits (?H @ concat fs)"
    using BitArray_ok [of "?H @ concat fs"] assms(6) by auto
  have "bytes_bits (concat fs) \<noteq> []" using assms(6) by (metis length_bytes_bits length_0_conv mult_eq_0_iff zero_neq_numeral)
  then have "au_loop hbr (aac_packet fs) (2 + 2 * int ?n) ?ts (0 + 16 * int ?n)
      \<lparr>al_offset = Some 0, al_bits = b, al_cts = 0, al_dts = 0, al_frameOffset = 0, al_frames = []\<rparr>
      = Some (Inr ([] @ map (\<lambda>d. AACFrame d (js_add ?ts 0) (Some (js_add ?ts 0))) fs))"
    using b assms(5,7) lenH
    by (subst au_loop_hbr [where rest = "bytes_bits (concat fs)"]) (auto simp: aac_packet_def nat_add_distrib)
  moreover have "AACFrame d t (Some t) = \<lparr>af_data = d, af_dts = t, af_pts = t\<rparr>" for d t
    by (simp add: AACFrame_def pts_or_dts_def)
  ultimately show ?thesis
    using assms(1-3) chl hb sh an d2 b(1)
    by (auto simp: onAACFragment_def assms(4) Let_def)
qed

text \<open>Negative lengths in the format parameters make the loop run for ever: no bits are read, and the
  offset moves away from its bound.\<close>

lemma au_step_negative:
  assumes "al_offset st = Some o'" and "o' \<le> 0"
  shows "\<exists>st' o''. au_step (hbr\<lparr>au_size := Some (- 1), au_index := Some (- 1), au_delta := Some (- 1)\<rparr>) raw padded ts st
    = Inr st' \<and> al_offset st' = Some o'' \<and> o'' \<le> 0"
proof -
  have t: "toInt32 (js_trunc (- 1)) = - 1" using js_trunc_of_int [of "- 1"] by (simp add: toInt32_id)
  have rn: "read_num b (Some (- 1)) = Inr (0, b)" for b by (simp add: read_num_def t)
  have a: "js_add (- 1) (- 1) = - 2" using js_add_of_int [of "- 1" "- 1"] by simp
  have "0 \<le> dbl (- (o' - 2))" using assms(2) by (intro dbl_nonneg) simp
  then have "js_add o' (- 2) \<le> 0" unfolding dbl_minus js_add_def by simp
  then show ?thesis using assms(1) by (cases "o' = 0") (simp_all add: au_step_def Let_def hbr_def rn num_true_def a)
qed

lemma au_loop_negative:
  assumes "al_offset st = Some o'" and "o' \<le> 0" and "0 < headerBits"
  shows "au_loop (hbr\<lparr>au_size := Some (- 1), au_index := Some (- 1), au_delta := Some (- 1)\<rparr>) raw padded ts
    headerBits st = None"
proof -
  let ?P = "hbr\<lparr>au_size := Some (- 1), au_index := Some (- 1), au_delta := Some (- 1)\<rparr>"
  define Q where "Q P hb st \<longleftrightarrow> P \<noteq> ?P \<or> hb \<le> 0 \<or> (\<nexists>o'. al_offset st = Some o' \<and> o' \<le> 0)"
    for P :: au_params and hb :: int and st :: au_loop_state
  have "Q P hb st" if "au_loop P raw padded ts hb st = Some y" for P hb st y
  proof (rule au_loop.raw_induct [of "\<lambda>(((((P, raw), padded), ts), hb), st) y. Q P hb st", OF _ that, unfolded prod.case])
    fix loop P hb st y and raw :: bytes and padded ts
    assume ih: "\<And>P raw padded ts hb st y. loop P raw padded ts hb st = Some y \<Longrightarrow> Q P hb st"
      and eq: "(if au_more hb st then case au_step P raw padded ts st of Inl e \<Rightarrow> Some (Inl e)
          | Inr st' \<Rightarrow> loop P raw padded ts hb st' else Some (Inr (al_frames st))) = Some y"
    show "Q P hb st"
    proof (rule ccontr)
      assume "\<not> Q P hb st"
      then obtain o' where o: "P = ?P" "0 < hb" "al_offset st = Some o'" "o' \<le> 0" by (auto simp: Q_def)
      then have "au_more hb st" by (simp add: au_more_def)
      moreover obtain st' o'' where st': "au_step ?P raw padded ts st = Inr st'" "al_offset st' = Some o''" "o'' \<le> 0"
        using au_step_negative [OF o(3,4)] by blast
      ultimately have "loop P raw padded ts hb st' = Some y" using eq o(1) by simp
      from ih [OF this] show False using o(1,2) st' by (auto simp: Q_def)
    qed
  qed
  then have "Q ?P headerBits st" if "au_loop ?P raw padded ts headerBits st = Some y" for y using that .
  then show ?thesis using assms by (cases "au_loop ?P raw padded ts headerBits st") (auto simp: Q_def)
qed

section \<open>What the audio depacketizer promises\<close>

text \<open>C16: A packet in the AAC-hbr mode of RFC 3640 (13-bit sizes, 3-bit indices) is split into
  exactly the frames the sender put in, in order, all with one timestamp; the loop over the headers
  ends.\<close>

theorem aac_frames_depacketized:
  assumes "r_media pkt = Some m" "mb_fmtp m = Some fmtp" "au_params_of fmtp = hbr"
    and "RTP_getPayload pkt = aac_packet fs" "list_all (\<lambda>d. length d < 2 ^ 13) fs"
    and "concat fs \<noteq> []" "16 * length fs < 2 ^ 16"
  shows "\<exists>t. onAACFragment (Some rate) pkt = Some (Inr (Some (map (\<lambda>d. \<lparr>af_data = d, af_dts = t, af_pts = t\<rparr>) fs)))"
  by (rule aac_depacketize [OF assms])

definition example_aac_block :: media_block where
  "example_aac_block = empty_block\<lparr>mb_type := Some ''audio'', mb_fmtp := Some [(''sizelength'', ''13''),
     (''indexlength'', ''3''), (''indexdeltalength'', ''3'')]\<rparr>"

definition example_aac_rtp :: rtp where
  "example_aac_rtp = \<lparr>r_version = 2, r_padding = 0, r_has_extension = 0, r_csrc = 0, r_marker = 1, r_pt = 97,
     r_sequence = 1, r_timestamp = 44100, r_ssrc = 1, r_csrcs = [], r_extension = None, r_ehl = None,
     r_header_data = None, r_headerLength = 12, r_media = Some example_aac_block, r_type = None,
     r_data = [0, 32, 0, 24, 0, 16, 1, 2, 3, 4, 5]\<rparr>"

lemma aac_frames_depacketized_witness:
  "\<exists>t. onAACFragment (Some 44100) example_aac_rtp
    = Some (Inr (Some [\<lparr>af_data = [1, 2, 3], af_dts = t, af_pts = t\<rparr>, \<lparr>af_data = [4, 5], af_dts = t, af_pts = t\<rparr>]))"
proof -
  have hbr: "au_params_of [(''sizelength'', ''13''), (''indexlength'', ''3''), (''indexdeltalength'', ''3'')] = hbr"
    by code_simp
  have "RTP_getPayload example_aac_rtp = aac_packet [[1, 2, 3], [4, 5]]" by code_simp
  from aac_frames_depacketized [OF _ _ hbr this, of example_aac_block 44100] show ?thesis
    by (simp add: example_aac_rtp_def example_aac_block_def)
qed

text \<open>The two-byte audio configuration is read field by field: object type, sampling rate by its
  index, channels; the configuration handed to the decoder is its first two bytes.\<close>

lemma audio_config_parsed:
  assumes "bytes_bits xs = msb_bits 5 prof @ msb_bits 4 sfi @ msb_bits 4 ch @ rest"
    and "field_ok (5, prof)" "field_ok (4, sfi)" "field_ok (4, ch)" "sfi \<noteq> 15"
  shows "parseAudioSpecificConfig xs = Inr \<lparr>ac_config = take 2 xs, ac_codec = ''mp4a.40.'' @ int_str prof,
      ac_samplerate = sample_rate sfi, ac_channels = ch\<rparr>"
  by (rule parseAudioSpecificConfig_ok [OF assms])

lemma audio_config_parsed_witness:
  "parseAudioSpecificConfig [0x12, 0x10] = Inr \<lparr>ac_config = [0x12, 0x10], ac_codec = ''mp4a.40.'' @ int_str 2,
      ac_samplerate = sample_rate 4, ac_channels = 2\<rparr>"
proof -
  have "bytes_bits [0x12, 0x10] = msb_bits 5 2 @ msb_bits 4 4 @ msb_bits 4 2 @ [False, False, False]" by code_simp
  from audio_config_parsed [OF this] show ?thesis by (simp add: field_ok_def)
qed

text \<open>Format parameters with negative lengths make the loop over the access unit headers run for
  ever: it consumes no bits, and its offset moves away from the bound.\<close>

lemma negative_lengths_diverge:
  assumes "al_offset st = Some k" "k \<le> 0" "0 < headerBits"
  shows "au_loop (hbr\<lparr>au_size := Some (- 1), au_index := Some (- 1), au_delta := Some (- 1)\<rparr>) raw padded ts
    headerBits st = None"
  by (rule au_loop_negative [OF assms])

lemma negative_lengths_diverge_witness:
  "au_loop (hbr\<lparr>au_size := Some (- 1), au_index := Some (- 1), au_delta := Some (- 1)\<rparr>) [0, 16, 0, 8, 1] 4 0 16
     \<lparr>al_offset = Some 0, al_bits = \<lparr>ba_src = [0, 8, 1], bitpos = 0, ba_byte = 0, bytepos = 0\<rparr>, al_cts = 0, al_dts = 0,
      al_frameOffset = 0, al_frames = []\<rparr> = None"
  by (rule negative_lengths_diverge [of _ 0]) simp_all

end
