(* ===== verification/Remux.thy ===== *)
theory Remux
  imports Aac Mp4 "HOL-Library.Sublist"
begin

text \<open>
  The remuxers of \<^verbatim>\<open>rtsp.dev.js\<close>: \<^verbatim>\<open>BaseRemuxer\<close>, \<^verbatim>\<open>AACRemuxer\<close> and \<^verbatim>\<open>H264Remuxer\<close>. Units queue
  up as samples; \<open>getPayload\<close> drains the queue into the bytes of one media fragment and the sample
  table of the track. An exception is \<open>Inl\<close>; \<open>h264_remux\<close>, whose work before an exception stays
  done, returns its state beside the error.
\<close>

section \<open>The base class\<close>

record 'u rem_sample =
  rs_unit :: 'u
  rs_pts :: rat
  rs_dts :: rat

text \<open>\<open>b_initDTS\<close> and \<open>b_initPTS\<close> are undefined until \<open>base_init\<close> has run. A sample \<open>None\<close> is the \<^verbatim>\<open>null\<close>
  that marks a discontinuity.\<close>

record 'u base_remuxer =
  b_timeOffset :: rat
  b_timescale :: rat
  b_scaleFactor :: rat
  b_ready :: bool
  b_initialized :: bool
  b_samples :: "'u rem_sample option list"
  b_seq :: int
  b_tsAlign :: int
  b_initPTS :: "rat option"
  b_initDTS :: "rat option"
  b_duration :: rat
  b_track :: mp4_track

definition MP4_TIMESCALE :: rat where "MP4_TIMESCALE = 90000"

definition scaled :: "('u, 'z) base_remuxer_scheme \<Rightarrow> rat \<Rightarrow> rat" where
  "scaled r timestamp = js_div timestamp (b_scaleFactor r)"

definition unscaled :: "('u, 'z) base_remuxer_scheme \<Rightarrow> rat \<Rightarrow> rat" where
  "unscaled r timestamp = js_mul timestamp (b_scaleFactor r)"

definition toMS :: "rat \<Rightarrow> rat" where
  "toMS timestamp = js_div timestamp 90"

definition base_remux :: "('u, 'z) base_remuxer_scheme \<Rightarrow> 'u \<Rightarrow> rat \<Rightarrow> rat \<Rightarrow> ('u, 'z) base_remuxer_scheme" where
  "base_remux r u pts dts = r\<lparr>b_samples := b_samples r @ [Some \<lparr>rs_unit = u, rs_pts = pts, rs_dts = dts\<rparr>]\<rparr>"

definition insertDscontinuity :: "('u, 'z) base_remuxer_scheme \<Rightarrow> ('u, 'z) base_remuxer_scheme" where
  "insertDscontinuity r = r\<lparr>b_samples := b_samples r @ [None]\<rparr>"

text \<open>\<^verbatim>\<open>init(initPTS, initDTS)\<close>; \<open>None\<close> is the \<^verbatim>\<open>Infinity\<close> that \<^verbatim>\<open>Remuxer.init\<close> passes.\<close>

definition min_inf :: "rat option \<Rightarrow> rat \<Rightarrow> rat" where
  "min_inf a b = (case a of None \<Rightarrow> b | Some x \<Rightarrow> min x b)"

definition base_init :: "('u, 'z) base_remuxer_scheme \<Rightarrow> rat option \<Rightarrow> rat option \<Rightarrow> bool \<Rightarrow>
    ('u, 'z) base_remuxer_scheme result" where
  "base_init r initPTS initDTS shouldInitialize = (case b_samples r of
     Some s # _ \<Rightarrow> Inr (r\<lparr>b_initPTS := Some (min_inf initPTS (rs_dts s)),
       b_initDTS := Some (min_inf initDTS (rs_dts s)), b_initialized := shouldInitialize\<rparr>)
   | _ \<Rightarrow> Inl TypeErr)"

definition base_flush :: "('u, 'z) base_remuxer_scheme \<Rightarrow> ('u, 'z) base_remuxer_scheme" where
  "base_flush r = r\<lparr>b_seq := b_seq r + 1, b_track := (b_track r)\<lparr>t_len := 0, t_samples := []\<rparr>\<rparr>"

text \<open>Sorting by decoding time. \<^verbatim>\<open>Array.prototype.sort\<close> is stable; its comparison raises on \<^verbatim>\<open>null\<close>,
  and every element of a list of two or more is compared.\<close>

definition sample_key :: "'u rem_sample option \<Rightarrow> rat" where
  "sample_key s = (case s of Some x \<Rightarrow> rs_dts x | None \<Rightarrow> 0)"

definition sort_samples :: "'u rem_sample option list \<Rightarrow> 'u rem_sample option list result" where
  "sort_samples xs = (if 2 \<le> length xs \<and> None \<in> set xs then Inl TypeErr
     else Inr (sort_key sample_key xs))"

text \<open>\<open>None\<close>: nothing to do.\<close>

definition getPayloadBase :: "('u, 'z) base_remuxer_scheme \<Rightarrow> ('u, 'z) base_remuxer_scheme option result" where
  "getPayloadBase r = (if \<not> b_ready r \<or> \<not> b_initialized r \<or> b_samples r = [] then Inr None
     else bindE (sort_samples (b_samples r)) (\<lambda>xs. Inr (Some (r\<lparr>b_samples := xs\<rparr>))))"

text \<open>A payload buffer of \<open>len\<close> bytes, and the view of its first \<open>len\<close> bytes at the end.\<close>

definition new_payload :: "int \<Rightarrow> bytes result" where
  "new_payload len = (if len < 0 then Inl RangeErr else Inr (replicate (nat len) 0))"

definition payload_view :: "bytes \<Rightarrow> int \<Rightarrow> bytes result" where
  "payload_view payload len = (if len < 0 \<or> int (length payload) < len then Inl RangeErr
     else Inr (take (nat len) payload))"

definition init_dts :: "('u, 'z) base_remuxer_scheme \<Rightarrow> rat" where
  "init_dts r = (case b_initDTS r of Some d \<Rightarrow> d | None \<Rightarrow> 0)"

section \<open>AAC\<close>

record aac_remuxer = "aac_frame base_remuxer" +
  a_nextDts :: "rat option"
  a_nextAacPts :: "rat option"
  a_firstDTS :: rat
  a_expectedSampleDuration :: rat

definition AACRemuxer :: "int \<Rightarrow> rat \<Rightarrow> rat \<Rightarrow> rat \<Rightarrow> aac_remuxer" where
  "AACRemuxer track_id timescale scaleFactor duration =
     \<lparr>b_timeOffset = 0, b_timescale = timescale, b_scaleFactor = scaleFactor, b_ready = False,
      b_initialized = False, b_samples = [], b_seq = 1, b_tsAlign = 1, b_initPTS = None,
      b_initDTS = None, b_duration = (if duration = 0 then 1 else duration),
      b_track = \<lparr>t_id = track_id, t_type = AudioTrack, t_timescale = timescale, t_duration = 0,
        t_width = 0, t_height = 0, t_volume = Some 1, t_sps = [], t_pps = [], t_config = [],
        t_channelCount = 0, t_audiosamplerate = js_trunc timescale, t_samples = [], t_len = 0, t_codec = []\<rparr>,
      a_nextDts = None, a_nextAacPts = None, a_firstDTS = 0, a_expectedSampleDuration = 0\<rparr>"

text \<open>\<^verbatim>\<open>setConfig\<close> with a sampling rate.\<close>

definition aac_setConfig :: "aac_remuxer \<Rightarrow> bytes \<Rightarrow> string \<Rightarrow> int \<Rightarrow> int \<Rightarrow> aac_remuxer" where
  "aac_setConfig r config codec samplerate channels =
     (let track = b_track r;
          track1 = track\<lparr>t_channelCount := channels, t_audiosamplerate := samplerate\<rparr>;
          track2 = (if t_duration track1 = 0
            then track1\<lparr>t_duration := js_mul (if b_duration r \<noteq> 0 then b_duration r else 1) (of_int samplerate)\<rparr>
            else track1);
          sf = js_div MP4_TIMESCALE (of_int samplerate)
      in r\<lparr>b_track := track2\<lparr>t_timescale := of_int samplerate, t_config := config, t_codec := codec\<rparr>,
           b_timescale := of_int samplerate, b_scaleFactor := sf,
           a_expectedSampleDuration := js_mul 1024 sf, b_ready := True\<rparr>)"

definition aac_remux :: "aac_remuxer \<Rightarrow> aac_frame \<Rightarrow> aac_remuxer" where
  "aac_remux r aac = (let r1 = base_remux r aac (af_pts aac) (af_dts aac) in
     r1\<lparr>b_track := (b_track r1)\<lparr>t_len := t_len (b_track r1) + AACFrame_getSize aac\<rparr>\<rparr>)"

definition aac_flags :: sample_flags where
  "aac_flags = \<lparr>isLeading = 0, isDependedOn = 0, hasRedundancy = 0, degradPrio = 0, dependsOn = 1,
     isNonSync = 0, paddingValue = 0\<rparr>"

text \<open>The local variables of the loop of \<^verbatim>\<open>getPayload\<close>.\<close>

record aac_loop_vars =
  av_payload :: bytes
  av_offset :: nat
  av_samples :: "mp4_sample list"
  av_lastDTS :: "rat option"
  av_pts :: "rat option"
  av_len :: int
  av_firstDTS :: rat
  av_nextDts :: "rat option"

text \<open>The adjustment of the first sample. \<^verbatim>\<open>nextAacPts\<close> undefined makes \<^verbatim>\<open>delta\<close> NaN, which is never
  below 600. The answer is the pair \<^verbatim>\<open>(pts, dts)\<close>, or \<open>None\<close> when the frame is dropped.\<close>

definition aac_first :: "aac_remuxer \<Rightarrow> rat option \<Rightarrow> rat \<Rightarrow> rat \<Rightarrow> (rat \<times> rat) option" where
  "aac_first r nextDts pts dts =
     (if nextDts \<noteq> None \<and> nextDts \<noteq> Some 0 then
        (case a_nextAacPts r of
           None \<Rightarrow> Some (pts, dts)
         | Some next \<Rightarrow>
             (let delta = js_round (scaled r (js_sub pts next)) in
              if \<bar>delta\<bar> < 600 \<and> delta \<noteq> 0 then
                if delta < - 12 then None else Some (next, next)
              else Some (pts, dts)))
      else Some (pts, dts))"

fun aac_loop :: "aac_remuxer \<Rightarrow> aac_frame rem_sample option list \<Rightarrow> aac_loop_vars \<Rightarrow>
    (aac_loop_vars \<times> aac_frame rem_sample option list) result" where
  "aac_loop r [] v = Inr (v, [])"
| "aac_loop r (None # rest) v = Inr (v\<lparr>av_nextDts := None\<rparr>, rest)"
| "aac_loop r (Some s # rest) v =
     (let u = rs_unit s;
          pts = js_sub (rs_pts s) (init_dts r);
          dts = js_sub (rs_dts s) (init_dts r)
      in case (if av_lastDTS v = None then aac_first r (av_nextDts v) pts dts else Some (pts, dts)) of
           None \<Rightarrow> aac_loop r rest (v\<lparr>av_len := av_len v - AACFrame_getSize u, av_pts := Some pts\<rparr>)
         | Some (pts, dts) \<Rightarrow>
             bindE (array_set (av_payload v) (AACFrame_getData u) (av_offset v)) (\<lambda>payload.
               aac_loop r rest (v\<lparr>av_payload := payload, av_offset := av_offset v + length (af_data u),
                 av_samples := av_samples v @ [\<lparr>s_size = AACFrame_getSize u, s_duration = 1024, s_cts = 0,
                   s_flags = aac_flags\<rparr>],
                 av_lastDTS := Some dts, av_pts := Some pts,
                 av_firstDTS := (if av_lastDTS v = None then max 0 dts else av_firstDTS v)\<rparr>)))"

definition aac_getPayload :: "aac_remuxer \<Rightarrow> (bytes option \<times> aac_remuxer) result" where
  "aac_getPayload r =
     (if \<not> b_ready r \<or> b_samples r = [] then Inr (None, r)
      else bindE (sort_samples (b_samples r)) (\<lambda>xs.
        bindE (new_payload (t_len (b_track r))) (\<lambda>payload.
        bindE (aac_loop r xs \<lparr>av_payload = payload, av_offset = 0, av_samples = t_samples (b_track r),
            av_lastDTS = None, av_pts = None, av_len = t_len (b_track r), av_firstDTS = a_firstDTS r,
            av_nextDts = a_nextDts r\<rparr>) (\<lambda>(v, rest).
          let r1 = r\<lparr>b_samples := rest, b_track := (b_track r)\<lparr>t_len := av_len v, t_samples := av_samples v\<rparr>,
                a_firstDTS := av_firstDTS v, a_nextDts := av_nextDts v\<rparr>
          in if av_samples v = [] then Inr (None, r1)
             else bindE (payload_view (av_payload v) (av_len v)) (\<lambda>out.
               Inr (Some out, r1\<lparr>a_nextDts := map_option (\<lambda>p. js_add p (a_expectedSampleDuration r)) (av_pts v)\<rparr>))))))"

section \<open>H.264\<close>

record h264_remuxer = "nalu base_remuxer" +
  h_nextDts :: "rat option"
  h_firstDTS :: rat
  h_lastSampleDuration :: int
  h_lastDurations :: "rat list"
  h_lastGopDTS :: rat
  h_gop :: "nalu list"
  h_firstFound :: bool

definition h264_parser_of :: "h264_remuxer \<Rightarrow> h264_parser" where
  "h264_parser_of r = \<lparr>hp_track = b_track r, hp_firstFound = h_firstFound r, hp_ready = b_ready r\<rparr>"

definition with_parser :: "h264_remuxer \<Rightarrow> h264_parser \<Rightarrow> h264_remuxer" where
  "with_parser r p = r\<lparr>b_track := hp_track p, h_firstFound := hp_firstFound p, b_ready := hp_ready p\<rparr>"

text \<open>The constructor, with the parameter sets of the session description (empty if absent). A
  set of the wrong type is ignored.\<close>

definition set_kind :: "bytes \<Rightarrow> int" where
  "set_kind ps = js_and (elem0 ps 0) 0x1f"

definition H264Remuxer :: "int \<Rightarrow> rat \<Rightarrow> rat \<Rightarrow> bytes option \<Rightarrow> bytes option \<Rightarrow> h264_remuxer result" where
  "H264Remuxer track_id timescale scaleFactor sps pps =
     (let track = \<lparr>t_id = track_id, t_type = VideoTrack, t_timescale = timescale, t_duration = timescale,
            t_width = 0, t_height = 0, t_volume = None, t_sps = [], t_pps = [], t_config = [],
            t_channelCount = 0, t_audiosamplerate = 0, t_samples = [], t_len = 0, t_codec = []\<rparr>
      in bindE (case sps of None \<Rightarrow> Inr track
           | Some ps \<Rightarrow> if set_kind ps = 7 then parseSPS track ps else Inr track) (\<lambda>track1.
         let track2 = (case pps of None \<Rightarrow> track1
               | Some ps \<Rightarrow> if set_kind ps = 8 then parsePPS track1 ps else track1)
         in Inr \<lparr>b_timeOffset = 0, b_timescale = timescale, b_scaleFactor = scaleFactor,
              b_ready = (t_pps track2 \<noteq> [] \<and> t_sps track2 \<noteq> []), b_initialized = False, b_samples = [],
              b_seq = 1, b_tsAlign = js_round (js_div timescale 60), b_initPTS = None, b_initDTS = None,
              b_duration = 0, b_track = track2,
              h_nextDts = None, h_firstDTS = 0, h_lastSampleDuration = 0, h_lastDurations = [],
              h_lastGopDTS = - 99999999999999, h_gop = [], h_firstFound = False\<rparr>))"

text \<open>\<^verbatim>\<open>Object.values(groupByDts(gop))\<close>: the properties of an object are visited with the array
  indices first, ascending, then the others in the order they were created.\<close>

definition is_index :: "rat \<Rightarrow> bool" where
  "is_index d \<longleftrightarrow> d = of_int \<lfloor>d\<rfloor> \<and> 0 \<le> d \<and> d < 2 ^ 32 - 1"

definition dts_keys :: "nalu list \<Rightarrow> rat list" where
  "dts_keys gop = (let keys = rev (remdups (rev (map n_dts gop)))
     in sort (filter is_index keys) @ filter (\<lambda>d. \<not> is_index d) keys)"

definition groupByDts :: "nalu list \<Rightarrow> nalu list list" where
  "groupByDts gop = map (\<lambda>d. filter (\<lambda>u. n_dts u = d) gop) (dts_keys gop)"

text \<open>The slices of one picture are appended to the first, each behind a start code.\<close>

definition start_code :: bytes where "start_code = [0, 0, 0, 1]"

definition merge_slices :: "nalu list \<Rightarrow> nalu result" where
  "merge_slices grp = (case grp of
     [] \<Rightarrow> Inl TypeErr
   | u # us \<Rightarrow> foldE (\<lambda>pre cur. bindE (array_set (NALU_getData cur) start_code 0) (\<lambda>naluData.
       NALU_appendData pre naluData)) u us)"

fun mapE :: "('a \<Rightarrow> 'b result) \<Rightarrow> 'a list \<Rightarrow> 'b list result" where
  "mapE f [] = Inr []"
| "mapE f (x # xs) = bindE (f x) (\<lambda>y. bindE (mapE f xs) (\<lambda>ys. Inr (y # ys)))"

definition close_gop :: "nalu list \<Rightarrow> nalu list result" where
  "close_gop gop = (let sorted = sort_key n_dts gop in
     if length sorted > 1 then mapE merge_slices (groupByDts sorted) else Inr sorted)"

definition push_unit :: "h264_remuxer \<Rightarrow> nalu \<Rightarrow> h264_remuxer" where
  "push_unit r u = (let r1 = base_remux r u (n_pts u) (n_dts u) in
     r1\<lparr>b_track := (b_track r1)\<lparr>t_len := t_len (b_track r1) + NALU_getSize u\<rparr>\<rparr>)"

definition h264_remux :: "h264_remuxer \<Rightarrow> nalu \<Rightarrow> h264_remuxer \<times> unit result" where
  "h264_remux r nalu =
     (let r1 = (if h_lastGopDTS r < n_dts nalu then
            bindE (close_gop (h_gop r)) (\<lambda>gop.
              Inr ((foldl push_unit r gop)\<lparr>h_gop := [], h_lastGopDTS := n_dts nalu\<rparr>))
          else Inr r)
      in case r1 of
           Inl e \<Rightarrow> (r, Inl e)
         | Inr r1 \<Rightarrow> (case parseNAL (h264_parser_of r1) nalu of
             Inl e \<Rightarrow> (r1, Inl e)
           | Inr (push, nalu', p) \<Rightarrow>
               (let r2 = with_parser r1 p
                in (if push then r2\<lparr>h_gop := h_gop r2 @ [nalu']\<rparr> else r2, Inr ()))))"

definition h264_flags :: "bool \<Rightarrow> sample_flags" where
  "h264_flags key = \<lparr>isLeading = 0, isDependedOn = 0, hasRedundancy = 0, degradPrio = 0,
     dependsOn = (if key then 2 else 1), isNonSync = (if key then 0 else 1), paddingValue = 0\<rparr>"

record h264_loop_vars =
  hv_payload :: bytes
  hv_offset :: nat
  hv_samples :: "mp4_sample list"
  hv_pushed :: bool                \<comment> \<open>\<^verbatim>\<open>mp4Sample\<close> is defined: the last of \<open>hv_samples\<close>\<close>
  hv_lastDTS :: "rat option"
  hv_dts :: rat
  hv_len :: int
  hv_firstDTS :: rat
  hv_nextDts :: "rat option"
  hv_lastDurations :: "rat list"

definition set_last_duration :: "mp4_sample list \<Rightarrow> rat \<Rightarrow> mp4_sample list" where
  "set_last_duration xs d = butlast xs @ [(last xs)\<lparr>s_duration := d\<rparr>]"

text \<open>The times of a sample after normalisation; \<open>None\<close> when it is skipped.\<close>

definition h264_first :: "rat option \<Rightarrow> rat \<Rightarrow> rat \<Rightarrow> (rat \<times> rat) option" where
  "h264_first nextDts pts dts =
     (case nextDts of
        None \<Rightarrow> Some (pts, dts)
      | Some next \<Rightarrow>
          if next = 0 then Some (pts, dts)
          else (let delta = js_sub dts next in
            if \<bar>js_round (toMS delta)\<bar> < 600 then
              if delta \<noteq> 0 then Some (max (js_sub pts delta) next, next) else Some (pts, dts)
            else if delta < 0 then None else Some (pts, dts)))"

fun h264_loop :: "h264_remuxer \<Rightarrow> nalu rem_sample option list \<Rightarrow> h264_loop_vars \<Rightarrow>
    (h264_loop_vars \<times> nalu rem_sample option list) result" where
  "h264_loop r [] v = Inr (v, [])"
| "h264_loop r (None # rest) v = Inr (v\<lparr>hv_nextDts := None\<rparr>, rest)"
| "h264_loop r (Some s # rest) v =
     (let u = rs_unit s;
          pts0 = js_sub (rs_pts s) (init_dts r);
          dts0 = min pts0 (js_sub (rs_dts s) (init_dts r));
          drop_it = h264_loop r rest (v\<lparr>hv_len := hv_len v - NALU_getSize u, hv_dts := dts0\<rparr>);
          keep = (\<lambda>pts dts v.
            bindE (array_set (hv_payload v) (NALU_getData u) (hv_offset v)) (\<lambda>payload.
              h264_loop r rest (v\<lparr>hv_payload := payload, hv_offset := hv_offset v + nat (NALU_getSize u),
                hv_samples := hv_samples v @ [\<lparr>s_size = NALU_getSize u, s_duration = 0,
                  s_cts = scaled r (js_sub pts dts), s_flags = h264_flags (NALU_isKeyframe u)\<rparr>],
                hv_pushed := True, hv_lastDTS := Some dts, hv_dts := dts\<rparr>)))
      in case hv_lastDTS v of
           Some lastDTS \<Rightarrow>
             (let sampleDuration = scaled r (js_sub dts0 lastDTS);
                  durs = hv_lastDurations v @ [sampleDuration]
              in if sampleDuration < 0 then drop_it
                 else keep pts0 dts0 (v\<lparr>hv_lastDurations := (if length durs > 100 then tl durs else durs),
                   hv_samples := set_last_duration (hv_samples v) sampleDuration\<rparr>))
         | None \<Rightarrow>
             (case h264_first (hv_nextDts v) pts0 dts0 of
                None \<Rightarrow> drop_it
              | Some (pts, dts) \<Rightarrow> keep pts dts (v\<lparr>hv_firstDTS := max 0 dts\<rparr>)))"

text \<open>The mean of the last durations, truncated: \<^verbatim>\<open>reduce((a|0)+(b|0)) / (length||1) | 0\<close>.\<close>

definition avg_duration :: "rat list \<Rightarrow> int" where
  "avg_duration ds = toInt32 (js_trunc (js_div
     (of_int (foldl (\<lambda>a b. toInt32 a + toInt32 (js_trunc b)) 0 ds)) (of_nat (if ds = [] then 1 else length ds))))"

definition mark_random_access :: "mp4_sample list \<Rightarrow> mp4_sample list" where
  "mark_random_access xs = (case xs of [] \<Rightarrow> []
     | s # ss \<Rightarrow> s\<lparr>s_flags := (s_flags s)\<lparr>dependsOn := 2, isNonSync := 0\<rparr>\<rparr> # ss)"

text \<open>\<open>chrome\<close>: the browser's identification contains \<^verbatim>\<open>chrome\<close>. The assignment to an undefined
  \<^verbatim>\<open>mp4Sample\<close> raises.\<close>

definition h264_getPayload :: "bool \<Rightarrow> h264_remuxer \<Rightarrow> (bytes option \<times> h264_remuxer) result" where
  "h264_getPayload chrome r =
     bindE (getPayloadBase r) (\<lambda>base. case base of None \<Rightarrow> Inr (None, r) | Some r0 \<Rightarrow>
       bindE (new_payload (t_len (b_track r0))) (\<lambda>payload.
       bindE (h264_loop r0 (b_samples r0) \<lparr>hv_payload = payload, hv_offset = 0,
           hv_samples = t_samples (b_track r0), hv_pushed = False, hv_lastDTS = None, hv_dts = 0,
           hv_len = t_len (b_track r0), hv_firstDTS = h_firstDTS r0, hv_nextDts = h_nextDts r0,
           hv_lastDurations = h_lastDurations r0\<rparr>) (\<lambda>(v, rest).
         let r1 = r0\<lparr>b_samples := rest, b_track := (b_track r0)\<lparr>t_len := hv_len v, t_samples := hv_samples v\<rparr>,
               h_firstDTS := hv_firstDTS v, h_nextDts := hv_nextDts v, h_lastDurations := hv_lastDurations v\<rparr>
         in if hv_samples v = [] then Inr (None, r1)
            else if \<not> hv_pushed v then Inl TypeErr
            else
              (let avg = avg_duration (hv_lastDurations v);
                   lastDur = (if length (hv_samples v) \<ge> 2 then avg else h_lastSampleDuration r0);
                   samples1 = set_last_duration (hv_samples v) (of_int lastDur);
                   samples2 = (if hv_nextDts v = None \<or> hv_nextDts v = Some 0 \<or> chrome
                     then mark_random_access samples1 else samples1)
               in bindE (payload_view (hv_payload v) (hv_len v)) (\<lambda>out.
                    Inr (Some out, r1\<lparr>b_track := (b_track r1)\<lparr>t_samples := samples2\<rparr>,
                      h_lastSampleDuration := lastDur,
                      h_nextDts := Some (js_add (hv_dts v) (unscaled r0 (of_int lastDur)))\<rparr>))))))"

section \<open>Properties\<close>

subsection \<open>Filling the payload buffer\<close>

text \<open>Both loops copy the units they keep one after the other; a buffer that has room for the bytes still
  to come holds the concatenation of the bytes so far.\<close>

lemma array_set_fill:
  assumes "take off buf = pre" "off + length src \<le> length buf"
  shows "\<exists>buf'. array_set buf src off = Inr buf' \<and> length buf' = length buf
    \<and> take (off + length src) buf' = pre @ src"
  using assms by (auto simp: array_set_def)

lemma nat_NALU_getSize: "nat (NALU_getSize u) = length (NALU_getData u)"
  using length_NALU_getData [of u] by simp

lemma NALU_getSize_pos: "0 < NALU_getSize u"
  by (simp add: NALU_getSize_def)

definition units_size :: "nalu list \<Rightarrow> int" where
  "units_size us = (\<Sum>u\<leftarrow>us. NALU_getSize u)"

lemma units_size_simps [simp]:
  "units_size [] = 0" "units_size (u # us) = NALU_getSize u + units_size us"
  "units_size (us @ vs) = units_size us + units_size vs"
  by (simp_all add: units_size_def)

lemma units_size_nonneg: "0 \<le> units_size us"
  by (induction us) (use NALU_getSize_pos in \<open>auto simp: less_imp_le\<close>)

lemma length_units: "int (length (concat (map NALU_getData us))) = units_size us"
  by (induction us) (simp_all add: length_NALU_getData)

subsection \<open>The video loop\<close>

definition h264_loop_inv :: "nalu list \<Rightarrow> nalu list \<Rightarrow> h264_loop_vars \<Rightarrow> bool" where
  "h264_loop_inv kept todo v \<longleftrightarrow> int (hv_offset v) = units_size kept
     \<and> take (hv_offset v) (hv_payload v) = concat (map NALU_getData kept)
     \<and> hv_len v = units_size kept + units_size todo \<and> hv_len v \<le> int (length (hv_payload v))
     \<and> map s_size (hv_samples v) = map NALU_getSize kept
     \<and> hv_pushed v = (kept \<noteq> []) \<and> (hv_lastDTS v \<noteq> None) = (kept \<noteq> [])
     \<and> list_all (\<lambda>s. 0 \<le> s_duration s) (hv_samples v)"

lemma set_last_duration_inv:
  assumes "xs \<noteq> []" "list_all (\<lambda>s. 0 \<le> s_duration s) xs"
  shows "map s_size (set_last_duration xs d) = map s_size xs"
    and "0 \<le> d \<Longrightarrow> list_all (\<lambda>s. 0 \<le> s_duration s) (set_last_duration xs d)"
  using assms by (induction xs) (auto simp: set_last_duration_def split: if_splits)

lemma h264_loop_skip:
  "h264_loop_inv kept (u # todo) v \<Longrightarrow>
     h264_loop_inv kept todo (v\<lparr>hv_len := hv_len v - NALU_getSize u, hv_dts := d\<rparr>)"
  using NALU_getSize_pos [of u] by (simp add: h264_loop_inv_def)

lemma h264_loop_keep:
  assumes inv: "h264_loop_inv kept (u # todo) v" and "0 \<le> s_duration s" "s_size s = NALU_getSize u"
  shows "\<exists>payload. array_set (hv_payload v) (NALU_getData u) (hv_offset v) = Inr payload
    \<and> h264_loop_inv (kept @ [u]) todo (v\<lparr>hv_payload := payload,
        hv_offset := hv_offset v + nat (NALU_getSize u), hv_samples := hv_samples v @ [s],
        hv_pushed := True, hv_lastDTS := Some d, hv_dts := e\<rparr>)"
proof -
  have "int (hv_offset v + length (NALU_getData u)) \<le> int (length (hv_payload v))"
    using inv units_size_nonneg [of todo] by (simp add: h264_loop_inv_def length_NALU_getData)
  then obtain buf where "array_set (hv_payload v) (NALU_getData u) (hv_offset v) = Inr buf"
    "length buf = length (hv_payload v)"
    "take (hv_offset v + length (NALU_getData u)) buf = concat (map NALU_getData kept) @ NALU_getData u"
    using inv array_set_fill [of "hv_offset v" "hv_payload v" _ "NALU_getData u"]
    by (auto simp: h264_loop_inv_def)
  then show ?thesis using assms
    by (auto simp: h264_loop_inv_def nat_NALU_getSize length_NALU_getData)
qed

lemma h264_loop_inv_cong:
  "h264_loop_inv kept todo v \<Longrightarrow> h264_loop_inv kept todo (v\<lparr>hv_firstDTS := d\<rparr>)"
  by (simp add: h264_loop_inv_def)

lemma h264_loop_inv_duration:
  assumes "h264_loop_inv kept todo v" "kept \<noteq> []" "0 \<le> d"
  shows "h264_loop_inv kept todo (v\<lparr>hv_lastDurations := ds, hv_samples := set_last_duration (hv_samples v) d\<rparr>)"
proof -
  have "hv_samples v \<noteq> []" using assms(1,2) by (auto simp: h264_loop_inv_def)
  then show ?thesis using assms set_last_duration_inv [of "hv_samples v" d] by (simp add: h264_loop_inv_def)
qed

text \<open>A unit that is kept, and any turn of the loop.\<close>

lemma h264_keep_turn:
  assumes "h264_loop_inv kept (u # todo) w"
  shows "\<exists>w'. bindE (array_set (hv_payload w) (NALU_getData u) (hv_offset w)) (\<lambda>payload.
      f (w\<lparr>hv_payload := payload, hv_offset := hv_offset w + nat (NALU_getSize u),
        hv_samples := hv_samples w @ [\<lparr>s_size = NALU_getSize u, s_duration = 0, s_cts = c, s_flags = fl\<rparr>],
        hv_pushed := True, hv_lastDTS := Some d, hv_dts := d\<rparr>)) = f w' \<and>
    h264_loop_inv (kept @ [u]) todo w' \<and> hv_lastDTS w' = Some d \<and> hv_dts w' = d \<and> hv_lastDurations w' = hv_lastDurations w \<and>
    hv_nextDts w' = hv_nextDts w"
proof -
  let ?s = "\<lparr>s_size = NALU_getSize u, s_duration = 0, s_cts = c, s_flags = fl\<rparr>"
  obtain payload where pl: "array_set (hv_payload w) (NALU_getData u) (hv_offset w) = Inr payload"
    and inv: "h264_loop_inv (kept @ [u]) todo (w\<lparr>hv_payload := payload,
      hv_offset := hv_offset w + nat (NALU_getSize u), hv_samples := hv_samples w @ [?s],
      hv_pushed := True, hv_lastDTS := Some d, hv_dts := d\<rparr>)"
    using h264_loop_keep [OF assms, of ?s d d] by auto
  show ?thesis unfolding pl bindE.simps by (rule exI, rule conjI, rule refl) (use inv in simp)
qed

text \<open>The units to keep, told without the loop's buffers: the first is one that the continuation of the track
  accepts, each later one is not decoded before the last kept one.\<close>

fun kept_units :: "h264_remuxer \<Rightarrow> rat option \<Rightarrow> rat option \<Rightarrow> nalu rem_sample list \<Rightarrow> nalu list" where
  "kept_units r nx lst [] = []"
| "kept_units r nx lst (s # ss) =
     (let pts = js_sub (rs_pts s) (init_dts r); dts = min pts (js_sub (rs_dts s) (init_dts r)) in
      case (case lst of Some l \<Rightarrow> if scaled r (js_sub dts l) < 0 then None else Some dts
              | None \<Rightarrow> map_option snd (h264_first nx pts dts)) of
        None \<Rightarrow> kept_units r nx lst ss
      | Some d \<Rightarrow> rs_unit s # kept_units r nx (Some d) ss)"

lemma kept_units_subseq: "subseq (kept_units r nx lst ss) (map rs_unit ss)"
  by (induction ss arbitrary: lst) (auto simp: Let_def split: option.split)

lemma kept_units_queue: "kept_units (r\<lparr>b_samples := xs\<rparr>) nx lst ss = kept_units r nx lst ss"
  by (induction ss arbitrary: lst) (simp_all add: Let_def init_dts_def scaled_def cong: option.case_cong if_cong)

lemma h264_turn:
  assumes inv: "h264_loop_inv kept (rs_unit s # todo) v"
  shows "\<exists>v' k. h264_loop r (Some s # rest) v = h264_loop r rest v' \<and> h264_loop_inv (kept @ k) todo v' \<and>
    (\<forall>ss. kept_units r (hv_nextDts v) (hv_lastDTS v) (s # ss) = k @ kept_units r (hv_nextDts v') (hv_lastDTS v') ss)"
proof -
  let ?u = "rs_unit s"
  let ?pts = "js_sub (rs_pts s) (init_dts r)" and ?dts = "min (js_sub (rs_pts s) (init_dts r)) (js_sub (rs_dts s) (init_dts r))"
  have skip: ?thesis if "h264_loop r (Some s # rest) v
      = h264_loop r rest (v\<lparr>hv_len := hv_len v - NALU_getSize ?u, hv_dts := ?dts\<rparr>)"
      "\<And>ss. kept_units r (hv_nextDts v) (hv_lastDTS v) (s # ss) = kept_units r (hv_nextDts v) (hv_lastDTS v) ss"
    by (rule exI, rule exI [of _ "[]"], rule conjI, rule that(1)) (use h264_loop_skip [OF inv] that(2) in simp)
  have keep: ?thesis if w: "h264_loop_inv kept (?u # todo) w" "hv_nextDts w = hv_nextDts v"
    and eq: "h264_loop r (Some s # rest) v =
      bindE (array_set (hv_payload w) (NALU_getData ?u) (hv_offset w)) (\<lambda>payload.
            h264_loop r rest (w\<lparr>hv_payload := payload, hv_offset := hv_offset w + nat (NALU_getSize ?u),
              hv_samples := hv_samples w @ [\<lparr>s_size = NALU_getSize ?u, s_duration = 0,
                s_cts = scaled r (js_sub pts dts), s_flags = h264_flags (NALU_isKeyframe ?u)\<rparr>],
              hv_pushed := True, hv_lastDTS := Some dts, hv_dts := dts\<rparr>))"
    and k: "\<And>ss. kept_units r (hv_nextDts v) (hv_lastDTS v) (s # ss) = ?u # kept_units r (hv_nextDts v) (Some dts) ss" for w pts dts
  proof -
    obtain w' where "h264_loop r (Some s # rest) v = h264_loop r rest w'" "h264_loop_inv (kept @ [?u]) todo w'"
      "hv_lastDTS w' = Some dts" "hv_nextDts w' = hv_nextDts v"
      using h264_keep_turn [OF w(1), of "h264_loop r rest"] w(2) unfolding eq by metis
    then show ?thesis using k by (intro exI [of _ w'] exI [of _ "[?u]"]) simp
  qed
  show ?thesis
  proof (cases "hv_lastDTS v")
    case None
    show ?thesis
    proof (cases "h264_first (hv_nextDts v) ?pts ?dts")
      case f: None
      show ?thesis by (rule skip) (use None f in \<open>simp_all add: Let_def\<close>)
    next
      case (Some pd)
      show ?thesis by (rule keep [OF h264_loop_inv_cong [OF inv, of "max 0 (snd pd)"], of "snd pd" "fst pd"])
        (use None Some in \<open>simp_all add: Let_def case_prod_beta\<close>)
    qed
  next
    case (Some l)
    let ?d = "scaled r (js_sub ?dts l)"
    have ne: "kept \<noteq> []" using inv Some by (auto simp: h264_loop_inv_def)
    show ?thesis
    proof (cases "?d < 0")
      case True
      with Some show ?thesis by (intro skip) (simp_all add: Let_def)
    next
      case False
      then have "0 \<le> ?d" by simp
      from h264_loop_inv_duration [OF inv ne this] show ?thesis
        by (rule keep) (use False Some in \<open>simp_all add: Let_def\<close>)
    qed
  qed
qed

lemma h264_loop_ok:
  assumes "h264_loop_inv kept (map rs_unit ss) v"
  shows "\<exists>v'. h264_loop r (map Some ss) v = Inr (v', []) \<and>
    h264_loop_inv (kept @ kept_units r (hv_nextDts v) (hv_lastDTS v) ss) [] v'"
  using assms
proof (induction ss arbitrary: v kept)
  case Nil
  then show ?case by simp
next
  case (Cons s ss)
  then have "h264_loop_inv kept (rs_unit s # map rs_unit ss) v" by simp
  then obtain v1 k where v1: "h264_loop r (map Some (s # ss)) v = h264_loop r (map Some ss) v1"
    "h264_loop_inv (kept @ k) (map rs_unit ss) v1"
    "kept_units r (hv_nextDts v) (hv_lastDTS v) (s # ss) = k @ kept_units r (hv_nextDts v1) (hv_lastDTS v1) ss"
    using h264_turn [of kept s "map rs_unit ss" v r "map Some ss"] by auto
  from Cons.IH [OF v1(2)] show ?case unfolding v1(1,3) by simp
qed

text \<open>The durations that the loop notes for times \<open>ds\<close>, behind the time \<open>lst\<close> if there was one.\<close>

fun note_durations :: "rat \<Rightarrow> rat option \<Rightarrow> rat list \<Rightarrow> rat list \<Rightarrow> rat list" where
  "note_durations sc lst [] durs = durs"
| "note_durations sc None (d # ds) durs = note_durations sc (Some d) ds durs"
| "note_durations sc (Some l) (d # ds) durs = note_durations sc (Some d) ds
     (let durs = durs @ [js_div (js_sub d l) sc] in if length durs > 100 then tl durs else durs)"

text \<open>When the decoding times do not go back and the track does not move the first one, no unit is skipped.\<close>

lemma h264_loop_keeps_all:
  assumes "h264_loop_inv kept (map rs_unit ss) v" "0 < b_scaleFactor r"
    and "\<forall>s \<in> set ss. rs_pts s = rs_dts s" "sorted (map (\<lambda>s. js_sub (rs_dts s) (init_dts r)) ss)"
    and "hv_lastDTS v = None \<longrightarrow> ss \<noteq> [] \<longrightarrow> h264_first (hv_nextDts v) (js_sub (rs_dts (hd ss)) (init_dts r)) (js_sub (rs_dts (hd ss)) (init_dts r))
        = Some (js_sub (rs_dts (hd ss)) (init_dts r), js_sub (rs_dts (hd ss)) (init_dts r))"
    and "\<forall>l s. hv_lastDTS v = Some l \<longrightarrow> s \<in> set ss \<longrightarrow> l \<le> js_sub (rs_dts s) (init_dts r)"
  shows "\<exists>v'. h264_loop r (map Some ss) v = Inr (v', []) \<and> h264_loop_inv (kept @ map rs_unit ss) [] v' \<and>
    hv_dts v' = last (hv_dts v # map (\<lambda>s. js_sub (rs_dts s) (init_dts r)) ss) \<and>
    hv_lastDurations v' = note_durations (b_scaleFactor r) (hv_lastDTS v) (map (\<lambda>s. js_sub (rs_dts s) (init_dts r)) ss) (hv_lastDurations v)"
  using assms(1,3-6)
proof (induction ss arbitrary: v kept)
  case (Cons s ss)
  let ?u = "rs_unit s" and ?d = "js_sub (rs_dts s) (init_dts r)"
  let ?s = "\<lparr>s_size = NALU_getSize ?u, s_duration = 0, s_cts = scaled r (js_sub ?d ?d), s_flags = h264_flags (NALU_isKeyframe ?u)\<rparr>"
  have inv: "h264_loop_inv kept (?u # map rs_unit ss) v" using Cons.prems(1) by simp
  have keep: ?case if w: "h264_loop_inv kept (?u # map rs_unit ss) w"
      "note_durations (b_scaleFactor r) (hv_lastDTS v) [?d] (hv_lastDurations v) = hv_lastDurations w"
    and eq: "h264_loop r (map Some (s # ss)) v =
        bindE (array_set (hv_payload w) (NALU_getData ?u) (hv_offset w)) (\<lambda>payload.
              h264_loop r (map Some ss) (w\<lparr>hv_payload := payload, hv_offset := hv_offset w + nat (NALU_getSize ?u),
                hv_samples := hv_samples w @ [?s], hv_pushed := True, hv_lastDTS := Some ?d, hv_dts := ?d\<rparr>))" for w
  proof -
    obtain w' where w': "h264_loop r (map Some (s # ss)) v = h264_loop r (map Some ss) w'"
      "h264_loop_inv (kept @ [?u]) (map rs_unit ss) w'" "hv_lastDTS w' = Some ?d" "hv_dts w' = ?d" "hv_lastDurations w' = hv_lastDurations w"
      using h264_keep_turn [OF w(1), of "h264_loop r (map Some ss)"] unfolding eq by blast
    have "note_durations (b_scaleFactor r) (hv_lastDTS v) (?d # ds) (hv_lastDurations v)
        = note_durations (b_scaleFactor r) (Some ?d) ds (hv_lastDurations w)" for ds
      using w(2) by (cases "hv_lastDTS v") (simp_all add: Let_def)
    then show ?thesis
      using Cons.IH [OF w'(2)] Cons.prems(2,3) w'(3-5) unfolding w'(1) by simp
  qed
  show ?case
  proof (cases "hv_lastDTS v")
    case None
    have "h264_first (hv_nextDts v) ?d ?d = Some (?d, ?d)" using Cons.prems(4) None by simp
    with None Cons.prems(2) show ?thesis
      by (intro keep [OF h264_loop_inv_cong [OF inv]]) (simp_all add: Let_def)
  next
    case (Some l)
    have ne: "kept \<noteq> []" using inv Some by (auto simp: h264_loop_inv_def)
    have d: "0 \<le> scaled r (js_sub ?d l)"
      using Cons.prems(5) Some assms(2) by (simp add: scaled_def js_sub_def js_div_def dbl_nonneg)
    from Some d Cons.prems(2) show ?thesis
      by (intro keep [OF h264_loop_inv_duration [OF inv ne d]]) (simp_all add: Let_def scaled_def)
  qed
qed simp

subsection \<open>The drained queue\<close>

text \<open>Between calls: no discontinuity mark in the queue, the track's length is the size of the queued
  units and its sample table is empty.\<close>

definition h264_rem_ok :: "h264_remuxer \<Rightarrow> bool" where
  "h264_rem_ok r \<longleftrightarrow> None \<notin> set (b_samples r)
     \<and> t_len (b_track r) = units_size (map (rs_unit \<circ> the) (b_samples r)) \<and> t_samples (b_track r) = []"

lemma units_size_sort: "units_size (map f (sort_key k xs)) = units_size (map f xs)"
proof -
  have "units_size (map f (insort_key k x ys)) = NALU_getSize (f x) + units_size (map f ys)" for x ys
    by (induction ys) simp_all
  then show ?thesis by (induction xs) simp_all
qed

lemma sort_key_map: "sort_key k (map f xs) = map f (sort_key (\<lambda>x. k (f x)) xs)"
proof -
  have "insort_key k (f x) (map f ys) = map f (insort_key (\<lambda>x. k (f x)) x ys)" for x ys
    by (induction ys) simp_all
  then show ?thesis by (induction xs) simp_all
qed

lemma map_Some_the: "None \<notin> set xs \<Longrightarrow> xs = map Some (map the xs)"
  by (induction xs) auto

lemma set_last_duration_sizes: "xs \<noteq> [] \<Longrightarrow> map s_size (set_last_duration xs d) = map s_size xs"
  by (induction xs) (auto simp: set_last_duration_def)

lemma butlast_set_last_duration: "butlast (set_last_duration xs d) = butlast xs"
  by (simp add: set_last_duration_def)

lemma mark_random_access_sizes:
  "map s_size (mark_random_access xs) = map s_size xs"
  "map s_duration (mark_random_access xs) = map s_duration xs"
  by (cases xs; simp add: mark_random_access_def)+

lemma list_all_durations: "list_all (\<lambda>s. P (s_duration s)) xs = list_all P (map s_duration xs)"
  by (simp add: list_all_iff)

lemma mark_random_access_butlast:
  "list_all (\<lambda>s. 0 \<le> s_duration s) (butlast (mark_random_access xs)) = list_all (\<lambda>s. 0 \<le> s_duration s) (butlast xs)"
  unfolding list_all_durations [of "\<lambda>d. 0 \<le> d"] by (simp only: map_butlast mark_random_access_sizes)

lemma mark_random_access_first:
  "xs \<noteq> [] \<Longrightarrow> isNonSync (s_flags (hd (mark_random_access xs))) = 0
     \<and> dependsOn (s_flags (hd (mark_random_access xs))) = 2"
  by (cases xs) (simp_all add: mark_random_access_def)

text \<open>What a call to \<open>h264_getPayload\<close> did: the bytes are the kept units, the sample table describes
  them, nothing stays queued.\<close>

definition h264_drained :: "nalu list \<Rightarrow> bytes option \<Rightarrow> h264_remuxer \<Rightarrow> bool" where
  "h264_drained kept out r \<longleftrightarrow> b_samples r = []
     \<and> out = (if kept = [] then None else Some (concat (map NALU_getData kept)))
     \<and> map s_size (t_samples (b_track r)) = map NALU_getSize kept
     \<and> t_len (b_track r) = units_size kept
     \<and> list_all (\<lambda>s. 0 \<le> s_duration s) (butlast (t_samples (b_track r)))"

lemma set_last_duration_ne: "set_last_duration xs d \<noteq> []"
  by (simp add: set_last_duration_def)

lemma list_all_butlast: "list_all P xs \<Longrightarrow> list_all P (butlast xs)"
  by (auto simp: list_all_iff dest: in_set_butlastD)

text \<open>The queue in decoding order, and the variables before the first turn of the loop.\<close>

definition h264_sorted :: "h264_remuxer \<Rightarrow> nalu rem_sample list" where
  "h264_sorted r = sort_key rs_dts (map the (b_samples r))"

definition h264_start :: "h264_remuxer \<Rightarrow> h264_loop_vars" where
  "h264_start r = \<lparr>hv_payload = replicate (nat (t_len (b_track r))) 0, hv_offset = 0,
     hv_samples = t_samples (b_track r), hv_pushed = False, hv_lastDTS = None, hv_dts = 0,
     hv_len = t_len (b_track r), hv_firstDTS = h_firstDTS r, hv_nextDts = h_nextDts r,
     hv_lastDurations = h_lastDurations r\<rparr>"

lemma h264_start_inv: "h264_rem_ok r \<Longrightarrow> h264_loop_inv [] (map rs_unit (h264_sorted r)) (h264_start r)"
  using units_size_nonneg [of "map rs_unit (h264_sorted r)"]
  by (simp add: h264_loop_inv_def h264_rem_ok_def h264_start_def h264_sorted_def units_size_sort)

text \<open>What a call leaves behind, besides the queue and the track, when the loop ends with \<open>v\<close>.\<close>

definition h264_after :: "h264_remuxer \<Rightarrow> nalu list \<Rightarrow> h264_loop_vars \<Rightarrow> h264_remuxer \<Rightarrow> bool" where
  "h264_after r kept v r' \<longleftrightarrow> h_gop r' = h_gop r \<and> h_lastGopDTS r' = h_lastGopDTS r \<and> h_firstFound r' = h_firstFound r \<and>
     b_ready r' = b_ready r \<and> b_initialized r' = b_initialized r \<and> init_dts r' = init_dts r \<and> b_scaleFactor r' = b_scaleFactor r \<and>
     h_lastDurations r' = hv_lastDurations v \<and>
     (kept \<noteq> [] \<longrightarrow> h_lastSampleDuration r' = (if 2 \<le> length kept then avg_duration (hv_lastDurations v) else h_lastSampleDuration r) \<and>
        h_nextDts r' = Some (js_add (hv_dts v) (unscaled r (of_int (h_lastSampleDuration r')))))"

lemma h264_getPayload_loop:
  assumes ok: "h264_rem_ok r" and rdy: "b_ready r" "b_initialized r" "b_samples r \<noteq> []"
    and loop: "h264_loop (r\<lparr>b_samples := map Some (h264_sorted r)\<rparr>) (map Some (h264_sorted r)) (h264_start r) = Inr (v, [])"
    and inv: "h264_loop_inv kept [] v"
  shows "\<exists>out r'. h264_getPayload chrome r = Inr (out, r') \<and> h264_drained kept out r' \<and> h264_after r kept v r'"
proof -
  let ?ss = "h264_sorted r"
  have "sort_samples (b_samples r) = Inr (sort_key sample_key (map Some (map the (b_samples r))))"
    using ok map_Some_the [of "b_samples r"] by (simp add: sort_samples_def h264_rem_ok_def)
  also have "sort_key sample_key (map Some (map the (b_samples r))) = map Some ?ss"
    by (simp add: sort_key_map sample_key_def comp_def h264_sorted_def)
  finally have base: "getPayloadBase r = Inr (Some (r\<lparr>b_samples := map Some ?ss\<rparr>))"
    using rdy by (simp add: getPayloadBase_def)
  have len: "t_len (b_track r) = units_size (map rs_unit ?ss)"
    using ok by (simp add: h264_rem_ok_def units_size_sort h264_sorted_def)
  have newp: "new_payload (t_len (b_track r)) = Inr (replicate (nat (t_len (b_track r))) 0)"
    using len units_size_nonneg [of "map rs_unit ?ss"] by (simp add: new_payload_def)
  note eqs = base newp loop [unfolded h264_start_def] Let_def
  show ?thesis
  proof (cases "kept = []")
    case True
    with inv have "hv_samples v = []" by (simp add: h264_loop_inv_def)
    then show ?thesis using True inv
      by (intro exI conjI) (simp add: h264_getPayload_def eqs,
        auto simp: h264_drained_def h264_loop_inv_def h264_after_def init_dts_def)
  next
    case False
    with inv have ne: "hv_samples v \<noteq> []" "hv_pushed v" by (auto simp: h264_loop_inv_def)
    have "int (length (concat (map NALU_getData kept))) = hv_len v"
      using inv by (simp add: length_units h264_loop_inv_def)
    moreover have "hv_offset v = nat (hv_len v)" "hv_len v \<le> int (length (hv_payload v))" "0 \<le> hv_len v"
      using inv units_size_nonneg [of kept] by (auto simp: h264_loop_inv_def)
    ultimately have view: "payload_view (hv_payload v) (hv_len v) = Inr (concat (map NALU_getData kept))"
      using inv by (auto simp: payload_view_def h264_loop_inv_def)
    have "length (hv_samples v) = length kept" using inv by (metis h264_loop_inv_def length_map)
    then show ?thesis using False inv ne
      by (intro exI conjI) (simp add: h264_getPayload_def eqs view,
        auto simp: h264_drained_def h264_loop_inv_def set_last_duration_sizes mark_random_access_sizes
          mark_random_access_butlast butlast_set_last_duration list_all_butlast h264_after_def init_dts_def unscaled_def)
  qed
qed

lemma h264_getPayload_drained:
  assumes "h264_rem_ok r" "b_ready r" "b_initialized r" "b_samples r \<noteq> []"
  shows "\<exists>out r' kept. h264_getPayload chrome r = Inr (out, r') \<and> h264_drained kept out r'
    \<and> kept = kept_units r (h_nextDts r) None (sort_key rs_dts (map the (b_samples r)))"
proof -
  have "hv_nextDts (h264_start r) = h_nextDts r" "hv_lastDTS (h264_start r) = None" by (simp_all add: h264_start_def)
  then show ?thesis
    using h264_loop_ok [OF h264_start_inv [OF assms(1)], of "r\<lparr>b_samples := map Some (h264_sorted r)\<rparr>"]
      h264_getPayload_loop [OF assms] by (fastforce simp: kept_units_queue h264_sorted_def)
qed

lemma h264_getPayload_keeps_all:
  assumes "h264_rem_ok r" "b_ready r" "b_initialized r" "b_samples r \<noteq> []" "0 < b_scaleFactor r"
    and "\<forall>s \<in> set (h264_sorted r). rs_pts s = rs_dts s" "sorted (map (\<lambda>s. js_sub (rs_dts s) (init_dts r)) (h264_sorted r))"
    and "h264_first (h_nextDts r) d d = Some (d, d)" "d = js_sub (rs_dts (hd (h264_sorted r))) (init_dts r)"
  shows "\<exists>out r' v. h264_getPayload chrome r = Inr (out, r') \<and> h264_drained (map rs_unit (h264_sorted r)) out r' \<and>
    h264_after r (map rs_unit (h264_sorted r)) v r' \<and> hv_dts v = last (0 # map (\<lambda>s. js_sub (rs_dts s) (init_dts r)) (h264_sorted r)) \<and>
    hv_lastDurations v = note_durations (b_scaleFactor r) None (map (\<lambda>s. js_sub (rs_dts s) (init_dts r)) (h264_sorted r)) (h_lastDurations r)"
proof -
  let ?r = "r\<lparr>b_samples := map Some (h264_sorted r)\<rparr>"
  have same: "0 < b_scaleFactor ?r" "init_dts ?r = init_dts r" "b_scaleFactor ?r = b_scaleFactor r"
    using assms(5) by (simp_all add: init_dts_def)
  have st: "hv_lastDTS (h264_start r) = None" "hv_nextDts (h264_start r) = h_nextDts r" "hv_dts (h264_start r) = 0"
    "hv_lastDurations (h264_start r) = h_lastDurations r"
    by (simp_all add: h264_start_def)
  obtain v where v: "h264_loop ?r (map Some (h264_sorted r)) (h264_start r) = Inr (v, [])" "h264_loop_inv (map rs_unit (h264_sorted r)) [] v"
    "hv_dts v = last (0 # map (\<lambda>s. js_sub (rs_dts s) (init_dts r)) (h264_sorted r))"
    "hv_lastDurations v = note_durations (b_scaleFactor r) None (map (\<lambda>s. js_sub (rs_dts s) (init_dts r)) (h264_sorted r)) (h_lastDurations r)"
    using h264_loop_keeps_all [OF h264_start_inv [OF assms(1)] same(1)] assms(6-9) same(2,3) st by auto
  from h264_getPayload_loop [OF assms(1-4) v(1,2)] v(3,4) show ?thesis by blast
qed

lemma h264_rem_ok_flush: "h264_drained kept out r \<Longrightarrow> h264_rem_ok (base_flush r)"
  by (simp add: h264_drained_def h264_rem_ok_def base_flush_def)

subsection \<open>A closed group of pictures\<close>

lemma merge_slices_Cons:
  "merge_slices (u # us) = Inr (u\<lparr>n_data := n_data u @ concat (map (\<lambda>c. start_code @ drop 4 (NALU_getData c)) us)\<rparr>)"
proof -
  have 1: "array_set (NALU_getData c) start_code 0 = Inr (start_code @ drop 4 (NALU_getData c))" for c
    by (simp add: array_set_def start_code_def NALU_getData_def)
  have "foldE (\<lambda>pre cur. bindE (array_set (NALU_getData cur) start_code 0) (\<lambda>naluData.
       NALU_appendData pre naluData)) u us
      = Inr (u\<lparr>n_data := n_data u @ concat (map (\<lambda>c. start_code @ drop 4 (NALU_getData c)) us)\<rparr>)" for u
    by (induction us arbitrary: u) (simp_all add: 1 NALU_appendData_def)
  then show ?thesis by (simp add: merge_slices_def)
qed

lemma merge_slices_size:
  assumes "us \<noteq> []"
  obtains m where "merge_slices us = Inr m" "n_dts m = n_dts (hd us)" "n_type m = n_type (hd us)"
    "NALU_getSize m = units_size us"
proof -
  obtain u vs where us: "us = u # vs" using assms by (cases us) auto
  have sc: "int (length start_code) + int (length (drop 4 (NALU_getData c))) = NALU_getSize c" for c
    by (simp add: start_code_def NALU_getData_def NALU_getSize_def)
  have "int (length (concat (map (\<lambda>c. start_code @ drop 4 (NALU_getData c)) vs))) = units_size vs"
    by (induction vs) (simp, simp only: list.map concat.simps length_append of_nat_add units_size_simps append_assoc add.assoc [symmetric] sc)
  then show ?thesis using that by (simp add: us merge_slices_Cons NALU_getSize_def)
qed

lemma set_dts_keys: "set (dts_keys gop) = set (map n_dts gop)" "distinct (dts_keys gop)"
  by (auto simp: dts_keys_def Let_def)

lemma mapE_total:
  assumes "\<And>x. x \<in> set xs \<Longrightarrow> \<exists>y. f x = Inr y \<and> P x y"
  shows "\<exists>ys. mapE f xs = Inr ys \<and> list_all2 P xs ys"
  using assms
proof (induction xs)
  case (Cons x xs)
  obtain y where "f x = Inr y" "P x y" using Cons.prems [of x] by auto
  moreover obtain ys where "mapE f xs = Inr ys" "list_all2 P xs ys" using Cons by auto
  ultimately show ?case by simp
qed simp

lemma units_size_filter_keys:
  "distinct ds \<Longrightarrow> set (map n_dts us) \<subseteq> set ds \<Longrightarrow> (\<Sum>d\<leftarrow>ds. units_size (filter (\<lambda>u. n_dts u = d) us)) = units_size us"
proof (induction us)
  case (Cons u us)
  have "(\<Sum>d\<leftarrow>ds. units_size (filter (\<lambda>v. n_dts v = d) (u # us)))
      = (\<Sum>d\<leftarrow>ds. (if n_dts u = d then NALU_getSize u else 0) + units_size (filter (\<lambda>v. n_dts v = d) us))"
    by (intro arg_cong [of _ _ sum_list] map_cong) auto
  also have "\<dots> = (\<Sum>d\<leftarrow>ds. if n_dts u = d then NALU_getSize u else 0) + units_size us"
    using Cons by (simp add: sum_list_addf)
  also have "(\<Sum>d\<leftarrow>ds. if n_dts u = d then NALU_getSize u else 0) = NALU_getSize u"
    using Cons.prems by (simp add: sum_list_distinct_conv_sum_set)
  finally show ?case by simp
qed simp

lemma groupByDts_close:
  "\<exists>gop'. mapE merge_slices (groupByDts us) = Inr gop' \<and> units_size gop' = units_size us
     \<and> map n_dts gop' = dts_keys us"
proof -
  have "\<exists>m. merge_slices g = Inr m \<and> n_dts m = n_dts (hd g) \<and> NALU_getSize m = units_size g"
    if "g \<in> set (groupByDts us)" for g
  proof -
    from that obtain u where "u \<in> set us" "g = filter (\<lambda>v. n_dts v = n_dts u) us"
      by (auto simp: groupByDts_def set_dts_keys)
    then have "g \<noteq> []" by (auto simp: filter_empty_conv)
    then show ?thesis by (metis merge_slices_size)
  qed
  then obtain gop' where gop': "mapE merge_slices (groupByDts us) = Inr gop'"
    and all: "list_all2 (\<lambda>g m. n_dts m = n_dts (hd g) \<and> NALU_getSize m = units_size g) (groupByDts us) gop'"
    using mapE_total [of "groupByDts us" merge_slices
      "\<lambda>g m. n_dts m = n_dts (hd g) \<and> NALU_getSize m = units_size g"] by auto
  have "map NALU_getSize gop' = map units_size (groupByDts us)"
    "map n_dts gop' = map (n_dts \<circ> hd) (groupByDts us)"
    using all by (induction rule: list_all2_induct) auto
  moreover have "map (n_dts \<circ> hd) (groupByDts us) = dts_keys us"
  proof -
    have "n_dts (hd (filter (\<lambda>u. n_dts u = d) us)) = d" if "d \<in> set (dts_keys us)" for d
    proof -
      have "filter (\<lambda>u. n_dts u = d) us \<noteq> []" using that by (auto simp: set_dts_keys filter_empty_conv)
      from hd_in_set [OF this] show ?thesis by simp
    qed
    then show ?thesis by (simp add: groupByDts_def map_idI)
  qed
  ultimately show ?thesis using gop' units_size_filter_keys [OF set_dts_keys(2), of us us]
    by (simp add: units_size_def groupByDts_def comp_def set_dts_keys(1))
qed

lemma close_gop_total:
  "\<exists>gop'. close_gop gop = Inr gop' \<and> units_size gop' = units_size gop
     \<and> set (map n_dts gop') = set (map n_dts gop) \<and> distinct (map n_dts gop')"
proof (cases "length gop > 1")
  case True
  from groupByDts_close [of "sort_key n_dts gop"] obtain gop' where
    "mapE merge_slices (groupByDts (sort_key n_dts gop)) = Inr gop'"
    "units_size gop' = units_size (sort_key n_dts gop)" "map n_dts gop' = dts_keys (sort_key n_dts gop)"
    by blast
  moreover from this(3) have "set (map n_dts gop') = set (map n_dts gop)" "distinct (map n_dts gop')"
    by (simp_all only: set_dts_keys, simp)
  ultimately show ?thesis using True units_size_sort [of "\<lambda>x. x" n_dts gop]
    by (intro exI [of _ gop']) (simp del: set_map add: close_gop_def Let_def)
next
  case False
  then consider "gop = []" | u where "gop = [u]" by (cases gop) auto
  then show ?thesis by cases (simp_all add: close_gop_def)
qed

subsection \<open>Queueing keeps the invariant\<close>

lemma push_unit_ok: "h264_rem_ok r \<Longrightarrow> h264_rem_ok (push_unit r u)"
  by (simp add: h264_rem_ok_def push_unit_def base_remux_def Let_def)

lemma foldl_push_unit_ok: "h264_rem_ok r \<Longrightarrow> h264_rem_ok (foldl push_unit r us)"
  by (induction us arbitrary: r) (simp_all add: push_unit_ok)

lemma foldl_push_unit_samples:
  "b_samples (foldl push_unit r us)
     = b_samples r @ map (\<lambda>u. Some \<lparr>rs_unit = u, rs_pts = n_pts u, rs_dts = n_dts u\<rparr>) us"
  by (induction us arbitrary: r) (simp_all add: push_unit_def base_remux_def Let_def)

lemma parseNAL_track_len:
  assumes "parseNAL p u = Inr (b, u', p')"
  shows "t_len (hp_track p') = t_len (hp_track p) \<and> t_samples (hp_track p') = t_samples (hp_track p)"
  using assms
  by (auto simp: parseNAL_def Let_def parsePPS_def parseSPS_def check_ready_def bindE_Inr_iff split: if_splits)

lemma with_parser_ok:
  assumes "parseNAL (h264_parser_of r) u = Inr (b, u', p')" "h264_rem_ok r"
  shows "h264_rem_ok (with_parser r p')"
  using parseNAL_track_len [OF assms(1)] assms(2) by (simp add: h264_rem_ok_def with_parser_def h264_parser_of_def)

lemma h264_remux_ok:
  assumes "h264_rem_ok r"
  shows "h264_rem_ok (fst (h264_remux r u))"
proof -
  obtain gop' where gop': "close_gop (h_gop r) = Inr gop'" using close_gop_total by blast
  let ?r = "if h_lastGopDTS r < n_dts u
    then (foldl push_unit r gop')\<lparr>h_gop := [], h_lastGopDTS := n_dts u\<rparr> else r"
  have ok: "h264_rem_ok ?r" using foldl_push_unit_ok [OF assms] assms by (simp add: h264_rem_ok_def)
  have eq: "h264_remux r u = (case parseNAL (h264_parser_of ?r) u of
             Inl e \<Rightarrow> (?r, Inl e)
           | Inr (push, nalu', p) \<Rightarrow> (let r2 = with_parser ?r p
                in (if push then r2\<lparr>h_gop := h_gop r2 @ [nalu']\<rparr> else r2, Inr ())))"
    by (simp add: h264_remux_def gop')
  show ?thesis
  proof (cases "parseNAL (h264_parser_of ?r) u")
    case (Inl e)
    then show ?thesis using ok unfolding eq by simp
  next
    case (Inr x)
    obtain b u' p' where x: "x = (b, u', p')" by (cases x) auto
    from with_parser_ok [OF Inr [unfolded x] ok] show ?thesis
      unfolding eq Inr x by (simp add: Let_def h264_rem_ok_def)
  qed
qed

subsection \<open>The audio loop\<close>

text \<open>\<^verbatim>\<open>nextAacPts\<close> is never assigned: no frame is dropped, whatever its time.\<close>

definition frames_size :: "aac_frame list \<Rightarrow> int" where
  "frames_size us = (\<Sum>u\<leftarrow>us. AACFrame_getSize u)"

lemma frames_size_simps [simp]:
  "frames_size [] = 0" "frames_size (u # us) = AACFrame_getSize u + frames_size us"
  "frames_size (us @ vs) = frames_size us + frames_size vs"
  by (simp_all add: frames_size_def)

lemma frames_size_length: "frames_size us = int (length (concat (map af_data us)))"
  by (induction us) (simp_all add: AACFrame_getSize_def)

lemma frames_size_sort: "frames_size (map f (sort_key k xs)) = frames_size (map f xs)"
proof -
  have "frames_size (map f (insort_key k x ys)) = AACFrame_getSize (f x) + frames_size (map f ys)" for x ys
    by (induction ys) simp_all
  then show ?thesis by (induction xs) simp_all
qed

definition aac_loop_inv :: "aac_frame list \<Rightarrow> aac_frame list \<Rightarrow> aac_loop_vars \<Rightarrow> bool" where
  "aac_loop_inv sent todo v \<longleftrightarrow> int (av_offset v) = frames_size sent
     \<and> take (av_offset v) (av_payload v) = concat (map af_data sent)
     \<and> av_len v = frames_size sent + frames_size todo \<and> av_len v = int (length (av_payload v))
     \<and> map s_size (av_samples v) = map AACFrame_getSize sent
     \<and> list_all (\<lambda>s. s_duration s = 1024) (av_samples v) \<and> (av_pts v = None \<longrightarrow> sent = [])"

lemma aac_first_none: "a_nextAacPts r = None \<Longrightarrow> aac_first r nd pts dts = Some (pts, dts)"
  by (simp add: aac_first_def)

lemma aac_loop_ok:
  assumes "aac_loop_inv sent (map rs_unit ss) v" "a_nextAacPts r = None"
  shows "\<exists>v'. aac_loop r (map Some ss) v = Inr (v', []) \<and> aac_loop_inv (sent @ map rs_unit ss) [] v'"
  using assms
proof (induction ss arbitrary: v sent)
  case (Cons s ss)
  let ?u = "rs_unit s"
  have "av_offset v + length (af_data ?u) \<le> length (av_payload v)"
    using Cons.prems(1) by (simp add: aac_loop_inv_def frames_size_length AACFrame_getSize_def)
  with array_set_fill [of "av_offset v" "av_payload v" "concat (map af_data sent)" "af_data ?u"] Cons.prems(1)
  obtain buf where buf: "array_set (av_payload v) (AACFrame_getData ?u) (av_offset v) = Inr buf"
    "length buf = length (av_payload v)"
    "take (av_offset v + length (af_data ?u)) buf = concat (map af_data sent) @ af_data ?u"
    by (auto simp: aac_loop_inv_def AACFrame_getData_def)
  let ?pts = "js_sub (rs_pts s) (init_dts r)" and ?dts = "js_sub (rs_dts s) (init_dts r)"
  let ?w = "v\<lparr>av_payload := buf, av_offset := av_offset v + length (af_data ?u),
       av_samples := av_samples v @ [\<lparr>s_size = AACFrame_getSize ?u, s_duration = 1024, s_cts = 0,
         s_flags = aac_flags\<rparr>], av_lastDTS := Some ?dts, av_pts := Some ?pts,
       av_firstDTS := (if av_lastDTS v = None then max 0 ?dts else av_firstDTS v)\<rparr>"
  have "aac_loop_inv (sent @ [?u]) (map rs_unit ss) ?w"
    using Cons.prems(1) buf(2,3) by (simp add: aac_loop_inv_def AACFrame_getSize_def)
  from Cons.IH [OF this Cons.prems(2)] show ?case
    by (cases "av_lastDTS v") (simp_all add: Let_def aac_first_none [OF Cons.prems(2)] buf(1))
qed simp

definition aac_rem_ok :: "aac_remuxer \<Rightarrow> bool" where
  "aac_rem_ok r \<longleftrightarrow> None \<notin> set (b_samples r)
     \<and> t_len (b_track r) = frames_size (map (rs_unit \<circ> the) (b_samples r)) \<and> t_samples (b_track r) = []
     \<and> a_nextAacPts r = None"

text \<open>What a call did: all the frames, in decoding order, each 1024 ticks long.\<close>

definition aac_drained :: "aac_frame list \<Rightarrow> bytes option \<Rightarrow> aac_remuxer \<Rightarrow> bool" where
  "aac_drained sent out r \<longleftrightarrow> b_samples r = [] \<and> out = Some (concat (map af_data sent))
     \<and> map s_size (t_samples (b_track r)) = map AACFrame_getSize sent
     \<and> list_all (\<lambda>s. s_duration s = 1024) (t_samples (b_track r)) \<and> a_nextAacPts r = None"

lemma aac_getPayload_drained:
  assumes ok: "aac_rem_ok r" and rdy: "b_ready r" "b_samples r \<noteq> []"
  shows "\<exists>out r'. aac_getPayload r = Inr (out, r')
    \<and> aac_drained (map rs_unit (sort_key rs_dts (map the (b_samples r)))) out r'"
proof -
  let ?ss = "sort_key rs_dts (map the (b_samples r))"
  have "sort_samples (b_samples r) = Inr (sort_key sample_key (map Some (map the (b_samples r))))"
    using ok map_Some_the [of "b_samples r"] by (simp add: sort_samples_def aac_rem_ok_def)
  also have "sort_key sample_key (map Some (map the (b_samples r))) = map Some ?ss"
    by (simp add: sort_key_map sample_key_def comp_def)
  finally have sorted: "sort_samples (b_samples r) = Inr (map Some ?ss)" .
  have len: "t_len (b_track r) = frames_size (map rs_unit ?ss)" "a_nextAacPts r = None"
    using ok by (simp_all add: aac_rem_ok_def frames_size_sort)
  let ?v = "\<lparr>av_payload = replicate (nat (t_len (b_track r))) 0, av_offset = 0, av_samples = t_samples (b_track r),
     av_lastDTS = None, av_pts = None, av_len = t_len (b_track r), av_firstDTS = a_firstDTS r,
     av_nextDts = a_nextDts r\<rparr>"
  have "aac_loop_inv [] (map rs_unit ?ss) ?v"
    using ok len by (simp add: aac_loop_inv_def aac_rem_ok_def frames_size_length)
  from aac_loop_ok [OF this len(2)] obtain v where loop: "aac_loop r (map Some ?ss) ?v = Inr (v, [])"
    and inv: "aac_loop_inv (map rs_unit ?ss) [] v" by auto
  have newp: "new_payload (t_len (b_track r)) = Inr (replicate (nat (t_len (b_track r))) 0)"
    using len by (simp add: new_payload_def frames_size_length)
  have "?ss \<noteq> []" using rdy(2) by (metis length_sort length_map length_0_conv)
  then have ne: "av_samples v \<noteq> []"
    using inv by (metis aac_loop_inv_def list.map_disc_iff)
  have view: "payload_view (av_payload v) (av_len v) = Inr (concat (map af_data (map rs_unit ?ss)))"
    using inv by (auto simp: payload_view_def aac_loop_inv_def frames_size_length)
  show ?thesis using rdy ne inv len(2)
    by (intro exI conjI) (simp add: aac_getPayload_def sorted newp loop Let_def view,
      simp add: aac_drained_def aac_loop_inv_def)
qed

lemma aac_rem_ok_flush: "aac_drained sent out r \<Longrightarrow> aac_rem_ok (base_flush r)"
  by (simp add: aac_drained_def aac_rem_ok_def base_flush_def)

lemma aac_remux_ok: "aac_rem_ok r \<Longrightarrow> aac_rem_ok (aac_remux r u)"
  by (simp add: aac_rem_ok_def aac_remux_def base_remux_def Let_def)

section \<open>From a drained queue to a media fragment\<close>

text \<open>The interface the fragment writer relies on: after a drain, the sample table lists the sizes of
  the chunks the payload consists of. A provider names its chunks (length-prefixed units, raw frames).\<close>

locale payload_source =
  fixes drained :: "'u list \<Rightarrow> bytes option \<Rightarrow> 'r \<Rightarrow> bool"
    and track_of :: "'r \<Rightarrow> mp4_track"
    and chunk :: "'u \<Rightarrow> bytes"
    and restart :: "'r \<Rightarrow> 'r"
    and idle :: "'r \<Rightarrow> bool"
  assumes payload_chunks: "drained us (Some pay) r \<Longrightarrow> pay = concat (map chunk us)"
    and table_sizes: "drained us out r \<Longrightarrow> map s_size (t_samples (track_of r)) = map (\<lambda>u. int (length (chunk u))) us"
    and restart_idle: "drained us out r \<Longrightarrow> idle (restart r)"
begin

lemma fragment_length:
  "drained us (Some pay) r \<Longrightarrow> length (moof sn t (track_of r)) = 96 + 17 * length us"
  using table_sizes [of us "Some pay" r] by (metis length_moof length_map)

lemma fragment_decodes:
  assumes "drained us (Some pay) r" "104 + 17 * length us < 2 ^ 32" "8 + length pay < 2 ^ 32"
  shows "fragment_units (moof sn t (track_of r) @ mdat pay) = Some (map chunk us)"
proof -
  have "map s_size (t_samples (track_of r)) = map (\<lambda>c. int (length c)) (map chunk us)"
    using table_sizes [OF assms(1)] by (simp add: comp_def)
  then show ?thesis
    using fragment_units_moof [of sn t "track_of r" "map chunk us"] assms payload_chunks [OF assms(1)]
      fragment_length [OF assms(1), of sn t] by simp
qed

end

interpretation video_source: payload_source h264_drained b_track NALU_getData base_flush h264_rem_ok
  by unfold_locales (auto simp: h264_drained_def length_NALU_getData h264_rem_ok_flush split: if_splits)

interpretation audio_source: payload_source aac_drained b_track af_data base_flush aac_rem_ok
  by unfold_locales (auto simp: aac_drained_def AACFrame_getSize_def [abs_def] aac_rem_ok_flush)

section \<open>What the remuxers promise\<close>

lemma length_sorted_units: "length (map rs_unit (sort_key rs_dts (map the xs))) = length xs"
  by simp

lemma drained_fragment:
  assumes "h264_drained kept (Some p) r" "104 + 17 * length kept < 2 ^ 32" "8 + units_size kept < 2 ^ 32"
  shows "fragment_units (moof sn t (b_track r) @ mdat p) = Some (map NALU_getData kept)"
proof (rule video_source.fragment_decodes [OF assms(1,2)])
  have "p = concat (map NALU_getData kept)" using assms(1) by (auto simp: h264_drained_def split: if_splits)
  then have "int (8 + length p) < int (2 ^ 32)" using length_units [of kept] assms(3) by simp
  then show "8 + length p < 2 ^ 32" unfolding of_nat_less_iff .
qed

lemma video_fragment:
  assumes "h264_rem_ok r" "b_ready r" "b_initialized r" "b_samples r \<noteq> []"
    and "104 + 17 * length (b_samples r) < 2 ^ 32" "8 + t_len (b_track r) < 2 ^ 32"
  shows "\<exists>out r' kept. h264_getPayload chrome r = Inr (out, r') \<and> h264_rem_ok (base_flush r') \<and> b_samples r' = []
    \<and> kept = kept_units r (h_nextDts r) None (sort_key rs_dts (map the (b_samples r)))
    \<and> list_all (\<lambda>s. 0 \<le> s_duration s) (butlast (t_samples (b_track r')))
    \<and> (case out of None \<Rightarrow> kept = []
        | Some pay \<Rightarrow> pay = concat (map NALU_getData kept) \<and>
            (\<forall>sn t. fragment_units (moof sn t (b_track r') @ mdat pay) = Some (map NALU_getData kept)))"
proof -
  let ?units = "map rs_unit (sort_key rs_dts (map the (b_samples r)))"
  obtain out r' kept where pay: "h264_getPayload chrome r = Inr (out, r')" and dr: "h264_drained kept out r'"
    and is_kept: "kept = kept_units r (h_nextDts r) None (sort_key rs_dts (map the (b_samples r)))"
    using h264_getPayload_drained [OF assms(1-4)] by blast
  have sub: "subseq kept ?units" unfolding is_kept by (rule kept_units_subseq)
  have "length kept \<le> length (b_samples r)" using list_emb_length [OF sub] by simp
  then have len: "104 + 17 * length kept < 2 ^ 32" using assms(5) by simp
  have "units_size kept \<le> units_size ?units"
    using sub by (induction rule: list_emb.induct)
      (use NALU_getSize_pos units_size_nonneg in \<open>auto simp: less_imp_le intro: add_increasing\<close>)
  also have "\<dots> = t_len (b_track r)"
    using assms(1) by (simp only: units_size_sort) (simp add: h264_rem_ok_def)
  finally have size: "8 + units_size kept < 2 ^ 32" using assms(6) by simp
  have "fragment_units (moof sn t (b_track r') @ mdat p) = Some (map NALU_getData kept)" if "out = Some p" for p sn t
    using drained_fragment [OF _ len size] dr that by simp
  then show ?thesis using pay is_kept video_source.restart_idle [OF dr] dr
    by (intro exI [of _ out] exI [of _ r'] exI [of _ kept] conjI) (auto simp: h264_drained_def split: option.splits if_splits)
qed

text \<open>C5: Draining the video queue never fails and ends; the units it keeps, in decoding order (all but those
  the continuation of the track or the time of the last kept one rules out), are exactly the samples a player cuts out of the fragment made of the two boxes (each behind its length),
  no sample but the last has a negative duration, and the queue is ready for the next units.\<close>

theorem video_fragment_complete:
  assumes "h264_rem_ok r" "b_ready r" "b_initialized r" "b_samples r \<noteq> []"
    and "104 + 17 * length (b_samples r) < 2 ^ 32" "8 + t_len (b_track r) < 2 ^ 32"
  shows "\<exists>out r' kept. h264_getPayload chrome r = Inr (out, r') \<and> h264_rem_ok (base_flush r')
    \<and> kept = kept_units r (h_nextDts r) None (sort_key rs_dts (map the (b_samples r)))
    \<and> subseq kept (map rs_unit (sort_key rs_dts (map the (b_samples r))))
    \<and> list_all (\<lambda>s. 0 \<le> s_duration s) (butlast (t_samples (b_track r')))
    \<and> (case out of None \<Rightarrow> kept = []
        | Some pay \<Rightarrow> fragment_units (moof sn t (b_track r') @ mdat pay) = Some (map NALU_getData kept))"
proof -
  obtain out r' kept where *: "h264_getPayload chrome r = Inr (out, r')" "h264_rem_ok (base_flush r')"
    "kept = kept_units r (h_nextDts r) None (sort_key rs_dts (map the (b_samples r)))"
    "list_all (\<lambda>s. 0 \<le> s_duration s) (butlast (t_samples (b_track r')))"
    "case out of None \<Rightarrow> kept = [] | Some pay \<Rightarrow> pay = concat (map NALU_getData kept) \<and>
       (\<forall>sn t. fragment_units (moof sn t (b_track r') @ mdat pay) = Some (map NALU_getData kept))"
    using video_fragment [OF assms, of chrome] by blast
  then show ?thesis using kept_units_subseq [of r "h_nextDts r" None "sort_key rs_dts (map the (b_samples r))"]
    by (intro exI [of _ out] exI [of _ r'] exI [of _ kept] conjI) (auto split: option.splits)
qed

definition example_video_track :: mp4_track where
  "example_video_track = \<lparr>t_id = 1, t_type = VideoTrack, t_timescale = 90000, t_duration = 90000, t_width = 640,
     t_height = 480, t_volume = None, t_sps = [[0x67, 0x64, 0, 0x1e]], t_pps = [[0x68, 0xee]], t_config = [],
     t_channelCount = 0, t_audiosamplerate = 0, t_samples = [], t_len = 0, t_codec = ''avc1.64001e''\<rparr>"

definition example_h264 :: h264_remuxer where
  "example_h264 = \<lparr>b_timeOffset = 0, b_timescale = 90000, b_scaleFactor = 1, b_ready = True, b_initialized = True,
     b_samples = [], b_seq = 1, b_tsAlign = 1500, b_initPTS = Some 0, b_initDTS = Some 0, b_duration = 1,
     b_track = example_video_track, h_nextDts = None, h_firstDTS = 0, h_lastSampleDuration = 0, h_lastDurations = [],
     h_lastGopDTS = 0, h_gop = [], h_firstFound = True\<rparr>"

definition example_h264_queued :: h264_remuxer where
  "example_h264_queued = foldl push_unit example_h264 [NALU 5 0x60 [1, 2] 3000 None, NALU 1 0x60 [3] 0 None]"

lemma example_h264_ok: "h264_rem_ok example_h264"
  by (simp add: h264_rem_ok_def example_h264_def example_video_track_def)

lemma example_h264_samples: "sort_key rs_dts (map the (b_samples example_h264_queued))
   = [\<lparr>rs_unit = NALU 1 0x60 [3] 0 None, rs_pts = 0, rs_dts = 0\<rparr>, \<lparr>rs_unit = NALU 5 0x60 [1, 2] 3000 None, rs_pts = 3000, rs_dts = 3000\<rparr>]"
  by (simp add: example_h264_queued_def example_h264_def push_unit_def base_remux_def Let_def NALU_def pts_or_dts_def)

lemma example_h264_kept: "kept_units example_h264_queued (h_nextDts example_h264_queued) None
    (sort_key rs_dts (map the (b_samples example_h264_queued))) = [NALU 1 0x60 [3] 0 None, NALU 5 0x60 [1, 2] 3000 None]"
proof -
  have q: "init_dts example_h264_queued = 0" "b_scaleFactor example_h264_queued = 1" "h_nextDts example_h264_queued = None"
    by (simp_all add: init_dts_def example_h264_queued_def example_h264_def push_unit_def base_remux_def Let_def)
  have "js_sub 3000 0 = 3000" "js_sub 0 0 = 0" "js_div 3000 1 = 3000"
    using js_sub_of_int [of 3000 0] js_sub_of_int [of 0 0] js_div_1_of_int [of 3000] by simp_all
  then show ?thesis unfolding example_h264_samples by (simp add: q h264_first_def scaled_def)
qed

lemma example_h264_ready:
  "h264_rem_ok example_h264_queued" "b_ready example_h264_queued" "b_initialized example_h264_queued"
  "b_samples example_h264_queued \<noteq> []" "104 + 17 * length (b_samples example_h264_queued) < 2 ^ 32"
  "8 + t_len (b_track example_h264_queued) < 2 ^ 32"
  using foldl_push_unit_ok [OF example_h264_ok, of "[NALU 5 0x60 [1, 2] 3000 None, NALU 1 0x60 [3] 0 None]"]
  by (simp_all add: example_h264_queued_def) (simp_all add: example_h264_def example_video_track_def
    push_unit_def base_remux_def Let_def NALU_getSize_def NALU_def)

lemma example_h264_bytes: "map NALU_getData [NALU 1 0x60 [3] 0 None, NALU 5 0x60 [1, 2] 3000 None]
    = [[0, 0, 0, 2, 0x61, 3], [0, 0, 0, 3, 0x65, 1, 2]]"
  by code_simp

lemma video_fragment_complete_witness:
  "\<exists>pay r'. h264_getPayload False example_h264_queued = Inr (Some pay, r') \<and> h264_rem_ok (base_flush r') \<and>
     fragment_units (moof 1 0 (b_track r') @ mdat pay) = Some [[0, 0, 0, 2, 0x61, 3], [0, 0, 0, 3, 0x65, 1, 2]]"
proof -
  obtain out r' kept where o: "h264_getPayload False example_h264_queued = Inr (out, r')" "h264_rem_ok (base_flush r')"
    "kept = [NALU 1 0x60 [3] 0 None, NALU 5 0x60 [1, 2] 3000 None]"
    "case out of None \<Rightarrow> kept = [] | Some pay \<Rightarrow> fragment_units (moof 1 0 (b_track r') @ mdat pay) = Some (map NALU_getData kept)"
    using video_fragment_complete [OF example_h264_ready, of False 1 0] unfolding example_h264_kept by blast
  show ?thesis
  proof (cases out)
    case None
    with o(3,4) show ?thesis by simp
  next
    case (Some pay)
    with o(4) have "fragment_units (moof 1 0 (b_track r') @ mdat pay) = Some (map NALU_getData kept)" by simp
    then show ?thesis using o(1,2) Some unfolding o(3) example_h264_bytes by blast
  qed
qed

text \<open>C18: Draining the audio queue drops nothing: every queued frame, in decoding order, is a sample of
  1024 ticks of the fragment, and a player cuts exactly those frames out of it.\<close>

theorem audio_fragment_complete:
  assumes "aac_rem_ok r" "b_ready r" "b_samples r \<noteq> []"
    and "104 + 17 * length (b_samples r) < 2 ^ 32" "8 + t_len (b_track r) < 2 ^ 32"
  shows "\<exists>pay r'. aac_getPayload r = Inr (Some pay, r') \<and> aac_rem_ok (base_flush r')
    \<and> list_all (\<lambda>s. s_duration s = 1024) (t_samples (b_track r'))
    \<and> fragment_units (moof sn t (b_track r') @ mdat pay)
        = Some (map (af_data \<circ> rs_unit) (sort_key rs_dts (map the (b_samples r))))"
proof -
  let ?units = "map rs_unit (sort_key rs_dts (map the (b_samples r)))"
  obtain out r' where g: "aac_getPayload r = Inr (out, r')" and dr: "aac_drained ?units out r'"
    using aac_getPayload_drained [OF assms(1-3)] by blast
  obtain pay where out: "out = Some pay" "pay = concat (map af_data ?units)" using dr by (simp add: aac_drained_def)
  have "frames_size ?units = t_len (b_track r)"
    using assms(1) by (simp only: frames_size_sort) (simp add: aac_rem_ok_def)
  then have "int (8 + length pay) < int (2 ^ 32)" using assms(5) out(2) by (simp add: frames_size_length)
  then have "8 + length pay < 2 ^ 32" unfolding of_nat_less_iff .
  moreover have "104 + 17 * length ?units < 2 ^ 32" using assms(4) by simp
  ultimately have "fragment_units (moof sn t (b_track r') @ mdat pay) = Some (map af_data ?units)"
    using audio_source.fragment_decodes dr out(1) by blast
  then show ?thesis using g dr out(1) audio_source.restart_idle [OF dr]
    by (intro exI conjI) (auto simp: aac_drained_def)
qed

definition example_aac :: aac_remuxer where
  "example_aac = foldl aac_remux (aac_setConfig (AACRemuxer 2 0 0 1) [0x12, 0x10] ''mp4a.40.2'' 44100 2)
     [AACFrame [1, 2, 3] 0 None, AACFrame [4] 1024 None]"

lemma foldl_aac_remux_ok: "aac_rem_ok r \<Longrightarrow> aac_rem_ok (foldl aac_remux r us)"
  by (induction us arbitrary: r) (simp_all add: aac_remux_ok)

lemma audio_fragment_complete_witness:
  "\<exists>pay r'. aac_getPayload example_aac = Inr (Some pay, r') \<and> aac_rem_ok (base_flush r')
    \<and> list_all (\<lambda>s. s_duration s = 1024) (t_samples (b_track r'))
    \<and> fragment_units (moof 1 0 (b_track r') @ mdat pay)
        = Some (map (af_data \<circ> rs_unit) (sort_key rs_dts (map the (b_samples example_aac))))"
proof (rule audio_fragment_complete)
  have "aac_rem_ok (aac_setConfig (AACRemuxer 2 0 0 1) [0x12, 0x10] ''mp4a.40.2'' 44100 2)"
    by (simp add: aac_rem_ok_def aac_setConfig_def AACRemuxer_def Let_def)
  then show "aac_rem_ok example_aac" unfolding example_aac_def by (rule foldl_aac_remux_ok)
qed (simp_all add: example_aac_def aac_setConfig_def AACRemuxer_def aac_remux_def base_remux_def Let_def
      AACFrame_getSize_def AACFrame_def pts_or_dts_def)

text \<open>The picture that the slices of one decoding time make: the first slice, and behind it the others, each behind a
  start code instead of its length.\<close>

definition picture_of :: "nalu list \<Rightarrow> nalu" where
  "picture_of slices = (hd slices)\<lparr>n_data := n_data (hd slices)
     @ concat (map (\<lambda>s. [0, 0, 0, 1] @ drop 4 (NALU_getData s)) (tl slices))\<rparr>"

lemma mapE_map: "(\<And>x. x \<in> set xs \<Longrightarrow> f (h x) = Inr (g x)) \<Longrightarrow> mapE f (map h xs) = Inr (map g xs)"
  by (induction xs) auto

lemma close_gop_pictures:
  "\<exists>ds. distinct ds \<and> set ds = n_dts ` set gop \<and> ((\<forall>v \<in> set gop. is_index (n_dts v)) \<longrightarrow> sorted ds) \<and>
     close_gop gop = Inr (map (\<lambda>d. picture_of (filter (\<lambda>v. n_dts v = d) gop)) ds)"
proof (cases "length gop > 1")
  case True
  let ?us = "sort_key n_dts gop" and ?ds = "dts_keys (sort_key n_dts gop)"
  have merge: "merge_slices (filter (\<lambda>v. n_dts v = d) ?us) = Inr (picture_of (filter (\<lambda>v. n_dts v = d) gop))"
    if "d \<in> set ?ds" for d
  proof -
    have "filter (\<lambda>v. n_dts v = d) ?us \<noteq> []" using that by (auto simp: set_dts_keys filter_empty_conv)
    then have "filter (\<lambda>v. n_dts v = d) gop \<noteq> []" by (simp add: sort_key_stable)
    then obtain v vs where "filter (\<lambda>v. n_dts v = d) gop = v # vs" by (cases "filter (\<lambda>v. n_dts v = d) gop") auto
    then show ?thesis unfolding sort_key_stable by (simp add: merge_slices_Cons picture_of_def start_code_def)
  qed
  have "mapE merge_slices (groupByDts ?us) = Inr (map (\<lambda>d. picture_of (filter (\<lambda>v. n_dts v = d) gop)) ?ds)"
    unfolding groupByDts_def by (rule mapE_map) (rule merge)
  then have "close_gop gop = Inr (map (\<lambda>d. picture_of (filter (\<lambda>v. n_dts v = d) gop)) ?ds)"
    using True by (simp add: close_gop_def Let_def)
  moreover have "sorted ?ds" if "\<forall>v \<in> set gop. is_index (n_dts v)"
  proof -
    have "filter (\<lambda>d. \<not> is_index d) (rev (remdups (rev (map n_dts ?us)))) = []"
      using that by (auto simp: filter_empty_conv)
    then show ?thesis by (simp add: dts_keys_def Let_def)
  qed
  ultimately show ?thesis using set_dts_keys [of ?us] by (intro exI [of _ ?ds]) auto
next
  case False
  then consider "gop = []" | v where "gop = [v]" by (cases gop) auto
  then show ?thesis
  proof cases
    case 1
    then show ?thesis by (intro exI [of _ "[]"]) (simp add: close_gop_def)
  next
    case 2
    then show ?thesis by (intro exI [of _ "[n_dts v]"]) (simp add: close_gop_def picture_of_def)
  qed
qed

text \<open>C40: When a unit with a later decoding time arrives, the pictures before it are queued, whatever becomes of the
  unit itself: one per decoding time, made of all the slices with that time in the order in which they
  arrived; in the order of their times, when these can be array indices.\<close>

theorem pictures_queued:
  assumes "h_lastGopDTS r < n_dts u"
  shows "\<exists>ds. distinct ds \<and> set ds = n_dts ` set (h_gop r) \<and> ((\<forall>v \<in> set (h_gop r). is_index (n_dts v)) \<longrightarrow> sorted ds) \<and>
    b_samples (fst (h264_remux r u)) = b_samples r @ map (\<lambda>d. let p = picture_of (filter (\<lambda>v. n_dts v = d) (h_gop r))
      in Some \<lparr>rs_unit = p, rs_pts = n_pts p, rs_dts = n_dts p\<rparr>) ds"
proof -
  obtain ds where ds: "distinct ds" "set ds = n_dts ` set (h_gop r)" "(\<forall>v \<in> set (h_gop r). is_index (n_dts v)) \<longrightarrow> sorted ds"
    "close_gop (h_gop r) = Inr (map (\<lambda>d. picture_of (filter (\<lambda>v. n_dts v = d) (h_gop r))) ds)"
    using close_gop_pictures by blast
  have "b_samples (fst (h264_remux r u)) = b_samples (foldl push_unit r (map (\<lambda>d. picture_of (filter (\<lambda>v. n_dts v = d) (h_gop r))) ds))"
    using assms by (simp add: h264_remux_def ds(4) with_parser_def Let_def split: sum.split prod.split)
  then show ?thesis unfolding foldl_push_unit_samples using ds(1-3) by (intro exI [of _ ds]) (simp add: comp_def Let_def)
qed

text \<open>Two slices of one picture and one of the next.\<close>

definition example_gop :: h264_remuxer where
  "example_gop = example_h264\<lparr>h_gop := [NALU 5 0x60 [1] 0 None, NALU 5 0x60 [2, 3] 0 None, NALU 1 0x60 [4] 3000 None], h_lastGopDTS := 3000\<rparr>"

lemma pictures_queued_witness:
  "map (map_option (n_data \<circ> rs_unit)) (b_samples (fst (h264_remux example_gop (NALU 1 0x60 [0xE0, 0x20, 0, 0] 6000 None))))
     = [Some ([1] @ [0, 0, 0, 1, 0x65, 2, 3]), Some [4]]"
proof -
  let ?u = "NALU 1 0x60 [0xE0, 0x20, 0, 0] 6000 None"
  have "h_lastGopDTS example_gop < n_dts ?u" by (simp add: example_gop_def NALU_def)
  then obtain ds where ds: "distinct ds" "set ds = n_dts ` set (h_gop example_gop)"
    "(\<forall>v \<in> set (h_gop example_gop). is_index (n_dts v)) \<longrightarrow> sorted ds"
    "b_samples (fst (h264_remux example_gop ?u)) = b_samples example_gop @ map (\<lambda>d. let p = picture_of (filter (\<lambda>v. n_dts v = d) (h_gop example_gop))
      in Some \<lparr>rs_unit = p, rs_pts = n_pts p, rs_dts = n_dts p\<rparr>) ds"
    using pictures_queued [of example_gop ?u] by blast
  have g: "n_dts ` set (h_gop example_gop) = {0, 3000}" "\<forall>v \<in> set (h_gop example_gop). is_index (n_dts v)"
    by (auto simp: example_gop_def NALU_def is_index_def)
  then have "ds = [0, 3000]" using ds(1-3) sorted_distinct_set_unique [of ds "[0, 3000]"] by simp
  moreover have "u8 (js_or (js_or (js_and 0 0x80) (js_and 0x60 0x60)) (js_and 5 0x1F)) = 0x65" by code_simp
  ultimately show ?thesis unfolding ds(4)
    by (simp add: example_gop_def example_h264_def picture_of_def NALU_def NALU_getData_def)
qed

text \<open>C21: Taking in a unit, whether the parser accepts it, rejects it or raises, keeps the accounting of
  the video queue: the announced payload length is the size of the queued units. So the payload buffer
  is never too small for them.\<close>

theorem video_accounting:
  assumes "h264_rem_ok r"
  shows "h264_rem_ok (fst (h264_remux r u))"
  by (rule h264_remux_ok [OF assms])

lemma video_accounting_witness:
  "h264_rem_ok (fst (h264_remux example_h264 (NALU 5 0x60 [0x88, 0x84] 3000 None)))"
  by (rule video_accounting [OF example_h264_ok])

end
