(* ===== verification/Md5.thy ===== *)
theory Md5
  imports JsBase JsText
begin

text \<open>
  The MD5 functions of \<^verbatim>\<open>rtsp.dev.js\<close>, used for digest authentication, and the algorithm of
  RFC 1321 on 32-bit words as their specification. The code computes on signed 32-bit numbers with
  additions split into halves; \<open>w32\<close> maps its numbers to words, and every step of the code is shown to
  refine the step of the RFC.
\<close>

section \<open>The code\<close>

definition safeAdd :: "int \<Rightarrow> int \<Rightarrow> int" where
  "safeAdd x y =
     (let lsw = js_and x 0xFFFF + js_and y 0xFFFF;
          msw = js_sar x 16 + js_sar y 16 + js_sar lsw 16
      in js_or (js_shl msw 16) (js_and lsw 0xFFFF))"

definition bitRotateLeft :: "int \<Rightarrow> int \<Rightarrow> int" where
  "bitRotateLeft num cnt = js_or (js_shl num cnt) (js_shr num (32 - cnt))"

definition md5cmn :: "int \<Rightarrow> int \<Rightarrow> int \<Rightarrow> int \<Rightarrow> int \<Rightarrow> int \<Rightarrow> int" where
  "md5cmn q a b x s t = safeAdd (bitRotateLeft (safeAdd (safeAdd a q) (safeAdd x t)) s) b"

definition md5ff :: "int \<Rightarrow> int \<Rightarrow> int \<Rightarrow> int \<Rightarrow> int \<Rightarrow> int \<Rightarrow> int \<Rightarrow> int" where
  "md5ff a b c d x s t = md5cmn (js_or (js_and b c) (js_and (js_not b) d)) a b x s t"

definition md5gg :: "int \<Rightarrow> int \<Rightarrow> int \<Rightarrow> int \<Rightarrow> int \<Rightarrow> int \<Rightarrow> int \<Rightarrow> int" where
  "md5gg a b c d x s t = md5cmn (js_or (js_and b d) (js_and c (js_not d))) a b x s t"

definition md5hh :: "int \<Rightarrow> int \<Rightarrow> int \<Rightarrow> int \<Rightarrow> int \<Rightarrow> int \<Rightarrow> int \<Rightarrow> int" where
  "md5hh a b c d x s t = md5cmn (js_xor (js_xor b c) d) a b x s t"

definition md5ii :: "int \<Rightarrow> int \<Rightarrow> int \<Rightarrow> int \<Rightarrow> int \<Rightarrow> int \<Rightarrow> int \<Rightarrow> int" where
  "md5ii a b c d x s t = md5cmn (js_xor c (js_or b (js_not d))) a b x s t"

text \<open>The statements of the loop body as a table, in the order of the code: the function, the index
  added to \<open>i\<close>, the rotation, the constant. The four variables take turns as the first argument, which
  the statement assigns: \<^verbatim>\<open>a = f(a,b,c,d,..)\<close>, \<^verbatim>\<open>d = f(d,a,b,c,..)\<close>, \<^verbatim>\<open>c = f(c,d,a,b,..)\<close>,
  \<^verbatim>\<open>b = f(b,c,d,a,..)\<close>. So after each statement the tuple turns once, and after four it is back.\<close>

datatype md5_fun = FF | GG | HH | II

fun md5_call :: "md5_fun \<Rightarrow> int \<Rightarrow> int \<Rightarrow> int \<Rightarrow> int \<Rightarrow> int \<Rightarrow> int \<Rightarrow> int \<Rightarrow> int" where
  "md5_call FF = md5ff"
| "md5_call GG = md5gg"
| "md5_call HH = md5hh"
| "md5_call II = md5ii"

definition md5_statements :: "(md5_fun \<times> nat \<times> int \<times> int) list" where
  "md5_statements =
    [(FF, 0, 7, -680876936), (FF, 1, 12, -389564586), (FF, 2, 17, 606105819), (FF, 3, 22, -1044525330),
     (FF, 4, 7, -176418897), (FF, 5, 12, 1200080426), (FF, 6, 17, -1473231341), (FF, 7, 22, -45705983),
     (FF, 8, 7, 1770035416), (FF, 9, 12, -1958414417), (FF, 10, 17, -42063), (FF, 11, 22, -1990404162),
     (FF, 12, 7, 1804603682), (FF, 13, 12, -40341101), (FF, 14, 17, -1502002290), (FF, 15, 22, 1236535329),
     (GG, 1, 5, -165796510), (GG, 6, 9, -1069501632), (GG, 11, 14, 643717713), (GG, 0, 20, -373897302),
     (GG, 5, 5, -701558691), (GG, 10, 9, 38016083), (GG, 15, 14, -660478335), (GG, 4, 20, -405537848),
     (GG, 9, 5, 568446438), (GG, 14, 9, -1019803690), (GG, 3, 14, -187363961), (GG, 8, 20, 1163531501),
     (GG, 13, 5, -1444681467), (GG, 2, 9, -51403784), (GG, 7, 14, 1735328473), (GG, 12, 20, -1926607734),
     (HH, 5, 4, -378558), (HH, 8, 11, -2022574463), (HH, 11, 16, 1839030562), (HH, 14, 23, -35309556),
     (HH, 1, 4, -1530992060), (HH, 4, 11, 1272893353), (HH, 7, 16, -155497632), (HH, 10, 23, -1094730640),
     (HH, 13, 4, 681279174), (HH, 0, 11, -358537222), (HH, 3, 16, -722521979), (HH, 6, 23, 76029189),
     (HH, 9, 4, -640364487), (HH, 12, 11, -421815835), (HH, 15, 16, 530742520), (HH, 2, 23, -995338651),
     (II, 0, 6, -198630844), (II, 7, 10, 1126891415), (II, 14, 15, -1416354905), (II, 5, 21, -57434055),
     (II, 12, 6, 1700485571), (II, 3, 10, -1894986606), (II, 10, 15, -1051523), (II, 1, 21, -2054922799),
     (II, 8, 6, 1873313359), (II, 15, 10, -30611744), (II, 6, 15, -1560198380), (II, 13, 21, 1309151649),
     (II, 4, 6, -145523070), (II, 11, 10, -1120210379), (II, 2, 15, 718787259), (II, 9, 21, -343485551)]"

type_synonym md5_state = "int \<times> int \<times> int \<times> int"

text \<open>An index past the end or a hole reads \<^verbatim>\<open>undefined\<close>, which the operators of \<open>safeAdd\<close> take for 0.\<close>

definition at0 :: "int list \<Rightarrow> nat \<Rightarrow> int" where
  "at0 x i = (if i < length x then x ! i else 0)"

definition md5_statement :: "int list \<Rightarrow> nat \<Rightarrow> md5_state \<Rightarrow> md5_fun \<times> nat \<times> int \<times> int \<Rightarrow> md5_state" where
  "md5_statement x i = (\<lambda>(a, b, c, d) (f, k, s, t). (d, md5_call f a b c d (at0 x (i + k)) s t, b, c))"

definition md5_block :: "int list \<Rightarrow> md5_state \<Rightarrow> nat \<Rightarrow> md5_state" where
  "md5_block x st i =
     (let (olda, oldb, oldc, oldd) = st;
          (a, b, c, d) = foldl (md5_statement x i) st md5_statements
      in (safeAdd a olda, safeAdd b oldb, safeAdd c oldc, safeAdd d oldd))"

text \<open>An assignment past the end of an array extends it; the holes read as 0 here.\<close>

definition array_put :: "int list \<Rightarrow> nat \<Rightarrow> int \<Rightarrow> int list" where
  "array_put x i v = (x @ replicate (Suc i - length x) 0)[i := v]"

definition md5_pad :: "int list \<Rightarrow> int \<Rightarrow> int list" where
  "md5_pad x len =
     (let j = nat (js_sar len 5);
          x1 = array_put x j (js_or (at0 x j) (js_shl 0x80 (len mod 32)))
      in array_put x1 (nat (js_shl (js_shr (len + 64) 9) 4 + 14)) len)"

definition binlMD5 :: "int list \<Rightarrow> int \<Rightarrow> int list" where
  "binlMD5 x0 len =
     (let x = md5_pad x0 len;
          (a, b, c, d) = foldl (md5_block x) (1732584193, -271733879, -1732584194, 271733878)
            (map (\<lambda>k. 16 * k) [0..<(length x + 15) div 16])
      in [a, b, c, d])"

definition binl2rstr :: "int list \<Rightarrow> bytes" where
  "binl2rstr input = map (\<lambda>i. u8 (js_and (js_shr (input ! (i div 4)) (8 * int (i mod 4))) 0xFF)) [0..<4 * length input]"

definition rstr2binl :: "bytes \<Rightarrow> int list" where
  "rstr2binl input = foldl (\<lambda>out i. array_put out (i div 4)
       (js_or (at0 out (i div 4)) (js_shl (js_and (uint (input ! i)) 0xFF) (8 * int (i mod 4)))))
     (replicate (length input div 4) 0) [0..<length input]"

definition rstrMD5 :: "bytes \<Rightarrow> bytes" where
  "rstrMD5 s = binl2rstr (binlMD5 (rstr2binl s) (int (length s) * 8))"

definition rstrHMACMD5 :: "bytes \<Rightarrow> bytes \<Rightarrow> bytes" where
  "rstrHMACMD5 key data =
     (let bkey0 = rstr2binl key;
          bkey = (if length bkey0 > 16 then binlMD5 bkey0 (int (length key) * 8) else bkey0);
          ipad = map (\<lambda>i. js_xor (at0 bkey i) 0x36363636) [0..<16];
          opad = map (\<lambda>i. js_xor (at0 bkey i) 0x5C5C5C5C) [0..<16];
          hash = binlMD5 (ipad @ rstr2binl data) (512 + int (length data) * 8)
      in binl2rstr (binlMD5 (opad @ hash) (512 + 128)))"

definition hexTab :: string where "hexTab = ''0123456789abcdef''"

definition rstr2hex :: "bytes \<Rightarrow> string" where
  "rstr2hex input = concat (map (\<lambda>x. [hexTab ! nat (js_and (js_shr (uint x) 4) 0x0F),
     hexTab ! nat (js_and (uint x) 0x0F)]) input)"

text \<open>\<^verbatim>\<open>unescape(encodeURIComponent(s))\<close> for the characters of the model, whose codes are below 256.\<close>

definition str2rstrUTF8 :: "string \<Rightarrow> bytes" where
  "str2rstrUTF8 s = concat (map (\<lambda>ch. let n = ch_code ch in
     if n < 128 then [u8 n] else [u8 (0xC0 + n div 64), u8 (0x80 + n mod 64)]) s)"

definition rawMD5 :: "string \<Rightarrow> bytes" where "rawMD5 s = rstrMD5 (str2rstrUTF8 s)"
definition hexMD5 :: "string \<Rightarrow> string" where "hexMD5 s = rstr2hex (rawMD5 s)"
definition rawHMACMD5 :: "string \<Rightarrow> string \<Rightarrow> bytes" where
  "rawHMACMD5 k d = rstrHMACMD5 (str2rstrUTF8 k) (str2rstrUTF8 d)"
definition hexHMACMD5 :: "string \<Rightarrow> string \<Rightarrow> string" where
  "hexHMACMD5 k d = rstr2hex (rawHMACMD5 k d)"

text \<open>\<^verbatim>\<open>md5(string, key, raw)\<close>: \<open>key = []\<close> stands for no key. The raw answer is a byte string.\<close>

definition md5 :: "string \<Rightarrow> string \<Rightarrow> bool \<Rightarrow> string + bytes" where
  "md5 s key raw =
     (if key = [] then if \<not> raw then Inl (hexMD5 s) else Inr (rawMD5 s)
      else if \<not> raw then Inl (hexHMACMD5 key s) else Inr (rawHMACMD5 key s))"

section \<open>The specification: RFC 1321\<close>

fun rfc_fun :: "md5_fun \<Rightarrow> 32 word \<Rightarrow> 32 word \<Rightarrow> 32 word \<Rightarrow> 32 word" where
  "rfc_fun FF x y z = (x AND y) OR (NOT x AND z)"
| "rfc_fun GG x y z = (x AND z) OR (y AND NOT z)"
| "rfc_fun HH x y z = x XOR y XOR z"
| "rfc_fun II x y z = y XOR (x OR NOT z)"

definition rfc_sines :: "32 word list" where
  "rfc_sines = [
     0xd76aa478, 0xe8c7b756, 0x242070db, 0xc1bdceee, 0xf57c0faf, 0x4787c62a, 0xa8304613, 0xfd469501,
     0x698098d8, 0x8b44f7af, 0xffff5bb1, 0x895cd7be, 0x6b901122, 0xfd987193, 0xa679438e, 0x49b40821,
     0xf61e2562, 0xc040b340, 0x265e5a51, 0xe9b6c7aa, 0xd62f105d, 0x02441453, 0xd8a1e681, 0xe7d3fbc8,
     0x21e1cde6, 0xc33707d6, 0xf4d50d87, 0x455a14ed, 0xa9e3e905, 0xfcefa3f8, 0x676f02d9, 0x8d2a4c8a,
     0xfffa3942, 0x8771f681, 0x6d9d6122, 0xfde5380c, 0xa4beea44, 0x4bdecfa9, 0xf6bb4b60, 0xbebfbc70,
     0x289b7ec6, 0xeaa127fa, 0xd4ef3085, 0x04881d05, 0xd9d4d039, 0xe6db99e5, 0x1fa27cf8, 0xc4ac5665,
     0xf4292244, 0x432aff97, 0xab9423a7, 0xfc93a039, 0x655b59c3, 0x8f0ccc92, 0xffeff47d, 0x85845dd1,
     0x6fa87e4f, 0xfe2ce6e0, 0xa3014314, 0x4e0811a1, 0xf7537e82, 0xbd3af235, 0x2ad7d2bb, 0xeb86d391]"

definition rfc_ops :: "(md5_fun \<times> nat \<times> nat \<times> 32 word) list" where
  "rfc_ops = map (\<lambda>i. ([FF, GG, HH, II] ! (i div 16), [i, 5 * i + 1, 3 * i + 5, 7 * i] ! (i div 16) mod 16,
      [[7, 12, 17, 22], [5, 9, 14, 20], [4, 11, 16, 23], [6, 10, 15, 21]] ! (i div 16) ! (i mod 4), rfc_sines ! i))
    [0..<64]"

type_synonym rfc_state = "32 word \<times> 32 word \<times> 32 word \<times> 32 word"

definition rfc_op :: "(nat \<Rightarrow> 32 word) \<Rightarrow> rfc_state \<Rightarrow> md5_fun \<times> nat \<times> nat \<times> 32 word \<Rightarrow> rfc_state" where
  "rfc_op X = (\<lambda>(a, b, c, d) (f, k, s, t). (d, b + word_rotl s (a + rfc_fun f b c d + X k + t), b, c))"

definition rfc_block :: "(nat \<Rightarrow> 32 word) \<Rightarrow> rfc_state \<Rightarrow> rfc_state" where
  "rfc_block X st = (let (aa, bb, cc, dd) = st; (a, b, c, d) = foldl (rfc_op X) st rfc_ops
     in (a + aa, b + bb, c + cc, d + dd))"

text \<open>A byte string as bits and as words, least significant byte first.\<close>

definition le_bit :: "bytes \<Rightarrow> nat \<Rightarrow> bool" where
  "le_bit bs n \<longleftrightarrow> n div 8 < length bs \<and> bit (bs ! (n div 8)) (n mod 8)"

definition le_word :: "bytes \<Rightarrow> nat \<Rightarrow> 32 word" where
  "le_word bs j = (let byte = (\<lambda>k. if 4 * j + k < length bs then push_bit (8 * k) (ucast (bs ! (4 * j + k))) else 0)
     in byte 0 OR byte 1 OR byte 2 OR byte 3)"

definition le_bytes :: "nat \<Rightarrow> int \<Rightarrow> bytes" where
  "le_bytes n v = map (\<lambda>i. u8 (v div 2 ^ (8 * i))) [0..<n]"

text \<open>Padding: one bit, zeros up to 56 modulo 64, the length in bits as a 64-bit number.\<close>

definition rfc_pad :: "bytes \<Rightarrow> bytes" where
  "rfc_pad msg = msg @ [0x80] @ replicate ((119 - length msg mod 64) mod 64) 0 @ le_bytes 8 (8 * int (length msg))"

definition rfc_md5 :: "bytes \<Rightarrow> bytes" where
  "rfc_md5 msg =
     (let bs = rfc_pad msg;
          (a, b, c, d) = foldl (\<lambda>st k. rfc_block (\<lambda>j. le_word bs (16 * k + j)) st)
            (0x67452301, 0xefcdab89, 0x98badcfe, 0x10325476) [0..<length bs div 64]
      in concat (map (\<lambda>w. le_bytes 4 (uint w)) [a, b, c, d]))"

section \<open>Every operation of the code refines the operation on words\<close>

abbreviation w32 :: "int \<Rightarrow> 32 word" where "w32 \<equiv> word_of_int"

lemma w32_bitwise:
  "w32 (js_and x y) = w32 x AND w32 y" "w32 (js_or x y) = w32 x OR w32 y"
  "w32 (js_xor x y) = w32 x XOR w32 y" "w32 (js_not x) = NOT (w32 x)"
  by (simp_all add: js_and_def js_or_def js_xor_def js_not_def)

lemma w32_shl: "0 \<le> n \<Longrightarrow> n < 32 \<Longrightarrow> w32 (js_shl x n) = push_bit (nat n) (w32 x)"
  by (simp add: js_shl_def)

lemma w32_shr: "0 \<le> n \<Longrightarrow> n < 32 \<Longrightarrow> w32 (js_shr x n) = drop_bit (nat n) (w32 x)"
  by (rule bit_word_eqI) (simp add: js_shr_def toUint32_def bit_simps flip: drop_bit_eq_div)

lemma safeAdd_word: "w32 (safeAdd x y) = w32 x + w32 y"
proof -
  have m: "js_and z 0xFFFF = z mod 2 ^ 16" for z
  proof -
    have "z AND 0xFFFF = z mod 2 ^ 16"
      using take_bit_eq_mask [of 16 z] by (simp add: take_bit_eq_mod mask_eq_exp_minus_1)
    then show ?thesis by (simp add: js_and_eq toInt32_id)
  qed
  define l where "l = x mod 2 ^ 16 + y mod 2 ^ 16"
  have l: "0 \<le> l" "l < 2 ^ 17" using pos_mod_bound [of "2 ^ 16" x] pos_mod_bound [of "2 ^ 16" y] by (simp_all add: l_def)
  then have "toInt32 l = l" by (intro toInt32_id) auto
  then have sl: "js_sar l 16 = l div 2 ^ 16" by (simp add: js_sar_def)
  define h where "h = js_sar x 16 + js_sar y 16 + l div 2 ^ 16"
  have sa: "safeAdd x y = js_or (js_shl h 16) (l mod 2 ^ 16)"
    unfolding safeAdd_def Let_def m l_def [symmetric] sl h_def ..
  have dis: "push_bit 16 a OR take_bit 16 b = push_bit 16 a + (take_bit 16 b :: 32 word)" for a b
    by (rule disjunctive_add [symmetric]) (auto simp: bit_simps)
  have t: "w32 (l mod 2 ^ 16) = take_bit 16 (w32 l)" unfolding take_bit_eq_mod [of 16 l, symmetric] by (rule bit_word_eqI) (simp add: bit_simps)
  have "w32 (safeAdd x y) = push_bit 16 (w32 h) + w32 (l mod 2 ^ 16)"
    unfolding sa w32_bitwise using w32_shl [of 16 h] dis [of "w32 h" "w32 l"] t by simp
  also have "\<dots> = w32 (h * 2 ^ 16 + l mod 2 ^ 16)" by (simp add: push_bit_eq_mult mult.commute)
  also have "h * 2 ^ 16 + l mod 2 ^ 16 = (js_sar x 16 * 2 ^ 16 + x mod 2 ^ 16) + (js_sar y 16 * 2 ^ 16 + y mod 2 ^ 16)"
  proof -
    have "l = l div 2 ^ 16 * 2 ^ 16 + l mod 2 ^ 16" by simp
    then show ?thesis unfolding h_def l_def by (simp add: algebra_simps)
  qed
  also have "w32 \<dots> = w32 x + w32 y"
  proof -
    have "w32 (js_sar z 16 * 2 ^ 16 + z mod 2 ^ 16) = w32 z" for z
    proof -
      have "z mod 2 ^ 16 = toInt32 z mod 2 ^ 16"
      proof -
        have "take_bit 16 (toInt32 z) = take_bit 16 z"
          by (auto intro!: bit_eqI simp: toInt32_def bit_simps signed_of_int)
        then show ?thesis by (simp add: take_bit_eq_mod)
      qed
      then have "js_sar z 16 * 2 ^ 16 + z mod 2 ^ 16 = toInt32 z" by (simp add: js_sar_def)
      then show ?thesis by simp
    qed
    then show ?thesis by (simp only: of_int_add)
  qed
  finally show ?thesis .
qed

lemma bitRotateLeft_word:
  assumes "0 < s" "s < 32"
  shows "w32 (bitRotateLeft x (int s)) = word_rotl s (w32 x)"
proof -
  have n: "nat (32 - int s) = 32 - s" using assms by auto
  have "push_bit s w OR drop_bit (32 - s) w = word_rotl s w" for w :: "32 word"
  proof (rule bit_word_eqI)
    fix k assume k: "k < LENGTH(32)"
    show "bit (push_bit s w OR drop_bit (32 - s) w) k = bit (word_rotl s w) k"
    proof (cases "k < s")
      case True
      then have "(k + (32 - s)) mod 32 = k + (32 - s)" using assms by simp
      moreover have "bit (drop_bit (32 - s) w) k = bit w (k + (32 - s))" by (simp add: bit_drop_bit_eq add.commute)
      moreover have "bit (word_rotl s w) k = bit w ((k + (32 - s)) mod 32)" using k assms by (simp add: bit_word_rotl_iff)
      ultimately show ?thesis using True by (simp add: bit_or_iff bit_push_bit_iff)
    next
      case False
      then have "(k + (32 - s)) mod 32 = k - s" using k assms by (simp add: mod_if)
      moreover have "\<not> bit w (32 - s + k)" using False k assms by (auto dest!: bit_imp_le_length)
      ultimately show ?thesis using k False assms by (simp add: bit_simps)
    qed
  qed
  then show ?thesis using assms n
    by (simp add: bitRotateLeft_def w32_bitwise w32_shl w32_shr)
qed

lemma md5_call_word:
  assumes "0 < s" "s < 32"
  shows "w32 (md5_call f a b c d x (int s) t)
    = w32 b + word_rotl s (w32 a + rfc_fun f (w32 b) (w32 c) (w32 d) + w32 x + w32 t)"
  using assms
  by (cases f) (simp_all add: md5ff_def md5gg_def md5hh_def md5ii_def md5cmn_def safeAdd_word bitRotateLeft_word
      w32_bitwise add.assoc add.commute [of "w32 b"] xor.assoc)

subsection \<open>Blocks\<close>

definition abs4 :: "md5_state \<Rightarrow> rfc_state" where
  "abs4 = (\<lambda>(a, b, c, d). (w32 a, w32 b, w32 c, w32 d))"

lemma md5_statements_rfc:
  "map (\<lambda>(f, k, s, t). (f, k, nat s, w32 t)) md5_statements = rfc_ops"
  "list_all (\<lambda>(f, k, s, t). 0 < s \<and> s < 32) md5_statements"
  by code_simp+

lemma md5_statement_word:
  assumes "0 < s" "s < 32"
  shows "abs4 (md5_statement x i st (f, k, s, t)) = rfc_op (\<lambda>k. w32 (at0 x (i + k))) (abs4 st) (f, k, nat s, w32 t)"
proof -
  obtain a b c d where st: "st = (a, b, c, d)" by (cases st)
  show ?thesis using md5_call_word [of "nat s"] assms
    by (simp add: st abs4_def md5_statement_def rfc_op_def)
qed

lemma md5_statements_word:
  assumes "list_all (\<lambda>(f, k, s, t). 0 < s \<and> s < 32) ss"
  shows "abs4 (foldl (md5_statement x i) st ss)
    = foldl (rfc_op (\<lambda>k. w32 (at0 x (i + k)))) (abs4 st) (map (\<lambda>(f, k, s, t). (f, k, nat s, w32 t)) ss)"
  using assms
proof (induction ss arbitrary: st)
  case (Cons p ss)
  obtain f k s t where p: "p = (f, k, s, t)" by (cases p)
  show ?case using Cons md5_statement_word [of s x i st f k t] by (simp add: p)
qed simp

lemma md5_block_word: "abs4 (md5_block x st i) = rfc_block (\<lambda>k. w32 (at0 x (i + k))) (abs4 st)"
proof -
  obtain a b c d where st: "st = (a, b, c, d)" by (cases st)
  obtain a' b' c' d' where f: "foldl (md5_statement x i) (a, b, c, d) md5_statements = (a', b', c', d')"
    by (cases "foldl (md5_statement x i) (a, b, c, d) md5_statements")
  have g: "foldl (rfc_op (\<lambda>k. w32 (at0 x (i + k)))) (w32 a, w32 b, w32 c, w32 d) rfc_ops = (w32 a', w32 b', w32 c', w32 d')"
    using md5_statements_word [OF md5_statements_rfc(2), of x i st]
    by (simp only: st f md5_statements_rfc(1) abs4_def prod.case)
  show ?thesis
    unfolding md5_block_def rfc_block_def st by (simp only: f g abs4_def prod.case Let_def safeAdd_word)
qed

subsection \<open>Padding\<close>

lemma le_bit_append:
  "le_bit (xs @ ys) p = (if p < 8 * length xs then le_bit xs p else le_bit ys (p - 8 * length xs))"
proof (cases "p < 8 * length xs")
  case True
  then have "p div 8 < length xs" by (simp add: less_mult_imp_div_less mult.commute)
  then show ?thesis using True by (simp add: le_bit_def nth_append)
next
  case False
  then have "p = 8 * length xs + (p - 8 * length xs)" by simp
  then obtain q where p: "p = q + length xs * 8" by (metis add.commute mult.commute)
  show ?thesis by (simp add: p le_bit_def nth_append)
qed

lemma le_bit_one: "le_bit [0x80] p \<longleftrightarrow> p = 7"
proof -
  have b: "bit (0x80 :: byte) n \<longleftrightarrow> n = 7" for n
  proof -
    have eq: "(0x80 :: byte) = push_bit 7 1" by simp
    show ?thesis unfolding eq by (simp only: bit_push_bit_iff bit_1_iff possible_bit_word) auto
  qed
  show ?thesis
  proof (cases "p < 8")
    case True
    then have "p div 8 = 0" "p mod 8 = p" by auto
    then show ?thesis using b [of p] by (simp only: le_bit_def) simp
  qed (auto simp: le_bit_def)
qed

lemma le_bit_zeros: "\<not> le_bit (replicate z 0) p"
  by (simp add: le_bit_def)

lemma le_bit_le_bytes: "le_bit (le_bytes k v) p \<longleftrightarrow> p < 8 * k \<and> bit v p"
proof -
  have "bit (u8 (v div 2 ^ (8 * i))) n = (n < 8 \<and> bit v (8 * i + n))" for i n
    by (simp add: u8_def bit_simps flip: drop_bit_eq_div)
  then have "p div 8 < k \<Longrightarrow> bit (u8 (v div 2 ^ (8 * (p div 8)))) (p mod 8) = bit v p" by simp
  moreover have "p div 8 < k \<longleftrightarrow> p < 8 * k" by (simp add: div_less_iff_less_mult mult.commute)
  ultimately show ?thesis by (auto simp: le_bit_def le_bytes_def)
qed

lemma word_pos: "(32 * j + m) div 8 = 4 * j + m div 8" "(32 * j + m) mod 8 = m mod 8" for j m :: nat
  using div_mult_self2 [of 8 m "4 * j"] mod_mult_self2 [of m 8 "4 * j"] by (simp_all add: add.commute)

lemma bit_le_word:
  assumes "m < 32"
  shows "bit (le_word bs j) m = le_bit bs (32 * j + m)"
proof -
  have b: "bit (if 4 * j + k < length bs then push_bit (8 * k) (ucast (bs ! (4 * j + k))) else 0 :: 32 word) m
     = (8 * k \<le> m \<and> m < 8 * k + 8 \<and> 4 * j + k < length bs \<and> bit (bs ! (4 * j + k)) (m - 8 * k))" for k
    using assms by (auto simp: bit_simps dest: bit_imp_le_length)
  consider "m < 8" "m div 8 = 0" "m mod 8 = m" | "8 \<le> m" "m < 16" "m div 8 = 1" "m mod 8 = m - 8"
    | "16 \<le> m" "m < 24" "m div 8 = 2" "m mod 8 = m - 16" | "24 \<le> m" "m div 8 = 3" "m mod 8 = m - 24"
    using assms by (cases "m < 8"; cases "m < 16"; cases "m < 24") (auto simp: div_nat_eqI mod_nat_eqI intro: that)
  then show ?thesis
    unfolding le_word_def Let_def bit_or_iff b le_bit_def word_pos
    by cases (use assms in auto)
qed

lemma at0_array_put: "at0 (array_put x i v) j = (if j = i then v else at0 x j)"
  by (auto simp: at0_def array_put_def nth_append nth_list_update)

lemma length_array_put: "length (array_put x i v) = max (length x) (Suc i)"
  by (simp add: array_put_def)

lemma byte_and: "js_and (uint (b :: 8 word)) 0xFF = uint b"
proof -
  have b: "uint b < 256" "0 \<le> uint b" using uint_lt2p [of b] by simp_all
  then have "uint b AND 0xFF = uint b"
    using take_bit_eq_mask [of 8 "uint b"] by (simp add: take_bit_int_eq_self mask_eq_exp_minus_1)
  moreover have "toInt32 (uint b) = uint b" using b by (intro toInt32_id) (rule order_trans [of _ 0], simp_all)
  ultimately show ?thesis by (simp only: js_and_eq)
qed

text \<open>A byte at its place in a word.\<close>

lemma bit_byte_at:
  assumes "m < 32"
  shows "bit (w32 (js_shl (js_and (uint (b :: 8 word)) 0xFF) (8 * int (n mod 4)))) m
    = (8 * (n mod 4) \<le> m \<and> m < 8 * (n mod 4) + 8 \<and> bit b (m - 8 * (n mod 4)))"
proof -
  have "8 * int (n mod 4) < 32" by simp
  moreover have "nat (8 * int (n mod 4)) = 8 * (n mod 4)" by simp
  ultimately show ?thesis unfolding byte_and using assms
    by (subst w32_shl) (auto simp: bit_simps dest: bit_imp_le_length)
qed

lemma byte_of_bit:
  fixes n m :: nat
  assumes "m < 32"
  shows "(32 * (n div 4) + m) div 8 = n \<longleftrightarrow> 8 * (n mod 4) \<le> m \<and> m < 8 * (n mod 4) + 8"
proof -
  have "(32 * (n div 4) + m) div 8 = 4 * (n div 4) + m div 8" by (rule word_pos)
  moreover have "4 * (n div 4) + n mod 4 = n" by simp
  ultimately have "(32 * (n div 4) + m) div 8 = n \<longleftrightarrow> m div 8 = n mod 4" by linarith
  also have "\<dots> \<longleftrightarrow> 8 * (n mod 4) \<le> m \<and> m < 8 * (n mod 4) + 8" by linarith
  finally show ?thesis .
qed

lemma rstr2binl_prefix:
  assumes "n \<le> length msg"
  shows "let out = foldl (\<lambda>out i. array_put out (i div 4)
       (js_or (at0 out (i div 4)) (js_shl (js_and (uint (msg ! i)) 0xFF) (8 * int (i mod 4)))))
     (replicate (length msg div 4) 0) [0..<n]
    in length out \<le> Suc (length msg div 4)
      \<and> (\<forall>j m. m < 32 \<longrightarrow> bit (w32 (at0 out j)) m = (32 * j + m < 8 * n \<and> le_bit msg (32 * j + m)))"
  using assms
proof (induction n)
  case 0
  have "at0 (replicate k 0) j = 0" for k j by (simp add: at0_def)
  then show ?case by simp
next
  case (Suc n)
  define out where "out = foldl (\<lambda>out i. array_put out (i div 4)
       (js_or (at0 out (i div 4)) (js_shl (js_and (uint (msg ! i)) 0xFF) (8 * int (i mod 4)))))
     (replicate (length msg div 4) 0) [0..<n]"
  have ih: "length out \<le> Suc (length msg div 4)"
    "\<And>j m. m < 32 \<Longrightarrow> bit (w32 (at0 out j)) m = (32 * j + m < 8 * n \<and> le_bit msg (32 * j + m))"
    using Suc by (auto simp: out_def Let_def)
  let ?v = "js_shl (js_and (uint (msg ! n)) 0xFF) (8 * int (n mod 4))"
  note v = bit_byte_at [of _ "msg ! n" n] and pos = byte_of_bit [of _ n]
  have "bit (w32 (at0 (array_put out (n div 4) (js_or (at0 out (n div 4)) ?v)) j)) m
      = (32 * j + m < 8 * Suc n \<and> le_bit msg (32 * j + m))" if "m < 32" for j m
  proof (cases "(32 * j + m) div 8 = n")
    case True
    then have p: "\<not> 32 * j + m < 8 * n" "32 * j + m < 8 * Suc n" by auto
    have j: "j = n div 4" using True that by auto
    have lb: "le_bit msg (32 * j + m) = bit (msg ! n) ((32 * j + m) mod 8)"
      using True Suc.prems by (simp add: le_bit_def)
    have "(32 * j + m) mod 8 = m mod 8" by (rule word_pos)
    moreover have "(32 * j + m) div 8 = 4 * j + m div 8" by (rule word_pos)
    then have "m div 8 = n mod 4" using True j div_mult_mod_eq [of n 4] by linarith
    ultimately have "(32 * j + m) mod 8 = m - 8 * (n mod 4)" by (simp flip: minus_mult_div_eq_mod)
    then show ?thesis
      using p lb True that ih(2) [OF that, of j] v [OF that] pos [OF that] unfolding j
      by (simp add: at0_array_put w32_bitwise bit_or_iff)
  next
    case False
    then have p: "32 * j + m < 8 * Suc n \<longleftrightarrow> 32 * j + m < 8 * n" by auto
    show ?thesis
    proof (cases "j = n div 4")
      case True
      then show ?thesis using False that ih(2) [OF that, of j] v [OF that] pos [OF that] p
        by (auto simp: at0_array_put w32_bitwise bit_or_iff)
    next
      case jn: False
      then show ?thesis using ih(2) [OF that, of j] p by (simp add: at0_array_put)
    qed
  qed
  moreover have "length (array_put out (n div 4) (js_or (at0 out (n div 4)) ?v)) \<le> Suc (length msg div 4)"
    using ih(1) Suc.prems by (simp add: length_array_put div_le_mono)
  ultimately show ?case unfolding Let_def by (simp add: out_def)
qed

lemma rstr2binl_bits:
  assumes "m < 32"
  shows "bit (w32 (at0 (rstr2binl msg) j)) m = le_bit msg (32 * j + m)"
proof -
  have "le_bit msg (32 * j + m) \<Longrightarrow> 32 * j + m < 8 * length msg"
    by (simp add: le_bit_def div_less_iff_less_mult mult.commute)
  then show ?thesis using rstr2binl_prefix [of "length msg" msg] assms by (auto simp: rstr2binl_def Let_def)
qed

lemma length_rstr2binl: "length (rstr2binl msg) \<le> Suc (length msg div 4)"
  using rstr2binl_prefix [of "length msg" msg] by (simp add: rstr2binl_def Let_def)

text \<open>The padded words of the code are the words of the padded message.\<close>

lemma pad_zeros: "n + 1 + (119 - n mod 64) mod 64 + 8 = 64 * ((n + 8) div 64 + 1)" for n :: nat
proof -
  define q r where "q = n div 64" and "r = n mod 64"
  have n: "n = 64 * q + r" "r < 64" by (simp_all add: q_def r_def)
  show ?thesis
  proof (cases "r < 56")
    case True
    then have "(119 - r) mod 64 = 55 - r" by (simp add: mod_if)
    moreover have "(n + 8) div 64 = q" using True n by simp
    ultimately show ?thesis using True n by (simp flip: r_def)
  next
    case False
    then have "(119 - r) mod 64 = 119 - r" by simp
    moreover have "(n + 8) div 64 = q + 1" using False n by simp
    ultimately show ?thesis using False n by (simp flip: r_def)
  qed
qed

lemma pad_sizes:
  fixes n :: nat
  shows "length msg = n \<Longrightarrow> length (rfc_pad msg) = 64 * ((n + 8) div 64 + 1)"
    and "n div 4 < 16 * ((n + 8) div 64) + 14"
proof -
  show "length msg = n \<Longrightarrow> length (rfc_pad msg) = 64 * ((n + 8) div 64 + 1)"
    using pad_zeros [of n] by (simp add: rfc_pad_def le_bytes_def)
  have "n + 8 < 64 * ((n + 8) div 64) + 64" by linarith
  then show "n div 4 < 16 * ((n + 8) div 64) + 14" by linarith
qed

lemma bit_128: "bit (128 :: 32 word) k \<longleftrightarrow> k = 7"
proof -
  have eq: "(128 :: 32 word) = push_bit 7 1" by simp
  show ?thesis unfolding eq by (simp only: bit_push_bit_iff bit_1_iff possible_bit_word) auto
qed

lemma le_bit_one_Cons: "le_bit (0x80 # ys) p = (if p < 8 then p = 7 else le_bit ys (p - 8))"
  using le_bit_append [of "[0x80]" ys p] by (simp add: le_bit_one)

lemma rfc_pad_bits:
  fixes msg :: bytes
  defines "n \<equiv> length msg" and "K \<equiv> 16 * ((length msg + 8) div 64) + 14"
  shows "le_bit (rfc_pad msg) p \<longleftrightarrow>
    (if p < 8 * n then le_bit msg p else if p < 32 * K then p = 8 * n + 7
     else p < 32 * K + 64 \<and> bit (8 * int n) (p - 32 * K))"
proof -
  define z where "z = (119 - n mod 64) mod 64"
  have "n + 1 + z = 4 * K" using pad_zeros [of n] unfolding z_def K_def n_def [symmetric] by simp
  then have z: "8 * n + 8 + 8 * z = 32 * K" by simp
  have "rfc_pad msg = msg @ [0x80] @ replicate z 0 @ le_bytes 8 (8 * int n)"
    by (simp add: rfc_pad_def z_def n_def)
  then show ?thesis using z
    by (simp add: le_bit_append le_bit_one_Cons le_bit_zeros le_bit_le_bytes n_def [symmetric]) auto
qed

text \<open>Word lists that stand for a byte string.\<close>

definition represents :: "int list \<Rightarrow> bytes \<Rightarrow> bool" where
  "represents x msg \<longleftrightarrow> length x \<le> Suc (length msg div 4)
     \<and> (\<forall>j m. m < 32 \<longrightarrow> bit (w32 (at0 x j)) m = le_bit msg (32 * j + m))"

lemma represents_rstr2binl: "represents (rstr2binl msg) msg"
  by (simp add: represents_def length_rstr2binl rstr2binl_bits)

lemma md5_pad_eq:
  assumes "8 * length msg < 2 ^ 31"
  defines "n \<equiv> length msg" and "K \<equiv> 16 * ((length msg + 8) div 64) + 14"
  shows "md5_pad x (int (length msg) * 8) = array_put (array_put x (n div 4)
       (js_or (at0 x (n div 4)) (js_shl 0x80 (8 * int (n mod 4))))) K (8 * int n)"
proof -
  have n: "int (length msg) * 8 = 8 * int n" "8 * int n < 2 ^ 31" using assms(1) by (auto simp: n_def)
  have "js_sar (8 * int n) 5 = 8 * int n div 32"
    using n by (simp add: js_sar_def toInt32_id)
  then have 1: "nat (js_sar (8 * int n) 5) = n div 4" by (simp add: nat_div_distrib)
  have 2: "8 * int n mod 32 = 8 * int (n mod 4)" by (simp add: zmod_int mult_mod_right)
  have "js_shr (8 * int n + 64) 9 = (8 * int n + 64) div 512"
    using n by (simp add: js_shr_def toUint32_mod)
  also have "\<dots> = int ((n + 8) div 64)" by (simp add: zdiv_int)
  finally have 3: "js_shl (js_shr (8 * int n + 64) 9) 4 = 16 * int ((n + 8) div 64)"
    using n by (simp add: js_shl_eq toInt32_id mult.commute zdiv_int)
  have "nat (16 * int ((n + 8) div 64) + 14) = K"
    unfolding K_def n_def [symmetric] by (simp add: nat_add_distrib nat_mult_distrib)
  then show ?thesis
    unfolding md5_pad_def Let_def n(1) 1 2 3 by simp
qed

lemma bit_marker:
  assumes "m < 32"
  shows "bit (w32 (js_shl 0x80 (8 * int (n mod 4)))) m = (m = 8 * (n mod 4) + 7)"
proof -
  have "nat (8 * int (n mod 4)) = 8 * (n mod 4)" by simp
  moreover have r: "8 * (n mod 4) + 7 < 32" using mod_less_divisor [of 4 n] by linarith
  ultimately have "w32 (js_shl 0x80 (8 * int (n mod 4))) = push_bit (8 * (n mod 4)) 128"
    using w32_shl [of "8 * int (n mod 4)" 128] by simp
  then show ?thesis using assms r by (simp only: bit_push_bit_iff bit_128 possible_bit_word) auto
qed

lemma marker_pos:
  fixes n j m :: nat
  assumes "m < 32"
  shows "32 * j + m = 8 * n + 7 \<longleftrightarrow> j = n div 4 \<and> m = 8 * (n mod 4) + 7"
proof -
  define q r where "q = n div 4" and "r = n mod 4"
  have n: "n = 4 * q + r" "r < 4" by (simp_all add: q_def r_def)
  have "(32 * j + m) div 32 = j" "(32 * q + (8 * r + 7)) div 32 = q" using assms n(2) by simp_all
  moreover have "8 * n + 7 = 32 * q + (8 * r + 7)" using n(1) by simp
  ultimately have "32 * j + m = 8 * n + 7 \<longleftrightarrow> j = q \<and> m = 8 * r + 7" by (metis add_left_cancel)
  then show ?thesis by (simp only: q_def r_def)
qed

lemma no_high_bit:
  assumes "8 * n < 2 ^ 31" "32 \<le> k"
  shows "\<not> bit (8 * int n) k"
proof -
  have "8 * int n < 2 ^ k" using assms power_increasing [of 31 k "2 :: int"] by simp
  then have "8 * int n div 2 ^ k = 0" by simp
  then show ?thesis by (simp add: bit_iff_odd)
qed

lemma md5_pad_words:
  assumes "8 * length msg < 2 ^ 31" and x: "represents x msg"
  shows "w32 (at0 (md5_pad x (int (length msg) * 8)) j) = le_word (rfc_pad msg) j"
    and "length (md5_pad x (int (length msg) * 8)) = 16 * ((length msg + 8) div 64) + 15"
proof -
  define n K where "n = length msg" and "K = 16 * ((n + 8) div 64) + 14"
  have nK: "n div 4 < K" using pad_sizes(2) [of n] by (simp add: K_def)
  have eq: "md5_pad x (int (length msg) * 8) = array_put (array_put x (n div 4)
       (js_or (at0 x (n div 4)) (js_shl 0x80 (8 * int (n mod 4))))) K (8 * int n)"
    using md5_pad_eq [OF assms(1)] by (simp only: n_def K_def)
  show "length (md5_pad x (int (length msg) * 8)) = 16 * ((length msg + 8) div 64) + 15"
    using nK x unfolding eq represents_def by (simp add: length_array_put K_def n_def)
  note one = bit_marker [of _ n]
  have bits: "bit (w32 (at0 (md5_pad x (int (length msg) * 8)) j)) m = le_bit (rfc_pad msg) (32 * j + m)"
    if m: "m < 32" for m
  proof -
    have base: "bit (w32 (at0 x j)) m = le_bit msg (32 * j + m)"
      using x m by (simp add: represents_def)
    have le: "le_bit msg (32 * j + m) \<Longrightarrow> 32 * j + m < 8 * n"
      by (simp add: n_def le_bit_def div_less_iff_less_mult mult.commute)
    note pos = marker_pos [OF m, of j n]
    have rb: "le_bit (rfc_pad msg) (32 * j + m) = (if 32 * j + m < 8 * n then le_bit msg (32 * j + m)
       else if 32 * j + m < 32 * K then 32 * j + m = 8 * n + 7
       else 32 * j + m < 32 * K + 64 \<and> bit (8 * int n) (32 * j + m - 32 * K))"
      using rfc_pad_bits [of msg "32 * j + m"] by (simp only: n_def K_def)
    consider "j = K" | "j < K" | "j > K" by linarith
    then show ?thesis
    proof cases
      case 1
      have "\<not> 32 * K + m < 8 * n" using nK by linarith
      moreover have "bit (w32 (8 * int n)) m = bit (8 * int n) m"
        using m by (simp only: bit_word_of_int_iff) simp
      ultimately show ?thesis unfolding rb eq using 1 m by (simp add: at0_array_put del: of_int_mult of_int_numeral)
    next
      case 2
      then have "32 * j + m < 32 * K" using m by simp
      with 2 show ?thesis unfolding rb eq
        using base le pos one [OF m] by (auto simp: at0_array_put w32_bitwise bit_or_iff)
    next
      case 3
      then have g: "\<not> 32 * j + m < 32 * K" "\<not> 32 * j + m < 8 * n" "32 \<le> 32 * j + m - 32 * K" "j \<noteq> n div 4"
        using nK by auto
      have "\<not> bit (8 * int n) k" if "32 \<le> k" for k using no_high_bit [OF _ that] assms(1) by (simp add: n_def)
      then show ?thesis unfolding rb eq using g 3 base le by (auto simp: at0_array_put)
    qed
  qed
  show "w32 (at0 (md5_pad x (int (length msg) * 8)) j) = le_word (rfc_pad msg) j"
    using bits by (intro bit_word_eqI) (simp add: bit_le_word)
qed

subsection \<open>The digest\<close>

lemma binl2rstr_word:
  "binl2rstr [a, b, c, d] = concat (map (\<lambda>w. le_bytes 4 (uint w)) [w32 a, w32 b, w32 c, w32 d])"
proof -
  have b: "u8 (js_and (js_shr x k) 0xFF) = u8 (uint (w32 x) div 2 ^ nat k)" if "0 \<le> k" "k < 32" for x k
  proof (rule bit_word_eqI)
    fix m assume "m < LENGTH(8)"
    then have m: "m < 8" by simp
    have s: "js_shr x k = uint (w32 x) div 2 ^ nat k" using that by (simp add: js_shr_def toUint32_def)
    have "(0xFF :: int) = mask 8" by (simp add: mask_eq_exp_minus_1)
    then have "bit (0xFF :: int) m" using m by (simp only: bit_mask_iff) simp
    then show "bit (u8 (js_and (js_shr x k) 0xFF)) m = bit (u8 (uint (w32 x) div 2 ^ nat k)) m"
      using m unfolding s by (simp add: js_and_eq toInt32_def u8_def bit_simps signed_of_int)
  qed
  have u: "[0..<16] = [0, 1, 2, 3, 4, 5, 6, 7, 8, 9, 10, 11, 12, 13, 14, 15]" "[0..<4] = [0, 1, 2, 3]"
    by (simp_all add: upt_rec)
  show ?thesis
    by (simp add: binl2rstr_def le_bytes_def u b)
qed

lemma foldl_md5_block:
  "abs4 (foldl (md5_block x) st (map (\<lambda>k. 16 * k) ks))
     = foldl (\<lambda>st k. rfc_block (\<lambda>j. w32 (at0 x (16 * k + j))) st) (abs4 st) ks"
  by (induction ks arbitrary: st) (simp_all add: md5_block_word)

definition rfc_digest :: "bytes \<Rightarrow> rfc_state" where
  "rfc_digest msg = foldl (\<lambda>st k. rfc_block (\<lambda>j. le_word (rfc_pad msg) (16 * k + j)) st)
     (0x67452301, 0xefcdab89, 0x98badcfe, 0x10325476) [0..<length (rfc_pad msg) div 64]"

lemma rfc_md5_digest: "rfc_digest msg = (a, b, c, d) \<Longrightarrow> rfc_md5 msg = concat (map (\<lambda>w. le_bytes 4 (uint w)) [a, b, c, d])"
  by (simp add: rfc_md5_def rfc_digest_def Let_def)

lemma binlMD5_digest:
  assumes "8 * length msg < 2 ^ 31" "represents x msg"
  shows "\<exists>a b c d. binlMD5 x (int (length msg) * 8) = [a, b, c, d] \<and> rfc_digest msg = (w32 a, w32 b, w32 c, w32 d)"
proof -
  let ?x = "md5_pad x (int (length msg) * 8)"
  let ?ks = "[0..<(length msg + 8) div 64 + 1]"
  obtain a b c d where st: "foldl (md5_block ?x) (1732584193, -271733879, -1732584194, 271733878)
      (map (\<lambda>k. 16 * k) ?ks) = (a, b, c, d)"
    by (cases "foldl (md5_block ?x) (1732584193, -271733879, -1732584194, 271733878) (map (\<lambda>k. 16 * k) ?ks)")
  have init: "abs4 (1732584193, -271733879, -1732584194, 271733878) = (0x67452301, 0xefcdab89, 0x98badcfe, 0x10325476)"
    by (simp add: abs4_def)
  have "(length ?x + 15) div 16 = (length msg + 8) div 64 + 1"
    unfolding md5_pad_words(2) [OF assms] by simp
  then have "binlMD5 x (int (length msg) * 8) = [a, b, c, d]"
    unfolding binlMD5_def Let_def by (simp only: st prod.case)
  moreover have "rfc_digest msg = (w32 a, w32 b, w32 c, w32 d)"
    using foldl_md5_block [of ?x "(1732584193, -271733879, -1732584194, 271733878)" ?ks]
    unfolding st init md5_pad_words(1) [OF assms] by (simp add: rfc_digest_def pad_sizes(1) [OF refl] abs4_def)
  ultimately show ?thesis by blast
qed

lemma rstrMD5_rfc:
  assumes "8 * length msg < 2 ^ 31"
  shows "rstrMD5 msg = rfc_md5 msg"
  using binlMD5_digest [OF assms represents_rstr2binl] by (auto simp: rstrMD5_def binl2rstr_word rfc_md5_digest)

subsection \<open>Keyed digests: RFC 2104\<close>

definition rfc_hmac_md5 :: "bytes \<Rightarrow> bytes \<Rightarrow> bytes" where
  "rfc_hmac_md5 key data =
     (let k0 = (if length key > 64 then rfc_md5 key else key);
          k = k0 @ replicate (64 - length k0) 0
      in rfc_md5 (map (\<lambda>b. b XOR 0x5C) k @ rfc_md5 (map (\<lambda>b. b XOR 0x36) k @ data)))"

lemma le_bit_le_bytes_word: "le_bit (le_bytes 4 (uint (w :: 32 word))) p \<longleftrightarrow> bit w p"
  by (auto simp: le_bit_le_bytes bit_uint_iff dest: bit_imp_le_length)

lemma length_le_bytes [simp]: "length (le_bytes k v) = k"
  by (simp add: le_bytes_def)

lemma represents_digest:
  assumes "rfc_digest msg = (w32 a, w32 b, w32 c, w32 d)"
  shows "represents [a, b, c, d] (rfc_md5 msg)"
proof -
  have "le_bit (rfc_md5 msg) (32 * j + m) = bit (w32 (at0 [a, b, c, d] j)) m" if "m < 32" for j m
  proof -
    have out: "\<not> le_bit (rfc_md5 msg) (32 * j + m)" "at0 [a, b, c, d] j = 0" if "4 \<le> j"
    proof -
      have "\<not> (32 * j + m) div 8 < 16" using that by simp
      then show "\<not> le_bit (rfc_md5 msg) (32 * j + m)" by (simp add: rfc_md5_digest [OF assms] le_bit_def)
      show "at0 [a, b, c, d] j = 0" using that by (simp add: at0_def)
    qed
    consider "j = 0" | "j = 1" | "j = 2" | "j = 3" | "4 \<le> j" by linarith
    then show ?thesis
      using that by cases (simp_all add: out, simp_all add: rfc_md5_digest [OF assms] le_bit_append
        le_bit_le_bytes_word at0_def bit_simps le_bit_le_bytes)
  qed
  then show ?thesis by (simp add: represents_def rfc_md5_digest [OF assms])
qed

lemma at0_append: "at0 (x @ y) j = (if j < length x then at0 x j else at0 y (j - length x))"
  by (auto simp: at0_def nth_append)

lemma represents_append:
  assumes "represents x a" "represents y b" "length x = 16" "length a = 64"
  shows "represents (x @ y) (a @ b)"
proof -
  have "bit (w32 (at0 (x @ y) j)) m = le_bit (a @ b) (32 * j + m)" if m: "m < 32" for j m
  proof (cases "j < 16")
    case True
    then have "bit (w32 (at0 x j)) m = le_bit a (32 * j + m)" using assms(1) m by (simp add: represents_def)
    then show ?thesis using True m assms(3,4) by (simp add: at0_append le_bit_append)
  next
    case False
    then have "bit (w32 (at0 y (j - 16))) m = le_bit b (32 * (j - 16) + m)" using assms(2) m by (simp add: represents_def)
    moreover have "32 * j + m - 512 = 32 * (j - 16) + m" using False by simp
    ultimately show ?thesis using False m assms(3,4) by (simp add: at0_append le_bit_append)
  qed
  moreover have "length (x @ y) \<le> Suc (length (a @ b) div 4)"
  proof -
    have "(64 + length b) div 4 = 16 + length b div 4" by linarith
    then show ?thesis using assms by (simp add: represents_def)
  qed
  ultimately show ?thesis unfolding represents_def by blast
qed

lemma represents_xor:
  assumes x: "represents x k0" and "length k0 \<le> 64" and c: "\<And>m. m < 32 \<Longrightarrow> bit (w32 C) m = bit (c :: byte) (m mod 8)"
  shows "represents (map (\<lambda>i. js_xor (at0 x i) C) [0..<16]) (map (\<lambda>b. b XOR c) (k0 @ replicate (64 - length k0) 0))"
proof -
  let ?k = "k0 @ replicate (64 - length k0) 0"
  have "bit (w32 (at0 (map (\<lambda>i. js_xor (at0 x i) C) [0..<16]) j)) m = le_bit (map (\<lambda>b. b XOR c) ?k) (32 * j + m)"
    if m: "m < 32" for j m
  proof (cases "j < 16")
    case True
    have "(32 * j + m) div 8 < 64" using True m by simp
    then have "le_bit (map (\<lambda>b. b XOR c) ?k) (32 * j + m) = (le_bit ?k (32 * j + m) \<noteq> bit c (m mod 8))"
      using assms(2) by (simp add: le_bit_def bit_xor_iff word_pos nth_append)
    also have "le_bit ?k (32 * j + m) = le_bit k0 (32 * j + m)"
    proof -
      have "le_bit k0 (32 * j + m) \<Longrightarrow> 32 * j + m < 8 * length k0"
        by (simp add: le_bit_def div_less_iff_less_mult mult.commute)
      then show ?thesis by (auto simp: le_bit_append le_bit_zeros)
    qed
    finally show ?thesis using True m x c [OF m]
      by (simp add: at0_def [of "map _ _"] w32_bitwise bit_xor_iff represents_def)
  next
    case False
    then have "\<not> (32 * j + m) div 8 < 64" by simp
    then show ?thesis using False assms(2) by (simp add: at0_def le_bit_def)
  qed
  then show ?thesis using assms(2) by (simp add: represents_def)
qed

lemma length_rfc_md5: "length (rfc_md5 msg) = 16"
  by (cases "rfc_digest msg") (simp add: rfc_md5_digest)

lemma length_foldl_put:
  "length (foldl (\<lambda>out i. array_put out (i div 4) (v out i)) out0 [0..<n]) = max (length out0) ((n + 3) div 4)"
proof (induction n)
  case (Suc n)
  have "(Suc n + 3) div 4 = Suc (n div 4)" "(n + 3) div 4 \<le> Suc (n div 4)" by linarith+
  then show ?case using Suc by (simp add: length_array_put max_def)
qed simp

lemma length_rstr2binl_gt: "16 < length (rstr2binl key) \<longleftrightarrow> 64 < length key"
proof -
  have "length (rstr2binl key) = (length key + 3) div 4"
    unfolding rstr2binl_def length_foldl_put by (simp add: max_def div_le_mono)
  then show ?thesis by linarith
qed

lemma rstrHMACMD5_rfc:
  assumes "8 * (64 + length data) < 2 ^ 31" "8 * length key < 2 ^ 31"
  shows "rstrHMACMD5 key data = rfc_hmac_md5 key data"
proof -
  define k0 where "k0 = (if length key > 64 then rfc_md5 key else key)"
  define bkey where "bkey = (if length (rstr2binl key) > 16 then binlMD5 (rstr2binl key) (int (length key) * 8) else rstr2binl key)"
  have rep: "represents bkey k0"
  proof (cases "64 < length key")
    case True
    with binlMD5_digest [OF assms(2) represents_rstr2binl] represents_digest show ?thesis
      by (fastforce simp: bkey_def k0_def length_rstr2binl_gt)
  qed (simp add: bkey_def k0_def length_rstr2binl_gt represents_rstr2binl)
  have len: "length k0 \<le> 64" by (simp add: k0_def length_rfc_md5)
  have "\<forall>m \<in> set [0..<32]. bit (w32 0x36363636) m = bit (0x36 :: byte) (m mod 8)
      \<and> bit (w32 0x5C5C5C5C) m = bit (0x5C :: byte) (m mod 8)" by code_simp
  then have c: "bit (w32 0x36363636) m = bit (0x36 :: byte) (m mod 8)"
    "bit (w32 0x5C5C5C5C) m = bit (0x5C :: byte) (m mod 8)" if "m < 32" for m using that by auto
  let ?pad = "\<lambda>c. map (\<lambda>b. b XOR c) (k0 @ replicate (64 - length k0) 0)"
  let ?inner = "?pad 0x36 @ data"
  have inner: "represents (map (\<lambda>i. js_xor (at0 bkey i) 0x36363636) [0..<16] @ rstr2binl data) ?inner"
    by (intro represents_append represents_xor rep len c represents_rstr2binl) (use len in simp_all)
  have n1: "int (length ?inner) * 8 = 512 + int (length data) * 8" "8 * length ?inner < 2 ^ 31"
    using len assms(1) by simp_all
  obtain a b c' d where h: "binlMD5 (map (\<lambda>i. js_xor (at0 bkey i) 0x36363636) [0..<16] @ rstr2binl data)
      (512 + int (length data) * 8) = [a, b, c', d]" "rfc_digest ?inner = (w32 a, w32 b, w32 c', w32 d)"
    using binlMD5_digest [OF n1(2) inner] unfolding n1(1) by blast
  let ?outer = "?pad 0x5C @ rfc_md5 ?inner"
  have outer: "represents (map (\<lambda>i. js_xor (at0 bkey i) 0x5C5C5C5C) [0..<16] @ [a, b, c', d]) ?outer"
    by (intro represents_append represents_xor rep len c represents_digest [OF h(2)]) (use len in simp_all)
  have n2: "int (length ?outer) * 8 = 512 + 128" "8 * length ?outer < 2 ^ 31"
    using len by (simp_all add: length_rfc_md5)
  show ?thesis
    using binlMD5_digest [OF n2(2) outer] h(1) unfolding n2(1)
    by (auto simp: rstrHMACMD5_def rfc_hmac_md5_def Let_def bkey_def [symmetric] k0_def [symmetric] binl2rstr_word
        rfc_md5_digest)
qed

section \<open>What the digests are\<close>



text \<open>C26: The keyed digest is HMAC-MD5 of RFC 2104, for keys of any length, longer than a block or not.\<close>

theorem hmac_is_rfc2104:
  assumes "8 * (64 + length data) < 2 ^ 31" "8 * length key < 2 ^ 31"
  shows "rstrHMACMD5 key data = rfc_hmac_md5 key data"
  by (rule rstrHMACMD5_rfc [OF assms])

lemma hmac_is_rfc2104_witness:
  "rstrHMACMD5 (replicate 80 0xAA) [0x61, 0x62, 0x63] = rfc_hmac_md5 (replicate 80 0xAA) [0x61, 0x62, 0x63]"
  by (rule hmac_is_rfc2104) simp_all

end
