(* ===== verification/Url.thy ===== *)
theory Url
  imports JsRegex
begin

text \<open>
  Class \<^verbatim>\<open>Url\<close> of \<^verbatim>\<open>demos/rtsp/rtsp.dev.js\<close>: taking an address apart into protocol, credentials,
  host, port and path, and the test for absolute addresses that the RTSP client uses to resolve
  control attributes. \<open>url_parts\<close> is the abstract syntax of an address and \<open>url_print\<close> its concrete
  form; parsing a printed address gives the parts back.
\<close>

section \<open>The code\<close>

text \<open>\<^verbatim>\<open>ret.port\<close> is a number when it is a default and a string when it was written in the address;
  \<^verbatim>\<open>ret.socket\<close> takes its place for Unix sockets.\<close>

datatype port_val = PortNum int | PortStr string

record url =
  u_full :: string
  u_protocol :: string
  u_urlpath :: string
  u_basename :: string
  u_basepath :: string
  u_user :: "string option"
  u_pass :: "string option"
  u_host :: string
  u_auth :: string
  u_port :: "port_val option"
  u_portDefined :: bool
  u_location :: string
  u_socket :: "port_val option"

definition port_str :: "port_val \<Rightarrow> string" where
  "port_str p = (case p of PortNum n \<Rightarrow> int_str n | PortStr s \<Rightarrow> s)"

definition protocolDefaultPort :: "string \<Rightarrow> int" where
  "protocolDefaultPort protocol =
     (if protocol = ''rtsp'' then 554 else if protocol = ''http'' then 80
      else if protocol = ''https'' then 443 else 0)"

definition not_colon :: "char \<Rightarrow> bool" where "not_colon c \<longleftrightarrow> c \<noteq> CHR '':''"
definition not_slash :: "char \<Rightarrow> bool" where "not_slash c \<longleftrightarrow> c \<noteq> CHR ''/''"
definition dot_char :: "char \<Rightarrow> bool" where "dot_char c \<longleftrightarrow> c \<noteq> CHR 0x0A \<and> c \<noteq> CHR 0x0D"
definition not_query :: "char \<Rightarrow> bool" where "not_query c \<longleftrightarrow> c \<noteq> CHR ''?'' \<and> c \<noteq> CHR ''#''"

definition re_url :: re where
  "re_url = re_seq [Cap (Plus not_colon), Lit ''://'', Cap (Plus not_slash), Cap (Star dot_char), Eos]"

definition re_absolute :: re where
  "re_absolute = re_seq [Plus not_colon, Lit ''://'']"

text \<open>Element access of an array of strings; \<^verbatim>\<open>undefined\<close> past the end.\<close>

definition at_str :: "string list \<Rightarrow> nat \<Rightarrow> string option" where
  "at_str xs i = (if i < length xs then Some (xs ! i) else None)"

definition truthy_str :: "string option \<Rightarrow> bool" where
  "truthy_str s \<longleftrightarrow> s \<noteq> None \<and> s \<noteq> Some []"

definition Url_parse :: "string \<Rightarrow> url result" where
  "Url_parse url =
     (case re_exec re_url url of
        Some [_, protocol, login, urlpath] \<Rightarrow>
          (let parts = js_split urlpath ''/'';
               basename = takeWhile not_query (last parts);
               basepath = js_join (butlast parts) ''/'';
               loginSplit = js_split login ''@'';
               userpass = (if length loginSplit = 2 then map Some (js_split (loginSplit ! 0) '':'') else [None, None]);
               hostport = js_split (if length loginSplit = 2 then loginSplit ! 1 else loginSplit ! 0) '':'';
               user = userpass ! 0;
               pass = (if length userpass > 1 then userpass ! 1 else None);
               host = hostport ! 0;
               auth = (if truthy_str user \<and> truthy_str pass then the user @ '':'' @ the pass else []);
               port = (case at_str hostport 1 of None \<Rightarrow> PortNum (protocolDefaultPort protocol) | Some p \<Rightarrow> PortStr p);
               ret = \<lparr>u_full = url, u_protocol = protocol, u_urlpath = urlpath, u_basename = basename,
                      u_basepath = basepath, u_user = user, u_pass = pass, u_host = host, u_auth = auth,
                      u_port = Some port, u_portDefined = (at_str hostport 1 \<noteq> None),
                      u_location = host @ '':'' @ port_str port, u_socket = None\<rparr>
           in Inr (if protocol = ''unix'' then ret\<lparr>u_socket := u_port ret, u_port := None\<rparr> else ret))
      | _ \<Rightarrow> Inl (ErrMsg ''bad url''))"

definition Url_full :: "url \<Rightarrow> string" where
  "Url_full parsed = u_protocol parsed @ ''://'' @ u_location parsed @ ''/'' @ u_urlpath parsed"

definition Url_isAbsolute :: "string \<Rightarrow> bool" where
  "Url_isAbsolute url \<longleftrightarrow> re_exec re_absolute url \<noteq> None"

section \<open>Evaluating the patterns\<close>

text \<open>The greedy choice of a repetition is tried first.\<close>

lemma re_run_Cap_Rep_first:
  assumes "\<forall>c \<in> set u. p c" and "stops p s" and "m \<le> length u"
  shows "\<exists>rest. re_run (Seq (Cap (Rep p m None)) q) (u @ s)
    = map (\<lambda>(ds, v, r). (u # ds, u @ v, r)) (re_run q s) @ rest"
proof -
  have k: "rep_max p None (u @ s) = length u"
    using takeWhile_stops [OF assms(1,2)] by (simp add: rep_max_def)
  have "rev [m..<Suc (length u)] = length u # rev [m..<length u]" using assms(3) by simp
  then show ?thesis by (simp add: k comp_def)
qed

lemma exec_url:
  assumes "\<forall>c \<in> set a. not_colon c" "a \<noteq> []" and "\<forall>c \<in> set b. not_slash c" "b \<noteq> []"
    and "\<forall>c \<in> set p. dot_char c" "p = [] \<or> hd p = CHR ''/''"
  shows "re_exec re_url (a @ ''://'' @ b @ p) = Some [a @ ''://'' @ b @ p, a, b, p]"
proof -
  have path: "re_run (Seq (Cap (Star dot_char)) Eos) p = [([p], p, [])]"
    using re_run_Cap_Rep_Seq [of p dot_char "[]" 0 Eos] assms(5)
    by (simp add: stops_def head_excl_Eos)
  have "stops not_slash p" using assms(6) by (cases p) (auto simp: stops_def not_slash_def)
  from re_run_Cap_Rep_first [OF assms(3) this, of 1 "Seq (Cap (Star dot_char)) Eos"] assms(4)
  obtain rest where login: "re_run (Seq (Cap (Plus not_slash)) (Seq (Cap (Star dot_char)) Eos)) (b @ p)
      = ([b, p], b @ p, []) # rest"
    unfolding path by (auto simp: Suc_le_eq simp del: re_run.simps)
  have st: "stops not_colon (''://'' @ s)" for s by (simp add: stops_def not_colon_def)
  have ex: "head_excl not_colon (Seq (Lit ''://'') q)" for q
    by (intro head_excl_Seq head_excl_Lit) (simp add: not_colon_def)
  have "re_run re_url (a @ ''://'' @ b @ p) = map (\<lambda>(ds, v, r). (a # ds, a @ v, r))
      (re_run (Seq (Lit ''://'') (Seq (Cap (Plus not_slash)) (Seq (Cap (Star dot_char)) Eos))) (''://'' @ b @ p))"
    unfolding re_url_def re_seq.simps
    by (rule re_run_Cap_Rep_Seq) (use assms(1,2) in \<open>auto simp: Suc_le_eq st [simplified] ex\<close>)
  then show ?thesis by (simp only: re_run_Lit_Seq login) (simp add: re_exec_def)
qed

section \<open>Printing an address and parsing it\<close>

record url_parts =
  up_protocol :: string
  up_login :: "(string \<times> string) option"
  up_host :: string
  up_port :: "string option"
  up_dirs :: "string list"
  up_base :: string
  up_query :: string      \<comment> \<open>with its \<^verbatim>\<open>?\<close> or \<^verbatim>\<open>#\<close>\<close>

definition up_location :: "url_parts \<Rightarrow> string" where
  "up_location p = (case up_login p of None \<Rightarrow> [] | Some (u, w) \<Rightarrow> u @ '':'' @ w @ ''@'')
     @ up_host p @ (case up_port p of None \<Rightarrow> [] | Some n \<Rightarrow> '':'' @ n)"

definition up_path :: "url_parts \<Rightarrow> string" where
  "up_path p = concat (map (\<lambda>d. ''/'' @ d) (up_dirs p)) @ ''/'' @ up_base p @ up_query p"

definition url_print :: "url_parts \<Rightarrow> string" where
  "url_print p = up_protocol p @ ''://'' @ up_location p @ up_path p"

definition lacks :: "char list \<Rightarrow> string \<Rightarrow> bool" where
  "lacks cs s \<longleftrightarrow> (\<forall>c \<in> set cs. c \<notin> set s)"

definition url_ok :: "url_parts \<Rightarrow> bool" where
  "url_ok p \<longleftrightarrow> up_protocol p \<noteq> [] \<and> lacks '':'' (up_protocol p) \<and>
     (case up_login p of None \<Rightarrow> True
      | Some (u, w) \<Rightarrow> u \<noteq> [] \<and> w \<noteq> [] \<and> lacks '':/@'' u \<and> lacks '':/@'' w) \<and>
     up_host p \<noteq> [] \<and> lacks '':/@'' (up_host p) \<and>
     (case up_port p of None \<Rightarrow> True | Some n \<Rightarrow> lacks '':/@'' n) \<and>
     (\<forall>d \<in> set (up_dirs p). lacks [CHR ''/'', CHR 0x0A, CHR 0x0D] d) \<and>
     lacks [CHR ''/'', CHR ''?'', CHR ''#'', CHR 0x0A, CHR 0x0D] (up_base p) \<and>
     lacks [CHR ''/'', CHR 0x0A, CHR 0x0D] (up_query p) \<and>
     (up_query p = [] \<or> \<not> not_query (hd (up_query p)))"

text \<open>The object that parsing should give, written directly from the parts.\<close>

definition url_of :: "url_parts \<Rightarrow> url" where
  "url_of p =
     (let port = (case up_port p of None \<Rightarrow> PortNum (protocolDefaultPort (up_protocol p)) | Some n \<Rightarrow> PortStr n);
          is_unix = (up_protocol p = ''unix'')
      in \<lparr>u_full = url_print p, u_protocol = up_protocol p, u_urlpath = up_path p, u_basename = up_base p,
          u_basepath = concat (map (\<lambda>d. ''/'' @ d) (up_dirs p)),
          u_user = map_option fst (up_login p), u_pass = map_option snd (up_login p), u_host = up_host p,
          u_auth = (case up_login p of None \<Rightarrow> [] | Some (u, w) \<Rightarrow> u @ '':'' @ w),
          u_port = (if is_unix then None else Some port), u_portDefined = (up_port p \<noteq> None),
          u_location = up_host p @ '':'' @ port_str port,
          u_socket = (if is_unix then Some port else None)\<rparr>)"

lemma js_split_segments:
  assumes "\<forall>d \<in> set ds. CHR ''/'' \<notin> set d" "CHR ''/'' \<notin> set b"
  shows "js_split (concat (map (\<lambda>d. ''/'' @ d) ds) @ ''/'' @ b) ''/'' = [] # ds @ [b]"
proof -
  have "js_split (x @ concat (map (\<lambda>d. ''/'' @ d) ds) @ ''/'' @ b) ''/'' = x # ds @ [b]"
    if "CHR ''/'' \<notin> set x" for x
    using assms(1) that
  proof (induction ds arbitrary: x)
    case Nil
    then show ?case using assms(2) by (simp add: js_split_char js_split_char_none)
  next
    case (Cons d ds)
    then show ?case by (simp add: js_split_char)
  qed
  from this [of "[]"] show ?thesis by simp
qed

lemma js_join_segments: "js_join ([] # ds) ''/'' = concat (map (\<lambda>d. ''/'' @ d) ds)"
proof -
  have "js_join (x # ds) ''/'' = x @ concat (map (\<lambda>d. ''/'' @ d) ds)" for x
    by (induction ds arbitrary: x) auto
  from this [of "[]"] show ?thesis by simp
qed

lemma split_hostport:
  assumes "CHR '':'' \<notin> set h" "case q of None \<Rightarrow> True | Some n \<Rightarrow> CHR '':'' \<notin> set n"
  shows "js_split (h @ (case q of None \<Rightarrow> [] | Some n \<Rightarrow> '':'' @ n)) '':''
    = h # (case q of None \<Rightarrow> [] | Some n \<Rightarrow> [n])"
  using assms by (auto simp: js_split_char js_split_char_none split: option.splits)

lemma exec_url_print:
  assumes "url_ok p"
  shows "re_exec re_url (url_print p) = Some [url_print p, up_protocol p, up_location p, up_path p]"
  unfolding url_print_def
proof (rule exec_url)
  show "\<forall>c \<in> set (up_protocol p). not_colon c" "up_protocol p \<noteq> []"
    using assms by (auto simp: url_ok_def lacks_def not_colon_def)
  show "\<forall>c \<in> set (up_location p). not_slash c"
    using assms by (auto simp: url_ok_def lacks_def not_slash_def up_location_def split: option.splits)
  show "up_location p \<noteq> []"
    using assms by (auto simp: url_ok_def up_location_def)
  show "\<forall>c \<in> set (up_path p). dot_char c"
    using assms by (auto simp: url_ok_def lacks_def dot_char_def up_path_def)
  show "up_path p = [] \<or> hd (up_path p) = CHR ''/''"
    by (cases "up_dirs p") (auto simp: up_path_def)
qed

lemma split_login:
  assumes "url_ok p"
  shows "js_split (up_location p) ''@'' = (case up_login p of None \<Rightarrow> [] | Some (u, w) \<Rightarrow> [u @ '':'' @ w])
    @ [up_host p @ (case up_port p of None \<Rightarrow> [] | Some n \<Rightarrow> '':'' @ n)]"
proof -
  have no: "CHR ''@'' \<notin> set (up_host p @ (case up_port p of None \<Rightarrow> [] | Some n \<Rightarrow> '':'' @ n))"
    using assms by (auto simp: url_ok_def lacks_def split: option.splits)
  show ?thesis
  proof (cases "up_login p")
    case None
    then show ?thesis by (simp add: up_location_def js_split_char_none [OF no])
  next
    case (Some a)
    obtain u w where a: "a = (u, w)" by (cases a)
    have "CHR ''@'' \<notin> set (u @ '':'' @ w)" using assms Some a by (auto simp: url_ok_def lacks_def)
    from js_split_char [OF this] show ?thesis
      using Some a by (simp add: up_location_def js_split_char_none [OF no])
  qed
qed

lemma basename_up_path:
  assumes "url_ok p"
  shows "takeWhile not_query (up_base p @ up_query p) = up_base p"
proof (rule takeWhile_stops)
  show "\<forall>c \<in> set (up_base p). not_query c"
    using assms by (auto simp: url_ok_def lacks_def not_query_def)
  show "stops not_query (up_query p)"
    using assms by (cases "up_query p") (auto simp: url_ok_def stops_def)
qed

lemma Url_parse_print:
  assumes "url_ok p"
  shows "Url_parse (url_print p) = Inr (url_of p)"
proof -
  have path: "js_split (up_path p) ''/'' = [] # up_dirs p @ [up_base p @ up_query p]"
    unfolding up_path_def
    by (rule js_split_segments) (use assms in \<open>auto simp: url_ok_def lacks_def\<close>)
  have hp: "js_split (up_host p @ (case up_port p of None \<Rightarrow> [] | Some n \<Rightarrow> '':'' @ n)) '':''
      = up_host p # (case up_port p of None \<Rightarrow> [] | Some n \<Rightarrow> [n])"
    by (rule split_hostport) (use assms in \<open>auto simp: url_ok_def lacks_def split: option.splits\<close>)
  have dirs: "js_join (butlast ([] # up_dirs p @ [up_base p @ up_query p])) ''/''
      = concat (map (\<lambda>d. ''/'' @ d) (up_dirs p))"
    by (simp only: butlast.simps butlast_append js_join_segments) (simp add: js_join_segments [simplified])
  have up: "js_split (u @ '':'' @ w) '':'' = [u, w] \<and> u \<noteq> [] \<and> w \<noteq> []" if "up_login p = Some (u, w)" for u w
    using assms that by (simp add: url_ok_def lacks_def js_split_char js_split_char_none)
  show ?thesis
  proof (cases "up_login p")
    case None
    then show ?thesis
      using hp dirs basename_up_path [OF assms]
      by (cases "up_port p") (simp_all add: Url_parse_def exec_url_print [OF assms] split_login [OF assms]
          path url_of_def Let_def at_str_def truthy_str_def)
  next
    case (Some a)
    obtain u w where a: "a = (u, w)" by (cases a)
    note uw = up [OF Some [unfolded a]]
    show ?thesis
      using hp dirs basename_up_path [OF assms] uw Some a
      by (cases "up_port p") (simp_all add: Url_parse_def exec_url_print [OF assms] split_login [OF assms]
          path url_of_def Let_def at_str_def truthy_str_def)
  qed
qed

text \<open>Exactly the strings of the form \<open>protocol://authority path\<close> are accepted.\<close>

lemma exec_url_form:
  assumes "re_exec re_url s = Some m"
  shows "\<exists>a b c. m = [s, a, b, c] \<and> s = a @ ''://'' @ b @ c \<and> a \<noteq> [] \<and> (\<forall>x \<in> set a. not_colon x)
    \<and> b \<noteq> [] \<and> (\<forall>x \<in> set b. not_slash x) \<and> (\<forall>x \<in> set c. dot_char x)"
proof -
  from re_exec_Some [OF assms] obtain u cs t where m: "m = u # cs" "s = u @ t" "re_match re_url cs u t"
    by blast
  from m(3) show ?thesis unfolding re_url_def re_seq.simps m(1,2)
    by (auto simp: re_match_Seq re_match_Cap re_match_Rep Suc_le_eq)
qed

definition url_form :: "string \<Rightarrow> bool" where
  "url_form s \<longleftrightarrow> (\<exists>a b c. s = a @ ''://'' @ b @ c \<and> a \<noteq> [] \<and> (\<forall>x \<in> set a. not_colon x)
    \<and> b \<noteq> [] \<and> (\<forall>x \<in> set b. not_slash x) \<and> (\<forall>x \<in> set c. dot_char x))"

lemma match_url_form:
  assumes "a \<noteq> []" "\<forall>x \<in> set a. not_colon x" "b \<noteq> []" "\<forall>x \<in> set b. not_slash x" "\<forall>x \<in> set c. dot_char x"
  shows "re_match re_url [a, b, c] (a @ ''://'' @ b @ c) []"
proof -
  have "re_match (Seq (Cap (Plus not_slash)) (Seq (Cap (Star dot_char)) Eos)) ([b] @ [c] @ []) (b @ c @ []) []"
    using assms by (intro m_Seq m_Cap m_Rep m_Eos) (auto simp: Suc_le_eq)
  then have "re_match (Seq (Lit ''://'') (Seq (Cap (Plus not_slash)) (Seq (Cap (Star dot_char)) Eos)))
      ([] @ [b, c]) (''://'' @ b @ c) []"
    by (intro m_Seq m_Lit) simp
  then have "re_match re_url ([a] @ [b, c]) (a @ ''://'' @ b @ c) []"
    unfolding re_url_def re_seq.simps using assms by (intro m_Seq m_Cap m_Rep) (auto simp: Suc_le_eq)
  then show ?thesis by simp
qed

lemma exec_url_iff: "re_exec re_url s \<noteq> None \<longleftrightarrow> url_form s"
proof
  assume "re_exec re_url s \<noteq> None"
  then obtain m where "re_exec re_url s = Some m" by blast
  from exec_url_form [OF this] show "url_form s" unfolding url_form_def by blast
next
  assume "url_form s"
  then obtain a b c where "s = (a @ ''://'' @ b @ c) @ []" "re_match re_url [a, b, c] (a @ ''://'' @ b @ c) []"
    unfolding url_form_def using match_url_form by (metis append_Nil2)
  then show "re_exec re_url s \<noteq> None" unfolding re_exec_None by blast
qed

lemma Url_parse_error_iff: "Url_parse s = Inl e \<longleftrightarrow> e = ErrMsg ''bad url'' \<and> \<not> url_form s"
  unfolding exec_url_iff [symmetric]
  by (auto simp: Url_parse_def Let_def dest: exec_url_form split: option.splits list.splits)

lemma Url_isAbsolute_iff:
  "Url_isAbsolute s \<longleftrightarrow> (\<exists>a t. s = a @ ''://'' @ t \<and> a \<noteq> [] \<and> CHR '':'' \<notin> set a)"
proof -
  have 1: "Url_isAbsolute s \<longleftrightarrow> (\<exists>cs u t. s = u @ t \<and> re_match re_absolute cs u t)"
    by (simp add: Url_isAbsolute_def re_exec_None)
  have nc: "(\<forall>x \<in> set a. not_colon x) \<longleftrightarrow> CHR '':'' \<notin> set a" for a by (auto simp: not_colon_def)
  have 2: "re_match re_absolute cs u t \<longleftrightarrow> (\<exists>a. cs = [] \<and> u = a @ ''://'' \<and> a \<noteq> [] \<and> CHR '':'' \<notin> set a)"
    for cs u t
    unfolding re_absolute_def re_seq.simps nc [symmetric] by (auto simp: re_match_Seq re_match_Rep Suc_le_eq)
  show ?thesis unfolding 1 2 append_assoc [symmetric] by blast
qed

text \<open>What \<open>Url_parse\<close> accepts is absolute; the path that \<open>Url_full\<close> writes has one more slash
  than the path that was parsed.\<close>

lemma Url_parse_absolute: "Url_parse s = Inr u \<Longrightarrow> Url_isAbsolute s"
proof -
  assume "Url_parse s = Inr u"
  then have "url_form s" using Url_parse_error_iff [of s "ErrMsg ''bad url''"] by auto
  then show ?thesis unfolding url_form_def Url_isAbsolute_iff not_colon_def by blast
qed

lemma Url_full_doubles_slash:
  "Url_full (url_of \<lparr>up_protocol = ''rtsp'', up_login = None, up_host = ''cam'', up_port = None,
     up_dirs = [], up_base = ''live'', up_query = []\<rparr>) = ''rtsp://cam:554//live''"
  by code_simp

section \<open>What the address parser is for\<close>

text \<open>C27: An address that is put together from protocol, credentials, host, port, directories, file
  name and query is taken apart into exactly these; defaults are filled in for a missing port.\<close>

theorem url_print_parse:
  assumes "url_ok p"
  shows "Url_parse (url_print p) = Inr (url_of p)"
  by (rule Url_parse_print [OF assms])

lemma url_print_parse_witness:
  "url_print \<lparr>up_protocol = ''ws'', up_login = Some (''u'', ''pw''), up_host = ''cam'', up_port = Some ''81'',
     up_dirs = [''ws''], up_base = ''live'', up_query = ''?k=1''\<rparr> = ''ws://u:pw@cam:81/ws/live?k=1''
   \<and> Url_parse ''ws://u:pw@cam:81/ws/live?k=1'' = Inr (url_of \<lparr>up_protocol = ''ws'', up_login = Some (''u'', ''pw''),
     up_host = ''cam'', up_port = Some ''81'', up_dirs = [''ws''], up_base = ''live'', up_query = ''?k=1''\<rparr>)"
proof -
  let ?p = "\<lparr>up_protocol = ''ws'', up_login = Some (''u'', ''pw''), up_host = ''cam'', up_port = Some ''81'',
     up_dirs = [''ws''], up_base = ''live'', up_query = ''?k=1''\<rparr>"
  have 1: "url_print ?p = ''ws://u:pw@cam:81/ws/live?k=1''"
    by (simp add: url_print_def up_location_def up_path_def)
  have "url_ok ?p" by (simp add: url_ok_def lacks_def not_query_def)
  from url_print_parse [OF this] show ?thesis unfolding 1 by simp
qed

end
