(* ===== verification/Events.thy ===== *)
theory Events
  imports JsBase "HOL-Library.AList"
begin

text \<open>
  Logging and event sources of \<^verbatim>\<open>demos/rtsp/rtsp.dev.js\<close>: class \<^verbatim>\<open>Logger\<close> with the table of
  tagged loggers, and the three layers over a DOM event target, \<^verbatim>\<open>DestructibleEventListener\<close>,
  \<^verbatim>\<open>EventEmitter\<close> and \<^verbatim>\<open>EventSourceWrapper\<close>. The target is the list of its listeners in the order of
  registration, as the DOM standard has it: a pair of event type and callback is registered once,
  and an undefined callback is ignored. The main lemma says what is left on the target after any use
  of a listener registry followed by its destruction.
\<close>

section \<open>Logging\<close>

definition LogLevel_Error :: int where "LogLevel_Error = 0"
definition LogLevel_Warn :: int where "LogLevel_Warn = 1"
definition LogLevel_Log :: int where "LogLevel_Log = 2"
definition LogLevel_Debug :: int where "LogLevel_Debug = 3"

lemmas LogLevel_defs = LogLevel_Error_def LogLevel_Warn_def LogLevel_Log_def LogLevel_Debug_def

record logger =
  lg_tag :: "string option"
  lg_level :: int

text \<open>\<^verbatim>\<open>DEFAULT_LOG_LEVEL\<close> and \<^verbatim>\<open>taggedLoggers\<close>; what is printed is a list of console calls.\<close>

record log_world =
  lw_default :: int
  lw_tagged :: "(string \<times> logger) list"

definition setDefaultLogLevel :: "int \<Rightarrow> log_world \<Rightarrow> log_world" where
  "setDefaultLogLevel level w = w\<lparr>lw_default := level\<rparr>"

definition Logger :: "int \<Rightarrow> string option \<Rightarrow> logger" where
  "Logger level tag = \<lparr>lg_tag = tag, lg_level = level\<rparr>"

definition setLevel :: "int \<Rightarrow> logger \<Rightarrow> logger" where
  "setLevel level l = l\<lparr>lg_level := level\<rparr>"

text \<open>Messages come with one of the four levels.\<close>

definition level_map :: "int \<Rightarrow> string" where
  "level_map lvl = (if lvl = LogLevel_Debug \<or> lvl = LogLevel_Log then ''log''
     else if lvl = LogLevel_Warn then ''warn'' else ''error'')"

definition log_at :: "logger \<Rightarrow> int \<Rightarrow> string list \<Rightarrow> (string \<times> string list) list" where
  "log_at l lvl args =
     (let args' = (case lg_tag l of Some t \<Rightarrow> if t \<noteq> [] then (''['' @ t @ '']'') # args else args | None \<Rightarrow> args)
      in if lg_level l \<ge> lvl then [(level_map lvl, args')] else [])"

definition Logger_log :: "logger \<Rightarrow> string list \<Rightarrow> (string \<times> string list) list" where
  "Logger_log l args = log_at l LogLevel_Log args"

definition Logger_debug :: "logger \<Rightarrow> string list \<Rightarrow> (string \<times> string list) list" where
  "Logger_debug l args = log_at l LogLevel_Debug args"

definition Logger_error :: "logger \<Rightarrow> string list \<Rightarrow> (string \<times> string list) list" where
  "Logger_error l args = log_at l LogLevel_Error args"

definition Logger_warn :: "logger \<Rightarrow> string list \<Rightarrow> (string \<times> string list) list" where
  "Logger_warn l args = log_at l LogLevel_Warn args"

definition getTagged :: "string \<Rightarrow> log_world \<Rightarrow> logger \<times> log_world" where
  "getTagged tag w =
     (let w1 = (if map_of (lw_tagged w) tag = None
                then w\<lparr>lw_tagged := AList.update tag (Logger (lw_default w) (Some tag)) (lw_tagged w)\<rparr>
                else w)
      in (the (map_of (lw_tagged w1) tag), w1))"

lemma getTagged_same:
  assumes "getTagged tag w = (l, w1)"
  shows "getTagged tag w1 = (l, w1)"
  using assms by (auto simp: getTagged_def Let_def update_conv' split: if_splits)

text \<open>A logger keeps the level it was made with: a later default does not reach it.\<close>

lemma default_level_late:
  assumes "getTagged tag w = (l, w1)"
  shows "fst (getTagged tag (setDefaultLogLevel n w1)) = l"
  using assms by (auto simp: getTagged_def Let_def update_conv' setDefaultLogLevel_def split: if_splits)

section \<open>Event targets\<close>

text \<open>A callback is a function object, or the closure that \<^verbatim>\<open>on\<close> makes for a selector; the number
  tells the closures of different calls apart.\<close>

datatype callback = Fn nat | Filtered nat string callback

type_synonym target = "(string \<times> callback) list"

definition target_add :: "target \<Rightarrow> string \<Rightarrow> callback option \<Rightarrow> target" where
  "target_add t event fn = (case fn of None \<Rightarrow> t | Some f \<Rightarrow> if (event, f) \<in> set t then t else t @ [(event, f)])"

definition target_remove :: "target \<Rightarrow> string \<Rightarrow> callback option \<Rightarrow> target" where
  "target_remove t event fn = (case fn of None \<Rightarrow> t | Some f \<Rightarrow> filter (\<lambda>x. x \<noteq> (event, f)) t)"

fun runs :: "(string \<Rightarrow> bool) \<Rightarrow> callback \<Rightarrow> nat list" where
  "runs matches (Fn n) = [n]"
| "runs matches (Filtered i selector fn) = (if matches selector then runs matches fn else [])"

text \<open>The functions that a dispatched event calls, in order.\<close>

definition target_dispatch :: "(string \<Rightarrow> bool) \<Rightarrow> target \<Rightarrow> string \<Rightarrow> nat list" where
  "target_dispatch matches t event = concat (map (\<lambda>(e, f). if e = event then runs matches f else []) t)"

section \<open>Class DestructibleEventListener\<close>

type_synonym registry = "(string \<times> callback option list) list"

record del =
  dl_listener :: target
  dl_listeners :: "registry option"

definition DestructibleEventListener :: "target \<Rightarrow> del" where
  "DestructibleEventListener t = \<lparr>dl_listener = t, dl_listeners = Some []\<rparr>"

definition remove_all :: "target \<Rightarrow> registry \<Rightarrow> target" where
  "remove_all t m = foldl (\<lambda>t (event, fns). foldl (\<lambda>t fn. target_remove t event fn) t fns) t m"

definition DEL_clear :: "del \<Rightarrow> del result" where
  "DEL_clear d = (case dl_listeners d of
       None \<Rightarrow> Inl TypeErr
     | Some m \<Rightarrow> Inr (d\<lparr>dl_listener := remove_all (dl_listener d) m, dl_listeners := Some []\<rparr>))"

definition DEL_destroy :: "del \<Rightarrow> del result" where
  "DEL_destroy d = bindE (DEL_clear d) (\<lambda>d. Inr (d\<lparr>dl_listeners := None\<rparr>))"

definition set_add :: "'a \<Rightarrow> 'a list \<Rightarrow> 'a list" where
  "set_add x xs = (if x \<in> set xs then xs else xs @ [x])"

definition DEL_addEventListener :: "del \<Rightarrow> string \<Rightarrow> callback option \<Rightarrow> (callback option \<times> del) result" where
  "DEL_addEventListener d event fn = (case dl_listeners d of
       None \<Rightarrow> Inl TypeErr
     | Some m \<Rightarrow>
         (let m1 = (if map_of m event = None then AList.update event [] m else m);
              m2 = AList.update event (set_add fn (the (map_of m1 event))) m1
          in Inr (fn, d\<lparr>dl_listener := target_add (dl_listener d) event fn, dl_listeners := Some m2\<rparr>)))"

definition DEL_removeEventListener :: "del \<Rightarrow> string \<Rightarrow> callback option \<Rightarrow> del result" where
  "DEL_removeEventListener d event fn =
     (let d1 = d\<lparr>dl_listener := target_remove (dl_listener d) event fn\<rparr>
      in case dl_listeners d1 of
           None \<Rightarrow> Inl TypeErr
         | Some m \<Rightarrow>
             (case map_of m event of
                None \<Rightarrow> Inr d1
              | Some ev \<Rightarrow>
                  (let ev1 = filter (\<lambda>f. f \<noteq> fn) ev
                   in Inr (d1\<lparr>dl_listeners := Some (if ev1 = [] then AList.delete event m
                                                    else AList.update event ev1 m)\<rparr>))))"

definition DEL_dispatchEvent :: "(string \<Rightarrow> bool) \<Rightarrow> del \<Rightarrow> string \<Rightarrow> nat list" where
  "DEL_dispatchEvent matches d event = target_dispatch matches (dl_listener d) event"

text \<open>The argument lists of \<^verbatim>\<open>on\<close>: a function alone (which may be undefined), or a selector and a
  function; \<open>i\<close> numbers the closure.\<close>

datatype on_args = OnFn "callback option" | OnSelector string callback

definition DEL_on :: "nat \<Rightarrow> del \<Rightarrow> string \<Rightarrow> on_args \<Rightarrow> (callback option \<times> del) result" where
  "DEL_on i d event args = (case args of
       OnFn fn \<Rightarrow> DEL_addEventListener d event fn
     | OnSelector selector fn \<Rightarrow>
         if selector \<noteq> [] then DEL_addEventListener d event (Some (Filtered i selector fn))
         else DEL_addEventListener d event (Some fn))"

section \<open>Class EventEmitter\<close>

text \<open>\<^verbatim>\<open>this[listener]\<close> is null once the emitter is destroyed.\<close>

type_synonym emitter = "del option"

definition EventEmitter :: "target option \<Rightarrow> emitter" where
  "EventEmitter element = Some (DestructibleEventListener (case element of Some t \<Rightarrow> t | None \<Rightarrow> []))"

definition EE_clear :: "emitter \<Rightarrow> emitter result" where
  "EE_clear em = (case em of Some d \<Rightarrow> bindE (DEL_clear d) (\<lambda>d. Inr (Some d)) | None \<Rightarrow> Inr None)"

text \<open>Destruction drops the emitter's reference; the listeners it leaves on the element are returned.\<close>

definition EE_destroy :: "emitter \<Rightarrow> (target \<times> emitter) result" where
  "EE_destroy em = (case em of
       Some d \<Rightarrow> bindE (DEL_destroy d) (\<lambda>d. Inr (dl_listener d, None))
     | None \<Rightarrow> Inr ([], None))"

definition EE_on :: "nat \<Rightarrow> emitter \<Rightarrow> string \<Rightarrow> on_args \<Rightarrow> (callback option \<times> emitter) result" where
  "EE_on i em event args = (case em of
       Some d \<Rightarrow> bindE (DEL_on i d event args) (\<lambda>(r, d). Inr (r, Some d))
     | None \<Rightarrow> Inr (None, None))"

definition EE_addEventListener :: "emitter \<Rightarrow> string \<Rightarrow> callback option \<Rightarrow> (callback option \<times> emitter) result" where
  "EE_addEventListener em event fn = (case em of
       Some d \<Rightarrow> bindE (DEL_addEventListener d event fn) (\<lambda>(r, d). Inr (r, Some d))
     | None \<Rightarrow> Inr (None, None))"

definition EE_removeEventListener :: "emitter \<Rightarrow> string \<Rightarrow> callback option \<Rightarrow> emitter result" where
  "EE_removeEventListener em event fn = (case em of
       Some d \<Rightarrow> bindE (DEL_removeEventListener d event fn) (\<lambda>d. Inr (Some d))
     | None \<Rightarrow> Inr None)"

definition EE_dispatchEvent :: "(string \<Rightarrow> bool) \<Rightarrow> emitter \<Rightarrow> string \<Rightarrow> nat list" where
  "EE_dispatchEvent matches em event = (case em of Some d \<Rightarrow> DEL_dispatchEvent matches d event | None \<Rightarrow> [])"

section \<open>Class EventSourceWrapper\<close>

text \<open>The wrapper and the emitter behind it, which it shares with the emitter's owner;
  \<^verbatim>\<open>this.eventSource\<close> is null once the wrapper is destroyed.\<close>

record esw =
  ew_attached :: bool
  ew_listeners :: "registry option"

definition EventSourceWrapper :: esw where
  "EventSourceWrapper = \<lparr>ew_attached = True, ew_listeners = Some []\<rparr>"

definition ESW_on :: "nat \<Rightarrow> esw \<Rightarrow> emitter \<Rightarrow> string \<Rightarrow> on_args \<Rightarrow> (esw \<times> emitter) result" where
  "ESW_on i w em event args = (case ew_listeners w of
       None \<Rightarrow> Inl TypeErr
     | Some m \<Rightarrow>
         (let m1 = (if map_of m event = None then AList.update event [] m else m)
          in if \<not> ew_attached w then Inl TypeErr
             else bindE (EE_on i em event args) (\<lambda>(l, em1).
               Inr (w\<lparr>ew_listeners := Some (if l \<noteq> None
                        then AList.update event (set_add l (the (map_of m1 event))) m1 else m1)\<rparr>, em1))))"

definition ESW_off :: "esw \<Rightarrow> emitter \<Rightarrow> string \<Rightarrow> callback option \<Rightarrow> (esw \<times> emitter) result" where
  "ESW_off w em event fn =
     (if \<not> ew_attached w then Inl TypeErr
      else bindE (EE_removeEventListener em event fn) (\<lambda>em1. Inr (w, em1)))"

definition ESW_clear :: "esw \<Rightarrow> emitter \<Rightarrow> (esw \<times> emitter) result" where
  "ESW_clear w em =
     (if \<not> ew_attached w then Inl TypeErr
      else bindE (EE_clear em) (\<lambda>em1. case ew_listeners w of
             None \<Rightarrow> Inl TypeErr | Some m \<Rightarrow> Inr (w\<lparr>ew_listeners := Some []\<rparr>, em1)))"

definition ESW_destroy :: "esw \<Rightarrow> emitter \<Rightarrow> (esw \<times> emitter) result" where
  "ESW_destroy w em =
     (if \<not> ew_attached w then Inl TypeErr
      else bindE (EE_clear em) (\<lambda>em1. Inr (\<lparr>ew_attached = False, ew_listeners = None\<rparr>, em1)))"

section \<open>What a registry leaves behind\<close>

text \<open>Uses of an emitter, as a script, and the listeners a script names.\<close>

datatype em_op = AddL string "callback option" | RemoveL string "callback option"

fun em_run :: "emitter \<Rightarrow> em_op \<Rightarrow> emitter result" where
  "em_run em (AddL e f) = bindE (EE_addEventListener em e f) (\<lambda>(r, em1). Inr em1)"
| "em_run em (RemoveL e f) = EE_removeEventListener em e f"

fun names :: "em_op \<Rightarrow> (string \<times> callback) set" where
  "names (AddL e f) = (case f of None \<Rightarrow> {} | Some g \<Rightarrow> {(e, g)})"
| "names (RemoveL e f) = (case f of None \<Rightarrow> {} | Some g \<Rightarrow> {(e, g)})"

definition reg_has :: "registry \<Rightarrow> string \<times> callback \<Rightarrow> bool" where
  "reg_has m x \<longleftrightarrow> (\<exists>fns. map_of m (fst x) = Some fns \<and> Some (snd x) \<in> set fns)"

lemma target_remove_filter:
  "target_remove t e f = filter (\<lambda>x. Some (snd x) \<noteq> f \<or> fst x \<noteq> e) t"
  by (cases f) (auto simp: target_remove_def intro!: filter_cong)

lemma remove_each:
  "foldl (\<lambda>t fn. target_remove t e fn) t fns = filter (\<lambda>x. \<not> (fst x = e \<and> Some (snd x) \<in> set fns)) t"
  by (induction fns arbitrary: t) (auto simp: target_remove_filter filter_filter intro!: filter_cong)

lemma remove_all_filter:
  "distinct (map fst m) \<Longrightarrow> remove_all t m = filter (\<lambda>x. \<not> reg_has m x) t"
proof (induction m arbitrary: t)
  case (Cons a m)
  obtain e fns where a: "a = (e, fns)" by (cases a)
  have "remove_all t (a # m) = filter (\<lambda>x. \<not> reg_has m x) (filter (\<lambda>x. \<not> (fst x = e \<and> Some (snd x) \<in> set fns)) t)"
    using Cons by (simp add: remove_all_def a remove_each)
  moreover have "reg_has (a # m) x \<longleftrightarrow> (fst x = e \<and> Some (snd x) \<in> set fns) \<or> reg_has m x" for x
    using Cons.prems unfolding a reg_has_def by (auto dest: map_of_SomeD simp: image_iff)
  ultimately show ?case by (simp add: filter_filter conj_commute)
qed (simp add: remove_all_def reg_has_def)

definition reg_inv :: "target \<Rightarrow> (string \<times> callback) set \<Rightarrow> emitter \<Rightarrow> bool" where
  "reg_inv t0 T em \<longleftrightarrow> (\<exists>t m. em = Some \<lparr>dl_listener = t, dl_listeners = Some m\<rparr> \<and> distinct (map fst m) \<and>
     filter (\<lambda>x. x \<notin> T) t = filter (\<lambda>x. x \<notin> T) t0 \<and>
     (\<forall>x \<in> set t. x \<in> T \<longrightarrow> reg_has m x) \<and> (\<forall>x. reg_has m x \<longrightarrow> x \<in> T))"

lemma reg_inv_new: "reg_inv t0 {} (EventEmitter (Some t0))"
  by (simp add: reg_inv_def EventEmitter_def DestructibleEventListener_def reg_has_def)

lemma set_set_add [simp]: "set (set_add x xs) = insert x (set xs)"
  by (auto simp: set_add_def)

lemma reg_has_add:
  "reg_has (AList.update e (set_add f (the (map_of (if map_of m e = None then AList.update e [] m else m) e)))
     (if map_of m e = None then AList.update e [] m else m)) x \<longleftrightarrow> reg_has m x \<or> (fst x = e \<and> f = Some (snd x))"
  by (auto simp: reg_has_def update_conv' split: if_splits)

lemma distinct_update_twice:
  "distinct (map fst m) \<Longrightarrow> distinct (map fst (AList.update e y (if c then AList.update e z m else m)))"
  by (auto simp: distinct_update)

lemma reg_has_remove:
  assumes "distinct (map fst m)" "map_of m e = Some ev"
  shows "reg_has (if filter (\<lambda>g. g \<noteq> f) ev = [] then AList.delete e m
      else AList.update e (filter (\<lambda>g. g \<noteq> f) ev) m) x \<longleftrightarrow> reg_has m x \<and> \<not> (fst x = e \<and> f = Some (snd x))"
proof -
  have "Some (snd x) \<in> set (filter (\<lambda>g. g \<noteq> f) ev) \<longleftrightarrow> Some (snd x) \<in> set ev \<and> f \<noteq> Some (snd x)" by auto
  then show ?thesis using assms
    by (cases "filter (\<lambda>g. g \<noteq> f) ev = []") (auto simp: reg_has_def update_conv' delete_conv'
        simp del: map_of_eq_Some_iff split: if_splits)
qed

lemma filter_subset_cong:
  "filter (\<lambda>x. x \<notin> T) t = filter (\<lambda>x. x \<notin> T) t0 \<Longrightarrow> T \<subseteq> T' \<Longrightarrow>
   filter (\<lambda>x. x \<notin> T') t = filter (\<lambda>x. x \<notin> T') t0"
proof -
  assume a: "filter (\<lambda>x. x \<notin> T) t = filter (\<lambda>x. x \<notin> T) t0" "T \<subseteq> T'"
  have "filter (\<lambda>x. x \<notin> T') (filter (\<lambda>x. x \<notin> T) u) = filter (\<lambda>x. x \<notin> T') u" for u
    using a(2) by (auto simp: filter_filter intro!: filter_cong)
  then show ?thesis using a(1) by metis
qed

lemma reg_inv_step:
  assumes "reg_inv t0 T em"
  shows "\<exists>em1. em_run em c = Inr em1 \<and> reg_inv t0 (T \<union> names c) em1"
proof -
  from assms obtain t m where em: "em = Some \<lparr>dl_listener = t, dl_listeners = Some m\<rparr>" "distinct (map fst m)"
    and fl: "filter (\<lambda>x. x \<notin> T) t = filter (\<lambda>x. x \<notin> T) t0"
    and tm: "\<forall>x \<in> set t. x \<in> T \<longrightarrow> reg_has m x" and mt: "\<forall>x. reg_has m x \<longrightarrow> x \<in> T"
    unfolding reg_inv_def by blast
  note fl' = filter_subset_cong [OF fl, of "T \<union> names c"]
  show ?thesis
  proof (cases c)
    case (AddL e f)
    define m2 where "m2 = AList.update e (set_add f (the (map_of (if map_of m e = None then AList.update e [] m else m) e)))
     (if map_of m e = None then AList.update e [] m else m)"
    have run: "em_run em c = Inr (Some \<lparr>dl_listener = target_add t e f, dl_listeners = Some m2\<rparr>)"
      by (simp add: AddL em EE_addEventListener_def DEL_addEventListener_def Let_def m2_def)
    have has: "reg_has m2 x \<longleftrightarrow> reg_has m x \<or> (fst x = e \<and> f = Some (snd x))" for x
      unfolding m2_def by (rule reg_has_add)
    have "filter (\<lambda>x. x \<notin> T \<union> names c) (target_add t e f) = filter (\<lambda>x. x \<notin> T \<union> names c) t"
      by (cases f) (auto simp: target_add_def AddL)
    moreover have "distinct (map fst m2)" unfolding m2_def by (rule distinct_update_twice [OF em(2)])
    moreover have "x \<in> T \<union> names c \<Longrightarrow> x \<in> set (target_add t e f) \<Longrightarrow> reg_has m2 x" for x
      using tm by (cases f) (auto simp: has AddL target_add_def split: if_splits)
    moreover have "reg_has m2 x \<Longrightarrow> x \<in> T \<union> names c" for x
      using mt by (cases x) (auto simp: has AddL)
    ultimately show ?thesis using fl' unfolding run reg_inv_def by simp
  next
    case (RemoveL e f)
    define m2 where "m2 = (case map_of m e of None \<Rightarrow> m | Some ev \<Rightarrow>
      if filter (\<lambda>g. g \<noteq> f) ev = [] then AList.delete e m else AList.update e (filter (\<lambda>g. g \<noteq> f) ev) m)"
    have run: "em_run em c = Inr (Some \<lparr>dl_listener = target_remove t e f, dl_listeners = Some m2\<rparr>)"
      by (auto simp: RemoveL em EE_removeEventListener_def DEL_removeEventListener_def Let_def m2_def split: option.splits)
    have has: "reg_has m2 x \<longleftrightarrow> reg_has m x \<and> \<not> (fst x = e \<and> f = Some (snd x))" for x
    proof (cases "map_of m e")
      case None
      then show ?thesis by (auto simp: m2_def reg_has_def)
    next
      case (Some ev)
      then show ?thesis using reg_has_remove [OF em(2) Some] by (simp add: m2_def)
    qed
    have "filter (\<lambda>x. x \<notin> T \<union> names c) (target_remove t e f) = filter (\<lambda>x. x \<notin> T \<union> names c) t"
      by (cases f) (auto simp: target_remove_def RemoveL filter_filter intro!: filter_cong)
    moreover have "distinct (map fst m2)"
      using em(2) by (auto simp: m2_def distinct_update distinct_delete split: option.splits)
    moreover have "x \<in> T \<union> names c \<Longrightarrow> x \<in> set (target_remove t e f) \<Longrightarrow> reg_has m2 x" for x
      using tm by (cases f) (auto simp: has RemoveL target_remove_def)
    moreover have "reg_has m2 x \<Longrightarrow> x \<in> T \<union> names c" for x
      using mt by (cases x) (auto simp: has)
    ultimately show ?thesis using fl' unfolding run reg_inv_def by simp
  qed
qed

lemma reg_inv_run:
  assumes "reg_inv t0 T em"
  shows "\<exists>em1. foldE em_run em cs = Inr em1 \<and> reg_inv t0 (T \<union> (\<Union>c \<in> set cs. names c)) em1"
  using assms
proof (induction cs arbitrary: em T)
  case (Cons c cs)
  from reg_inv_step [OF Cons.prems] obtain em1 where "em_run em c = Inr em1" "reg_inv t0 (T \<union> names c) em1"
    by blast
  with Cons.IH [of "T \<union> names c" em1] show ?case by (simp add: Un_assoc)
qed simp

lemma reg_inv_clear:
  assumes "reg_inv t0 T em"
  shows "EE_clear em = Inr (Some \<lparr>dl_listener = filter (\<lambda>x. x \<notin> T) t0, dl_listeners = Some []\<rparr>)"
proof -
  from assms obtain t m where em: "em = Some \<lparr>dl_listener = t, dl_listeners = Some m\<rparr>" "distinct (map fst m)"
    and fl: "filter (\<lambda>x. x \<notin> T) t = filter (\<lambda>x. x \<notin> T) t0"
    and tm: "\<forall>x \<in> set t. x \<in> T \<longrightarrow> reg_has m x" and mt: "\<forall>x. reg_has m x \<longrightarrow> x \<in> T"
    unfolding reg_inv_def by blast
  have "filter (\<lambda>x. \<not> reg_has m x) t = filter (\<lambda>x. x \<notin> T) t" using tm mt by (auto intro!: filter_cong)
  then show ?thesis by (simp add: em EE_clear_def DEL_clear_def remove_all_filter fl)
qed

lemma reg_inv_script:
  "\<exists>em. foldE em_run (EventEmitter (Some t0)) cs = Inr em \<and> reg_inv t0 (\<Union>c \<in> set cs. names c) em"
  using reg_inv_run [OF reg_inv_new, of t0 cs] by simp

text \<open>Distinct functions registered for one event are called in the order of registration.\<close>

lemma dispatch_filter:
  "target_dispatch m t e = concat (map (\<lambda>x. runs m (snd x)) (filter (\<lambda>x. fst x = e) t))"
  by (induction t) (auto simp: target_dispatch_def)

lemma registered_in_order:
  assumes "distinct fs" "reg_inv t0 T em" "\<forall>f \<in> set fs. (e, Fn f) \<notin> set (dl_listener (the em))"
  shows "\<exists>d. foldE em_run em (map (\<lambda>f. AddL e (Some (Fn f))) fs) = Inr (Some d)
    \<and> dl_listener d = dl_listener (the em) @ map (\<lambda>f. (e, Fn f)) fs"
  using assms
proof (induction fs arbitrary: em T)
  case Nil
  then show ?case by (auto simp: reg_inv_def)
next
  case (Cons f fs)
  from reg_inv_step [OF Cons.prems(2), of "AddL e (Some (Fn f))"]
  obtain em1 where em1: "em_run em (AddL e (Some (Fn f))) = Inr em1" "reg_inv t0 (T \<union> names (AddL e (Some (Fn f)))) em1"
    by blast
  from Cons.prems(2) obtain t m where em: "em = Some \<lparr>dl_listener = t, dl_listeners = Some m\<rparr>"
    by (auto simp: reg_inv_def)
  have l: "dl_listener (the em1) = t @ [(e, Fn f)]"
    using em1(1) Cons.prems(3) by (auto simp: em EE_addEventListener_def DEL_addEventListener_def Let_def target_add_def)
  have "\<forall>g \<in> set fs. (e, Fn g) \<notin> set (dl_listener (the em1))"
    using Cons.prems(1,3) by (auto simp: l em)
  from Cons.IH [OF _ em1(2) this] Cons.prems(1) show ?case
    unfolding list.map foldE.simps em1(1) bindE.simps by (auto simp: l em)
qed

section \<open>What event sources promise\<close>

text \<open>C30: However an emitter over a DOM element was used, destroying it takes exactly the listeners off
  the element that were named in its calls; every other listener stays, in its place.\<close>

theorem destroyed_emitter_leaves_no_listener:
  "\<exists>em. foldE em_run (EventEmitter (Some t0)) cs = Inr em \<and>
     EE_destroy em = Inr (filter (\<lambda>x. x \<notin> (\<Union>c \<in> set cs. names c)) t0, None)"
proof -
  from reg_inv_script [of t0 cs] obtain em where em: "foldE em_run (EventEmitter (Some t0)) cs = Inr em"
    and inv: "reg_inv t0 (\<Union>c \<in> set cs. names c) em" by blast
  from inv obtain d where d: "em = Some d" by (auto simp: reg_inv_def)
  with reg_inv_clear [OF inv] have "EE_destroy em = Inr (filter (\<lambda>x. x \<notin> (\<Union>c \<in> set cs. names c)) t0, None)"
    by (auto simp: EE_clear_def EE_destroy_def DEL_destroy_def bindE_Inr_iff)
  with em show ?thesis by blast
qed

text \<open>Functions registered for an event are called once each, in the order of registration, behind
  the listeners that were there before.\<close>

lemma dispatch_in_order:
  assumes "distinct fs" and "\<forall>f \<in> set fs. (e, Fn f) \<notin> set t0"
  shows "\<exists>em. foldE em_run (EventEmitter (Some t0)) (map (\<lambda>f. AddL e (Some (Fn f))) fs) = Inr em \<and>
     EE_dispatchEvent matches em e = target_dispatch matches t0 e @ fs"
proof -
  have "\<forall>f \<in> set fs. (e, Fn f) \<notin> set (dl_listener (the (EventEmitter (Some t0))))"
    using assms(2) by (simp add: EventEmitter_def DestructibleEventListener_def)
  from registered_in_order [OF assms(1) reg_inv_new this] obtain d
    where d: "foldE em_run (EventEmitter (Some t0)) (map (\<lambda>f. AddL e (Some (Fn f))) fs) = Inr (Some d)"
      "dl_listener d = t0 @ map (\<lambda>f. (e, Fn f)) fs"
    by (auto simp: EventEmitter_def DestructibleEventListener_def)
  have "concat (map (\<lambda>x. runs matches (snd x)) (filter (\<lambda>x. fst x = e) (map (\<lambda>f. (e, Fn f)) fs))) = fs" for fs
    by (induction fs) auto
  then have "EE_dispatchEvent matches (Some d) e = target_dispatch matches t0 e @ fs"
    by (simp add: EE_dispatchEvent_def DEL_dispatchEvent_def d(2) dispatch_filter)
  with d(1) show ?thesis by blast
qed

lemma dispatch_in_order_witness:
  "\<exists>em. foldE em_run (EventEmitter (Some [(''data'', Fn 1)])) (map (\<lambda>f. AddL ''data'' (Some (Fn f))) [5, 2, 7]) = Inr em \<and>
     EE_dispatchEvent (\<lambda>_. True) em ''data'' = target_dispatch (\<lambda>_. True) [(''data'', Fn 1)] ''data'' @ [5, 2, 7]"
  by (rule dispatch_in_order) auto

end
