(* ===== verification/RtspMsg.thy ===== *)
theory RtspMsg
  imports Url "HOL-Library.AList"
begin

text \<open>
  Class \<^verbatim>\<open>RTSPMessage\<close> of \<^verbatim>\<open>demos/rtsp/rtsp.dev.js\<close> and \<^verbatim>\<open>RTSPClientSM.parse\<close>: writing requests and
  reading responses. \<open>response_print\<close> is the concrete form of a response; reading a printed
  response gives its code, reason, headers and body back.
\<close>

section \<open>Requests\<close>

definition CRLF :: string where "CRLF = [CHR 0x0D, CHR 0x0A]"

definition RTSP_1_0 :: string where "RTSP_1_0 = ''RTSP/1.0''"

text \<open>The parameters are an object: names and values, as the template strings print them, in the
  order in which the names were first set.\<close>

type_synonym params = "(string \<times> string) list"

definition msg_build :: "string \<Rightarrow> string \<Rightarrow> params \<Rightarrow> string option \<Rightarrow> string" where
  "msg_build cmd host params payload =
     (let requestString = cmd @ '' '' @ host @ '' '' @ RTSP_1_0 @ CRLF;
          requestString = foldl (\<lambda>r (param, value). r @ param @ '': '' @ value @ CRLF) requestString params;
          has_payload = truthy_str payload;
          requestString = (if has_payload
            then requestString @ ''Content-Length: '' @ int_str (int (length (the payload))) @ CRLF else requestString);
          requestString = requestString @ CRLF
      in if has_payload then requestString @ the payload else requestString)"

section \<open>Responses\<close>

record rtsp_msg =
  rm_headers :: "(string \<times> string) list"
  rm_body :: "string option"
  rm_code :: int
  rm_statusLine :: string

definition is_sp :: "char \<Rightarrow> bool" where "is_sp c \<longleftrightarrow> c = CHR '' ''"

text \<open>\<^verbatim>\<open>new RegExp(`${this.version}[ ]+([0-9]{3})[ ]+(.*)`)\<close>: the dot of the version is any character.\<close>

definition re_status :: re where
  "re_status = re_seq [Lit ''RTSP/1'', Rep dot_char 1 (Some 1), Lit ''0'', Plus is_sp,
     Cap (Rep is_digit 3 (Some 3)), Plus is_sp, Cap (Star dot_char)]"

text \<open>\<^verbatim>\<open>line.split(/:(.+)/)\<close>: what is before and after the first colon that something follows.\<close>

fun header_split :: "string \<Rightarrow> (string \<times> string) option" where
  "header_split [] = None"
| "header_split (c # cs) =
     (if c = CHR '':'' \<and> takeWhile dot_char cs \<noteq> [] then Some ([], takeWhile dot_char cs)
      else map_option (\<lambda>(k, v). (c # k, v)) (header_split cs))"

text \<open>The loop over the header lines: it ends at an empty line or the end, and returns the lines
  that are left. A line without a value has no second part to trim.\<close>

fun header_lines :: "string list \<Rightarrow> (string \<times> string) list \<Rightarrow> ((string \<times> string) list \<times> string list) result" where
  "header_lines [] headers = Inr (headers, [])"
| "header_lines (l # ls) headers =
     (if l = [] then Inr (headers, l # ls)
      else case header_split l of
             None \<Rightarrow> Inl TypeErr
           | Some (k, v) \<Rightarrow> header_lines ls (AList.update (toLowerCase k) (js_trim v) headers))"

definition msg_parse :: "string \<Rightarrow> rtsp_msg result" where
  "msg_parse data =
     (let lines = js_split data CRLF
      in case re_search re_status (lines ! 0) of
           Some [_, code, statusLine] \<Rightarrow>
             bindE (header_lines (tl lines) []) (\<lambda>(headers, rest).
               Inr \<lparr>rm_headers = headers, rm_body = Some (js_join rest [CHR 0x0A, CHR 0x0D]),
                    rm_code = digits_val 10 code, rm_statusLine = statusLine\<rparr>)
         | _ \<Rightarrow> Inl TypeErr)"

definition SM_parse :: "string \<Rightarrow> rtsp_msg result" where
  "SM_parse data =
     (let d = js_split data (CRLF @ CRLF)
      in bindE (msg_parse (d ! 0)) (\<lambda>parsed.
           let len = (case map_of (rm_headers parsed) ''content-length'' of None \<Rightarrow> None | Some v \<Rightarrow> js_Number v)
           in Inr (parsed\<lparr>rm_body := (if len \<noteq> None \<and> len \<noteq> Some 0 then at_str d 1 else Some [])\<rparr>)))"

section \<open>Splitting at line ends\<close>

lemma split_acc_skip_head:
  "c \<notin> set u \<Longrightarrow> split_acc (c # t) cur (u @ s) 0 = split_acc (c # t) (cur @ u) s 0"
  by (induction u arbitrary: cur) auto

lemma js_split_first:
  "c \<notin> set u \<Longrightarrow> js_split (u @ (c # t) @ s) (c # t) = u # js_split s (c # t)"
  using split_acc_skip_head [of c u t "[]" "(c # t) @ s"]
  by (simp add: js_split_def split_acc_skip [of _ _ "t @ s"])

lemma js_split_only: "c \<notin> set u \<Longrightarrow> js_split u (c # t) = [u]"
  using split_acc_skip_head [of c u t "[]" "[]"] by (simp add: js_split_def)

definition no_cr :: "string \<Rightarrow> bool" where "no_cr s \<longleftrightarrow> CHR 0x0D \<notin> set s"

lemma split_lines:
  "ls \<noteq> [] \<Longrightarrow> \<forall>l \<in> set ls. no_cr l \<Longrightarrow> js_split (js_join ls CRLF) CRLF = ls"
proof (induction ls)
  case (Cons l ls)
  show ?case
  proof (cases "ls = []")
    case True
    then show ?thesis using Cons.prems by (simp add: CRLF_def no_cr_def js_split_only)
  next
    case False
    then have "js_split (l @ CRLF @ js_join ls CRLF) CRLF = l # js_split (js_join ls CRLF) CRLF"
      using Cons.prems unfolding CRLF_def no_cr_def by (intro js_split_first) auto
    with False Cons show ?thesis by (simp add: js_join_Cons)
  qed
qed simp

text \<open>A block of lines, none of them empty, ends at the first blank line.\<close>

lemma split_blank_acc:
  assumes "ls \<noteq> []" "\<forall>l \<in> set ls. no_cr l \<and> l \<noteq> []"
  shows "split_acc (CRLF @ CRLF) cur (js_join ls CRLF @ CRLF @ CRLF @ s) 0
    = (cur @ js_join ls CRLF) # js_split s (CRLF @ CRLF)"
  using assms
proof (induction ls arbitrary: cur)
  case (Cons l ls)
  have l: "CHR 0x0D \<notin> set l" using Cons.prems by (simp add: no_cr_def)
  show ?case
  proof (cases "ls = []")
    case True
    then show ?thesis
      by (simp add: CRLF_def split_acc_skip_head [OF l] js_split_def eval_nat_numeral)
  next
    case False
    then obtain m ms where ms: "ls = m # ms" by (cases ls) auto
    then obtain c cs where c: "m = c # cs" "c \<noteq> CHR 0x0D" "no_cr m"
      using Cons.prems by (cases m) (auto simp: no_cr_def)
    have hd: "\<exists>r. js_join ls CRLF @ CRLF @ CRLF @ s = c # r"
      unfolding ms c(1) by (cases ms) auto
    have step: "split_acc (CRLF @ CRLF) cur (CRLF @ c # r) 0 = split_acc (CRLF @ CRLF) (cur @ CRLF) (c # r) 0" for cur r
      using c(2) by (simp add: CRLF_def eval_nat_numeral)
    from hd obtain r where r: "js_join ls CRLF @ CRLF @ CRLF @ s = c # r" by blast
    have "split_acc (CRLF @ CRLF) cur (js_join (l # ls) CRLF @ CRLF @ CRLF @ s) 0
        = split_acc (CRLF @ CRLF) (cur @ l) (CRLF @ js_join ls CRLF @ CRLF @ CRLF @ s) 0"
      using split_acc_skip_head [OF l, of "tl (CRLF @ CRLF)"] False by (simp add: js_join_Cons CRLF_def)
    also have "\<dots> = split_acc (CRLF @ CRLF) (cur @ l @ CRLF) (js_join ls CRLF @ CRLF @ CRLF @ s) 0"
      unfolding r step by simp
    also have "\<dots> = (cur @ js_join (l # ls) CRLF) # js_split s (CRLF @ CRLF)"
      using Cons.IH [of "cur @ l @ CRLF"] False Cons.prems by (simp add: js_join_Cons)
    finally show ?thesis .
  qed
qed simp

section \<open>Printing a response and reading it\<close>

record response =
  rs_code :: nat
  rs_reason :: string
  rs_headers :: "(string \<times> string) list"
  rs_body :: string

definition header_line :: "string \<times> string \<Rightarrow> string" where
  "header_line h = fst h @ '': '' @ snd h"

definition status_line :: "response \<Rightarrow> string" where
  "status_line r = RTSP_1_0 @ '' '' @ nat_str 10 (rs_code r) @ '' '' @ rs_reason r"

definition response_print :: "response \<Rightarrow> string" where
  "response_print r = js_join (status_line r # map header_line (rs_headers r)) CRLF @ CRLF @ CRLF @ rs_body r"

text \<open>A header name has no colon and no line end; a value is not blank, has no line end and no
  blanks around it.\<close>

definition header_ok :: "string \<times> string \<Rightarrow> bool" where
  "header_ok h \<longleftrightarrow> lacks [CHR '':'', CHR 0x0A, CHR 0x0D] (fst h) \<and> snd h \<noteq> [] \<and>
     lacks [CHR 0x0A, CHR 0x0D] (snd h) \<and> \<not> is_space (hd (snd h)) \<and> \<not> is_space (last (snd h))"

definition length_header :: "response \<Rightarrow> bool" where
  "length_header r \<longleftrightarrow> (\<exists>v. map_of (map (\<lambda>(k, v). (toLowerCase k, v)) (rs_headers r)) ''content-length'' = Some v
     \<and> js_Number v \<noteq> None \<and> js_Number v \<noteq> Some 0)"

definition response_ok :: "response \<Rightarrow> bool" where
  "response_ok r \<longleftrightarrow> 100 \<le> rs_code r \<and> rs_code r \<le> 999 \<and> rs_reason r \<noteq> [] \<and>
     lacks [CHR 0x0A, CHR 0x0D] (rs_reason r) \<and> hd (rs_reason r) \<noteq> CHR '' '' \<and>
     list_all header_ok (rs_headers r) \<and> distinct (map (toLowerCase \<circ> fst) (rs_headers r)) \<and>
     \<not> occurs (CRLF @ CRLF) (rs_body r)"

lemma takeWhile_dot: "lacks [CHR 0x0A, CHR 0x0D] s \<Longrightarrow> takeWhile dot_char s = s"
  by (auto simp: lacks_def dot_char_def takeWhile_eq_all_conv)

lemma header_split_colon:
  assumes "CHR '':'' \<notin> set k" "takeWhile dot_char v \<noteq> []"
  shows "header_split (k @ CHR '':'' # v) = Some (k, takeWhile dot_char v)"
  using assms(1) by (induction k) (auto simp: assms(2))

lemma header_split_line:
  assumes "header_ok h"
  shows "header_split (header_line h) = Some (fst h, CHR '' '' # snd h)" "js_trim (CHR '' '' # snd h) = snd h"
proof -
  have "takeWhile dot_char (CHR '' '' # snd h) = CHR '' '' # snd h"
    by (rule takeWhile_dot) (use assms in \<open>auto simp: header_ok_def lacks_def\<close>)
  then show "header_split (header_line h) = Some (fst h, CHR '' '' # snd h)"
    unfolding header_line_def using header_split_colon [of "fst h" "CHR '' '' # snd h"] assms
    by (simp add: header_ok_def lacks_def)
  have "js_trim (CHR '' '' # snd h) = js_trim (snd h)" by (simp add: js_trim_def is_space_def ch_code_def)
  also have "\<dots> = snd h" by (rule js_trim_id) (use assms in \<open>simp add: header_ok_def\<close>)
  finally show "js_trim (CHR '' '' # snd h) = snd h" .
qed

lemma header_lines_print:
  assumes "list_all header_ok hs" "distinct (map fst al @ map (toLowerCase \<circ> fst) hs)"
  shows "header_lines (map header_line hs) al = Inr (al @ map (\<lambda>(k, v). (toLowerCase k, v)) hs, [])"
  using assms
proof (induction hs arbitrary: al)
  case (Cons h hs)
  have "header_line h \<noteq> []" by (simp add: header_line_def)
  moreover have "AList.update (toLowerCase (fst h)) (snd h) al = al @ [(toLowerCase (fst h), snd h)]"
    using Cons.prems by (intro update_fresh) auto
  ultimately show ?case
    using Cons header_split_line [of h] by (simp add: case_prod_beta)
qed simp

lemma nat_str_three:
  assumes "100 \<le> n" "n \<le> 999"
  shows "\<exists>a b c. nat_str 10 n = [a, b, c] \<and> is_digit a \<and> is_digit b \<and> is_digit c"
proof -
  have "n div 10 div 10 = n div 100" by (simp add: div_mult2_eq [symmetric])
  moreover have "n div 100 < 10" using assms by (intro less_mult_imp_div_less) simp
  moreover have "\<not> n div 10 < 10" "\<not> n < 10" using assms by auto
  ultimately have "nat_str 10 n = [digit_char (n div 10 div 10), digit_char (n div 10 mod 10), digit_char (n mod 10)]"
    using assms by (simp add: nat_str.simps [of 10 n] nat_str.simps [of 10 "n div 10"] nat_str.simps [of 10 "n div 100"])
  moreover have "\<forall>c \<in> set (nat_str 10 n). is_digit c" using nat_str_is_digit by blast
  ultimately show ?thesis by auto
qed

lemma re_run_exact:
  assumes "length u = n" "\<forall>c \<in> set u. p c"
  shows "re_run (Rep p n (Some n)) (u @ s) = [([], u, s)]"
proof -
  have "takeWhile p (u @ s) = u @ takeWhile p s" using assms(2) by simp
  then have "rep_max p (Some n) (u @ s) = n" by (simp add: rep_max_def assms(1))
  then show ?thesis using assms(1) by simp
qed

lemma search_status:
  assumes "nat_str 10 n = [a, b, c]" "is_digit a" "is_digit b" "is_digit c"
    and "lacks [CHR 0x0A, CHR 0x0D] s" "s \<noteq> []" "hd s \<noteq> CHR '' ''"
  shows "re_search re_status (RTSP_1_0 @ '' '' @ nat_str 10 n @ '' '' @ s)
    = Some [RTSP_1_0 @ '' '' @ nat_str 10 n @ '' '' @ s, nat_str 10 n, s]"
proof -
  define q1 where "q1 = Seq (Cap (Rep is_digit 3 (Some 3))) (Seq (Plus is_sp) (Cap (Star dot_char)))"
  define q2 where "q2 = Seq (Lit ''0'') (Seq (Plus is_sp) q1)"
  have tl: "re_run (Cap (Star dot_char)) s \<noteq> [] \<and> hd (re_run (Cap (Star dot_char)) s) = ([s], s, [])"
  proof -
    have "rep_max dot_char None s = length s" by (simp add: rep_max_def takeWhile_dot [OF assms(5)])
    then show ?thesis by (simp del: takeWhile_eq_all_conv)
  qed
  then obtain x where x: "re_run (Cap (Star dot_char)) s = ([s], s, []) # x"
    by (cases "re_run (Cap (Star dot_char)) s") auto
  obtain y where y: "re_run (Seq (Plus is_sp) (Cap (Star dot_char))) ('' '' @ s) = ([s], '' '' @ s, []) # y"
  proof -
    have "takeWhile is_sp ('' '' @ s) = '' ''" using assms(6,7) by (cases s) (auto simp: is_sp_def)
    then have "re_run (Plus is_sp) ('' '' @ s) = [([], '' '', s)]" by (simp add: rep_max_def)
    with x that show ?thesis by (simp only: re_run.simps) simp
  qed
  have d: "re_run (Cap (Rep is_digit 3 (Some 3))) (nat_str 10 n @ '' '' @ s) = [([nat_str 10 n], nat_str 10 n, '' '' @ s)]"
    using re_run_exact [of "nat_str 10 n" 3 is_digit] assms(1-4) by (simp del: re_run.simps(2))
  have q1: "\<exists>z. re_run q1 (nat_str 10 n @ '' '' @ s) = ([nat_str 10 n, s], nat_str 10 n @ '' '' @ s, []) # z"
    unfolding q1_def using d y by (simp only: re_run.simps(4)) simp
  then obtain z where z: "re_run q1 (nat_str 10 n @ '' '' @ s) = ([nat_str 10 n, s], nat_str 10 n @ '' '' @ s, []) # z"
    by blast
  have "takeWhile is_sp ('' '' @ nat_str 10 n @ '' '' @ s) = '' ''"
    using assms(1,2) by (auto simp: is_sp_def is_digit_def ch_code_def)
  then have "re_run (Plus is_sp) ('' '' @ nat_str 10 n @ '' '' @ s) = [([], '' '', nat_str 10 n @ '' '' @ s)]"
    by (simp add: rep_max_def)
  with z have sp: "\<exists>w. re_run (Seq (Plus is_sp) q1) ('' '' @ nat_str 10 n @ '' '' @ s)
      = ([nat_str 10 n, s], '' '' @ nat_str 10 n @ '' '' @ s, []) # w"
    by (simp only: re_run.simps(4)) simp
  have "re_run (Rep dot_char 1 (Some 1)) (''.'' @ ''0 '' @ nat_str 10 n @ '' '' @ s)
      = [([], ''.'', ''0 '' @ nat_str 10 n @ '' '' @ s)]"
    by (rule re_run_exact) (auto simp: dot_char_def)
  then have "\<exists>v. re_run re_status (RTSP_1_0 @ '' '' @ nat_str 10 n @ '' '' @ s)
      = ([nat_str 10 n, s], RTSP_1_0 @ '' '' @ nat_str 10 n @ '' '' @ s, []) # v"
    using sp unfolding re_status_def re_seq.simps q1_def [symmetric] RTSP_1_0_def
    by (auto simp del: re_run.simps(2))
  then show ?thesis by (auto simp: RTSP_1_0_def re_exec_def)
qed

lemma status_line_ok:
  assumes "response_ok r"
  shows "re_search re_status (status_line r) = Some [status_line r, nat_str 10 (rs_code r), rs_reason r]"
proof -
  obtain a b c where "nat_str 10 (rs_code r) = [a, b, c]" "is_digit a" "is_digit b" "is_digit c"
    using nat_str_three [of "rs_code r"] assms by (auto simp: response_ok_def)
  from search_status [OF this] assms show ?thesis by (simp add: response_ok_def status_line_def)
qed

lemma no_cr_digits: "no_cr (nat_str 10 n)"
  using nat_str_is_digit [of "CHR 0x0D" n] by (auto simp: no_cr_def is_digit_def ch_code_def)

lemma response_lines:
  assumes "response_ok r"
  shows "\<forall>l \<in> set (status_line r # map header_line (rs_headers r)). no_cr l \<and> l \<noteq> []"
  using assms no_cr_digits [of "rs_code r"]
  by (auto simp: response_ok_def status_line_def header_line_def no_cr_def lacks_def header_ok_def list_all_iff RTSP_1_0_def)

lemma js_split_none: "\<not> occurs (CRLF @ CRLF) s \<Longrightarrow> js_split s (CRLF @ CRLF) = [s]"
  by (rule js_split_no_sep) (simp_all add: CRLF_def)

lemma response_split:
  assumes "response_ok r"
  shows "js_split (response_print r) (CRLF @ CRLF)
    = [js_join (status_line r # map header_line (rs_headers r)) CRLF, rs_body r]"
  unfolding response_print_def
  using split_blank_acc [OF _ response_lines [OF assms], of "[]" "rs_body r"]
    js_split_none [of "rs_body r"] assms
  by (simp add: js_split_def response_ok_def)

lemma msg_parse_head:
  assumes "response_ok r"
  shows "msg_parse (js_join (status_line r # map header_line (rs_headers r)) CRLF)
    = Inr \<lparr>rm_headers = map (\<lambda>(k, v). (toLowerCase k, v)) (rs_headers r), rm_body = Some [],
           rm_code = int (rs_code r), rm_statusLine = rs_reason r\<rparr>"
proof -
  have sp: "js_split (js_join (status_line r # map header_line (rs_headers r)) CRLF) CRLF
      = status_line r # map header_line (rs_headers r)"
    by (rule split_lines) (use response_lines [OF assms] in auto)
  have "header_lines (map header_line (rs_headers r)) []
      = Inr (map (\<lambda>(k, v). (toLowerCase k, v)) (rs_headers r), [])"
    using header_lines_print [of "rs_headers r" "[]"] assms by (simp add: response_ok_def)
  then show ?thesis
    unfolding msg_parse_def sp by (simp add: status_line_ok [OF assms] digits_val_nat_str)
qed

lemma SM_parse_print:
  assumes "response_ok r"
  shows "SM_parse (response_print r)
    = Inr \<lparr>rm_headers = map (\<lambda>(k, v). (toLowerCase k, v)) (rs_headers r),
           rm_body = Some (if length_header r then rs_body r else []),
           rm_code = int (rs_code r), rm_statusLine = rs_reason r\<rparr>"
  unfolding SM_parse_def response_split [OF assms]
  by (auto simp: msg_parse_head [OF assms] Let_def at_str_def length_header_def split: option.splits)

section \<open>Reading a request\<close>

text \<open>The lines of a request that is built without a payload.\<close>

definition request_line :: "string \<Rightarrow> string \<Rightarrow> string" where
  "request_line cmd host = cmd @ '' '' @ host @ '' '' @ RTSP_1_0"

lemma build_headers:
  "foldl (\<lambda>r (p, v). r @ p @ '': '' @ v @ CRLF) acc ps = acc @ concat (map (\<lambda>h. header_line h @ CRLF) ps)"
  by (induction ps arbitrary: acc) (simp_all add: header_line_def case_prod_beta)

lemma join_lines: "js_join (l # ls) CRLF @ CRLF = l @ CRLF @ concat (map (\<lambda>x. x @ CRLF) ls)"
  by (induction ls arbitrary: l) simp_all

lemma build_lines:
  "msg_build cmd host ps None = js_join (request_line cmd host # map header_line ps @ [[], []]) CRLF"
proof -
  have "js_join (xs @ [[], []]) CRLF = js_join xs CRLF @ CRLF @ CRLF" if "xs \<noteq> []" for xs
    using that by (induction xs rule: induct_list012) simp_all
  from this [of "request_line cmd host # map header_line ps"]
  have "js_join (request_line cmd host # map header_line ps @ [[], []]) CRLF
      = request_line cmd host @ CRLF @ concat (map (\<lambda>x. x @ CRLF) (map header_line ps)) @ CRLF"
    by (metis (no_types, lifting) append.assoc append_Cons join_lines list.distinct(1))
  then show ?thesis
    unfolding msg_build_def Let_def build_headers
    by (simp add: truthy_str_def request_line_def comp_def)
qed

lemma header_lines_stop:
  assumes "list_all header_ok hs" "distinct (map fst al @ map (toLowerCase \<circ> fst) hs)"
  shows "header_lines (map header_line hs @ [] # rest) al
    = Inr (al @ map (\<lambda>(k, v). (toLowerCase k, v)) hs, [] # rest)"
  using assms
proof (induction hs arbitrary: al)
  case (Cons h hs)
  have "header_line h \<noteq> []" by (simp add: header_line_def)
  moreover have "AList.update (toLowerCase (fst h)) (snd h) al = al @ [(toLowerCase (fst h), snd h)]"
    using Cons.prems by (intro update_fresh) auto
  ultimately show ?case
    using Cons header_split_line [of h] by (simp add: case_prod_beta)
qed simp

section \<open>What the messages carry\<close>

text \<open>C20: A response written by a server is read back: code, reason, header fields under their
  lower-case names, and the body when its length is announced.\<close>

theorem response_read_back:
  assumes "response_ok r"
  shows "SM_parse (response_print r)
    = Inr \<lparr>rm_headers = map (\<lambda>(k, v). (toLowerCase k, v)) (rs_headers r),
           rm_body = Some (if length_header r then rs_body r else []),
           rm_code = int (rs_code r), rm_statusLine = rs_reason r\<rparr>"
  by (rule SM_parse_print [OF assms])

lemma response_read_back_witness:
  "\<exists>b. SM_parse (response_print \<lparr>rs_code = 200, rs_reason = ''OK'',
       rs_headers = [(''CSeq'', ''1''), (''Public'', ''OPTIONS, DESCRIBE'')], rs_body = []\<rparr>)
    = Inr \<lparr>rm_headers = [(''cseq'', ''1''), (''public'', ''OPTIONS, DESCRIBE'')], rm_body = b,
           rm_code = 200, rm_statusLine = ''OK''\<rparr>"
proof -
  let ?r = "\<lparr>rs_code = 200, rs_reason = ''OK'',
       rs_headers = [(''CSeq'', ''1''), (''Public'', ''OPTIONS, DESCRIBE'')], rs_body = []\<rparr>"
  have l: "toLowerCase ''CSeq'' = ''cseq''" "toLowerCase ''Public'' = ''public''" by code_simp+
  have "response_ok ?r"
    by (auto simp: response_ok_def header_ok_def lacks_def is_space_def ch_code_def l CRLF_def)
  from response_read_back [OF this] show ?thesis by (simp add: l)
qed

text \<open>C36: A request that the client writes consists of its request line, one line per parameter and
  two empty lines, and the header reader gets every parameter back.\<close>

theorem request_read_back:
  assumes "no_cr cmd" "no_cr host" "list_all header_ok ps" "distinct (map (toLowerCase \<circ> fst) ps)"
  shows "js_split (msg_build cmd host ps None) CRLF = request_line cmd host # map header_line ps @ [[], []] \<and>
    header_lines (tl (js_split (msg_build cmd host ps None) CRLF)) []
      = Inr (map (\<lambda>(k, v). (toLowerCase k, v)) ps, [[], []])"
proof -
  have "\<forall>l \<in> set (request_line cmd host # map header_line ps @ [[], []]). no_cr l"
    using assms by (auto simp: request_line_def no_cr_def RTSP_1_0_def header_line_def header_ok_def lacks_def list_all_iff)
  then have "js_split (msg_build cmd host ps None) CRLF = request_line cmd host # map header_line ps @ [[], []]"
    unfolding build_lines by (intro split_lines) auto
  then show ?thesis using header_lines_stop [of ps "[]" "[[]]"] assms by simp
qed

lemma request_read_back_witness:
  "js_split (msg_build ''OPTIONS'' ''*'' [(''CSeq'', ''1''), (''User-Agent'', ''SFRtsp 0.3'')] None) CRLF
     = [''OPTIONS * RTSP/1.0'', ''CSeq: 1'', ''User-Agent: SFRtsp 0.3'', [], []]"
proof -
  have l: "toLowerCase ''CSeq'' = ''cseq''" "toLowerCase ''User-Agent'' = ''user-agent''" by code_simp+
  have "list_all header_ok [(''CSeq'', ''1''), (''User-Agent'', ''SFRtsp 0.3'')]"
    by (auto simp: header_ok_def lacks_def is_space_def ch_code_def)
  then show ?thesis
    using request_read_back [of "''OPTIONS''" "''*''" "[(''CSeq'', ''1''), (''User-Agent'', ''SFRtsp 0.3'')]"]
    by (simp add: no_cr_def l request_line_def RTSP_1_0_def header_line_def)
qed

text \<open>A header line without a value makes the reader fail with a TypeError: there is nothing after
  the colon to trim.\<close>

lemma empty_header_raises:
  assumes "CHR '':'' \<notin> set name"
  shows "header_lines ((name @ '':'') # rest) headers = Inl TypeErr"
proof -
  have "header_split (name @ '':'') = None" using assms by (induction name) auto
  then show ?thesis by simp
qed

lemma empty_header_raises_witness: "header_lines [''Session:''] [] = Inl TypeErr"
  using empty_header_raises [of "''Session''" "[]" "[]"] by simp

end
