(* ===== verification/StateMachine.thy ===== *)
theory StateMachine
  imports JsText
begin

text \<open>
  Classes \<^verbatim>\<open>State\<close> and \<^verbatim>\<open>StateMachine\<close> of \<^verbatim>\<open>demos/rtsp/rtsp.dev.js\<close>. A call of \<^verbatim>\<open>transitionTo\<close>
  checks the transition and starts a chain of promises: the target's \<^verbatim>\<open>deactivate\<close> (there is no
  other state whose hook it calls), its \<^verbatim>\<open>activate\<close>, the assignment of \<^verbatim>\<open>currentState\<close>, its
  \<^verbatim>\<open>finishTransition\<close>. Every link of the chain runs at some later time, so several transitions can
  be on their way at once: the step relation \<open>sm_step\<close> lets any of them go on, in more orders than the
  microtasks of one run have. The hooks themselves are values of a type parameter; what they do is the
  business of the client (theories \<^verbatim>\<open>RtspFlow\<close> and \<^verbatim>\<open>RtspSetup\<close> run them), so that here a request can be made
  at any time by anyone: what holds of all runs of \<open>sm_step\<close> holds of the client's; that \<open>sm_step\<close> has
  a run does not mean that the client has it.
\<close>

section \<open>The machine\<close>

record 'h sm_state =
  st_name :: int
  st_transitions :: "int list"
  st_activate :: "'h option"            \<comment> \<open>\<open>None\<close>: the default, an empty promise\<close>
  st_finishTransition :: "'h option"
  st_deactivate :: "'h option"

record 'h machine =
  sm_states :: "(int \<times> 'h sm_state) list"
  sm_current :: "int option"

definition State :: "int \<Rightarrow> 'h sm_state" where
  "State name = \<lparr>st_name = name, st_transitions = [], st_activate = None, st_finishTransition = None,
     st_deactivate = None\<rparr>"

definition StateMachine :: "'h machine" where
  "StateMachine = \<lparr>sm_states = [], sm_current = None\<rparr>"

definition addState :: "int \<Rightarrow> 'h option \<Rightarrow> 'h option \<Rightarrow> 'h option \<Rightarrow> 'h machine \<Rightarrow> 'h machine" where
  "addState name activate finishTransition deactivate sm =
     (let state = State name;
          state = (if activate \<noteq> None then state\<lparr>st_activate := activate\<rparr> else state);
          state = (if finishTransition \<noteq> None then state\<lparr>st_finishTransition := finishTransition\<rparr> else state);
          state = (if deactivate \<noteq> None then state\<lparr>st_deactivate := deactivate\<rparr> else state)
      in sm\<lparr>sm_states := AList.update name state (sm_states sm)\<rparr>)"

definition addTransition :: "int \<Rightarrow> int \<Rightarrow> 'h machine \<Rightarrow> 'h machine result" where
  "addTransition fromName toName sm =
     (if map_of (sm_states sm) fromName = None
      then Inl (ErrMsg (''No such state: '' @ int_str fromName @ '' while connecting to '' @ int_str toName))
      else if map_of (sm_states sm) toName = None
      then Inl (ErrMsg (''No such state: '' @ int_str toName @ '' while connecting from '' @ int_str fromName))
      else (let st = the (map_of (sm_states sm) fromName);
                ts = st_transitions st;
                st1 = st\<lparr>st_transitions := (if toName \<in> set ts then ts else ts @ [toName])\<rparr>
            in Inr (sm\<lparr>sm_states := AList.update fromName st1 (sm_states sm)\<rparr>)))"

text \<open>\<^verbatim>\<open>_promisify\<close>: a hook returns nothing, a plain value or a promise; nothing has no \<^verbatim>\<open>then\<close>
  to read and becomes a rejected promise.\<close>

datatype 'd returned = RNothing | RValue 'd | RPromise nat

datatype 'd promise = Resolved 'd | Rejected js_error | Pending nat

fun promisify :: "'d returned \<Rightarrow> 'd promise" where
  "promisify RNothing = Rejected TypeErr"
| "promisify (RValue d) = Resolved d"
| "promisify (RPromise p) = Pending p"

section \<open>Transitions\<close>

text \<open>A transition on its way: its next link, the state it was requested from and its target.\<close>

datatype phase = Deactivating | Activating | Finishing | Failing

record task =
  tk_phase :: phase
  tk_from :: "int option"
  tk_to :: int

datatype hook = Activate | Finish | Deactivate

datatype request = Begin hook task | AlreadyThere | Refuse string | Raise js_error

definition transitionTo :: "'h machine \<Rightarrow> int \<Rightarrow> request" where
  "transitionTo sm stateName =
     (case sm_current sm of
        None \<Rightarrow> (case map_of (sm_states sm) stateName of
            None \<Rightarrow> Raise TypeErr
          | Some st \<Rightarrow> Begin Activate \<lparr>tk_phase = Activating, tk_from = None, tk_to = stateName\<rparr>)
      | Some c \<Rightarrow>
          if c = stateName then AlreadyThere
          else (case map_of (sm_states sm) c of
                  None \<Rightarrow> Raise TypeErr
                | Some st \<Rightarrow>
                    if stateName \<in> set (st_transitions st)
                    then (case map_of (sm_states sm) stateName of
                        None \<Rightarrow> Raise TypeErr
                      | Some st1 \<Rightarrow> Begin Deactivate \<lparr>tk_phase = Deactivating, tk_from = Some c, tk_to = stateName\<rparr>)
                    else Refuse (''No such transition: '' @ int_str c @ '' to '' @ int_str stateName)))"

text \<open>A machine with the transitions on their way, and what happened so far: the assignments of
  \<^verbatim>\<open>currentState\<close> (with the state the transition was requested from) and the hooks that were called.\<close>

record 'h config =
  cf_machine :: "'h machine"
  cf_tasks :: "task list"
  cf_commits :: "(int option \<times> int) list"
  cf_calls :: "(int \<times> hook) list"

definition start_config :: "'h machine \<Rightarrow> 'h config" where
  "start_config sm = \<lparr>cf_machine = sm, cf_tasks = [], cf_commits = [], cf_calls = []\<rparr>"

definition drop_task :: "nat \<Rightarrow> task list \<Rightarrow> task list" where
  "drop_task i ts = take i ts @ drop (Suc i) ts"

inductive sm_step :: "'h config \<Rightarrow> 'h config \<Rightarrow> bool" where
  request: "transitionTo (cf_machine c) n = Begin h t \<Longrightarrow>
    t1 = (case promisify (r :: unit returned) of Rejected e \<Rightarrow> t\<lparr>tk_phase := Failing\<rparr> | _ \<Rightarrow> t) \<Longrightarrow>
    sm_step c (c\<lparr>cf_tasks := cf_tasks c @ [t1], cf_calls := cf_calls c @ [(n, h)]\<rparr>)"
| deactivated: "i < length (cf_tasks c) \<Longrightarrow> t = cf_tasks c ! i \<Longrightarrow> tk_phase t = Deactivating \<Longrightarrow>
    sm_step c (c\<lparr>cf_tasks := (cf_tasks c)[i := t\<lparr>tk_phase := Activating\<rparr>],
                 cf_calls := cf_calls c @ [(tk_to t, Activate)]\<rparr>)"
| activated: "i < length (cf_tasks c) \<Longrightarrow> t = cf_tasks c ! i \<Longrightarrow> tk_phase t = Activating \<Longrightarrow>
    sm_step c (c\<lparr>cf_machine := (cf_machine c)\<lparr>sm_current := Some (tk_to t)\<rparr>,
                 cf_tasks := (cf_tasks c)[i := t\<lparr>tk_phase := Finishing\<rparr>],
                 cf_commits := cf_commits c @ [(tk_from t, tk_to t)],
                 cf_calls := cf_calls c @ [(tk_to t, Finish)]\<rparr>)"
| finished: "i < length (cf_tasks c) \<Longrightarrow> tk_phase (cf_tasks c ! i) = Finishing \<Longrightarrow>
    sm_step c (c\<lparr>cf_tasks := drop_task i (cf_tasks c)\<rparr>)"
| failed: "i < length (cf_tasks c) \<Longrightarrow>
    sm_step c (c\<lparr>cf_tasks := drop_task i (cf_tasks c)\<rparr>)"

inductive_cases sm_stepE: "sm_step c c'"

definition sm_steps :: "'h config \<Rightarrow> 'h config \<Rightarrow> bool" where
  "sm_steps = sm_step\<^sup>*\<^sup>*"

section \<open>Reachable configurations\<close>

definition edge :: "'h machine \<Rightarrow> int option \<Rightarrow> int \<Rightarrow> bool" where
  "edge sm from n \<longleftrightarrow> (case from of
       None \<Rightarrow> map_of (sm_states sm) n \<noteq> None
     | Some c \<Rightarrow> (\<exists>st. map_of (sm_states sm) c = Some st \<and> n \<in> set (st_transitions st)) \<and> map_of (sm_states sm) n \<noteq> None)"

definition same_graph :: "'h machine \<Rightarrow> 'h machine \<Rightarrow> bool" where
  "same_graph sm sm' \<longleftrightarrow> sm_states sm' = sm_states sm"

lemma edge_same_graph: "same_graph sm sm' \<Longrightarrow> edge sm' = edge sm"
  by (simp add: same_graph_def edge_def fun_eq_iff split: option.split)

lemma transitionTo_Begin:
  "transitionTo sm n = Begin h t \<longleftrightarrow> tk_to t = n \<and> tk_from t = sm_current sm \<and> edge sm (sm_current sm) n \<and>
     (case sm_current sm of None \<Rightarrow> h = Activate \<and> tk_phase t = Activating
      | Some c \<Rightarrow> c \<noteq> n \<and> h = Deactivate \<and> tk_phase t = Deactivating)"
  by (cases t) (auto simp: transitionTo_def edge_def split: option.splits)

lemma set_drop_task: "set (drop_task i ts) \<subseteq> set ts"
  by (auto simp: drop_task_def dest: in_set_takeD in_set_dropD)

text \<open>Whatever is on its way or was assigned was permitted where it was requested; a hook is called
  only for a state that someone asked for.\<close>

definition permitted :: "'h machine \<Rightarrow> 'h config \<Rightarrow> bool" where
  "permitted sm c \<longleftrightarrow> same_graph sm (cf_machine c) \<and>
     (\<forall>t \<in> set (cf_tasks c). edge sm (tk_from t) (tk_to t)) \<and>
     (\<forall>x \<in> set (cf_commits c). edge sm (fst x) (snd x))"

lemma permitted_step:
  assumes "sm_step c c'" "permitted sm c"
  shows "permitted sm c'"
  using assms
proof (cases rule: sm_step.cases)
  case (request n h t t1 r)
  have "edge sm (tk_from t) (tk_to t)"
    using request assms(2) edge_same_graph [of sm "cf_machine c"] by (simp add: transitionTo_Begin permitted_def)
  moreover have "tk_from t1 = tk_from t" "tk_to t1 = tk_to t"
    using request by (simp_all split: promise.splits)
  ultimately show ?thesis using request assms(2) by (auto simp: permitted_def)
next
  case (deactivated i t)
  then show ?thesis using assms(2) by (auto simp: permitted_def dest!: set_update_subset_insert [THEN subsetD])
next
  case (activated i t)
  then show ?thesis using assms(2)
    by (auto simp: permitted_def same_graph_def dest!: set_update_subset_insert [THEN subsetD])
next
  case (finished i)
  then show ?thesis using assms(2) set_drop_task [of i "cf_tasks c"] by (auto simp: permitted_def)
next
  case (failed i)
  then show ?thesis using assms(2) set_drop_task [of i "cf_tasks c"] by (auto simp: permitted_def)
qed

lemma permitted_steps: "sm_steps c c' \<Longrightarrow> permitted sm c \<Longrightarrow> permitted sm c'"
  unfolding sm_steps_def by (induction rule: rtranclp_induct) (auto intro: permitted_step)

section \<open>One transition at a time\<close>

text \<open>The runs in which nobody asks for a transition while another one is on its way.\<close>

definition alone_step :: "'h config \<Rightarrow> 'h config \<Rightarrow> bool" where
  "alone_step c c' \<longleftrightarrow> sm_step c c' \<and> (length (cf_tasks c) < length (cf_tasks c') \<longrightarrow> cf_tasks c = [])"

definition alone_steps :: "'h config \<Rightarrow> 'h config \<Rightarrow> bool" where
  "alone_steps = alone_step\<^sup>*\<^sup>*"

text \<open>The assignments are a walk: each starts where the one before it ended.\<close>

fun walk :: "int option \<Rightarrow> (int option \<times> int) list \<Rightarrow> int option \<Rightarrow> bool" where
  "walk a [] b \<longleftrightarrow> a = b"
| "walk a ((f, t) # r) b \<longleftrightarrow> f = a \<and> walk (Some t) r b"

lemma walk_snoc: "walk a (r @ [(f, t)]) b \<longleftrightarrow> walk a r f \<and> b = Some t"
  by (induction a r f rule: walk.induct) auto

definition walking :: "'h config \<Rightarrow> bool" where
  "walking c \<longleftrightarrow> walk None (cf_commits c) (sm_current (cf_machine c)) \<and>
     (cf_tasks c = [] \<or> (\<exists>t. cf_tasks c = [t] \<and>
        (tk_phase t \<in> {Deactivating, Activating} \<longrightarrow> tk_from t = sm_current (cf_machine c))))"

lemma walking_step:
  assumes "alone_step c c'" "walking c"
  shows "walking c'"
proof -
  from assms(1) have "sm_step c c'" and one: "length (cf_tasks c) < length (cf_tasks c') \<longrightarrow> cf_tasks c = []"
    by (auto simp: alone_step_def)
  from this(1) show ?thesis
  proof (cases rule: sm_step.cases)
    case (request n h t t1 r)
    have "tk_from t1 = sm_current (cf_machine c)"
      using request by (simp add: transitionTo_Begin split: promise.splits)
    then show ?thesis using request one assms(2) by (auto simp: walking_def)
  next
    case (deactivated i t)
    then show ?thesis using assms(2) by (auto simp: walking_def)
  next
    case (activated i t)
    then show ?thesis using assms(2) by (auto simp: walking_def walk_snoc)
  next
    case (finished i)
    then show ?thesis using assms(2) by (auto simp: walking_def drop_task_def)
  next
    case (failed i)
    then show ?thesis using assms(2) by (auto simp: walking_def drop_task_def)
  qed
qed

lemma walking_steps: "alone_steps c c' \<Longrightarrow> walking c \<Longrightarrow> walking c'"
  unfolding alone_steps_def by (induction rule: rtranclp_induct) (auto intro: walking_step)

lemma alone_steps_sm_steps: "alone_steps c c' \<Longrightarrow> sm_steps c c'"
  unfolding alone_steps_def sm_steps_def alone_step_def by (rule rtranclp_mono [THEN predicate2D]) auto

section \<open>The states of the RTSP client\<close>

definition STATE_INITIAL :: int where "STATE_INITIAL = js_shl 1 0"
definition STATE_OPTIONS :: int where "STATE_OPTIONS = js_shl 1 1"
definition STATE_DESCRIBE :: int where "STATE_DESCRIBE = js_shl 1 2"
definition STATE_SETUP :: int where "STATE_SETUP = js_shl 1 3"
definition STATE_STREAMS :: int where "STATE_STREAMS = js_shl 1 4"
definition STATE_TEARDOWN :: int where "STATE_TEARDOWN = js_shl 1 5"
definition STATE_PLAY :: int where "STATE_PLAY = js_shl 1 6"
definition STATE_PLAYING :: int where "STATE_PLAYING = js_shl 1 7"
definition STATE_PAUSE :: int where "STATE_PAUSE = js_shl 1 8"
definition STATE_PAUSED :: int where "STATE_PAUSED = js_shl 1 9"

lemma state_values [simp]:
  "STATE_INITIAL = 1" "STATE_OPTIONS = 2" "STATE_DESCRIBE = 4" "STATE_SETUP = 8" "STATE_STREAMS = 16"
  "STATE_TEARDOWN = 32" "STATE_PLAY = 64" "STATE_PLAYING = 128" "STATE_PAUSE = 256" "STATE_PAUSED = 512"
  by (simp_all add: STATE_INITIAL_def STATE_OPTIONS_def STATE_DESCRIBE_def STATE_SETUP_def STATE_STREAMS_def
      STATE_TEARDOWN_def STATE_PLAY_def STATE_PLAYING_def STATE_PAUSE_def STATE_PAUSED_def js_shl_eq toInt32_id)

datatype client_hook = SendOptions | OnOptions | SendDescribe | OnDescribe | SendSetup | OnSetup
  | ClearStarted | ToInitial

definition client_states :: "client_hook machine" where
  "client_states =
     (addState STATE_TEARDOWN (Some ClearStarted) (Some ToInitial) None \<circ>
      addState STATE_STREAMS None None None \<circ>
      addState STATE_SETUP (Some SendSetup) (Some OnSetup) None \<circ>
      addState STATE_DESCRIBE (Some SendDescribe) (Some OnDescribe) None \<circ>
      addState STATE_OPTIONS (Some SendOptions) (Some OnOptions) None \<circ>
      addState STATE_INITIAL None None None) StateMachine"

definition client_edges :: "(int \<times> int) list" where
  "client_edges = [(STATE_INITIAL, STATE_OPTIONS), (STATE_INITIAL, STATE_TEARDOWN),
     (STATE_OPTIONS, STATE_DESCRIBE), (STATE_DESCRIBE, STATE_SETUP), (STATE_SETUP, STATE_STREAMS),
     (STATE_TEARDOWN, STATE_INITIAL), (STATE_STREAMS, STATE_TEARDOWN), (STATE_SETUP, STATE_TEARDOWN),
     (STATE_DESCRIBE, STATE_TEARDOWN), (STATE_OPTIONS, STATE_TEARDOWN)]"

definition client_machine :: "client_hook machine result" where
  "client_machine = foldE (\<lambda>sm (a, b). addTransition a b sm) client_states client_edges"

definition client_sm :: "client_hook machine" where
  "client_sm = (case client_machine of Inr sm \<Rightarrow> sm | Inl _ \<Rightarrow> client_states)"

lemma client_sm_eq:
  "client_machine = Inr client_sm"
  "sm_current client_sm = None"
  "sm_states client_sm =
     [(1, \<lparr>st_name = 1, st_transitions = [2, 32], st_activate = None, st_finishTransition = None, st_deactivate = None\<rparr>),
      (2, \<lparr>st_name = 2, st_transitions = [4, 32], st_activate = Some SendOptions, st_finishTransition = Some OnOptions, st_deactivate = None\<rparr>),
      (4, \<lparr>st_name = 4, st_transitions = [8, 32], st_activate = Some SendDescribe, st_finishTransition = Some OnDescribe, st_deactivate = None\<rparr>),
      (8, \<lparr>st_name = 8, st_transitions = [16, 32], st_activate = Some SendSetup, st_finishTransition = Some OnSetup, st_deactivate = None\<rparr>),
      (16, \<lparr>st_name = 16, st_transitions = [32], st_activate = None, st_finishTransition = None, st_deactivate = None\<rparr>),
      (32, \<lparr>st_name = 32, st_transitions = [1], st_activate = Some ClearStarted, st_finishTransition = Some ToInitial, st_deactivate = None\<rparr>)]"
  by (simp_all add: client_sm_def client_machine_def client_edges_def client_states_def addTransition_def
      addState_def State_def StateMachine_def)

section \<open>Going through a whole transition\<close>

text \<open>From a quiet configuration a permitted transition can run to its end.\<close>

definition quiet_at :: "'h machine \<Rightarrow> int option \<Rightarrow> 'h config \<Rightarrow> bool" where
  "quiet_at sm s c \<longleftrightarrow> same_graph sm (cf_machine c) \<and> sm_current (cf_machine c) = s \<and> cf_tasks c = []"

lemma alone_request:
  assumes "transitionTo (cf_machine c) n = Begin h t" "cf_tasks c = []"
  shows "alone_step c (c\<lparr>cf_tasks := [t], cf_calls := cf_calls c @ [(n, h)]\<rparr>)"
  using sm_step.request [OF assms(1), of t "RValue ()"] assms(2) by (simp add: alone_step_def)

lemma alone_deactivated:
  assumes "cf_tasks c = [t]" "tk_phase t = Deactivating"
  shows "alone_step c (c\<lparr>cf_tasks := [t\<lparr>tk_phase := Activating\<rparr>], cf_calls := cf_calls c @ [(tk_to t, Activate)]\<rparr>)"
proof -
  have "0 < length (cf_tasks c)" "t = cf_tasks c ! 0" using assms(1) by simp_all
  from sm_step.deactivated [OF this assms(2)] show ?thesis by (simp only: alone_step_def) (simp add: assms(1))
qed

lemma alone_activated:
  assumes "cf_tasks c = [t]" "tk_phase t = Activating"
  shows "alone_step c (c\<lparr>cf_machine := (cf_machine c)\<lparr>sm_current := Some (tk_to t)\<rparr>,
    cf_tasks := [t\<lparr>tk_phase := Finishing\<rparr>], cf_commits := cf_commits c @ [(tk_from t, tk_to t)],
    cf_calls := cf_calls c @ [(tk_to t, Finish)]\<rparr>)"
proof -
  have "0 < length (cf_tasks c)" "t = cf_tasks c ! 0" using assms(1) by simp_all
  from sm_step.activated [OF this assms(2)] show ?thesis by (simp only: alone_step_def) (simp add: assms(1))
qed

lemma alone_finished:
  assumes "cf_tasks c = [t]" "tk_phase t = Finishing"
  shows "alone_step c (c\<lparr>cf_tasks := []\<rparr>)"
  using sm_step.finished [of 0 c] assms by (simp add: alone_step_def drop_task_def)

lemma alone_transition:
  assumes "quiet_at sm s c" "edge sm s n" "s \<noteq> Some n"
  shows "\<exists>c'. alone_steps c c' \<and> quiet_at sm (Some n) c' \<and> cf_commits c' = cf_commits c @ [(s, n)]"
proof -
  let ?P = "\<lambda>c'. quiet_at sm (Some n) c' \<and> cf_commits c' = cf_commits c @ [(s, n)]"
  have e: "edge (cf_machine c) s n" and cur: "sm_current (cf_machine c) = s" and g: "same_graph sm (cf_machine c)"
    using assms edge_same_graph [of sm "cf_machine c"] by (auto simp: quiet_at_def)
  have last: "\<exists>c'. alone_steps d c' \<and> ?P c'"
    if d: "cf_tasks d = [t]" "tk_phase t = Activating" "tk_from t = s" "tk_to t = n" "cf_commits d = cf_commits c"
      "same_graph sm (cf_machine d)" for d t
  proof -
    define d1 where "d1 = d\<lparr>cf_machine := (cf_machine d)\<lparr>sm_current := Some (tk_to t)\<rparr>,
      cf_tasks := [t\<lparr>tk_phase := Finishing\<rparr>], cf_commits := cf_commits d @ [(tk_from t, tk_to t)],
      cf_calls := cf_calls d @ [(tk_to t, Finish)]\<rparr>"
    have 1: "alone_step d d1" unfolding d1_def by (rule alone_activated [OF d(1,2)])
    have 2: "alone_step d1 (d1\<lparr>cf_tasks := []\<rparr>)"
      by (rule alone_finished [of d1 "t\<lparr>tk_phase := Finishing\<rparr>"]) (simp_all add: d1_def)
    have "?P (d1\<lparr>cf_tasks := []\<rparr>)" using d by (simp add: quiet_at_def d1_def same_graph_def)
    moreover have "alone_steps d (d1\<lparr>cf_tasks := []\<rparr>)"
      unfolding alone_steps_def using 1 2 by (meson converse_rtranclp_into_rtranclp r_into_rtranclp)
    ultimately show ?thesis by blast
  qed
  have q: "cf_tasks c = []" using assms(1) by (simp add: quiet_at_def)
  show ?thesis
  proof (cases s)
    case None
    define t where "t = \<lparr>tk_phase = Activating, tk_from = None, tk_to = n\<rparr>"
    define d where "d = c\<lparr>cf_tasks := [t], cf_calls := cf_calls c @ [(n, Activate)]\<rparr>"
    have "transitionTo (cf_machine c) n = Begin Activate t"
      using e cur None by (simp add: transitionTo_Begin t_def)
    from alone_request [OF this q] have "alone_step c d" by (simp add: d_def)
    moreover have "\<exists>c'. alone_steps d c' \<and> ?P c'"
      by (rule last [of d t]) (use None g in \<open>simp_all add: d_def t_def\<close>)
    ultimately show ?thesis unfolding alone_steps_def by (meson converse_rtranclp_into_rtranclp)
  next
    case (Some a)
    define t where "t = \<lparr>tk_phase = Deactivating, tk_from = Some a, tk_to = n\<rparr>"
    define d where "d = c\<lparr>cf_tasks := [t], cf_calls := cf_calls c @ [(n, Deactivate)]\<rparr>"
    define d1 where "d1 = d\<lparr>cf_tasks := [t\<lparr>tk_phase := Activating\<rparr>], cf_calls := cf_calls d @ [(tk_to t, Activate)]\<rparr>"
    have "transitionTo (cf_machine c) n = Begin Deactivate t"
      using e cur Some assms(3) by (simp add: transitionTo_Begin t_def)
    from alone_request [OF this q] have "alone_step c d" by (simp add: d_def)
    moreover have "alone_step d d1" unfolding d1_def by (rule alone_deactivated) (simp_all add: d_def t_def)
    moreover have "\<exists>c'. alone_steps d1 c' \<and> ?P c'"
      by (rule last [of d1 "t\<lparr>tk_phase := Activating\<rparr>"]) (use Some g in \<open>simp_all add: d1_def d_def t_def\<close>)
    ultimately show ?thesis unfolding alone_steps_def by (meson converse_rtranclp_into_rtranclp)
  qed
qed

lemma alone_path:
  assumes "quiet_at sm s c" "walk s es b" "\<forall>(f, n) \<in> set es. edge sm f n \<and> f \<noteq> Some n"
  shows "\<exists>c'. alone_steps c c' \<and> quiet_at sm b c' \<and> cf_commits c' = cf_commits c @ es"
  using assms
proof (induction s es b arbitrary: c rule: walk.induct)
  case (1 a b)
  then show ?case by (auto simp: alone_steps_def)
next
  case (2 a f t r b)
  from alone_transition [of sm a c t] 2 obtain d where
    d: "alone_steps c d" "quiet_at sm (Some t) d" "cf_commits d = cf_commits c @ [(a, t)]" by auto
  from "2.IH" [OF d(2)] "2.prems" obtain c' where
    "alone_steps d c'" "quiet_at sm b c'" "cf_commits c' = cf_commits d @ r" by auto
  with d "2.prems" show ?case unfolding alone_steps_def by (auto intro: rtranclp_trans)
qed

lemma client_lookup:
  "map_of (sm_states client_sm) 1 = Some \<lparr>st_name = 1, st_transitions = [2, 32], st_activate = None, st_finishTransition = None, st_deactivate = None\<rparr>"
  "map_of (sm_states client_sm) 2 = Some \<lparr>st_name = 2, st_transitions = [4, 32], st_activate = Some SendOptions, st_finishTransition = Some OnOptions, st_deactivate = None\<rparr>"
  "map_of (sm_states client_sm) 4 = Some \<lparr>st_name = 4, st_transitions = [8, 32], st_activate = Some SendDescribe, st_finishTransition = Some OnDescribe, st_deactivate = None\<rparr>"
  "map_of (sm_states client_sm) 8 = Some \<lparr>st_name = 8, st_transitions = [16, 32], st_activate = Some SendSetup, st_finishTransition = Some OnSetup, st_deactivate = None\<rparr>"
  "map_of (sm_states client_sm) 16 = Some \<lparr>st_name = 16, st_transitions = [32], st_activate = None, st_finishTransition = None, st_deactivate = None\<rparr>"
  "map_of (sm_states client_sm) 32 = Some \<lparr>st_name = 32, st_transitions = [1], st_activate = Some ClearStarted, st_finishTransition = Some ToInitial, st_deactivate = None\<rparr>"
  by (simp_all only: client_sm_eq map_of.simps fun_upd_apply) simp_all

lemma client_edges_hold:
  "edge client_sm None 1" "edge client_sm (Some 1) 2" "edge client_sm (Some 1) 32" "edge client_sm (Some 2) 4"
  "edge client_sm (Some 4) 8" "edge client_sm (Some 8) 16" "edge client_sm (Some 16) 32"
  "edge client_sm (Some 2) 32" "edge client_sm (Some 4) 32" "edge client_sm (Some 8) 32" "edge client_sm (Some 32) 1"
  "\<not> edge client_sm (Some 32) 2"
  by (simp_all add: edge_def client_lookup)

lemma edge_target_known: "edge client_sm f n \<Longrightarrow> n \<in> {1, 2, 4, 8, 16, 32}"
proof -
  assume "edge client_sm f n"
  then have "map_of (sm_states client_sm) n \<noteq> None" by (auto simp: edge_def split: option.splits)
  then have "n \<in> set (map fst (sm_states client_sm))" by (simp add: map_of_eq_None_iff)
  then show ?thesis by (simp only: client_sm_eq list.map fst_conv list.set)
qed

text \<open>The current state was assigned.\<close>

definition current_known :: "'h config \<Rightarrow> bool" where
  "current_known c \<longleftrightarrow> (case sm_current (cf_machine c) of None \<Rightarrow> True | Some n \<Rightarrow> \<exists>f. (f, n) \<in> set (cf_commits c))"

lemma current_known_step:
  assumes "sm_step c c'" "current_known c"
  shows "current_known c'"
  using assms(1)
proof (cases rule: sm_step.cases)
  case (activated i t)
  then show ?thesis by (auto simp: current_known_def)
qed (use assms(2) in \<open>auto simp: current_known_def split: option.splits\<close>)

lemma current_known_steps: "sm_steps c c' \<Longrightarrow> current_known c \<Longrightarrow> current_known c'"
  unfolding sm_steps_def by (induction rule: rtranclp_induct) (auto intro: current_known_step)

lemma permitted_start: "permitted sm (start_config sm)"
  by (simp add: permitted_def start_config_def same_graph_def)

lemma client_current:
  assumes "sm_steps (start_config client_sm) c" "sm_current (cf_machine c) = Some n"
  shows "n \<in> {1, 2, 4, 8, 16, 32}"
proof -
  have "current_known (start_config client_sm)" by (simp add: current_known_def start_config_def client_sm_eq)
  from current_known_steps [OF assms(1) this] assms(2) obtain f where "(f, n) \<in> set (cf_commits c)"
    by (auto simp: current_known_def)
  moreover have "permitted client_sm c" by (rule permitted_steps [OF assms(1) permitted_start])
  ultimately have "edge client_sm f n" by (auto simp: permitted_def)
  then show ?thesis by (rule edge_target_known)
qed

lemma play_walk:
  assumes "s = None \<or> (\<exists>n \<in> {1, 2, 4, 8, 16, 32}. s = Some n)"
  shows "\<exists>es. walk s es (Some 16) \<and> (\<forall>(f, n) \<in> set es. edge client_sm f n \<and> f \<noteq> Some n)"
proof -
  let ?up = "[(Some 1, 2), (Some 2, 4), (Some 4, 8), (Some 8, 16)] :: (int option \<times> int) list"
  from assms consider "s = None" | "s = Some 1" | "s = Some 2" | "s = Some 4" | "s = Some 8" | "s = Some 16" | "s = Some 32"
    by auto
  then show ?thesis
  proof cases
    case 1
    then show ?thesis by (intro exI [of _ "(None, 1) # ?up"]) (simp add: client_edges_hold)
  next
    case 2
    then show ?thesis by (intro exI [of _ ?up]) (simp add: client_edges_hold)
  next
    case 3
    then show ?thesis by (intro exI [of _ "tl ?up"]) (simp add: client_edges_hold)
  next
    case 4
    then show ?thesis by (intro exI [of _ "tl (tl ?up)"]) (simp add: client_edges_hold)
  next
    case 5
    then show ?thesis by (intro exI [of _ "tl (tl (tl ?up))"]) (simp add: client_edges_hold)
  next
    case 6
    then show ?thesis by (intro exI [of _ "[]"]) simp
  next
    case 7
    then show ?thesis by (intro exI [of _ "(Some 32, 1) # ?up"]) (simp add: client_edges_hold)
  qed
qed

section \<open>What the state machine guarantees\<close>

text \<open>Whatever happens, and in whatever order the promises settle, a state is entered only if the
  transition to it was permitted by the state in which it was requested.\<close>

lemma entered_states_were_permitted:
  assumes "sm_steps (start_config sm) c" "(from, n) \<in> set (cf_commits c)"
  shows "edge sm from n"
proof -
  have "permitted sm (start_config sm)" by (simp add: permitted_def start_config_def same_graph_def)
  from permitted_steps [OF assms(1) this] assms(2) show ?thesis by (auto simp: permitted_def)
qed

text \<open>C17: As long as no transition is requested while another one is on its way, the states entered form
  a walk in the graph of permitted transitions that ends in the current state.\<close>

theorem states_walk_the_graph:
  assumes "sm_current sm = None" "alone_steps (start_config sm) c"
  shows "walk None (cf_commits c) (sm_current (cf_machine c)) \<and> (\<forall>(from, n) \<in> set (cf_commits c). edge sm from n)"
proof -
  have "walking (start_config sm)" using assms(1) by (simp add: walking_def start_config_def)
  from walking_steps [OF assms(2) this] have "walk None (cf_commits c) (sm_current (cf_machine c))"
    by (simp add: walking_def)
  moreover have "permitted sm (start_config sm)" by (simp add: permitted_def start_config_def same_graph_def)
  from permitted_steps [OF alone_steps_sm_steps [OF assms(2)] this]
  have "\<forall>(from, n) \<in> set (cf_commits c). edge sm from n" by (auto simp: permitted_def)
  ultimately show ?thesis by blast
qed

lemma states_walk_the_graph_witness:
  "\<exists>c. alone_steps (start_config client_sm) c \<and> cf_commits c = [(None, 1), (Some 1, 2)] \<and>
     walk None (cf_commits c) (sm_current (cf_machine c)) \<and> (\<forall>(from, n) \<in> set (cf_commits c). edge client_sm from n)"
proof -
  have "quiet_at client_sm None (start_config client_sm)"
    by (simp add: quiet_at_def start_config_def same_graph_def client_sm_eq)
  from alone_path [OF this, of "[(None, 1), (Some 1, 2)]" "Some 2"] obtain c where
    c: "alone_steps (start_config client_sm) c" "cf_commits c = [(None, 1), (Some 1, 2)]"
    by (auto simp: client_edges_hold start_config_def)
  from states_walk_the_graph [OF client_sm_eq(2) c(1)] c show ?thesis by blast
qed

lemma entered_states_were_permitted_witness:
  "\<exists>c. sm_steps (start_config client_sm) c \<and> (Some 1, 2) \<in> set (cf_commits c) \<and> edge client_sm (Some 1) 2"
proof -
  have "quiet_at client_sm None (start_config client_sm)"
    by (simp add: quiet_at_def start_config_def same_graph_def client_sm_eq)
  from alone_path [OF this, of "[(None, 1), (Some 1, 2)]" "Some 2"] obtain c where
    c: "sm_steps (start_config client_sm) c" "(Some 1, 2) \<in> set (cf_commits c)"
    by (auto simp: client_edges_hold start_config_def dest: alone_steps_sm_steps)
  from entered_states_were_permitted [OF c] c show ?thesis by blast
qed

text \<open>C25: When nothing is on its way, the client can get to the state in which it plays, from wherever the
  transitions before have left it.\<close>

theorem playing_stays_possible:
  assumes "sm_steps (start_config client_sm) c" "cf_tasks c = []"
  shows "\<exists>c'. alone_steps c c' \<and> sm_current (cf_machine c') = Some STATE_STREAMS \<and> cf_tasks c' = []"
proof -
  let ?s = "sm_current (cf_machine c)"
  have "?s = None \<or> (\<exists>n \<in> {1, 2, 4, 8, 16, 32}. ?s = Some n)"
    using client_current [OF assms(1)] by (cases ?s) auto
  from play_walk [OF this] obtain es where es: "walk ?s es (Some 16)"
    "\<forall>(f, n) \<in> set es. edge client_sm f n \<and> f \<noteq> Some n" by blast
  have "quiet_at client_sm ?s c"
    using permitted_steps [OF assms(1) permitted_start] assms(2) by (simp add: quiet_at_def permitted_def)
  from alone_path [OF this es] show ?thesis by (auto simp: quiet_at_def)
qed

lemma playing_stays_possible_witness:
  "\<exists>c'. alone_steps (start_config client_sm) c' \<and> sm_current (cf_machine c') = Some STATE_STREAMS \<and> cf_tasks c' = []"
  by (rule playing_stays_possible) (simp_all add: sm_steps_def start_config_def)

end
