(* ===== verification/Encodings.thy ===== *)
theory Encodings
  imports JsText Md5
begin

text \<open>
  The text encodings of binary data that the player reads and writes: the helper functions
  \<^verbatim>\<open>base64ToArrayBuffer\<close>, \<^verbatim>\<open>hexToByteArray\<close> and \<^verbatim>\<open>bytesToString\<close> of \<^verbatim>\<open>rtsp.dev.js\<close>, over the standard
  functions \<^verbatim>\<open>atob\<close> and \<^verbatim>\<open>btoa\<close> of the browser.
\<close>

section \<open>The standard functions\<close>

definition b64_char :: "nat \<Rightarrow> char" where
  "b64_char n = char_of (if n < 26 then n + 65 else if n < 52 then n + 71 else if n < 62 then n - 4
     else if n = 62 then 43 else 47)"

definition b64_val :: "char \<Rightarrow> nat option" where
  "b64_val c = (let k = ch_code c in
     if 65 \<le> k \<and> k \<le> 90 then Some (k - 65)
     else if 97 \<le> k \<and> k \<le> 122 then Some (k - 71)
     else if 48 \<le> k \<and> k \<le> 57 then Some (k + 4)
     else if k = 43 then Some 62 else if k = 47 then Some 63 else None)"

fun b64_decode :: "nat list \<Rightarrow> byte list" where
  "b64_decode (a # b # c # d # r) =
     of_nat (a * 4 + b div 16) # of_nat (b mod 16 * 16 + c div 4) # of_nat (c mod 4 * 64 + d) # b64_decode r"
| "b64_decode [a, b, c] = [of_nat (a * 4 + b div 16), of_nat (b mod 16 * 16 + c div 4)]"
| "b64_decode [a, b] = [of_nat (a * 4 + b div 16)]"
| "b64_decode _ = []"

definition ascii_space :: "char \<Rightarrow> bool" where
  "ascii_space c \<longleftrightarrow> ch_code c \<in> {9, 10, 12, 13, 32}"

text \<open>At most two padding characters are dropped, and only when the length is a multiple of four.\<close>

definition b64_unpad :: "string \<Rightarrow> string" where
  "b64_unpad s = (if length s mod 4 = 0 \<and> s \<noteq> [] \<and> last s = CHR ''=''
     then (let t = butlast s in if t \<noteq> [] \<and> last t = CHR ''='' then butlast t else t) else s)"

definition atob :: "string \<Rightarrow> bytes result" where
  "atob str = (let s = b64_unpad (filter (\<lambda>c. \<not> ascii_space c) str) in
     if length s mod 4 = 1 \<or> (\<exists>c \<in> set s. b64_val c = None) then Inl (ErrMsg ''InvalidCharacterError'')
     else Inr (b64_decode (map (\<lambda>c. the (b64_val c)) s)))"

fun btoa_bytes :: "byte list \<Rightarrow> string" where
  "btoa_bytes (x # y # z # r) =
     (let a = unat x; b = unat y; c = unat z in
      b64_char (a div 4) # b64_char (a mod 4 * 16 + b div 16) # b64_char (b mod 16 * 4 + c div 64)
        # b64_char (c mod 64) # btoa_bytes r)"
| "btoa_bytes [x, y] = (let a = unat x; b = unat y in
     [b64_char (a div 4), b64_char (a mod 4 * 16 + b div 16), b64_char (b mod 16 * 4), CHR ''=''])"
| "btoa_bytes [x] = (let a = unat x in [b64_char (a div 4), b64_char (a mod 4 * 16), CHR ''='', CHR ''=''])"
| "btoa_bytes [] = []"

definition char_bytes :: "string \<Rightarrow> bytes" where
  "char_bytes s = map (\<lambda>c. u8 (int (ch_code c))) s"

definition btoa :: "string \<Rightarrow> string" where
  "btoa s = btoa_bytes (char_bytes s)"

section \<open>The helper functions\<close>

definition base64ToArrayBuffer :: "string \<Rightarrow> bytes result" where
  "base64ToArrayBuffer base64 = bindE (atob base64) (\<lambda>binary_string.
     Inr (map (\<lambda>i. binary_string ! i) [0..<length binary_string]))"

text \<open>A pair of characters that is no number is stored as NaN, that is, as 0.\<close>

definition hexToByteArray :: "string \<Rightarrow> bytes" where
  "hexToByteArray hex =
     (let len = length hex div 2
      in map (\<lambda>i. case parseInt (take 2 (drop (2 * i) hex)) 16 of None \<Rightarrow> 0 | Some n \<Rightarrow> u8 n) [0..<len])"

definition bytesToString :: "bytes \<Rightarrow> string" where
  "bytesToString data = foldl (\<lambda>s i. s @ [char_of (unat (data ! i))]) [] [0..<length data]"

section \<open>Decoding what was encoded\<close>

lemma foldl_nth_map: "foldl (\<lambda>s i. s @ [f (xs ! i)]) acc [0..<length xs] = acc @ map f xs"
proof (induction xs rule: rev_induct)
  case (snoc x xs)
  have "foldl (\<lambda>s i. s @ [f ((xs @ [x]) ! i)]) acc [0..<length xs] = foldl (\<lambda>s i. s @ [f (xs ! i)]) acc [0..<length xs]"
    by (rule foldl_cong) (auto simp: nth_append)
  with snoc show ?case by simp
qed simp

lemma bytesToString_map: "bytesToString data = map (\<lambda>b. char_of (unat b)) data"
  unfolding bytesToString_def using foldl_nth_map [of "\<lambda>b. char_of (unat b)" data "[]"] by simp

lemma unat_byte: "unat (b :: byte) < 256"
  using unsigned_less [of b] by simp

lemma char_bytes_bytesToString: "char_bytes (bytesToString xs) = xs"
proof -
  have "u8 (int (ch_code (char_of (unat b)))) = b" for b :: byte
    using unat_byte [of b] by (simp add: u8_def)
  then show ?thesis by (simp add: char_bytes_def bytesToString_map comp_def)
qed

lemma b64_code: "n < 64 \<Longrightarrow> ch_code (b64_char n) = (if n < 26 then n + 65 else if n < 52 then n + 71
    else if n < 62 then n - 4 else if n = 62 then 43 else 47)"
  unfolding b64_char_def by (rule ch_code_char_of) auto

lemma b64_val_char: "n < 64 \<Longrightarrow> b64_val (b64_char n) = Some n"
  unfolding b64_val_def Let_def b64_code by auto

lemma b64_char_plain: "n < 64 \<Longrightarrow> \<not> ascii_space (b64_char n)" "n < 64 \<Longrightarrow> b64_char n \<noteq> CHR ''=''"
proof -
  have "ch_code (CHR ''='') = 61" by (simp add: ch_code_def)
  then show "n < 64 \<Longrightarrow> b64_char n \<noteq> CHR ''=''" using b64_code [of n] by (auto split: if_splits)
  show "n < 64 \<Longrightarrow> \<not> ascii_space (b64_char n)" unfolding ascii_space_def b64_code by auto
qed

text \<open>The numbers behind the characters that \<open>btoa_bytes\<close> writes, and its padding.\<close>

fun b64_digits :: "byte list \<Rightarrow> nat list" where
  "b64_digits (x # y # z # r) = (let a = unat x; b = unat y; c = unat z in
     a div 4 # (a mod 4 * 16 + b div 16) # (b mod 16 * 4 + c div 64) # c mod 64 # b64_digits r)"
| "b64_digits [x, y] = (let a = unat x; b = unat y in [a div 4, a mod 4 * 16 + b div 16, b mod 16 * 4])"
| "b64_digits [x] = (let a = unat x in [a div 4, a mod 4 * 16])"
| "b64_digits [] = []"

definition b64_padding :: "nat \<Rightarrow> string" where
  "b64_padding n = (if n mod 3 = 1 then ''=='' else if n mod 3 = 2 then ''='' else [])"

lemma btoa_digits: "btoa_bytes xs = map b64_char (b64_digits xs) @ b64_padding (length xs)"
  by (induction xs rule: btoa_bytes.induct) (simp_all add: Let_def b64_padding_def)

lemma b64_digits_bound: "n \<in> set (b64_digits xs) \<Longrightarrow> n < 64"
proof (induction xs rule: b64_digits.induct)
  case (1 x y z r)
  then show ?case using unat_byte [of x] unat_byte [of y] unat_byte [of z] by (auto simp: Let_def)
next
  case (2 x y)
  then show ?case using unat_byte [of x] unat_byte [of y] by (auto simp: Let_def)
next
  case (3 x)
  then show ?case using unat_byte [of x] by (auto simp: Let_def)
qed simp

text \<open>A number in two digits to the base \<open>k\<close>.\<close>

lemma two_digits: "t < k \<Longrightarrow> (m * k + t) div k = (m :: nat)" "t < k \<Longrightarrow> (m * k + t) mod k = (t :: nat)"
  by (simp_all add: div_mult_self3)

lemma of_nat_byte_eq: "n = unat b \<Longrightarrow> of_nat n = (b :: byte)"
  by simp

lemma b64_decode_digits: "b64_decode (b64_digits xs) = xs"
proof -
  have hi: "of_nat (unat x div 4 * 4 + (unat x mod 4 * 16 + t) div 16) = x" if "t < 16" for x :: byte and t
    by (rule of_nat_byte_eq) (simp add: two_digits that)
  have mid: "of_nat ((u * 16 + unat y div 16) mod 16 * 16 + (unat y mod 16 * 4 + t) div 4) = y" if "t < 4" for y :: byte and t u
    by (rule of_nat_byte_eq) (use unat_byte [of y] in \<open>simp add: two_digits that\<close>)
  have lo: "of_nat ((u * 4 + unat z div 64) mod 4 * 64 + unat z mod 64) = z" for z :: byte and u
    by (rule of_nat_byte_eq) (use unat_byte [of z] in \<open>simp add: two_digits\<close>)
  have 16: "unat y div 16 < 16" and 4: "unat y div 64 < 4" for y :: byte
    using unat_byte [of y] by auto
  show ?thesis
    using hi [of 0] mid [of 0]
    by (induction xs rule: b64_digits.induct) (simp_all only: b64_digits.simps b64_decode.simps Let_def hi [OF 16]
        mid [OF 4] lo zero_less_numeral add_0_right)
qed

lemma length_b64_digits:
  "length (b64_digits xs) mod 4 = (if length xs mod 3 = 0 then 0 else Suc (length xs mod 3))"
proof (induction xs rule: b64_digits.induct)
  case (1 x y z r)
  have "length r mod 3 < 3" by simp
  with 1 show ?case by (auto simp: Let_def mod_Suc)
qed (simp_all add: Let_def)

lemma b64_unpad_digits: "b64_unpad (map b64_char (b64_digits xs) @ b64_padding (length xs)) = map b64_char (b64_digits xs)"
proof -
  let ?d = "map b64_char (b64_digits xs)"
  have l: "?d = [] \<or> last ?d \<noteq> CHR ''=''"
    using b64_char_plain(2) b64_digits_bound [of _ xs] by (cases "b64_digits xs" rule: rev_cases) auto
  have m: "(length (b64_digits xs) + length (b64_padding (length xs))) mod 4 = 0"
    using length_b64_digits [of xs] by (auto simp: b64_padding_def mod_add_left_eq [symmetric, of "length (b64_digits xs)"] split: if_splits)
  consider "b64_padding (length xs) = []" | "b64_padding (length xs) = ''=''" | "b64_padding (length xs) = ''==''"
    by (cases "length xs mod 3 = 1"; cases "length xs mod 3 = 2") (auto simp: b64_padding_def)
  then show ?thesis
  proof cases
    case 1
    then show ?thesis using l by (auto simp: b64_unpad_def)
  next
    case 2
    then show ?thesis using l m by (auto simp: b64_unpad_def Let_def)
  next
    case 3
    then show ?thesis using m by (simp add: b64_unpad_def Let_def butlast_append)
  qed
qed

lemma atob_btoa_bytes: "atob (btoa_bytes xs) = Inr xs"
proof -
  let ?d = "map b64_char (b64_digits xs)"
  have "\<forall>c \<in> set (?d @ b64_padding (length xs)). \<not> ascii_space c"
    using b64_char_plain(1) b64_digits_bound [of _ xs] by (auto simp: b64_padding_def ascii_space_def ch_code_def)
  then have f: "filter (\<lambda>c. \<not> ascii_space c) (?d @ b64_padding (length xs)) = ?d @ b64_padding (length xs)"
    by (simp only: filter_id_conv)
  have v: "map (\<lambda>c. the (b64_val c)) ?d = b64_digits xs"
    using b64_val_char b64_digits_bound [of _ xs] by (auto simp: comp_def intro!: map_idI)
  have n: "\<not> (\<exists>c \<in> set ?d. b64_val c = None)"
    using b64_val_char b64_digits_bound [of _ xs] by force
  have "length ?d mod 4 \<noteq> 1" using length_b64_digits [of xs] by (auto split: if_splits)
  with n show ?thesis
    unfolding atob_def btoa_digits f b64_unpad_digits Let_def v b64_decode_digits by simp
qed

text \<open>Hexadecimal pairs.\<close>

lemma js_and_mask: "0 \<le> x \<Longrightarrow> x < 2 ^ 31 \<Longrightarrow> js_and x 15 = x mod 16"
proof -
  assume a: "0 \<le> x" "x < 2 ^ 31"
  have "x AND 15 = x mod 16" using take_bit_eq_mask [of 4 x] by (simp add: take_bit_eq_mod mask_eq_exp_minus_1)
  with a show ?thesis by (simp add: js_and_eq toInt32_id)
qed

lemma rstr2hex_digits:
  "rstr2hex xs = concat (map (\<lambda>x. [hexTab ! (unat x div 16), hexTab ! (unat x mod 16)]) xs)"
proof -
  have "nat (js_and (js_shr (uint x) 4) 0x0F) = unat x div 16" "nat (js_and (uint x) 0x0F) = unat x mod 16" for x :: byte
  proof -
    have b: "0 \<le> uint x" "uint x < 256" using unsigned_less [of x] by auto
    have "js_shr (uint x) 4 = uint x div 16" using b by (simp add: js_shr_def toUint32_mod)
    moreover have "js_and (uint x div 16) 15 = uint x div 16 mod 16"
      using b by (intro js_and_mask) (auto simp: pos_imp_zdiv_nonneg_iff)
    ultimately have "js_and (js_shr (uint x) 4) 0x0F = uint x div 16" using b by simp
    then show "nat (js_and (js_shr (uint x) 4) 0x0F) = unat x div 16" by (simp add: nat_div_distrib)
    show "nat (js_and (uint x) 0x0F) = unat x mod 16" using b by (simp add: js_and_mask nat_mod_distrib)
  qed
  then show ?thesis by (simp add: rstr2hex_def)
qed

lemma less_16_cases:
  "n < 16 \<Longrightarrow> n \<in> {0, 1, 2, 3, 4, 5, 6, 7, 8, 9, 10, 11, 12, 13, 14, 15 :: nat}"
  by (simp; presburger)

lemma hexTab_digit:
  assumes "n < 16"
  shows "char_digit (hexTab ! n) = n" "\<not> is_space (hexTab ! n)" "hexTab ! n \<noteq> CHR ''-''" "hexTab ! n \<noteq> CHR ''+''"
    "lower_char (hexTab ! n) \<noteq> CHR ''x''"
  using less_16_cases [OF assms]
  by (auto simp: hexTab_def char_digit_def is_digit_def is_alpha_def ch_code_def lower_char_def is_space_def)

lemma parseInt_pair:
  assumes "m < 16" "n < 16"
  shows "parseInt [hexTab ! m, hexTab ! n] 16 = Some (int (m * 16 + n))"
  using hexTab_digit [OF assms(1)] hexTab_digit [OF assms(2)] assms
  by (simp add: parseInt_def Let_def toLowerCase_def digits_val_def)

lemma take_drop_pairs:
  "i < length xs \<Longrightarrow> take 2 (drop (2 * i) (concat (map (\<lambda>x. [f x, g x]) xs))) = [f (xs ! i), g (xs ! i)]"
proof (induction xs arbitrary: i)
  case (Cons x xs)
  then show ?case by (cases i) auto
qed simp

lemma hexToByteArray_rstr2hex: "hexToByteArray (rstr2hex xs) = xs"
proof -
  have "length (concat (map (\<lambda>x. [f x, g x]) xs)) = 2 * length xs" for f g :: "byte \<Rightarrow> char"
    by (induction xs) simp_all
  then have "length (rstr2hex xs) div 2 = length xs" by (simp add: rstr2hex_digits)
  moreover have "(case parseInt (take 2 (drop (2 * i) (rstr2hex xs))) 16 of None \<Rightarrow> 0 | Some n \<Rightarrow> u8 n) = xs ! i"
    if "i < length xs" for i
  proof -
    have "unat (xs ! i) div 16 < 16" using unat_byte [of "xs ! i"] by simp
    then have "parseInt (take 2 (drop (2 * i) (rstr2hex xs))) 16 = Some (int (unat (xs ! i) div 16 * 16 + unat (xs ! i) mod 16))"
      unfolding rstr2hex_digits take_drop_pairs [OF that] by (intro parseInt_pair) simp_all
    then show ?thesis by (simp add: u8_def)
  qed
  ultimately show ?thesis
    unfolding hexToByteArray_def Let_def by (intro nth_equalityI) simp_all
qed

section \<open>Round trips\<close>

text \<open>The parameter sets and audio configurations that a server puts into a session description, in
  base64 or in hexadecimal digits, come out as the bytes that went in.\<close>

lemma encoded_configs_decode:
  "base64ToArrayBuffer (btoa (bytesToString xs)) = Inr xs \<and> hexToByteArray (rstr2hex xs) = xs"
proof -
  have "map ((!) xs) [0..<length xs] = xs" by (simp add: map_nth)
  then show ?thesis
    by (simp add: base64ToArrayBuffer_def btoa_def char_bytes_bytesToString atob_btoa_bytes hexToByteArray_rstr2hex)
qed

end
