(* ===== verification/Rtsp.thy ===== *)
theory Rtsp
  imports RtspMsg StateMachine Encodings Aac
begin

text \<open>
  The RTSP client: classes \<^verbatim>\<open>RTSPStream\<close>, \<^verbatim>\<open>RTSPSession\<close> and \<^verbatim>\<open>RTSPClientSM\<close> of
  \<^verbatim>\<open>demos/rtsp/rtsp.dev.js\<close>. An operation is a command on the client's state. What the server answers
  is a parameter: a function from the requests sent so far to the answer (or the rejection) of the
  last one, so that a theorem for all servers covers every order of answers. A promise that is
  awaited is run at once; a promise that nobody waits for is run where it is created and its
  rejection is recorded (\<open>detach\<close>). Transitions that overlap are the subject of theory StateMachine.
  A request that is never answered, and the bytes that arrive while one is pending, are not part of
  a command: they come between commands.
\<close>

section \<open>The state\<close>

datatype interval = NoInterval | Millis "rat option" | Timer rat

record stream =
  rs_state :: "int option"
  rs_attached :: bool                     \<comment> \<open>\<^verbatim>\<open>client\<close> is not null\<close>
  rs_track :: "media_block option"
  rs_rtpChannel :: int
  rs_keepaliveInterval :: interval
  rs_keepaliveTime :: rat
  rs_session :: "string option"

record session =
  ss_state :: "int option"
  ss_attached :: bool
  ss_sessionId :: string
  ss_url :: string

datatype authenticator = NoAuth | DigestAuth "string option" "string option" | BasicAuth

record track_params =
  tp_sps :: "bytes option"
  tp_pps :: "bytes option"
  tp_config :: "aac_config option"
  tp_duration :: "rat option"             \<comment> \<open>\<open>None\<close> is NaN\<close>

record track_info =
  ti_track :: media_block
  ti_offset :: int
  ti_type :: payload_type
  ti_params :: track_params
  ti_duration :: "rat option"

text \<open>\<^verbatim>\<open>endpoint\<close>, \<^verbatim>\<open>seekable\<close>, \<^verbatim>\<open>sampleQueues\<close> and the tracks handed to \<^verbatim>\<open>ontracks\<close> belong to the
  parent; \<open>cl_ready\<close> is \<^verbatim>\<open>transport.ready\<close>, \<open>cl_clock\<close> what the clock prints, \<open>cl_sent\<close> the requests
  that went to the transport and \<open>cl_unhandled\<close> the rejections nobody handles.\<close>

record client =
  cl_endpoint :: url
  cl_seekable :: bool
  cl_sampleQueues :: "(payload_type \<times> media_unit list list) list"
  cl_ontracks :: "track_info list option"
  cl_transport :: bool
  cl_ready :: "unit result"
  cl_clock :: string
  cl_sent :: "string list"
  cl_unhandled :: "js_error list"
  cl_sm :: "client_hook machine"
  cl_url :: string
  cl_payParser :: payload_parser
  cl_rtp_channels :: "int list"
  cl_rtpFactory :: "rtp_factory option"
  cl_has_config :: bool
  cl_authenticator :: authenticator
  cl_methods :: "string list"
  cl_tracks :: "string list"
  cl_rtpBuffer :: "(int option \<times> rtp list) list"
  cl_streams :: "(string \<times> stream) list"
  cl_sessions :: "(string \<times> session) list"
  cl_contentBase :: string
  cl_sdp :: "sdp option"
  cl_interleave :: int
  cl_session :: "string option"
  cl_timeOffset :: "(int option \<times> int) list"
  cl_lastTimestamp :: "(int option \<times> int) list"
  cl_cSeq :: int
  cl_started :: bool
  cl_shouldReconnect :: bool

type_synonym 'a action = "(client, 'a) cmd"

text \<open>The server: the requests so far, the newest last, to an answer or a rejection.\<close>

type_synonym server = "string list \<Rightarrow> string result"

definition USER_AGENT :: string where "USER_AGENT = ''SFRtsp 0.3''"

text \<open>A string that may be \<^verbatim>\<open>undefined\<close>, in a template.\<close>

definition tmpl :: "string option \<Rightarrow> string" where
  "tmpl s = (case s of None \<Rightarrow> ''undefined'' | Some t \<Rightarrow> t)"

text \<open>\<^verbatim>\<open>for (let k in obj)\<close>: array indices first, in ascending order, then the other names.\<close>

definition index_name :: "string \<Rightarrow> bool" where
  "index_name k \<longleftrightarrow> k \<noteq> [] \<and> list_all is_digit k \<and> (k = ''0'' \<or> hd k \<noteq> CHR ''0'')
     \<and> digits_val 10 k < 2 ^ 32 - 1"

definition for_in :: "(string \<times> 'a) list \<Rightarrow> string list" where
  "for_in ob = sort_key (digits_val 10) (filter index_name (map fst ob))
     @ filter (\<lambda>k. \<not> index_name k) (map fst ob)"

definition Object_assign :: "params \<Rightarrow> params \<Rightarrow> params" where
  "Object_assign target source = foldl (\<lambda>ob (k, v). AList.update k v ob) target source"

definition detach :: "unit action \<Rightarrow> unit action" where
  "detach m = catchC m (\<lambda>e. modify (\<lambda>c. c\<lparr>cl_unhandled := cl_unhandled c @ [e]\<rparr>))"

section \<open>Reset and the idle states\<close>

definition useRTPChannel :: "int \<Rightarrow> unit action" where
  "useRTPChannel channel = modify (\<lambda>c. c\<lparr>cl_rtp_channels :=
     (if channel \<in> set (cl_rtp_channels c) then cl_rtp_channels c else cl_rtp_channels c @ [channel])\<rparr>)"

definition forgetRTPChannel :: "int \<Rightarrow> unit action" where
  "forgetRTPChannel channel = modify (\<lambda>c. c\<lparr>cl_rtp_channels := filter (\<lambda>x. x \<noteq> channel) (cl_rtp_channels c)\<rparr>)"

definition RTSPStream :: "media_block \<Rightarrow> stream" where
  "RTSPStream track = \<lparr>rs_state = None, rs_attached = True, rs_track = Some track, rs_rtpChannel = 1,
     rs_keepaliveInterval = NoInterval, rs_keepaliveTime = 30000, rs_session = None\<rparr>"

definition stopKeepAlive :: "stream \<Rightarrow> stream" where
  "stopKeepAlive s = (case rs_keepaliveInterval s of
     Timer t \<Rightarrow> s\<lparr>rs_keepaliveInterval := NoInterval\<rparr> | _ \<Rightarrow> s)"

definition put_stream :: "string \<Rightarrow> stream \<Rightarrow> unit action" where
  "put_stream ty s = modify (\<lambda>c. c\<lparr>cl_streams := AList.update ty s (cl_streams c)\<rparr>)"

definition RTSPStream_reset :: "string \<Rightarrow> unit action" where
  "RTSPStream_reset ty = seqC (get (\<lambda>c. map_of (cl_streams c) ty)) (\<lambda>s. case s of
       None \<Rightarrow> throw TypeErr
     | Some s \<Rightarrow>
         (let s1 = stopKeepAlive s in
          if \<not> rs_attached s1 then seqC (put_stream ty s1) (\<lambda>_. throw TypeErr)
          else seqC (forgetRTPChannel (rs_rtpChannel s1)) (\<lambda>_.
               put_stream ty (s1\<lparr>rs_attached := False, rs_track := None\<rparr>))))"

definition put_session :: "string \<Rightarrow> session \<Rightarrow> unit action" where
  "put_session k s = modify (\<lambda>c. c\<lparr>cl_sessions := AList.update k s (cl_sessions c)\<rparr>)"

definition RTSPSession_reset :: "string \<Rightarrow> unit action" where
  "RTSPSession_reset k = seqC (get (\<lambda>c. map_of (cl_sessions c) k)) (\<lambda>s. case s of
       None \<Rightarrow> throw TypeErr
     | Some s \<Rightarrow> put_session k (s\<lparr>ss_attached := False\<rparr>))"

text \<open>The permission check of a transition, and the assignment of \<^verbatim>\<open>currentState\<close>.\<close>

definition permit :: "int \<Rightarrow> bool action" where
  "permit n c = (case transitionTo (cl_sm c) n of
       Begin h t \<Rightarrow> (Inr True, c)
     | AlreadyThere \<Rightarrow> (Inr False, c)
     | Refuse m \<Rightarrow> (Inl (ErrMsg m), c)
     | Raise e \<Rightarrow> (Inl e, c))"

definition enter :: "int \<Rightarrow> unit action" where
  "enter n = modify (\<lambda>c. c\<lparr>cl_sm := (cl_sm c)\<lparr>sm_current := Some n\<rparr>\<rparr>)"

definition transition :: "int \<Rightarrow> 'a action \<Rightarrow> ('a \<Rightarrow> unit action) \<Rightarrow> unit action" where
  "transition n activate finish =
     seqC (permit n) (\<lambda>b. if b then seqC activate (\<lambda>x. seqC (enter n) (\<lambda>_. finish x)) else ret ())"

definition toInitial :: "unit action" where
  "toInitial = transition STATE_INITIAL (ret ()) (\<lambda>_. ret ())"

definition clearStarted :: "unit action" where
  "clearStarted = modify (\<lambda>c. c\<lparr>cl_started := False\<rparr>)"

definition toTeardown :: "unit action" where
  "toTeardown = transition STATE_TEARDOWN clearStarted (\<lambda>_. toInitial)"

text \<open>\<^verbatim>\<open>reset\<close> up to its first \<^verbatim>\<open>await\<close>, and what comes after the last one.\<close>

definition reset_begin :: "unit action" where
  "reset_begin =
     seqC (modify (\<lambda>c. c\<lparr>cl_authenticator := NoAuth, cl_methods := [], cl_tracks := [], cl_rtpBuffer := []\<rparr>)) (\<lambda>_.
     seqC (get (\<lambda>c. for_in (cl_streams c))) (\<lambda>ks.
     seqC (forC ks RTSPStream_reset) (\<lambda>_.
     seqC (get (\<lambda>c. for_in (cl_sessions c))) (\<lambda>ks.
     seqC (forC ks RTSPSession_reset) (\<lambda>_.
       modify (\<lambda>c. c\<lparr>cl_streams := [], cl_sessions := [], cl_contentBase := []\<rparr>))))))"

definition reset_end :: "unit action" where
  "reset_end = modify (\<lambda>c. c\<lparr>cl_sdp := None, cl_interleave := 0, cl_session := None, cl_timeOffset := [],
     cl_lastTimestamp := []\<rparr>)"

definition reset :: "unit action" where
  "reset = seqC reset_begin (\<lambda>_.
     seqC (get (\<lambda>c. sm_current (cl_sm c))) (\<lambda>cur.
     seqC (case cur of
             Some n \<Rightarrow> if n \<noteq> STATE_INITIAL then seqC toTeardown (\<lambda>_. toInitial) else ret ()
           | None \<Rightarrow> toInitial) (\<lambda>_. reset_end)))"

text \<open>\<^verbatim>\<open>onDisconnected\<close> does not wait for its reset: the transitions that the two ask for are on their way together, and
  their links alternate. Both assign the same states, so that one after the other ends in the same client
  (lemma \<^verbatim>\<open>onDisconnected_alternating\<close> of theory \<^verbatim>\<open>RtspFlow\<close>).\<close>

definition onDisconnected :: "unit action" where
  "onDisconnected = seqC (detach reset) (\<lambda>_.
     seqC (modify (\<lambda>c. c\<lparr>cl_shouldReconnect := True\<rparr>)) (\<lambda>_.
     seqC toTeardown (\<lambda>_. toInitial)))"

definition setSource :: "url \<Rightarrow> unit action" where
  "setSource url = seqC (detach reset) (\<lambda>_.
     modify (\<lambda>c. c\<lparr>cl_url := u_protocol url @ ''://'' @ u_location url @ u_urlpath url\<rparr>))"

definition supports :: "string \<Rightarrow> bool action" where
  "supports m = get (\<lambda>c. m \<in> set (cl_methods c))"

section \<open>Requests and responses\<close>

text \<open>How a template prints the credentials: without a login both are null; a login without a colon has
  an undefined password.\<close>

definition user_text :: "url \<Rightarrow> string" where
  "user_text ep = (case u_user ep of None \<Rightarrow> ''null'' | Some u \<Rightarrow> u)"

definition pass_text :: "url \<Rightarrow> string" where
  "pass_text ep = (case u_pass ep of
     None \<Rightarrow> if u_user ep = None then ''null'' else ''undefined'' | Some w \<Rightarrow> w)"

definition md5_text :: "string \<Rightarrow> string" where
  "md5_text s = (case md5 s [] False of Inl h \<Rightarrow> h | Inr b \<Rightarrow> bytesToString b)"

text \<open>What \<^verbatim>\<open>this.authenticator(_method)\<close> returns; \<open>None\<close> while it is the empty string.\<close>

definition authorization :: "client \<Rightarrow> string \<Rightarrow> string option" where
  "authorization c meth = (case cl_authenticator c of
       NoAuth \<Rightarrow> None
     | DigestAuth realm nonce \<Rightarrow>
         (let ep = cl_endpoint c;
              ha1 = md5_text (user_text ep @ '':'' @ tmpl realm @ '':'' @ pass_text ep);
              ha2 = md5_text (meth @ '':'' @ cl_url c);
              response = md5_text (ha1 @ '':'' @ tmpl nonce @ '':'' @ ha2);
              q = [CHR 0x22]
          in Some (''Digest username='' @ q @ user_text ep @ q @ '', realm='' @ q @ tmpl realm @ q @
               '', nonce='' @ q @ tmpl nonce @ q @ '', uri='' @ q @ cl_url c @ q @
               '', response='' @ q @ response @ q))
     | BasicAuth \<Rightarrow> Some (''Basic '' @ btoa (u_auth (cl_endpoint c))))"

text \<open>The fields of a challenge: name and value without its first and last character.\<close>

definition parse_chunk :: "(string \<times> string) list \<Rightarrow> string \<Rightarrow> (string \<times> string) list result" where
  "parse_chunk ob chunk =
     (let kv = js_split (js_trim chunk) ''='' in
      case at_str kv 1 of
        None \<Rightarrow> Inl TypeErr
      | Some v \<Rightarrow> Inr (AList.update (kv ! 0) (take (length v - 2) (drop 1 v)) ob))"

text \<open>\<^verbatim>\<open>auth.substring(0, auth.indexOf(' '))\<close> and \<^verbatim>\<open>auth.substr(method.length+1)\<close>.\<close>

definition challenge_method :: "string \<Rightarrow> string" where
  "challenge_method auth = (case indexOf_char auth (CHR '' '') of None \<Rightarrow> [] | Some i \<Rightarrow> take i auth)"

definition challenge_chunks :: "string \<Rightarrow> string list" where
  "challenge_chunks auth = js_split (drop (length (challenge_method auth) + 1) auth) '',''"

text \<open>\<^verbatim>\<open>BaseClient.queryCredentials\<close> resolves at once.\<close>

definition queryCredentials :: "unit action" where
  "queryCredentials = ret ()"

definition on_challenge :: "rtsp_msg \<Rightarrow> unit action" where
  "on_challenge parsed = (case map_of (rm_headers parsed) ''www-authenticate'' of
       None \<Rightarrow> throw TypeErr
     | Some auth \<Rightarrow>
         seqC (get cl_endpoint) (\<lambda>ep.
         seqC (if \<not> truthy_str (u_user ep) \<or> \<not> truthy_str (u_pass ep)
               then catchC queryCredentials (\<lambda>e. throw AuthErr) else ret ()) (\<lambda>_.
         seqC (if toLowerCase (challenge_method auth) = ''digest''
               then seqC (liftC (foldE parse_chunk [] (challenge_chunks auth))) (\<lambda>parsedChunks.
                      modify (\<lambda>c. c\<lparr>cl_authenticator := DigestAuth (map_of parsedChunks ''realm'') (map_of parsedChunks ''nonce'')\<rparr>))
               else modify (\<lambda>c. c\<lparr>cl_authenticator := BasicAuth\<rparr>)) (\<lambda>_.
           throw AuthErr))))"

definition on_response :: "rtsp_msg \<Rightarrow> rtsp_msg action" where
  "on_response parsed =
     (if rm_code parsed = 401 then seqC (on_challenge parsed) (\<lambda>_. ret parsed)
      else if rm_code parsed \<ge> 300 then throw (RtspErr (rm_code parsed) (rm_statusLine parsed))
      else ret parsed)"

definition send :: "server \<Rightarrow> string \<Rightarrow> rtsp_msg action" where
  "send srv data =
     seqC (get cl_transport) (\<lambda>attached.
     if \<not> attached then throw (ErrMsg ''No transport attached'') else
     seqC (get cl_ready) (\<lambda>ready. case ready of
       Inl e \<Rightarrow> seqC (detach onDisconnected) (\<lambda>_. throw e)
     | Inr _ \<Rightarrow>
         seqC (modify (\<lambda>c. c\<lparr>cl_sent := cl_sent c @ [data]\<rparr>)) (\<lambda>_.
         seqC (get cl_sent) (\<lambda>sent.
         seqC (liftC (srv sent)) (\<lambda>response.
         seqC (liftC (SM_parse response)) on_response)))))"

definition request_params :: "client \<Rightarrow> string \<Rightarrow> params \<Rightarrow> params" where
  "request_params c cmd ps =
     (let ps1 = Object_assign ps [(''CSeq'', int_str (cl_cSeq c)), (''User-Agent'', USER_AGENT)]
      in case authorization c cmd of None \<Rightarrow> ps1 | Some a \<Rightarrow> AList.update ''Authorization'' a ps1)"

text \<open>\<^verbatim>\<open>sendRequest\<close> calls itself again after a challenge; the bound is the number of messages it may
  send.\<close>

fun sendRequest_upto :: "nat \<Rightarrow> server \<Rightarrow> string \<Rightarrow> string \<Rightarrow> params \<Rightarrow> string option \<Rightarrow> rtsp_msg action" where
  "sendRequest_upto 0 srv cmd host ps payload = throw CallStackExceeded"
| "sendRequest_upto (Suc n) srv cmd host ps payload =
     seqC (modify (\<lambda>c. c\<lparr>cl_cSeq := cl_cSeq c + 1\<rparr>)) (\<lambda>_.
     seqC (get (\<lambda>c. request_params c cmd ps)) (\<lambda>ps1.
     catchC (send srv (msg_build cmd host ps1 payload)) (\<lambda>e.
       if e = AuthErr \<and> \<not> truthy_str (map_of ps1 ''Authorization'')
       then sendRequest_upto n srv cmd host ps1 payload
       else throw e)))"

definition sendRequest :: "server \<Rightarrow> string \<Rightarrow> string \<Rightarrow> params \<Rightarrow> rtsp_msg action" where
  "sendRequest srv cmd host ps = sendRequest_upto 2 srv cmd host ps None"

section \<open>Streams\<close>

definition session_block :: "media_block action" where
  "session_block = seqC (get cl_sdp) (\<lambda>s. case s of None \<Rightarrow> throw TypeErr | Some s \<Rightarrow> ret (getSessionBlock s))"

definition getSetupURL :: "media_block \<Rightarrow> string action" where
  "getSetupURL track =
     seqC session_block (\<lambda>sb.
     seqC (get cl_contentBase) (\<lambda>base.
       let ctrl = tmpl (mb_control track) in
       ret (if Url_isAbsolute ctrl then ctrl
            else if Url_isAbsolute (tmpl (mb_control sb) @ ctrl) then tmpl (mb_control sb) @ ctrl
            else if Url_isAbsolute (base @ ctrl) then base @ ctrl
            else ctrl)))"

definition getControlURL :: "string action" where
  "getControlURL =
     seqC session_block (\<lambda>sb.
     seqC (get cl_contentBase) (\<lambda>base.
       let ctrl = mb_control sb in
       ret (if Url_isAbsolute (tmpl ctrl) then tmpl ctrl
            else if \<not> truthy_str ctrl \<or> ctrl = Some ''*'' then base
            else base @ tmpl ctrl)))"

text \<open>\<^verbatim>\<open>transport.match(/interleaved=([0-9]+)-([0-9]+)/)\<close>.\<close>

definition re_interleaved :: re where
  "re_interleaved = re_seq [Lit ''interleaved='', Cap (Plus is_digit), Lit ''-'', Cap (Plus is_digit)]"

definition interleaved_of :: "string \<Rightarrow> int result" where
  "interleaved_of transport = (case re_search re_interleaved transport of
       Some (_ # n # _) \<Rightarrow> Inr (digits_val 10 n) | _ \<Rightarrow> Inl TypeErr)"

text \<open>The parameters behind the session identifier.\<close>

definition session_params :: "string \<Rightarrow> (string \<times> string option) list" where
  "session_params s = foldl (\<lambda>ob chunk. let kv = js_split chunk ''='' in AList.update (kv ! 0) (at_str kv 1) ob)
     [] (tl (js_split s '';''))"

definition sendSetup_response :: "stream \<Rightarrow> rtsp_msg \<Rightarrow> stream \<times> unit result" where
  "sendSetup_response s data =
     (let s1 = s\<lparr>rs_session := map_of (rm_headers data) ''session''\<rparr>;
          transport = map_of (rm_headers data) ''transport'';
          channel = (if truthy_str transport then interleaved_of (the transport) else Inr (rs_rtpChannel s1))
      in case channel of
           Inl e \<Rightarrow> (s1, Inl e)
         | Inr n \<Rightarrow>
             (let s2 = s1\<lparr>rs_rtpChannel := n\<rparr> in
              case rs_session s2 of
                None \<Rightarrow> (s2, Inl TypeErr)
              | Some sess \<Rightarrow>
                  (case map_of (session_params sess) ''timeout'' of
                     Some (Some t) \<Rightarrow>
                       (if t \<noteq> [] then s2\<lparr>rs_keepaliveInterval := Millis (map_option (\<lambda>x. x * 500) (js_Number t))\<rparr> else s2, Inr ())
                   | _ \<Rightarrow> (s2, Inr ()))))"

definition startKeepAlive :: "stream \<Rightarrow> stream" where
  "startKeepAlive s = s\<lparr>rs_keepaliveInterval := Timer (rs_keepaliveTime s)\<rparr>"

definition setup_params :: "int \<Rightarrow> string \<Rightarrow> string option \<Rightarrow> params" where
  "setup_params i date session =
     (let ps = [(''Transport'', ''RTP/AVP/TCP;unicast;interleaved='' @ int_str i @ ''-'' @ int_str (i + 1)), (''Date'', date)]
      in if truthy_str session then ps @ [(''Session'', the session)] else ps)"

definition RTSPStream_sendSetup :: "server \<Rightarrow> string \<Rightarrow> media_block \<Rightarrow> string option \<Rightarrow> rtsp_msg action" where
  "RTSPStream_sendSetup srv ty track session =
     seqC (get cl_interleave) (\<lambda>i.
     seqC (put_stream ty ((RTSPStream track)\<lparr>rs_state := Some STATE_SETUP, rs_rtpChannel := i\<rparr>)) (\<lambda>_.
     seqC (modify (\<lambda>c. c\<lparr>cl_interleave := i + 2\<rparr>)) (\<lambda>_.
     seqC (get cl_clock) (\<lambda>date.
     seqC (getSetupURL track) (\<lambda>url.
     seqC (sendRequest srv ''SETUP'' url (setup_params i date session)) (\<lambda>data.
        let (s, r) = sendSetup_response ((RTSPStream track)\<lparr>rs_state := Some STATE_SETUP, rs_rtpChannel := i\<rparr>) data
        in seqC (put_stream ty s) (\<lambda>_. seqC (liftC r) (\<lambda>_.
           seqC (useRTPChannel (rs_rtpChannel s)) (\<lambda>_.
           seqC (put_stream ty (startKeepAlive s)) (\<lambda>_. ret data))))))))))"

text \<open>\<^verbatim>\<open>stop\<close> calls a method that the class does not have.\<close>

definition RTSPStream_stop :: "unit action" where
  "RTSPStream_stop = throw TypeErr"

definition sendKeepalive :: "server \<Rightarrow> stream \<Rightarrow> rtsp_msg action" where
  "sendKeepalive srv s =
     (case rs_track s of None \<Rightarrow> throw TypeErr | Some track \<Rightarrow>
      seqC (supports ''GET_PARAMETER'') (\<lambda>b.
      if b then seqC (getSetupURL track) (\<lambda>url.
             sendRequest srv ''GET_PARAMETER'' url [(''Session'', tmpl (rs_session s))])
      else sendRequest srv ''OPTIONS'' ''*'' []))"

definition RTSPStream_sendRequest :: "server \<Rightarrow> stream \<Rightarrow> string \<Rightarrow> params \<Rightarrow> rtsp_msg action" where
  "RTSPStream_sendRequest srv s cmd params =
     seqC getControlURL (\<lambda>url.
       sendRequest srv cmd url (Object_assign (if truthy_str (rs_session s) then [(''Session'', the (rs_session s))] else []) params))"

section \<open>Sessions\<close>

definition RTSPSession :: "string \<Rightarrow> session action" where
  "RTSPSession sessionId = seqC getControlURL (\<lambda>url.
     ret \<lparr>ss_state = None, ss_attached = True, ss_sessionId = sessionId, ss_url = url\<rparr>)"

definition RTSPSession_sendRequest :: "server \<Rightarrow> string \<Rightarrow> string \<Rightarrow> rtsp_msg action" where
  "RTSPSession_sendRequest srv k cmd =
     seqC (get (\<lambda>c. map_of (cl_sessions c) k)) (\<lambda>s. case s of
       None \<Rightarrow> throw TypeErr
     | Some s \<Rightarrow> if \<not> ss_attached s then throw TypeErr
         else seqC getControlURL (\<lambda>url.
           sendRequest srv cmd url (if ss_sessionId s \<noteq> [] then [(''Session'', ss_sessionId s)] else [])))"

definition set_session_state :: "string \<Rightarrow> int \<Rightarrow> unit action" where
  "set_session_state k n = modify (\<lambda>c. c\<lparr>cl_sessions := (case map_of (cl_sessions c) k of
     None \<Rightarrow> cl_sessions c | Some s \<Rightarrow> AList.update k (s\<lparr>ss_state := Some n\<rparr>) (cl_sessions c))\<rparr>)"

text \<open>A range that starts now is played from its beginning; the description itself is changed.\<close>

definition clamp_range :: "sdp \<Rightarrow> sdp" where
  "clamp_range s = (case mb_range (sd_blocks s ! 0) of
       Some (start, stop, unt) \<Rightarrow>
         if start = Some (- 1) then s\<lparr>sd_blocks := (sd_blocks s)[0 := (sd_blocks s ! 0)\<lparr>mb_range := Some (Some 0, stop, unt)\<rparr>]\<rparr> else s
     | None \<Rightarrow> s)"

definition sendPlay :: "server \<Rightarrow> string \<Rightarrow> unit action" where
  "sendPlay srv k =
     seqC (set_session_state k STATE_PLAY) (\<lambda>_.
     seqC (get cl_sdp) (\<lambda>s. case s of
       None \<Rightarrow> throw TypeErr
     | Some s \<Rightarrow>
         seqC (modify (\<lambda>c. c\<lparr>cl_sdp := Some (clamp_range s)\<rparr>)) (\<lambda>_.
         seqC (RTSPSession_sendRequest srv k ''PLAY'') (\<lambda>_. set_session_state k STATE_PLAYING))))"

definition sendPause :: "server \<Rightarrow> string \<Rightarrow> unit action" where
  "sendPause srv k =
     seqC (supports ''PAUSE'') (\<lambda>b. if \<not> b then ret () else
     seqC (set_session_state k STATE_PAUSE) (\<lambda>_.
     seqC (RTSPSession_sendRequest srv k ''PAUSE'') (\<lambda>_. set_session_state k STATE_PAUSED)))"

definition sendTeardown :: "server \<Rightarrow> string \<Rightarrow> unit action" where
  "sendTeardown srv k =
     seqC (get (\<lambda>c. map_option ss_state (map_of (cl_sessions c) k))) (\<lambda>st.
     if st = Some (Some STATE_TEARDOWN) then ret () else
     seqC (set_session_state k STATE_TEARDOWN) (\<lambda>_.
     seqC (RTSPSession_sendRequest srv k ''TEARDOWN'') (\<lambda>_. ret ())))"

definition RTSPSession_start :: "server \<Rightarrow> string \<Rightarrow> unit action" where
  "RTSPSession_start srv k = sendPlay srv k"

definition RTSPSession_stop :: "server \<Rightarrow> string \<Rightarrow> unit action" where
  "RTSPSession_stop srv k = sendTeardown srv k"

section \<open>The states\<close>

definition sendOptions :: "server \<Rightarrow> rtsp_msg action" where
  "sendOptions srv =
     seqC (detach reset) (\<lambda>_.
     seqC (modify (\<lambda>c. c\<lparr>cl_started := True, cl_cSeq := 0\<rparr>)) (\<lambda>_.
       sendRequest srv ''OPTIONS'' ''*'' []))"

definition sendDescribe :: "server \<Rightarrow> rtsp_msg action" where
  "sendDescribe srv =
     seqC (get cl_url) (\<lambda>url.
     seqC (sendRequest srv ''DESCRIBE'' url [(''Accept'', ''application/sdp'')]) (\<lambda>data.
     seqC (modify (\<lambda>c. c\<lparr>cl_sdp := Some SDPParser\<rparr>)) (\<lambda>_.
       case rm_body data of
         None \<Rightarrow> throw (ErrMsg ''Failed to parse SDP'')
       | Some body \<Rightarrow> (case sdp_parse body of
           Inl e \<Rightarrow> throw (ErrMsg ''Failed to parse SDP'')
         | Inr s \<Rightarrow> seqC (modify (\<lambda>c. c\<lparr>cl_sdp := Some s\<rparr>)) (\<lambda>_. ret data)))))"

text \<open>\<^verbatim>\<open>PayloadType.string_map[track.rtpmap[track.fmt[0]].name]\<close>, with the format and the name.\<close>

definition track_format :: "media_block \<Rightarrow> (int option \<times> string) result" where
  "track_format track = (case (mb_rtpmap track, mb_fmt track) of
       (Some rtpmap, Some (f # _)) \<Rightarrow>
         (case f of None \<Rightarrow> Inl TypeErr
          | Some n \<Rightarrow> (case map_of rtpmap n of None \<Rightarrow> Inl TypeErr | Some e \<Rightarrow> Inr (f, rm_name e)))
     | _ \<Rightarrow> Inl TypeErr)"

definition find_track :: "sdp \<Rightarrow> string \<Rightarrow> (media_block \<times> int option \<times> string) result" where
  "find_track s ty = (case getMediaBlock s ty of
       None \<Rightarrow> Inl TypeErr
     | Some track \<Rightarrow> bindE (track_format track) (\<lambda>(f, name). Inr (track, f, name)))"

text \<open>The part of the loop over the tracks that runs before any answer: the queues of a playable track.\<close>

definition prepare_track :: "sdp \<Rightarrow> string \<Rightarrow> unit action" where
  "prepare_track s ty = seqC (liftC (find_track s ty)) (\<lambda>(track, f, name).
     case pt_string_map name of
       None \<Rightarrow> ret ()
     | Some pt \<Rightarrow>
         seqC (put_stream ty (RTSPStream track)) (\<lambda>_.
         modify (\<lambda>c. c\<lparr>cl_sampleQueues := AList.update pt [] (cl_sampleQueues c),
                       cl_rtpBuffer := AList.update f [] (cl_rtpBuffer c)\<rparr>)))"

text \<open>\<^verbatim>\<open>params\<close> of a track, and the audio configuration for the depacketizer.\<close>

definition no_params :: track_params where
  "no_params = \<lparr>tp_sps = None, tp_pps = None, tp_config = None, tp_duration = None\<rparr>"

definition fmtp_text :: "media_block \<Rightarrow> string \<Rightarrow> string option result" where
  "fmtp_text track key = (case mb_fmtp track of None \<Rightarrow> Inl TypeErr | Some fmtp \<Rightarrow> Inr (map_of fmtp key))"

definition set_aac_config :: "aac_config option \<Rightarrow> unit action" where
  "set_aac_config conf = modify (\<lambda>c. c\<lparr>cl_payParser := (cl_payParser c)\<lparr>pp_config :=
     (case conf of None \<Rightarrow> None | Some a \<Rightarrow> ac_samplerate a)\<rparr>\<rparr>)"

definition track_config :: "media_block \<Rightarrow> string \<Rightarrow> track_params action" where
  "track_config track name =
     seqC (liftC (fmtp_text track ''sprop-parameter-sets'')) (\<lambda>sprop.
     if truthy_str sprop then
       (let sps_pps = js_split (the sprop) '','' in
        seqC (liftC (base64ToArrayBuffer (tmpl (at_str sps_pps 0)))) (\<lambda>sps.
        seqC (liftC (base64ToArrayBuffer (tmpl (at_str sps_pps 1)))) (\<lambda>pps.
          ret (no_params\<lparr>tp_sps := Some sps, tp_pps := Some pps\<rparr>))))
     else
       seqC (liftC (fmtp_text track ''config'')) (\<lambda>config.
       if truthy_str config then
         seqC (liftC (fmtp_text track ''cpresent'')) (\<lambda>cpresent.
         seqC (modify (\<lambda>c. c\<lparr>cl_has_config := (cpresent \<noteq> Some ''0'')\<rparr>)) (\<lambda>_.
         seqC (liftC (if name = ''MPEG4-GENERIC''
                      then bindE (parseAudioSpecificConfig (hexToByteArray (the config))) (\<lambda>a. Inr (Some a))
                      else parseStreamMuxConfig (hexToByteArray (the config)))) (\<lambda>conf.
         seqC (set_aac_config conf) (\<lambda>_. ret (no_params\<lparr>tp_config := conf\<rparr>)))))
       else ret no_params))"

definition sdp_duration :: "media_block \<Rightarrow> rat option" where
  "sdp_duration sb = (case mb_range sb of
       None \<Rightarrow> Some 1
     | Some (start, stop, unt) \<Rightarrow> (case (start, stop) of (Some a, Some b) \<Rightarrow> Some (js_sub b a) | _ \<Rightarrow> None))"

text \<open>What is done with the answer to a SETUP. The \<^verbatim>\<open>RTP-Info\<close> header is read, but every branch
  leaves the offset 0.\<close>

definition on_track_setup :: "media_block \<Rightarrow> int option \<Rightarrow> string \<Rightarrow> payload_type \<Rightarrow> rtsp_msg \<Rightarrow> track_info action" where
  "on_track_setup track f name pt data =
     seqC (modify (\<lambda>c. c\<lparr>cl_timeOffset := AList.update f 0 (cl_timeOffset c)\<rparr>)) (\<lambda>_.
     seqC (track_config track name) (\<lambda>params0.
     seqC session_block (\<lambda>sb.
     let duration = sdp_duration sb;
         params = params0\<lparr>tp_duration := duration\<rparr>;
         seekable = (case duration of Some d \<Rightarrow> d > 1 | None \<Rightarrow> False)
     in seqC (modify (\<lambda>c. c\<lparr>cl_seekable := seekable\<rparr>)) (\<lambda>_.
        case map_of (rm_headers data) ''session'' of
          None \<Rightarrow> throw TypeErr
        | Some sess \<Rightarrow>
            (let k = js_split sess '';'' ! 0 in
             seqC (get (\<lambda>c. map_of (cl_sessions c) k)) (\<lambda>old.
             seqC (if old = None then seqC (RTSPSession k) (put_session k) else ret ()) (\<lambda>_.
               ret \<lparr>ti_track = track, ti_offset = 0, ti_type = pt, ti_params = params, ti_duration = duration\<rparr>)))))))"

text \<open>The chain of SETUP requests: each after the answer to the one before, in the session of its
  answer. A track without a known payload type is skipped.\<close>

fun setup_tracks :: "server \<Rightarrow> sdp \<Rightarrow> string list \<Rightarrow> string option \<Rightarrow> track_info list action" where
  "setup_tracks srv s [] sess = ret []"
| "setup_tracks srv s (ty # tys) sess =
     seqC (liftC (find_track s ty)) (\<lambda>(track, f, name).
     case pt_string_map name of
       None \<Rightarrow> setup_tracks srv s tys sess
     | Some pt \<Rightarrow>
         seqC (RTSPStream_sendSetup srv ty track sess) (\<lambda>data.
         seqC (on_track_setup track f name pt data) (\<lambda>ti.
         seqC (get (\<lambda>c. case map_of (cl_streams c) ty of None \<Rightarrow> None | Some st \<Rightarrow> rs_session st)) (\<lambda>sess1.
         seqC (setup_tracks srv s tys sess1) (\<lambda>tis. ret (ti # tis))))))"

definition stop :: "server \<Rightarrow> unit action" where
  "stop srv =
     seqC (modify (\<lambda>c. c\<lparr>cl_shouldReconnect := False\<rparr>)) (\<lambda>_.
     seqC (get (\<lambda>c. for_in (cl_sessions c))) (\<lambda>ks. forC ks (sendPause srv)))"

text \<open>The handler of a failed set-up: it stops and resets without waiting. Its own promise is resolved
  when the reset waits for the state TEARDOWN, so the machine goes on to enter SETUP right after
  TEARDOWN was entered; the transition from there to INITIAL is refused and the rest of the reset
  never runs.\<close>

definition setup_failed :: "server \<Rightarrow> unit action" where
  "setup_failed srv =
     seqC (detach (stop srv)) (\<lambda>_.
     seqC (detach (seqC reset_begin (\<lambda>_. transition STATE_TEARDOWN clearStarted (\<lambda>_. ret ())))) (\<lambda>_.
       modify (\<lambda>c. c\<lparr>cl_unhandled := cl_unhandled c @
         [ErrMsg (''No such transition: '' @ int_str STATE_SETUP @ '' to '' @ int_str STATE_INITIAL)]\<rparr>)))"

definition sendSetup :: "server \<Rightarrow> unit action" where
  "sendSetup srv =
     seqC (get cl_tracks) (\<lambda>tracks.
     seqC (get cl_sdp) (\<lambda>s. case s of
       None \<Rightarrow> (if tracks = [] then ret () else throw TypeErr)
     | Some s \<Rightarrow>
         seqC (forC tracks (prepare_track s)) (\<lambda>_.
         catchC
           (seqC (setup_tracks srv s tracks None) (\<lambda>infos.
            seqC (get (\<lambda>c. for_in (cl_sessions c))) (\<lambda>ks.
            seqC (forC ks (sendPlay srv)) (\<lambda>_.
              modify (\<lambda>c. c\<lparr>cl_ontracks := Some infos\<rparr>)))))
           (\<lambda>e. setup_failed srv))))"

definition toStreams :: "unit action" where
  "toStreams = transition STATE_STREAMS (ret ()) (\<lambda>_. ret ())"

text \<open>\<^verbatim>\<open>onSetup\<close>, \<^verbatim>\<open>onDescribe\<close> and \<^verbatim>\<open>onOptions\<close> request the next state and do not wait for it.\<close>

definition onSetup :: "unit action" where
  "onSetup = detach toStreams"

definition toSetup :: "server \<Rightarrow> unit action" where
  "toSetup srv = transition STATE_SETUP (sendSetup srv) (\<lambda>_. onSetup)"

definition onDescribe :: "server \<Rightarrow> rtsp_msg \<Rightarrow> unit action" where
  "onDescribe srv data =
     seqC (get cl_url) (\<lambda>url.
     seqC (modify (\<lambda>c. c\<lparr>cl_contentBase :=
       (case map_of (rm_headers data) ''content-base'' of Some b \<Rightarrow> if b \<noteq> [] then b else url | None \<Rightarrow> url)\<rparr>)) (\<lambda>_.
     seqC (get cl_sdp) (\<lambda>s. case s of
       None \<Rightarrow> throw TypeErr
     | Some s \<Rightarrow>
         seqC (modify (\<lambda>c. c\<lparr>cl_tracks := getMediaBlockList s\<rparr>)) (\<lambda>_.
         seqC (liftC (RTPFactory s)) (\<lambda>fac.
         seqC (modify (\<lambda>c. c\<lparr>cl_rtpFactory := Some fac\<rparr>)) (\<lambda>_.
         seqC (modify (\<lambda>c. c\<lparr>cl_session :=
           (case map_of (rm_headers data) ''session'' of Some x \<Rightarrow> if x \<noteq> [] then Some x else cl_session c | None \<Rightarrow> cl_session c)\<rparr>)) (\<lambda>_.
         if getMediaBlockList s = [] then throw (ErrMsg ''No tracks in SDP'')
         else detach (toSetup srv))))))))"

definition toDescribe :: "server \<Rightarrow> unit action" where
  "toDescribe srv = transition STATE_DESCRIBE (sendDescribe srv) (onDescribe srv)"

definition onOptions :: "server \<Rightarrow> rtsp_msg \<Rightarrow> unit action" where
  "onOptions srv data = (case map_of (rm_headers data) ''public'' of
       None \<Rightarrow> throw TypeErr
     | Some p \<Rightarrow>
         seqC (modify (\<lambda>c. c\<lparr>cl_methods := map js_trim (js_split p '','')\<rparr>)) (\<lambda>_. detach (toDescribe srv)))"

definition toOptions :: "server \<Rightarrow> unit action" where
  "toOptions srv = transition STATE_OPTIONS (sendOptions srv) (onOptions srv)"

definition start :: "server \<Rightarrow> unit action" where
  "start srv =
     seqC (get (\<lambda>c. sm_current (cl_sm c))) (\<lambda>cur. case cur of
       None \<Rightarrow> throw TypeErr
     | Some n \<Rightarrow>
         if n \<noteq> STATE_STREAMS then toOptions srv
         else seqC (get (\<lambda>c. for_in (cl_sessions c))) (\<lambda>ks. forC ks (sendPlay srv)))"

definition reconnect :: "server \<Rightarrow> unit action" where
  "reconnect srv =
     seqC reset (\<lambda>_.
     seqC (get (\<lambda>c. sm_current (cl_sm c))) (\<lambda>cur. case cur of
       None \<Rightarrow> throw TypeErr
     | Some n \<Rightarrow>
         if n \<noteq> STATE_INITIAL then seqC toTeardown (\<lambda>_. toOptions srv) else toOptions srv))"

definition onConnected :: "server \<Rightarrow> unit action" where
  "onConnected srv =
     seqC (modify (\<lambda>c. c\<lparr>cl_rtpFactory := None\<rparr>)) (\<lambda>_.
     seqC (get cl_shouldReconnect) (\<lambda>b. if b then detach (start srv) else ret ()))"

text \<open>A tick of the keep-alive timer: an error other than \<^verbatim>\<open>501 Not Implemented\<close> reconnects.\<close>

definition keepalive_tick :: "server \<Rightarrow> string \<Rightarrow> unit action" where
  "keepalive_tick srv ty =
     seqC (get (\<lambda>c. map_of (cl_streams c) ty)) (\<lambda>s. case s of
       None \<Rightarrow> ret ()
     | Some s \<Rightarrow>
         catchC (seqC (sendKeepalive srv s) (\<lambda>_. ret ())) (\<lambda>e. case e of
             RtspErr code msg \<Rightarrow> if code = 501 then ret () else detach (reconnect srv)
           | _ \<Rightarrow> detach (reconnect srv)))"

section \<open>Media packets\<close>

text \<open>One packet taken from the buffer of its payload type. \<open>None\<close>: the depacketizer does not end.\<close>

definition take_packet :: "rtp \<Rightarrow> client \<Rightarrow> (unit result \<times> client) option" where
  "take_packet r c =
     (case (map_of (cl_timeOffset c) (Some (r_pt r)), map_of (cl_lastTimestamp c) (Some (r_pt r))) of
        (Some off, Some lst) \<Rightarrow>
          (let r1 = r\<lparr>r_timestamp := r_timestamp r - off - lst\<rparr> in
           if r_media r1 = None then Some (Inr (), c)
           else (case RTPPayloadParser_parse (cl_payParser c) r1 of
               None \<Rightarrow> None
             | Some (Inl e) \<Rightarrow> Some (Inl e, c)
             | Some (Inr (None, p)) \<Rightarrow> Some (Inr (), c\<lparr>cl_payParser := p\<rparr>)
             | Some (Inr (Some pay, p)) \<Rightarrow>
                 (case r_type r1 of
                    None \<Rightarrow> Some (Inl TypeErr, c\<lparr>cl_payParser := p\<rparr>)
                  | Some pt \<Rightarrow>
                      (case map_of (cl_sampleQueues c) pt of
                         None \<Rightarrow> Some (Inl TypeErr, c\<lparr>cl_payParser := p\<rparr>)
                       | Some q \<Rightarrow> Some (Inr (), c\<lparr>cl_payParser := p,
                           cl_sampleQueues := AList.update pt (q @ [pay]) (cl_sampleQueues c)\<rparr>)))))
      | _ \<Rightarrow> Some (Inl TypeErr, c))"

fun drain_buffer :: "rtp list \<Rightarrow> int option \<Rightarrow> client \<Rightarrow> (unit result \<times> client) option" where
  "drain_buffer [] pt c = Some (Inr (), c\<lparr>cl_rtpBuffer := AList.update pt [] (cl_rtpBuffer c)\<rparr>)"
| "drain_buffer (r # rs) pt c =
     (case take_packet r (c\<lparr>cl_rtpBuffer := AList.update pt rs (cl_rtpBuffer c)\<rparr>) of
        None \<Rightarrow> None
      | Some (Inl e, c1) \<Rightarrow> Some (Inl e, c1)
      | Some (Inr _, c1) \<Rightarrow> drain_buffer rs pt c1)"

definition onRTP :: "bytes \<Rightarrow> client \<Rightarrow> (unit result \<times> client) option" where
  "onRTP packet c =
     (case cl_rtpFactory c of
        None \<Rightarrow> Some (Inr (), c)
      | Some fac \<Rightarrow>
          (case cl_sdp c of
             None \<Rightarrow> Some (Inl TypeErr, c)
           | Some s \<Rightarrow>
               (case RTPFactory_build fac packet s of
                  Inl e \<Rightarrow> Some (Inl e, c)
                | Inr (r, fac1) \<Rightarrow>
                    (let c1 = c\<lparr>cl_rtpFactory := Some fac1\<rparr>; pt = Some (r_pt r) in
                     if r_type r = None then Some (Inr (), c1)
                     else (case map_of (cl_rtpBuffer c1) pt of
                         None \<Rightarrow> Some (Inl TypeErr, c1)
                       | Some q \<Rightarrow>
                           (case map_of (cl_timeOffset c1) pt of
                              None \<Rightarrow> Some (Inr (), c1\<lparr>cl_rtpBuffer := AList.update pt (q @ [r]) (cl_rtpBuffer c1)\<rparr>)
                            | Some off \<Rightarrow>
                                (let c2 = (if map_of (cl_lastTimestamp c1) pt = None
                                           then c1\<lparr>cl_lastTimestamp := AList.update pt (r_timestamp r - off) (cl_lastTimestamp c1)\<rparr>
                                           else c1)
                                 in drain_buffer (q @ [r]) pt c2)))))))"

text \<open>A message of the transport: the channel is its second byte, the packet starts at the fifth.\<close>

definition onData :: "bytes \<Rightarrow> client \<Rightarrow> (unit result \<times> client) option" where
  "onData data c =
     (if 1 < length data \<and> uint (data ! 1) \<in> set (cl_rtp_channels c)
      then onRTP (drop 4 data) c else Some (Inr (), c))"

section \<open>A new client\<close>

text \<open>The constructor; \<^verbatim>\<open>cSeq\<close> is not set before the first OPTIONS request.\<close>

definition blank_client :: "url \<Rightarrow> string \<Rightarrow> client" where
  "blank_client endpoint clock =
     \<lparr>cl_endpoint = endpoint, cl_seekable = False, cl_sampleQueues = [], cl_ontracks = None,
      cl_transport = False, cl_ready = Inr (), cl_clock = clock, cl_sent = [], cl_unhandled = [],
      cl_sm = client_sm, cl_url = [], cl_payParser = RTPPayloadParser_new, cl_rtp_channels = [],
      cl_rtpFactory = None, cl_has_config = False, cl_authenticator = NoAuth, cl_methods = [],
      cl_tracks = [], cl_rtpBuffer = [], cl_streams = [], cl_sessions = [], cl_contentBase = [],
      cl_sdp = None, cl_interleave = 0, cl_session = None, cl_timeOffset = [], cl_lastTimestamp = [],
      cl_cSeq = 0, cl_started = False, cl_shouldReconnect = False\<rparr>"

definition RTSPClientSM :: "url \<Rightarrow> string \<Rightarrow> client" where
  "RTSPClientSM endpoint clock = snd (detach reset (blank_client endpoint clock))"

text \<open>An address for the examples.\<close>

definition example_endpoint :: url where
  "example_endpoint = url_of \<lparr>up_protocol = ''rtsp'', up_login = Some (''u'', ''pw''), up_host = ''cam'', up_port = None,
     up_dirs = [], up_base = ''live'', up_query = []\<rparr>"

end
