(* ===== verification/RtspAuth.thy ===== *)
theory RtspAuth
  imports Rtsp
begin

text \<open>
  Requests of the RTSP client: what a request changes, how often it is sent, and that a digest
  challenge is answered as RFC 2069 says.
\<close>

section \<open>What a request can change\<close>

definition but_net :: "client \<Rightarrow> client" where
  "but_net c = c\<lparr>cl_sent := [], cl_cSeq := 0, cl_authenticator := NoAuth\<rparr>"

lemma but_net_updates [simp]:
  "but_net (c\<lparr>cl_sent := x\<rparr>) = but_net c" "but_net (c\<lparr>cl_cSeq := n\<rparr>) = but_net c"
  "but_net (c\<lparr>cl_authenticator := a\<rparr>) = but_net c"
  by (simp_all add: but_net_def)

lemma but_net_fields:
  "cl_endpoint (but_net c) = cl_endpoint c"
  "cl_seekable (but_net c) = cl_seekable c"
  "cl_sampleQueues (but_net c) = cl_sampleQueues c"
  "cl_ontracks (but_net c) = cl_ontracks c"
  "cl_transport (but_net c) = cl_transport c"
  "cl_ready (but_net c) = cl_ready c"
  "cl_clock (but_net c) = cl_clock c"
  "cl_unhandled (but_net c) = cl_unhandled c"
  "cl_sm (but_net c) = cl_sm c"
  "cl_url (but_net c) = cl_url c"
  "cl_payParser (but_net c) = cl_payParser c"
  "cl_rtp_channels (but_net c) = cl_rtp_channels c"
  "cl_rtpFactory (but_net c) = cl_rtpFactory c"
  "cl_has_config (but_net c) = cl_has_config c"
  "cl_methods (but_net c) = cl_methods c"
  "cl_tracks (but_net c) = cl_tracks c"
  "cl_rtpBuffer (but_net c) = cl_rtpBuffer c"
  "cl_streams (but_net c) = cl_streams c"
  "cl_sessions (but_net c) = cl_sessions c"
  "cl_contentBase (but_net c) = cl_contentBase c"
  "cl_sdp (but_net c) = cl_sdp c"
  "cl_interleave (but_net c) = cl_interleave c"
  "cl_session (but_net c) = cl_session c"
  "cl_timeOffset (but_net c) = cl_timeOffset c"
  "cl_lastTimestamp (but_net c) = cl_lastTimestamp c"
  "cl_started (but_net c) = cl_started c"
  "cl_shouldReconnect (but_net c) = cl_shouldReconnect c"
  by (simp_all add: but_net_def)

text \<open>A field outside the three is the same when the rest of the client is.\<close>

lemma net_same: "but_net c' = but_net c \<Longrightarrow> (\<And>d. f (but_net d) = f d) \<Longrightarrow> f c' = f c"
  by metis

lemma on_challenge_net: "but_net (snd (on_challenge m c)) = but_net c"
  by (auto simp: on_challenge_def cmd_defs queryCredentials_def split: option.split sum.split)

lemma on_response_net: "but_net (snd (on_response m c)) = but_net c"
  using on_challenge_net [of m c]
  by (auto simp: on_response_def cmd_defs split: prod.split sum.split)

lemma send_net: "cl_ready c = Inr () \<Longrightarrow> but_net (snd (send srv d c)) = but_net c"
  using on_response_net by (simp add: send_def cmd_defs split: sum.split)

lemma sendRequest_net:
  "cl_ready c = Inr () \<Longrightarrow> but_net (snd (sendRequest_upto n srv cmd host ps pl c)) = but_net c"
proof (induction n arbitrary: c ps)
  case (Suc n)
  let ?c1 = "c\<lparr>cl_cSeq := cl_cSeq c + 1\<rparr>"
  let ?ps = "request_params ?c1 cmd ps"
  have 1: "but_net (snd (send srv (msg_build cmd host ?ps pl) ?c1)) = but_net c"
    using send_net [of ?c1] Suc.prems by simp
  have "cl_ready (snd (send srv (msg_build cmd host ?ps pl) ?c1)) = Inr ()"
    using net_same [OF 1, of cl_ready] Suc.prems by (simp add: but_net_fields)
  note 2 = Suc.IH [OF this]
  obtain r c2 where s: "send srv (msg_build cmd host ?ps pl) ?c1 = (r, c2)" by (cases "send srv (msg_build cmd host ?ps pl) ?c1")
  show ?case using 1 2 by (cases r) (simp_all add: cmd_defs s)
qed (simp add: throw_def)

section \<open>How often a request is sent\<close>

text \<open>An authentication error comes from a challenge, never from the transport.\<close>

definition no_auth_error :: "server \<Rightarrow> client \<Rightarrow> bool" where
  "no_auth_error srv c \<longleftrightarrow> (\<forall>sent. srv sent \<noteq> Inl AuthErr) \<and> cl_ready c \<noteq> Inl AuthErr"

lemma header_lines_error: "header_lines ls hs = Inl e \<Longrightarrow> e = TypeErr"
  by (induction ls hs rule: header_lines.induct) (auto split: if_splits option.splits)

lemma SM_parse_error: "SM_parse d = Inl e \<Longrightarrow> e = TypeErr"
  by (auto simp: SM_parse_def msg_parse_def Let_def bindE_Inl_iff dest: header_lines_error
      split: option.splits list.splits)

lemma parse_chunks_error: "foldE parse_chunk ob xs = Inl e \<Longrightarrow> e = TypeErr"
  by (induction xs arbitrary: ob) (auto simp: parse_chunk_def Let_def bindE_Inl_iff split: option.splits)

lemma on_challenge_error:
  "on_challenge m c = (Inl AuthErr, c1) \<Longrightarrow> cl_authenticator c1 \<noteq> NoAuth"
  by (auto simp: on_challenge_def cmd_defs queryCredentials_def dest: parse_chunks_error
      split: option.splits sum.splits if_splits)

lemma on_response_error:
  "on_response m c = (Inl AuthErr, c1) \<Longrightarrow> cl_authenticator c1 \<noteq> NoAuth"
  by (auto simp: on_response_def cmd_defs dest: on_challenge_error split: sum.splits prod.splits if_splits)

lemma detach_ok: "fst (detach m c) = Inr ()"
  by (auto simp: detach_def cmd_defs split: prod.split sum.split)

lemma detach_no_error [simp]: "detach m c \<noteq> (Inl e, c1)"
  using detach_ok [of m c] by auto

lemma send_error:
  assumes "send srv d c = (Inl AuthErr, c1)" "no_auth_error srv c"
  shows "cl_authenticator c1 \<noteq> NoAuth"
proof (cases "cl_ready c")
  case (Inl e)
  then show ?thesis using assms
    by (auto simp: send_def cmd_defs no_auth_error_def split: if_splits prod.splits sum.splits)
next
  case (Inr u)
  then show ?thesis using assms
    by (auto simp: send_def cmd_defs no_auth_error_def dest: SM_parse_error on_response_error
        split: if_splits sum.splits)
qed

lemma authorization_truthy: "cl_authenticator c \<noteq> NoAuth \<Longrightarrow> truthy_str (authorization c cmd)"
  by (cases "cl_authenticator c") (simp_all add: authorization_def Let_def truthy_str_def)

lemma request_params_auth:
  "cl_authenticator c \<noteq> NoAuth \<Longrightarrow> truthy_str (map_of (request_params c cmd ps) ''Authorization'')"
  using authorization_truthy [of c cmd]
  by (cases "authorization c cmd") (simp_all add: request_params_def update_conv' truthy_str_def)

lemma sendRequest_Suc2:
  assumes "no_auth_error srv c"
  shows "sendRequest_upto (Suc (Suc n)) srv cmd host ps pl c = sendRequest_upto 2 srv cmd host ps pl c"
proof -
  let ?c1 = "c\<lparr>cl_cSeq := cl_cSeq c + 1\<rparr>"
  let ?ps = "request_params ?c1 cmd ps"
  obtain r c2 where s: "send srv (msg_build cmd host ?ps pl) ?c1 = (r, c2)"
    by (cases "send srv (msg_build cmd host ?ps pl) ?c1")
  have once: "sendRequest_upto (Suc m) srv cmd host ps1 pl c2 = sendRequest_upto (Suc k) srv cmd host ps1 pl c2"
    if a: "cl_authenticator c2 \<noteq> NoAuth" for m k ps1
    using request_params_auth [of "c2\<lparr>cl_cSeq := cl_cSeq c2 + 1\<rparr>" cmd ps1] a
    by (simp add: cmd_defs split: prod.split sum.split)
  show ?thesis
  proof (cases "r = Inl AuthErr")
    case True
    then have "cl_authenticator c2 \<noteq> NoAuth"
      using send_error [of srv _ ?c1 c2] s assms by (simp add: no_auth_error_def)
    from once [OF this, of n _ 0] show ?thesis
      by (simp add: numeral_2_eq_2 cmd_defs s True)
  next
    case False
    then show ?thesis by (cases r) (simp_all add: numeral_2_eq_2 cmd_defs s)
  qed
qed

section \<open>The answer to a challenge\<close>

lemma length_utf8: "length (str2rstrUTF8 s) \<le> 2 * length s"
  by (induction s) (simp_all add: str2rstrUTF8_def Let_def)

lemma md5_text_rfc: "length s < 2 ^ 27 \<Longrightarrow> md5_text s = rstr2hex (rfc_md5 (str2rstrUTF8 s))"
proof -
  assume a: "length s < 2 ^ 27"
  have "8 * length (str2rstrUTF8 s) < 2 ^ 31" using length_utf8 [of s] a by simp
  then show ?thesis by (simp add: md5_text_def md5_def hexMD5_def rawMD5_def rstrMD5_rfc)
qed

text \<open>RFC 2069: \<open>H(H(user:realm:password):nonce:H(method:uri))\<close> over hexadecimal digests.\<close>

definition H :: "string \<Rightarrow> string" where
  "H s = rstr2hex (rfc_md5 (str2rstrUTF8 s))"

definition request_digest :: "string \<Rightarrow> string \<Rightarrow> string \<Rightarrow> string \<Rightarrow> string \<Rightarrow> string \<Rightarrow> string" where
  "request_digest user realm pass nonce meth uri =
     H (H (user @ '':'' @ realm @ '':'' @ pass) @ '':'' @ nonce @ '':'' @ H (meth @ '':'' @ uri))"

definition quoted :: "string \<Rightarrow> string" where
  "quoted s = [CHR 0x22] @ s @ [CHR 0x22]"

definition digest_credentials :: "url \<Rightarrow> string \<Rightarrow> string \<Rightarrow> string \<Rightarrow> string \<Rightarrow> string" where
  "digest_credentials ep realm nonce uri meth =
     ''Digest username='' @ quoted (user_text ep) @ '', realm='' @ quoted realm @ '', nonce='' @ quoted nonce @
     '', uri='' @ quoted uri @ '', response='' @ quoted (request_digest (user_text ep) realm (pass_text ep) nonce meth uri)"

definition digest_challenge :: "string \<Rightarrow> string \<Rightarrow> string" where
  "digest_challenge realm nonce = ''Digest realm='' @ quoted realm @ '', nonce='' @ quoted nonce"

lemma length_rstr2hex: "length (rstr2hex xs) = 2 * length xs"
  by (induction xs) (simp_all add: rstr2hex_def)

lemma length_H: "length (H s) \<le> 32"
  by (simp add: H_def length_rstr2hex rfc_md5_def le_bytes_def Let_def split: prod.split)

text \<open>Taking the challenge apart.\<close>

definition plain_value :: "string \<Rightarrow> bool" where
  "plain_value s \<longleftrightarrow> lacks [CHR ''='', CHR '',''] s"

lemma parse_chunk_quoted:
  assumes "plain_value v" "CHR ''='' \<notin> set k" "k \<noteq> []" "\<not> is_space (hd k)" "sp = [] \<or> sp = '' ''"
  shows "parse_chunk ob (sp @ k @ ''='' @ quoted v) = Inr (AList.update k v ob)"
proof -
  have "js_trim (k @ ''='' @ quoted v) = k @ ''='' @ quoted v"
    by (rule js_trim_id) (use assms in \<open>simp add: quoted_def is_space_def ch_code_def\<close>)
  moreover have "js_trim (CHR '' '' # s) = js_trim s" for s by (simp add: js_trim_def is_space_def ch_code_def)
  ultimately have "js_trim (sp @ k @ ''='' @ quoted v) = k @ ''='' @ quoted v" using assms(5) by auto
  moreover have "js_split (k @ ''='' @ quoted v) ''='' = [k, quoted v]"
    using assms by (simp add: js_split_char js_split_char_none quoted_def plain_value_def lacks_def)
  ultimately show ?thesis
    by (simp add: parse_chunk_def Let_def at_str_def quoted_def)
qed

lemma challenge_parsed:
  assumes "plain_value realm" "plain_value nonce"
  shows "challenge_method (digest_challenge realm nonce) = ''Digest''"
    "\<exists>m. foldE parse_chunk [] (challenge_chunks (digest_challenge realm nonce)) = Inr m
      \<and> map_of m ''realm'' = Some realm \<and> map_of m ''nonce'' = Some nonce"
proof -
  have i: "indexOf_char (digest_challenge realm nonce) (CHR '' '') = Some 6"
    using indexOf_char_append [of "CHR '' ''" "''Digest''" "''realm='' @ quoted realm @ '', nonce='' @ quoted nonce"]
    by (simp add: digest_challenge_def)
  then show m: "challenge_method (digest_challenge realm nonce) = ''Digest''"
    by (simp add: challenge_method_def digest_challenge_def)
  have "drop (length (challenge_method (digest_challenge realm nonce)) + 1) (digest_challenge realm nonce)
      = ([] @ ''realm'' @ ''='' @ quoted realm) @ CHR '','' # ('' '' @ ''nonce'' @ ''='' @ quoted nonce)"
    unfolding m by (simp add: digest_challenge_def)
  moreover have c1: "CHR '','' \<notin> set ([] @ ''realm'' @ ''='' @ quoted realm)"
    and c2: "CHR '','' \<notin> set ('' '' @ ''nonce'' @ ''='' @ quoted nonce)"
    using assms by (auto simp: plain_value_def lacks_def quoted_def)
  ultimately have "challenge_chunks (digest_challenge realm nonce)
      = [[] @ ''realm'' @ ''='' @ quoted realm, '' '' @ ''nonce'' @ ''='' @ quoted nonce]"
    unfolding challenge_chunks_def by (simp only: js_split_char [OF c1] js_split_char_none [OF c2])
  then have "foldE parse_chunk [] (challenge_chunks (digest_challenge realm nonce))
      = Inr (AList.update ''nonce'' nonce (AList.update ''realm'' realm []))"
    using parse_chunk_quoted [OF assms(1), of "''realm''" "[]" "[]"]
      parse_chunk_quoted [OF assms(2), of "''nonce''" "'' ''" "AList.update ''realm'' realm []"]
    by (simp add: is_space_def ch_code_def)
  then show "\<exists>m. foldE parse_chunk [] (challenge_chunks (digest_challenge realm nonce)) = Inr m
      \<and> map_of m ''realm'' = Some realm \<and> map_of m ''nonce'' = Some nonce" by simp
qed

text \<open>The server as seen by one request: what is sent, and what comes back.\<close>

lemma send_answer:
  assumes "cl_transport c" "cl_ready c = Inr ()" "srv (cl_sent c @ [d]) = Inr (response_print r)" "response_ok r"
  shows "\<exists>m. SM_parse (response_print r) = Inr m \<and> rm_code m = int (rs_code r) \<and>
    rm_headers m = map (\<lambda>(k, v). (toLowerCase k, v)) (rs_headers r) \<and>
    send srv d c = on_response m (c\<lparr>cl_sent := cl_sent c @ [d]\<rparr>)"
  using SM_parse_print [OF assms(4)] assms(1-3) by (simp add: send_def cmd_defs)

lemma on_digest:
  assumes "rm_code m = 401" "map_of (rm_headers m) ''www-authenticate'' = Some (digest_challenge realm nonce)"
    and "plain_value realm" "plain_value nonce"
  shows "on_response m c = (Inl AuthErr, c\<lparr>cl_authenticator := DigestAuth (Some realm) (Some nonce)\<rparr>)"
proof -
  obtain ch where ch: "foldE parse_chunk [] (challenge_chunks (digest_challenge realm nonce)) = Inr ch"
    "map_of ch ''realm'' = Some realm" "map_of ch ''nonce'' = Some nonce"
    using challenge_parsed(2) [OF assms(3,4)] by blast
  have "toLowerCase ''Digest'' = ''digest''" by code_simp
  then show ?thesis
    using assms(1,2) ch challenge_parsed(1) [OF assms(3,4)]
    by (simp add: on_response_def on_challenge_def cmd_defs queryCredentials_def)
qed

lemma authorization_digest:
  assumes "cl_authenticator c = DigestAuth (Some realm) (Some nonce)"
    and "length (user_text (cl_endpoint c)) + length realm + length (pass_text (cl_endpoint c)) + length nonce
      + length cmd + length (cl_url c) < 2 ^ 26"
  shows "authorization c cmd = Some (digest_credentials (cl_endpoint c) realm nonce (cl_url c) cmd)"
proof -
  let ?u = "user_text (cl_endpoint c)" and ?w = "pass_text (cl_endpoint c)"
  have 1: "md5_text (?u @ '':'' @ realm @ '':'' @ ?w) = H (?u @ '':'' @ realm @ '':'' @ ?w)"
    unfolding H_def by (rule md5_text_rfc) (use assms(2) in simp)
  have 2: "md5_text (cmd @ '':'' @ cl_url c) = H (cmd @ '':'' @ cl_url c)"
    unfolding H_def by (rule md5_text_rfc) (use assms(2) in simp)
  have 3: "md5_text (H a @ '':'' @ nonce @ '':'' @ H b) = H (H a @ '':'' @ nonce @ '':'' @ H b)" for a b
    unfolding H_def [of "H a @ '':'' @ nonce @ '':'' @ H b"]
    by (rule md5_text_rfc) (use assms(2) length_H [of a] length_H [of b] in simp)
  show ?thesis
    using 1 2 3 assms(1)
    by (simp add: authorization_def Let_def tmpl_def digest_credentials_def quoted_def request_digest_def)
qed

text \<open>The request as it is sent first, and as it is repeated with credentials.\<close>

definition numbered :: "client \<Rightarrow> int \<Rightarrow> params \<Rightarrow> params" where
  "numbered c k ps = Object_assign ps [(''CSeq'', int_str (cl_cSeq c + k)), (''User-Agent'', USER_AGENT)]"

definition plain_request :: "client \<Rightarrow> string \<Rightarrow> string \<Rightarrow> params \<Rightarrow> string" where
  "plain_request c cmd host ps = msg_build cmd host (numbered c 1 ps) None"

definition digest_request :: "client \<Rightarrow> string \<Rightarrow> string \<Rightarrow> string \<Rightarrow> string \<Rightarrow> params \<Rightarrow> string" where
  "digest_request c realm nonce cmd host ps = msg_build cmd host
     (AList.update ''Authorization'' (digest_credentials (cl_endpoint c) realm nonce (cl_url c) cmd)
        (numbered c 2 (numbered c 1 ps))) None"

definition challenges :: "response \<Rightarrow> string \<Rightarrow> string \<Rightarrow> bool" where
  "challenges r realm nonce \<longleftrightarrow> response_ok r \<and> rs_code r = 401 \<and> plain_value realm \<and> plain_value nonce \<and>
     map_of (map (\<lambda>(k, v). (toLowerCase k, v)) (rs_headers r)) ''www-authenticate'' = Some (digest_challenge realm nonce)"

lemma request_params_plain:
  "cl_authenticator c = NoAuth \<Longrightarrow> request_params (c\<lparr>cl_cSeq := cl_cSeq c + 1\<rparr>) cmd ps = numbered c 1 ps"
  by (simp add: request_params_def authorization_def numbered_def)

lemma numbered_auth: "map_of (numbered c k ps) ''Authorization'' = map_of ps ''Authorization''"
  by (simp add: numbered_def Object_assign_def update_conv')

lemma first_attempt:
  assumes "cl_transport c" "cl_ready c = Inr ()" "cl_authenticator c = NoAuth"
    and "srv (cl_sent c @ [plain_request c cmd host ps]) = Inr (response_print r)" "challenges r realm nonce"
  shows "send srv (plain_request c cmd host ps) (c\<lparr>cl_cSeq := cl_cSeq c + 1\<rparr>)
    = (Inl AuthErr, c\<lparr>cl_cSeq := cl_cSeq c + 1, cl_sent := cl_sent c @ [plain_request c cmd host ps],
        cl_authenticator := DigestAuth (Some realm) (Some nonce)\<rparr>)"
proof -
  let ?c1 = "c\<lparr>cl_cSeq := cl_cSeq c + 1\<rparr>"
  obtain m where m: "rm_code m = 401" "map_of (rm_headers m) ''www-authenticate'' = Some (digest_challenge realm nonce)"
    "send srv (plain_request c cmd host ps) ?c1 = on_response m (?c1\<lparr>cl_sent := cl_sent ?c1 @ [plain_request c cmd host ps]\<rparr>)"
    using send_answer [of ?c1 srv "plain_request c cmd host ps" r] assms by (auto simp: challenges_def)
  then show ?thesis
    using on_digest [OF m(1,2)] assms(5) by (simp add: challenges_def)
qed

lemma authorized_attempt:
  assumes "truthy_str (map_of (request_params (c\<lparr>cl_cSeq := cl_cSeq c + 1\<rparr>) cmd ps) ''Authorization'')"
  shows "sendRequest_upto (Suc n) srv cmd host ps pl c
    = send srv (msg_build cmd host (request_params (c\<lparr>cl_cSeq := cl_cSeq c + 1\<rparr>) cmd ps) pl) (c\<lparr>cl_cSeq := cl_cSeq c + 1\<rparr>)"
  using assms by (simp add: cmd_defs split: prod.split sum.split)

lemma challenged_attempt:
  assumes "\<not> truthy_str (map_of (request_params (c\<lparr>cl_cSeq := cl_cSeq c + 1\<rparr>) cmd ps) ''Authorization'')"
    and "send srv (msg_build cmd host (request_params (c\<lparr>cl_cSeq := cl_cSeq c + 1\<rparr>) cmd ps) pl) (c\<lparr>cl_cSeq := cl_cSeq c + 1\<rparr>)
      = (Inl AuthErr, c1)"
  shows "sendRequest_upto (Suc n) srv cmd host ps pl c
    = sendRequest_upto n srv cmd host (request_params (c\<lparr>cl_cSeq := cl_cSeq c + 1\<rparr>) cmd ps) pl c1"
  using assms by (simp add: cmd_defs)

lemma digest_answered:
  assumes "cl_transport c" "cl_ready c = Inr ()" "cl_authenticator c = NoAuth" "map_of ps ''Authorization'' = None"
    and "srv (cl_sent c @ [plain_request c cmd host ps]) = Inr (response_print r1)" "challenges r1 realm nonce"
    and "srv (cl_sent c @ [plain_request c cmd host ps, digest_request c realm nonce cmd host ps]) = Inr (response_print r2)"
      "response_ok r2"
    and "length (user_text (cl_endpoint c)) + length realm + length (pass_text (cl_endpoint c)) + length nonce
      + length cmd + length (cl_url c) < 2 ^ 26"
  shows "\<exists>m c'. sendRequest srv cmd host ps c = on_response m c' \<and>
     SM_parse (response_print r2) = Inr m \<and> rm_code m = int (rs_code r2) \<and>
     rm_headers m = map (\<lambda>(k, v). (toLowerCase k, v)) (rs_headers r2) \<and>
     cl_sent c' = cl_sent c @ [plain_request c cmd host ps, digest_request c realm nonce cmd host ps] \<and>
     cl_cSeq c' = cl_cSeq c + 2"
proof -
  let ?m1 = "plain_request c cmd host ps" and ?m2 = "digest_request c realm nonce cmd host ps"
  let ?c2 = "c\<lparr>cl_cSeq := cl_cSeq c + 2, cl_sent := cl_sent c @ [?m1], cl_authenticator := DigestAuth (Some realm) (Some nonce)\<rparr>"
  let ?ps = "AList.update ''Authorization'' (digest_credentials (cl_endpoint c) realm nonce (cl_url c) cmd)
        (numbered c 2 (numbered c 1 ps))"
  note 1 = first_attempt [of c srv cmd host ps r1 realm nonce, OF assms(1-3,5,6), unfolded plain_request_def]
  have a: "authorization ?c2 cmd = Some (digest_credentials (cl_endpoint c) realm nonce (cl_url c) cmd)"
    using authorization_digest [of ?c2 realm nonce cmd] assms(9) by simp
  have p: "request_params ?c2 cmd (numbered c 1 ps) = ?ps"
    using a by (simp add: request_params_def numbered_def)
  obtain m where m: "SM_parse (response_print r2) = Inr m" "rm_code m = int (rs_code r2)"
    "rm_headers m = map (\<lambda>(k, v). (toLowerCase k, v)) (rs_headers r2)"
    "send srv ?m2 ?c2 = on_response m (?c2\<lparr>cl_sent := cl_sent ?c2 @ [?m2]\<rparr>)"
    using send_answer [of ?c2 srv ?m2 r2] assms(1,2,7,8) by auto
  have t: "truthy_str (map_of ?ps ''Authorization'')"
    by (simp add: update_conv' truthy_str_def digest_credentials_def)
  let ?d = "c\<lparr>cl_cSeq := cl_cSeq c + 1, cl_sent := cl_sent c @ [?m1], cl_authenticator := DigestAuth (Some realm) (Some nonce)\<rparr>"
  have d: "?d\<lparr>cl_cSeq := cl_cSeq ?d + 1\<rparr> = ?c2" by simp
  have second: "sendRequest_upto (Suc 0) srv cmd host (numbered c 1 ps) None ?d
      = on_response m (?c2\<lparr>cl_sent := cl_sent ?c2 @ [?m2]\<rparr>)"
    unfolding authorized_attempt [of ?d cmd "numbered c 1 ps", unfolded d p, OF t]
    by (simp only: d p digest_request_def [symmetric] m(4))
  note rp = request_params_plain [OF assms(3), of cmd ps]
  have first: "sendRequest srv cmd host ps c = sendRequest_upto (Suc 0) srv cmd host (numbered c 1 ps) None ?d"
    unfolding sendRequest_def numeral_2_eq_2
    using challenged_attempt [of c cmd ps srv host None ?d "Suc 0", unfolded rp] 1 assms(4)
    by (simp add: numbered_auth truthy_str_def plain_request_def del: sendRequest_upto.simps)
  show ?thesis
    unfolding first second using m(1-3)
    by (intro exI [of _ m] exI [of _ "?c2\<lparr>cl_sent := cl_sent ?c2 @ [?m2]\<rparr>"]) simp
qed

section \<open>An example\<close>

definition example_client :: client where
  "example_client = (blank_client example_endpoint [])\<lparr>cl_transport := True, cl_url := ''rtsp://cam:554/live''\<rparr>"

definition unauthorized :: response where
  "unauthorized = \<lparr>rs_code = 401, rs_reason = ''Unauthorized'',
     rs_headers = [(''WWW-Authenticate'', digest_challenge ''camera'' ''1a2b'')], rs_body = []\<rparr>"

definition accepted :: response where
  "accepted = \<lparr>rs_code = 200, rs_reason = ''OK'', rs_headers = [(''CSeq'', ''2'')], rs_body = []\<rparr>"

definition example_server :: server where
  "example_server sent = (if length sent = 1 then Inr (response_print unauthorized) else Inr (response_print accepted))"

lemma example_client_fields:
  "cl_transport example_client" "cl_ready example_client = Inr ()" "cl_authenticator example_client = NoAuth"
  "cl_sent example_client = []" "cl_cSeq example_client = 0" "cl_url example_client = ''rtsp://cam:554/live''"
  "user_text (cl_endpoint example_client) = ''u''" "pass_text (cl_endpoint example_client) = ''pw''"
  by (simp_all add: example_client_def blank_client_def example_endpoint_def url_of_def user_text_def pass_text_def Let_def)

lemma unauthorized_challenges: "challenges unauthorized ''camera'' ''1a2b''"
proof -
  have l: "toLowerCase ''WWW-Authenticate'' = ''www-authenticate''" by code_simp
  have "header_ok (''WWW-Authenticate'', digest_challenge ''camera'' ''1a2b'')"
    by (auto simp: header_ok_def lacks_def digest_challenge_def quoted_def is_space_def ch_code_def)
  then show ?thesis
    by (auto simp: challenges_def unauthorized_def response_ok_def plain_value_def lacks_def l CRLF_def)
qed

lemma accepted_ok: "response_ok accepted"
  by (auto simp: accepted_def response_ok_def header_ok_def lacks_def is_space_def ch_code_def CRLF_def)

section \<open>What requests guarantee\<close>

text \<open>C6: A request that the server answers with a digest challenge is sent a second time, under the next
  sequence number, with the credentials of RFC 2069 (over the MD5 of RFC 1321) for the user, the
  password and the address of the client; if the server accepts them, the request returns the
  server's second answer.\<close>

theorem digest_challenge_answered:
  assumes "cl_transport c" "cl_ready c = Inr ()" "cl_authenticator c = NoAuth" "map_of ps ''Authorization'' = None"
    and "srv (cl_sent c @ [plain_request c cmd host ps]) = Inr (response_print r1)" "challenges r1 realm nonce"
    and "srv (cl_sent c @ [plain_request c cmd host ps, digest_request c realm nonce cmd host ps]) = Inr (response_print r2)"
      "response_ok r2" "rs_code r2 < 300"
    and "length (user_text (cl_endpoint c)) + length realm + length (pass_text (cl_endpoint c)) + length nonce
      + length cmd + length (cl_url c) < 2 ^ 26"
  shows "\<exists>m c'. sendRequest srv cmd host ps c = (Inr m, c') \<and> SM_parse (response_print r2) = Inr m \<and>
     cl_sent c' = cl_sent c @ [plain_request c cmd host ps, digest_request c realm nonce cmd host ps] \<and>
     cl_cSeq c' = cl_cSeq c + 2"
proof -
  from digest_answered [OF assms(1-8,10)] obtain m c' where
    m: "sendRequest srv cmd host ps c = on_response m c'" "SM_parse (response_print r2) = Inr m"
      "rm_code m = int (rs_code r2)"
      "cl_sent c' = cl_sent c @ [plain_request c cmd host ps, digest_request c realm nonce cmd host ps]"
      "cl_cSeq c' = cl_cSeq c + 2"
    by blast
  have "on_response m c' = (Inr m, c')" using assms(9) m(3) by (simp add: on_response_def ret_def)
  with m show ?thesis by auto
qed

lemma digest_challenge_answered_witness:
  "\<exists>m c'. sendRequest example_server ''OPTIONS'' ''*'' [] example_client = (Inr m, c') \<and>
     SM_parse (response_print accepted) = Inr m \<and>
     cl_sent c' = [plain_request example_client ''OPTIONS'' ''*'' [],
       digest_request example_client ''camera'' ''1a2b'' ''OPTIONS'' ''*'' []] \<and> cl_cSeq c' = 2"
  using digest_challenge_answered [of example_client "[]" example_server "''OPTIONS''" "''*''" unauthorized
      "''camera''" "''1a2b''" accepted] unauthorized_challenges accepted_ok
  by (simp add: example_client_fields example_server_def) (simp add: accepted_def)

text \<open>If the server rejects the credentials too, the request fails with an authentication error after
  exactly two messages.\<close>

lemma rejected_credentials_not_repeated:
  assumes "cl_transport c" "cl_ready c = Inr ()" "cl_authenticator c = NoAuth" "map_of ps ''Authorization'' = None"
    and "srv (cl_sent c @ [plain_request c cmd host ps]) = Inr (response_print r1)" "challenges r1 realm nonce"
    and "srv (cl_sent c @ [plain_request c cmd host ps, digest_request c realm nonce cmd host ps]) = Inr (response_print r2)"
      "challenges r2 realm2 nonce2"
    and "length (user_text (cl_endpoint c)) + length realm + length (pass_text (cl_endpoint c)) + length nonce
      + length cmd + length (cl_url c) < 2 ^ 26"
  shows "\<exists>c'. sendRequest srv cmd host ps c = (Inl AuthErr, c') \<and>
     cl_sent c' = cl_sent c @ [plain_request c cmd host ps, digest_request c realm nonce cmd host ps]"
proof -
  have "response_ok r2" using assms(8) by (simp add: challenges_def)
  from digest_answered [OF assms(1-7) this assms(9)] obtain m c' where
    m: "sendRequest srv cmd host ps c = on_response m c'" "rm_code m = int (rs_code r2)"
      "rm_headers m = map (\<lambda>(k, v). (toLowerCase k, v)) (rs_headers r2)"
      "cl_sent c' = cl_sent c @ [plain_request c cmd host ps, digest_request c realm nonce cmd host ps]"
    by blast
  have "on_response m c' = (Inl AuthErr, c'\<lparr>cl_authenticator := DigestAuth (Some realm2) (Some nonce2)\<rparr>)"
    using m(2,3) assms(8) by (intro on_digest) (simp_all add: challenges_def)
  with m show ?thesis by auto
qed

lemma rejected_credentials_not_repeated_witness:
  "\<exists>c'. sendRequest (\<lambda>sent. Inr (response_print unauthorized)) ''OPTIONS'' ''*'' [] example_client = (Inl AuthErr, c') \<and>
     cl_sent c' = [plain_request example_client ''OPTIONS'' ''*'' [],
       digest_request example_client ''camera'' ''1a2b'' ''OPTIONS'' ''*'' []]"
  using rejected_credentials_not_repeated [of example_client "[]" "\<lambda>sent. Inr (response_print unauthorized)" "''OPTIONS''"
      "''*''" unauthorized "''camera''" "''1a2b''" unauthorized "''camera''" "''1a2b''"] unauthorized_challenges
  by (simp add: example_client_fields)

text \<open>C28: A request is sent at most twice: whatever the server answers, allowing more repetitions makes no
  difference.\<close>

theorem request_sent_at_most_twice:
  assumes "no_auth_error srv c" "n \<ge> 2"
  shows "sendRequest_upto n srv cmd host ps None c = sendRequest srv cmd host ps c"
proof -
  obtain k where "n = Suc (Suc k)" using assms(2) by (metis add_2_eq_Suc le_Suc_ex)
  with sendRequest_Suc2 [OF assms(1), of k cmd host ps None] show ?thesis by (simp only: sendRequest_def)
qed

lemma request_sent_at_most_twice_witness:
  "sendRequest_upto 7 example_server ''OPTIONS'' ''*'' [] None example_client = sendRequest example_server ''OPTIONS'' ''*'' [] example_client"
  by (rule request_sent_at_most_twice) (simp_all add: no_auth_error_def example_server_def example_client_fields)

text \<open>A value of a challenge that contains an equals sign, as a nonce in base64 does, is cut off before
  the sign and loses its last character as well.\<close>

lemma challenge_value_cut_at_equals:
  assumes "lacks ''='' v" "lacks ''='' k" "k \<noteq> []" "\<not> is_space (hd k)"
  shows "parse_chunk ob (k @ ''='' @ quoted (v @ ''='' @ rest)) = Inr (AList.update k (butlast v) ob)"
proof -
  have "js_trim (k @ ''='' @ quoted (v @ ''='' @ rest)) = k @ ''='' @ quoted (v @ ''='' @ rest)"
    by (rule js_trim_id) (use assms in \<open>simp add: quoted_def is_space_def ch_code_def\<close>)
  moreover have "js_split (k @ ''='' @ quoted (v @ ''='' @ rest)) ''=''
      = k # ([CHR 0x22] @ v) # js_split (rest @ [CHR 0x22]) ''=''"
    using js_split_char [of "CHR ''=''" k "quoted (v @ ''='' @ rest)"]
      js_split_char [of "CHR ''=''" "[CHR 0x22] @ v" "rest @ [CHR 0x22]"] assms
    by (simp add: quoted_def lacks_def)
  ultimately show ?thesis
    by (simp add: parse_chunk_def Let_def at_str_def butlast_conv_take)
qed

lemma challenge_value_cut_at_equals_witness:
  "parse_chunk [] (''nonce='' @ quoted ''YWJj=='') = Inr [(''nonce'', ''YWJ'')]"
  using challenge_value_cut_at_equals [of "''YWJj''" "''nonce''" "[]" "''=''"]
  by (simp add: lacks_def is_space_def ch_code_def)

end
