(* ===== verification/RtspData.thy ===== *)
theory RtspData
  imports Rtsp
begin

text \<open>
  The way of a media packet: from the interleaved frame the transport delivers, over the RTP header,
  the timestamp unwrapping and the NAL unit assembler, to the queue of its track.
\<close>

section \<open>A client that plays a video track\<close>

text \<open>The track has payload type \<open>pt\<close> and channel \<open>ch\<close>; \<open>first\<close> is the timestamp that counts as zero,
  \<open>q\<close> what is in the queue.\<close>

definition video_track :: "client \<Rightarrow> int \<Rightarrow> int \<Rightarrow> ts_offset \<Rightarrow> int option \<Rightarrow> media_unit list list \<Rightarrow> bool" where
  "video_track c pt ch off first q \<longleftrightarrow>
     ch \<in> set (cl_rtp_channels c) \<and>
     (\<exists>fac. cl_rtpFactory c = Some fac \<and> map_of fac (Some pt) = Some off) \<and>
     (\<exists>s m. cl_sdp c = Some s \<and> getMediaBlockByPayloadType s pt = Some m \<and> mb_type m = Some ''video'' \<and>
        mb_ptype m = Some PT_H264) \<and>
     map_of (cl_rtpBuffer c) (Some pt) = Some [] \<and> map_of (cl_timeOffset c) (Some pt) = Some 0 \<and>
     map_of (cl_lastTimestamp c) (Some pt) = first \<and> map_of (cl_sampleQueues c) PT_H264 = Some q"

text \<open>The bytes of RFC 2326, section 10.12: dollar sign, channel, length, packet.\<close>

definition interleaved_frame :: "int \<Rightarrow> bytes \<Rightarrow> bytes" where
  "interleaved_frame ch pkt = [0x24, u8 ch] @ be16 (int (length pkt)) @ pkt"

record video_packet =
  vp_marker :: bool
  vp_seq :: int
  vp_ts :: int
  vp_ssrc :: int
  vp_nri :: int
  vp_type :: int
  vp_body :: bytes

definition vp_bytes :: "int \<Rightarrow> video_packet \<Rightarrow> bytes" where
  "vp_bytes pt p = rtp_packet (vp_marker p) pt (vp_seq p) (vp_ts p) (vp_ssrc p)
     (nal_header (vp_nri p) (vp_type p) # vp_body p)"

definition vp_ok :: "video_packet \<Rightarrow> bool" where
  "vp_ok p \<longleftrightarrow> 0 \<le> vp_seq p \<and> vp_seq p < 2 ^ 16 \<and> 0 \<le> vp_ts p \<and> vp_ts p < 2 ^ 32 \<and> 0 \<le> vp_ssrc p \<and> vp_ssrc p < 2 ^ 32
     \<and> vp_nri p \<in> {0, 0x20, 0x40, 0x60} \<and> 0 < vp_type p \<and> vp_type p < 24"

definition vp_unit :: "video_packet \<Rightarrow> int \<Rightarrow> media_unit" where
  "vp_unit p ts = VideoUnit (NALU (vp_type p) (vp_nri p) (vp_body p) (of_int ts) None)"

fun run_data :: "bytes list \<Rightarrow> client \<Rightarrow> (unit result \<times> client) option" where
  "run_data [] c = Some (Inr (), c)"
| "run_data (d # ds) c = (case onData d c of
     None \<Rightarrow> None
   | Some (Inl e, c1) \<Rightarrow> Some (Inl e, c1)
   | Some (Inr _, c1) \<Rightarrow> run_data ds c1)"

section \<open>One packet\<close>

lemma RTPFactory_build_packet:
  assumes "vp_ok p" "0 \<le> pt" "pt < 128" "map_of fac (Some pt) = Some off"
    and "getMediaBlockByPayloadType s pt = Some m" "mb_ptype m = Some PT_H264"
  shows "\<exists>r. RTPFactory_build fac (vp_bytes pt p) s = Inr (r, AList.update (Some pt) (snd (unwrap_ts off (vp_ts p))) fac)
    \<and> r_pt r = pt \<and> r_timestamp r = fst (unwrap_ts off (vp_ts p)) \<and> r_media r = Some m \<and> r_type r = Some PT_H264
    \<and> RTP_getPayload r = nal_header (vp_nri p) (vp_type p) # vp_body p"
proof -
  obtain r where r: "RTP (vp_bytes pt p) s = Inr r" "r_pt r = pt" "r_timestamp r = vp_ts p" "r_media r = Some m"
    "RTP_getPayload r = nal_header (vp_nri p) (vp_type p) # vp_body p"
    using RTP_packet [OF assms(2,3), of "vp_seq p" "vp_ts p" "vp_ssrc p" "vp_marker p"
        "nal_header (vp_nri p) (vp_type p) # vp_body p" s] assms(1,5)
    by (auto simp: vp_ok_def vp_bytes_def)
  have t: "r_type r = Some PT_H264"
    using r(1,4) assms(6) by (auto simp: RTP_def bindE_Inr_iff Let_def)
  show ?thesis
    using r t assms(4) by (simp add: RTPFactory_build_def case_prod_beta RTP_getPayload_def)
qed

lemma single_unit_parsed:
  assumes "vp_ok p" "r_media r = Some m" "mb_type m = Some ''video''"
    and "RTP_getPayload r = nal_header (vp_nri p) (vp_type p) # vp_body p"
  shows "RTPPayloadParser_parse pp r = Some (Inr (Some [vp_unit p (r_timestamp r)], pp))"
proof -
  have h: "parseNALHeader (uint (nal_header (vp_nri p) (vp_type p))) = (vp_nri p, vp_type p)"
    by (rule parseNALHeader_header) (use assms(1) in \<open>auto simp: vp_ok_def\<close>)
  have g: "getUint8 (nal_header (vp_nri p) (vp_type p) # vp_body p) 0 = Inr (uint (nal_header (vp_nri p) (vp_type p)))"
    using getUint8_nth [of 0 "nal_header (vp_nri p) (vp_type p) # vp_body p"] by simp
  have "RTPH264Parser_parse (pp_asm pp) r = Inr (Some [NALU (vp_type p) (vp_nri p) (vp_body p) (of_int (r_timestamp r)) None], pp_asm pp)"
    unfolding RTPH264Parser_parse_def onNALUFragment_def assms(4) g
    using assms(1) by (simp add: h parseSingleNALUPacket_def vp_ok_def RTP_getTimestampMS_def)
  then show ?thesis
    using assms(2,3) by (simp add: RTPPayloadParser_parse_def RTP_media_def vp_unit_def)
qed

lemma video_packet_taken:
  assumes "video_track c pt ch off first q" "vp_ok p" "0 \<le> pt" "pt < 128" "0 \<le> ch" "ch < 256"
  shows "\<exists>c'. onData (interleaved_frame ch (vp_bytes pt p)) c = Some (Inr (), c') \<and>
    video_track c' pt ch (snd (unwrap_ts off (vp_ts p)))
      (Some (case first of None \<Rightarrow> fst (unwrap_ts off (vp_ts p)) | Some f \<Rightarrow> f))
      (q @ [[vp_unit p (fst (unwrap_ts off (vp_ts p)) - (case first of None \<Rightarrow> fst (unwrap_ts off (vp_ts p)) | Some f \<Rightarrow> f))]]) \<and>
    cl_ontracks c' = cl_ontracks c \<and> map fst (cl_sampleQueues c') = map fst (cl_sampleQueues c)"
proof -
  let ?t = "fst (unwrap_ts off (vp_ts p))" and ?off = "snd (unwrap_ts off (vp_ts p))"
  let ?f = "case first of None \<Rightarrow> ?t | Some f \<Rightarrow> f"
  from assms(1) obtain fac s m where c: "ch \<in> set (cl_rtp_channels c)" "cl_rtpFactory c = Some fac"
    "map_of fac (Some pt) = Some off" "cl_sdp c = Some s" "getMediaBlockByPayloadType s pt = Some m"
    "mb_type m = Some ''video''" "mb_ptype m = Some PT_H264" "map_of (cl_rtpBuffer c) (Some pt) = Some []"
    "map_of (cl_timeOffset c) (Some pt) = Some 0" "map_of (cl_lastTimestamp c) (Some pt) = first"
    "map_of (cl_sampleQueues c) PT_H264 = Some q"
    unfolding video_track_def by blast
  obtain r where r: "RTPFactory_build fac (vp_bytes pt p) s = Inr (r, AList.update (Some pt) ?off fac)"
    "r_pt r = pt" "r_timestamp r = ?t" "r_media r = Some m" "r_type r = Some PT_H264"
    "RTP_getPayload r = nal_header (vp_nri p) (vp_type p) # vp_body p"
    using RTPFactory_build_packet [OF assms(2-4) c(3,5,7)] by blast
  let ?r = "r\<lparr>r_timestamp := ?t - ?f\<rparr>"
  have pay: "RTPPayloadParser_parse pp ?r = Some (Inr (Some [vp_unit p (?t - ?f)], pp))" for pp
    using single_unit_parsed [OF assms(2), of ?r m pp] r(4,6) c(6) by (simp add: RTP_getPayload_def)
  define c2 where "c2 = c\<lparr>cl_rtpFactory := Some (AList.update (Some pt) ?off fac),
    cl_lastTimestamp := (if first = None then AList.update (Some pt) ?t (cl_lastTimestamp c) else cl_lastTimestamp c)\<rparr>"
  define c3 where "c3 = c2\<lparr>cl_rtpBuffer := AList.update (Some pt) [] (cl_rtpBuffer c),
    cl_sampleQueues := AList.update PT_H264 (q @ [[vp_unit p (?t - ?f)]]) (cl_sampleQueues c)\<rparr>"
  have f: "map_of (cl_lastTimestamp c2) (Some pt) = Some ?f"
    using c(10) by (cases first) (simp_all add: c2_def update_conv')
  have "uint (interleaved_frame ch (vp_bytes pt p) ! 1) = ch"
    using assms(5,6) by (simp add: interleaved_frame_def uint_u8)
  moreover have "1 < length (interleaved_frame ch (vp_bytes pt p))"
    "drop 4 (interleaved_frame ch (vp_bytes pt p)) = vp_bytes pt p"
    by (simp_all add: interleaved_frame_def be16_def)
  ultimately have 1: "onData (interleaved_frame ch (vp_bytes pt p)) c = onRTP (vp_bytes pt p) c"
    using c(1) by (simp add: onData_def)
  have 2: "onRTP (vp_bytes pt p) c = drain_buffer [r] (Some pt) c2"
    using c r by (simp add: onRTP_def Let_def c2_def)
  have 3: "take_packet r (c2\<lparr>cl_rtpBuffer := AList.update (Some pt) [] (cl_rtpBuffer c2)\<rparr>) = Some (Inr (), c3)"
    using f pay r(2-5) c(9,11) by (simp add: take_packet_def c2_def c3_def)
  have "video_track (c3\<lparr>cl_rtpBuffer := AList.update (Some pt) [] (cl_rtpBuffer c3)\<rparr>) pt ch ?off (Some ?f) (q @ [[vp_unit p (?t - ?f)]])"
    using c f by (simp add: video_track_def c3_def c2_def update_conv')
  moreover have "PT_H264 \<in> fst ` set (cl_sampleQueues c)" using c(11) by (force dest: map_of_SomeD)
  then have "cl_ontracks c3 = cl_ontracks c \<and> map fst (cl_sampleQueues c3) = map fst (cl_sampleQueues c)"
    by (simp add: c3_def c2_def update_keys)
  ultimately show ?thesis using 1 2 3 by simp
qed

section \<open>A sequence of packets\<close>

text \<open>The state of the unwrapping after some packets, and the time that then counts as zero.\<close>

definition unwrap_end :: "ts_offset \<Rightarrow> video_packet list \<Rightarrow> ts_offset" where
  "unwrap_end off ps = foldl (\<lambda>off q. snd (unwrap_ts off (vp_ts q))) off ps"

definition first_time :: "ts_offset \<Rightarrow> int option \<Rightarrow> video_packet list \<Rightarrow> int option" where
  "first_time off first ps = (case (first, unwrap_run off (map vp_ts ps)) of (None, t # _) \<Rightarrow> Some t | _ \<Rightarrow> first)"

lemma video_packets_taken:
  assumes "video_track c pt ch off first q" "\<forall>p \<in> set ps. vp_ok p" "0 \<le> pt" "pt < 128" "0 \<le> ch" "ch < 256"
  shows "\<exists>c'. run_data (map (\<lambda>p. interleaved_frame ch (vp_bytes pt p)) ps) c = Some (Inr (), c') \<and>
    video_track c' pt ch (unwrap_end off ps) (first_time off first ps) (q @ map2 (\<lambda>p t. [vp_unit p (t - (case first of
        None \<Rightarrow> hd (unwrap_run off (map vp_ts ps)) | Some f \<Rightarrow> f))]) ps (unwrap_run off (map vp_ts ps))) \<and>
    cl_ontracks c' = cl_ontracks c \<and> map fst (cl_sampleQueues c') = map fst (cl_sampleQueues c)"
  using assms(1,2)
proof (induction ps arbitrary: c off first q)
  case Nil
  then show ?case by (auto simp: unwrap_end_def first_time_def split: option.split)
next
  case (Cons p ps)
  let ?t = "fst (unwrap_ts off (vp_ts p))" and ?off = "snd (unwrap_ts off (vp_ts p))"
  let ?f = "case first of None \<Rightarrow> ?t | Some f \<Rightarrow> f"
  from video_packet_taken [OF Cons.prems(1) _ assms(3-6), of p] Cons.prems(2) obtain c1 where
    c1: "onData (interleaved_frame ch (vp_bytes pt p)) c = Some (Inr (), c1)"
      "video_track c1 pt ch ?off (Some ?f) (q @ [[vp_unit p (?t - ?f)]])"
      "cl_ontracks c1 = cl_ontracks c" "map fst (cl_sampleQueues c1) = map fst (cl_sampleQueues c)" by auto
  have "hd (unwrap_run off (map vp_ts (p # ps))) = ?t" by (simp add: case_prod_beta)
  with Cons.IH [OF c1(2)] Cons.prems(2) c1(1,3,4) show ?case by (cases first) (simp_all add: case_prod_beta unwrap_end_def first_time_def)
qed

definition example_video_sdp :: sdp where
  "example_video_sdp = SDPParser\<lparr>sd_blocks := [empty_block, empty_block\<lparr>mb_type := Some ''video'', mb_fmt := Some [Some 96],
     mb_rtpmap := Some [(96, \<lparr>rm_name = ''H264'', rm_clock = Some ''90000'', rm_encparams = None\<rparr>)],
     mb_control := Some ''track1'', mb_ptype := Some PT_H264, mb_fmtp := Some []\<rparr>],
     sd_media := [(''video'', 1)], sd_mediaMap := [(Some 96, 1)]\<rparr>"

definition example_player :: client where
  "example_player = (blank_client example_endpoint [])\<lparr>cl_rtp_channels := [0], cl_rtpFactory := Some [(Some 96, \<lparr>ts_last = 0, ts_overflow = 0\<rparr>)],
     cl_sdp := Some example_video_sdp, cl_rtpBuffer := [(Some 96, [])], cl_timeOffset := [(Some 96, 0)],
     cl_sampleQueues := [(PT_H264, [])]\<rparr>"

lemma example_player_track: "video_track example_player 96 0 \<lparr>ts_last = 0, ts_overflow = 0\<rparr> None []"
  by (simp add: video_track_def example_player_def blank_client_def example_video_sdp_def SDPParser_def empty_block_def
      getMediaBlockByPayloadType_def)

section \<open>What arrives in the queue\<close>

text \<open>Video packets that arrive on the channel of a playing track are delivered to its queue without
  loss and in the order of arrival, one NAL unit each, with the unwrapped timestamp counted from the
  first packet.\<close>

lemma video_packets_reach_the_queue:
  assumes "video_track c pt ch off None q" "\<forall>p \<in> set ps. vp_ok p" "0 \<le> pt" "pt < 128" "0 \<le> ch" "ch < 256"
  shows "\<exists>c'. run_data (map (\<lambda>p. interleaved_frame ch (vp_bytes pt p)) ps) c = Some (Inr (), c') \<and>
    map_of (cl_sampleQueues c') PT_H264 = Some (q @ map2 (\<lambda>p t. [vp_unit p (t - hd (unwrap_run off (map vp_ts ps)))])
      ps (unwrap_run off (map vp_ts ps)))"
  using video_packets_taken [OF assms] by (auto simp: video_track_def)

lemma video_packets_reach_the_queue_witness:
  "\<exists>c'. run_data (map (\<lambda>p. interleaved_frame 0 (vp_bytes 96 p))
       [\<lparr>vp_marker = True, vp_seq = 1, vp_ts = 1000, vp_ssrc = 7, vp_nri = 0x60, vp_type = 5, vp_body = [1, 2]\<rparr>,
        \<lparr>vp_marker = True, vp_seq = 2, vp_ts = 4000, vp_ssrc = 7, vp_nri = 0x40, vp_type = 1, vp_body = [3]\<rparr>])
       example_player = Some (Inr (), c') \<and>
     map_of (cl_sampleQueues c') PT_H264 = Some [[VideoUnit (NALU 5 0x60 [1, 2] 0 None)], [VideoUnit (NALU 1 0x40 [3] 3000 None)]]"
proof -
  let ?ps = "[\<lparr>vp_marker = True, vp_seq = 1, vp_ts = 1000, vp_ssrc = 7, vp_nri = 0x60, vp_type = 5, vp_body = [1, 2]\<rparr>,
        \<lparr>vp_marker = True, vp_seq = 2, vp_ts = 4000, vp_ssrc = 7, vp_nri = 0x40, vp_type = 1, vp_body = [3]\<rparr>]"
  have ok: "\<forall>p \<in> set ?ps. vp_ok p" by (simp add: vp_ok_def)
  have u: "unwrap_run \<lparr>ts_last = 0, ts_overflow = 0\<rparr> (map vp_ts ?ps) = [1000, 4000]"
    by (simp add: unwrap_ts_def)
  from video_packets_reach_the_queue [OF example_player_track ok] show ?thesis
    by (simp add: unwrap_ts_def vp_unit_def)
qed

end
