(* ===== verification/RtspFlow.thy ===== *)
theory RtspFlow
  imports RtspAuth RtspData
begin

text \<open>
  What the RTSP client does with the answers: the set-up of the tracks and its failure, the
  keep-alive timer, and the way of a media packet from the transport to the queue of its track.
\<close>

section \<open>The graph of states never changes\<close>

definition graph :: "client \<Rightarrow> (int \<times> client_hook sm_state) list" where
  "graph c = sm_states (cl_sm c)"

lemma graph_updates [simp]:
  "graph (c\<lparr>cl_sm := (cl_sm c)\<lparr>sm_current := s\<rparr>\<rparr>) = graph c"
  by (simp add: graph_def)

lemma keeps_permit [keeps_intros]: "keeps f (permit n)"
  by (simp add: keeps_def permit_def split: request.split)

lemma keeps_detach [keeps_intros]: "keeps f m \<Longrightarrow> (\<And>c xs. f (c\<lparr>cl_unhandled := xs\<rparr>) = f c) \<Longrightarrow> keeps f (detach m)"
  unfolding detach_def by (intro keeps_intros) auto

lemma keeps_transition [keeps_intros]:
  "keeps f m \<Longrightarrow> (\<And>x. keeps f (h x)) \<Longrightarrow> keeps f (enter n) \<Longrightarrow> keeps f (transition n m h)"
  unfolding transition_def by (intro keeps_intros)

lemma keeps_graph_enter [keeps_intros]: "keeps graph (enter n)"
  unfolding enter_def by (intro keeps_intros) (simp add: graph_def)

lemma keeps_graph_modify:
  "(\<And>c. cl_sm (g c) = cl_sm c) \<Longrightarrow> keeps graph (modify g)"
  by (intro keeps_intros) (simp add: graph_def)

lemma keeps_graph_reset [keeps_intros]:
  "keeps graph reset_begin" "keeps graph toInitial" "keeps graph toTeardown" "keeps graph reset_end"
  "keeps graph reset" "keeps graph onDisconnected"
proof -
  have 1: "keeps graph (RTSPStream_reset ty)" for ty
    unfolding RTSPStream_reset_def put_stream_def forgetRTPChannel_def
    by (intro keeps_intros keeps_graph_modify) simp_all
  have 2: "keeps graph (RTSPSession_reset k)" for k
    unfolding RTSPSession_reset_def put_session_def by (intro keeps_intros keeps_graph_modify) simp_all
  show b: "keeps graph reset_begin"
    unfolding reset_begin_def by (intro keeps_intros keeps_graph_modify 1 2) simp_all
  show i: "keeps graph toInitial" unfolding toInitial_def by (intro keeps_intros)
  show t: "keeps graph toTeardown"
    unfolding toTeardown_def clearStarted_def by (intro keeps_intros keeps_graph_modify i) simp_all
  show e: "keeps graph reset_end" unfolding reset_end_def by (intro keeps_graph_modify) simp
  show r: "keeps graph reset" unfolding reset_def by (intro keeps_intros b i t e)
  show "keeps graph onDisconnected"
    unfolding onDisconnected_def by (intro keeps_intros keeps_graph_modify r i t) (simp_all add: graph_def)
qed

lemma keeps_graph_request [keeps_intros]: "keeps graph (sendRequest srv cmd host ps)"
proof -
  have 1: "keeps graph (on_response m)" for m
    unfolding on_response_def on_challenge_def queryCredentials_def
    by (intro keeps_intros keeps_graph_modify) simp_all
  have 2: "keeps graph (send srv d)" for d
    unfolding send_def by (intro keeps_intros keeps_graph_modify 1) (simp_all add: graph_def)
  have "keeps graph (sendRequest_upto n srv cmd host ps pl)" for n ps pl
    by (induction n arbitrary: ps) (auto intro!: keeps_intros keeps_graph_modify 2)
  then show ?thesis by (simp add: sendRequest_def)
qed

lemma keeps_graph_setup [keeps_intros]:
  "keeps graph (prepare_track s ty)" "keeps graph (setup_tracks srv s tys sess)" "keeps graph (sendPlay srv k)"
  "keeps graph (sendPause srv k)"
proof -
  have url: "keeps graph (getSetupURL t)" "keeps graph getControlURL" for t
    unfolding getSetupURL_def getControlURL_def session_block_def by (intro keeps_intros)+
  have req: "keeps graph (RTSPSession_sendRequest srv k cmd)" for k cmd
    unfolding RTSPSession_sendRequest_def by (intro keeps_intros url)
  have st: "keeps graph (set_session_state k n)" for k n
    unfolding set_session_state_def by (intro keeps_graph_modify) simp
  show "keeps graph (prepare_track s ty)"
    unfolding prepare_track_def put_stream_def by (intro keeps_intros keeps_graph_modify) simp_all
  show "keeps graph (sendPlay srv k)"
    unfolding sendPlay_def by (intro keeps_intros keeps_graph_modify req st) simp_all
  show "keeps graph (sendPause srv k)"
    unfolding sendPause_def supports_def by (intro keeps_intros req st)
  have su: "keeps graph (RTSPStream_sendSetup srv ty track sess)" for ty track sess
    unfolding RTSPStream_sendSetup_def put_stream_def useRTPChannel_def
    by (intro keeps_intros keeps_graph_modify url) simp_all
  have conf: "keeps graph (track_config track name)" for track name
    unfolding track_config_def set_aac_config_def by (intro keeps_intros keeps_graph_modify) simp_all
  have tr: "keeps graph (on_track_setup track f name pt data)" for track f name pt data
    unfolding on_track_setup_def RTSPSession_def put_session_def session_block_def
    by (intro keeps_intros keeps_graph_modify url conf) simp_all
  show "keeps graph (setup_tracks srv s tys sess)"
    by (induction tys arbitrary: sess) (auto intro!: keeps_intros keeps_graph_modify su tr)
qed

lemma keeps_graph_sendSetup [keeps_intros]: "keeps graph (sendSetup srv)"
proof -
  have "keeps graph (setup_failed srv)"
    unfolding setup_failed_def stop_def clearStarted_def
    by (intro keeps_intros keeps_graph_modify) (simp_all add: graph_def)
  then show ?thesis
    unfolding sendSetup_def by (intro keeps_intros keeps_graph_modify) simp_all
qed

section \<open>A new client\<close>

lemma reset_fresh:
  assumes "cl_streams c = []" "cl_sessions c = []" "cl_sm c = client_sm\<lparr>sm_current := Some STATE_INITIAL\<rparr>"
  shows "detach reset c = (Inr (), c\<lparr>cl_authenticator := NoAuth, cl_methods := [], cl_tracks := [], cl_rtpBuffer := [],
    cl_contentBase := [], cl_sdp := None, cl_interleave := 0, cl_session := None, cl_timeOffset := [], cl_lastTimestamp := []\<rparr>)"
  using assms by (simp add: detach_def reset_def reset_begin_def reset_end_def for_in_def cmd_defs)

lemma fresh_client:
  "cl_sessions (RTSPClientSM ep clock) = [] \<and> cl_streams (RTSPClientSM ep clock) = [] \<and> \<not> cl_started (RTSPClientSM ep clock) \<and>
   cl_sm (RTSPClientSM ep clock) = client_sm\<lparr>sm_current := Some STATE_INITIAL\<rparr> \<and> cl_unhandled (RTSPClientSM ep clock) = [] \<and>
   cl_sent (RTSPClientSM ep clock) = [] \<and> cl_sampleQueues (RTSPClientSM ep clock) = [] \<and> cl_ready (RTSPClientSM ep clock) = Inr () \<and>
   cl_authenticator (RTSPClientSM ep clock) = NoAuth \<and> \<not> cl_seekable (RTSPClientSM ep clock) \<and>
   cl_ontracks (RTSPClientSM ep clock) = None"
  by (simp add: RTSPClientSM_def blank_client_def detach_def reset_def reset_begin_def reset_end_def for_in_def toInitial_def
     client_sm_eq transition_def permit_def transitionTo_def enter_def STATE_INITIAL_def cmd_defs)

section \<open>A lost connection\<close>

text \<open>\<^verbatim>\<open>onDisconnected\<close> as the promises run: its reset and itself ask for TEARDOWN in the same state, each link of the
  one chain is followed by the same link of the other, both ask for INITIAL from TEARDOWN.\<close>

definition both :: "unit action \<Rightarrow> unit action" where
  "both m = seqC m (\<lambda>_. m)"

definition onDisconnected_links :: "unit action" where
  "onDisconnected_links =
     seqC reset_begin (\<lambda>_.
     seqC (permit STATE_TEARDOWN) (\<lambda>_.
     seqC (modify (\<lambda>c. c\<lparr>cl_shouldReconnect := True\<rparr>)) (\<lambda>_.
     seqC (permit STATE_TEARDOWN) (\<lambda>_.
     seqC (both clearStarted) (\<lambda>_.
     seqC (both (enter STATE_TEARDOWN)) (\<lambda>_.
     seqC (both (seqC (permit STATE_INITIAL) (\<lambda>_. ret ()))) (\<lambda>_.
     seqC (both (enter STATE_INITIAL)) (\<lambda>_.
     seqC toInitial (\<lambda>_. seqC reset_end (\<lambda>_. toInitial))))))))))"

lemma keeps_machine_reset: "keeps cl_sm reset_begin"
proof -
  have mod: "(\<And>c. cl_sm (g c) = cl_sm c) \<Longrightarrow> keeps cl_sm (modify g)" for g by (intro keeps_intros)
  have 1: "keeps cl_sm (RTSPStream_reset ty)" for ty
    unfolding RTSPStream_reset_def put_stream_def forgetRTPChannel_def by (intro keeps_intros mod) simp_all
  have 2: "keeps cl_sm (RTSPSession_reset k)" for k
    unfolding RTSPSession_reset_def put_session_def by (intro keeps_intros mod) simp_all
  show ?thesis unfolding reset_begin_def by (intro keeps_intros mod 1 2) simp_all
qed

lemma onDisconnected_alternating:
  assumes "graph c = sm_states client_sm" "sm_current (cl_sm c) = Some n" "n \<in> {STATE_OPTIONS, STATE_DESCRIBE, STATE_SETUP, STATE_STREAMS}"
    and "reset_begin c = (Inr (), c1)"
  shows "onDisconnected_links c = onDisconnected c"
proof -
  have "cl_sm c1 = cl_sm c" using keeps_machine_reset assms(4) by (auto simp: keeps_def dest: spec [of _ c])
  then have g: "sm_states (cl_sm c1) = sm_states client_sm" "sm_current (cl_sm c1) = Some n"
    using assms(1,2) by (simp_all add: graph_def)
  show ?thesis using assms(3) g
    by (auto simp: onDisconnected_links_def onDisconnected_def reset_def detach_def both_def toInitial_def toTeardown_def
      transition_def permit_def transitionTo_def enter_def clearStarted_def reset_end_def cmd_defs assms(4) client_lookup)
qed

section \<open>SETUP is always left for STREAMS\<close>

lemma forC_ok: "(\<And>x s. x \<in> set xs \<Longrightarrow> fst (f x s) = Inr ()) \<Longrightarrow> fst (forC xs f s) = Inr ()"
proof (induction xs arbitrary: s)
  case (Cons x xs)
  obtain s1 where "f x s = (Inr (), s1)" using Cons.prems [of x s] by (cases "f x s") auto
  then show ?case using Cons by (simp add: seqC_def)
qed (simp add: ret_def)

lemma fst_seqC_detach: "fst (seqC (detach m) h c) = fst (h () (snd (detach m c)))"
proof -
  obtain c1 where "detach m c = (Inr (), c1)" using detach_ok [of m c] by (metis prod.collapse)
  then show ?thesis by (simp add: seqC_def)
qed

lemma setup_failed_ok: "fst (setup_failed srv c) = Inr ()"
  by (simp add: setup_failed_def fst_seqC_detach) (simp add: modify_def)

lemma sendSetup_ok:
  assumes "cl_sdp c = Some s" "fst (forC (cl_tracks c) (prepare_track s) c) = Inr ()"
  shows "fst (sendSetup srv c) = Inr ()"
proof -
  obtain c1 where c1: "forC (cl_tracks c) (prepare_track s) c = (Inr (), c1)"
    using assms(2) by (metis prod.collapse)
  show ?thesis
    using assms(1) c1 setup_failed_ok
    by (simp add: sendSetup_def seqC_def get_def catchC_def split: prod.split sum.split)
qed

lemma permit_client:
  assumes "graph c = sm_states client_sm" "sm_current (cl_sm c) = Some a" "edge client_sm (Some a) b" "a \<noteq> b"
  shows "permit b c = (Inr True, c)"
proof -
  have "same_graph client_sm (cl_sm c)" using assms(1) by (simp add: same_graph_def graph_def)
  then have "edge (cl_sm c) (sm_current (cl_sm c)) b" using assms(2,3) edge_same_graph by metis
  then have "transitionTo (cl_sm c) b = Begin Deactivate \<lparr>tk_phase = Deactivating, tk_from = Some a, tk_to = b\<rparr>"
    using assms(2,4) by (simp add: transitionTo_Begin)
  then show ?thesis by (simp add: permit_def)
qed

lemma toStreams_from_setup:
  assumes "graph c = sm_states client_sm" "sm_current (cl_sm c) = Some 8"
  shows "onSetup c = (Inr (), c\<lparr>cl_sm := (cl_sm c)\<lparr>sm_current := Some 16\<rparr>\<rparr>)"
  using permit_client [OF assms, of 16] client_edges_hold
  by (simp add: onSetup_def detach_def toStreams_def transition_def cmd_defs enter_def)

lemma toSetup_run:
  assumes "graph c = sm_states client_sm" "sm_current (cl_sm c) = Some 4"
    and "sendSetup srv c = (Inr (), c1)"
  shows "toSetup srv c = (Inr (), c1\<lparr>cl_sm := (cl_sm c1)\<lparr>sm_current := Some 16\<rparr>\<rparr>)"
proof -
  let ?c2 = "c1\<lparr>cl_sm := (cl_sm c1)\<lparr>sm_current := Some 8\<rparr>\<rparr>"
  have "graph c1 = graph c" by (rule keepsD [OF keeps_graph_sendSetup assms(3)])
  then have "graph ?c2 = sm_states client_sm" using assms(1) by simp
  from toStreams_from_setup [OF this] have "onSetup ?c2 = (Inr (), c1\<lparr>cl_sm := (cl_sm c1)\<lparr>sm_current := Some 16\<rparr>\<rparr>)"
    by simp
  then show ?thesis
    using permit_client [OF assms(1,2), of 8] client_edges_hold assms(3)
    by (simp add: toSetup_def transition_def seqC_def enter_def modify_def)
qed

section \<open>A refused SETUP\<close>

definition stream_ok :: "client \<Rightarrow> bool" where
  "stream_ok c \<longleftrightarrow> distinct (map fst (cl_streams c)) \<and> (\<forall>(k, st) \<in> set (cl_streams c). rs_attached st)"

lemma set_for_in: "set (for_in ob) = fst ` set ob"
  by (auto simp: for_in_def)

lemma distinct_for_in: "distinct (map fst ob) \<Longrightarrow> distinct (for_in ob)"
  by (auto simp: for_in_def distinct_sort)

definition rest :: "client \<Rightarrow> client_hook machine \<times> (string \<times> session) list \<times> track_info list option" where
  "rest c = (cl_sm c, cl_sessions c, cl_ontracks c)"

lemma keeps_rest_stream_reset: "keeps rest (RTSPStream_reset k)"
  unfolding RTSPStream_reset_def put_stream_def forgetRTPChannel_def
  by (intro keeps_intros) (simp_all add: rest_def)

lemma reset_streams:
  assumes "distinct ks" "\<forall>k \<in> set ks. \<exists>st. map_of (cl_streams c) k = Some st \<and> rs_attached st"
  shows "fst (forC ks RTSPStream_reset c) = Inr ()"
  using assms
proof (induction ks arbitrary: c)
  case (Cons k ks)
  from Cons.prems obtain st where st: "map_of (cl_streams c) k = Some st" "rs_attached st" by auto
  have at: "rs_attached (stopKeepAlive st)" using st(2) by (simp add: stopKeepAlive_def split: interval.split)
  define c1 where "c1 = snd (RTSPStream_reset k c)"
  have r: "RTSPStream_reset k c = (Inr (), c1)"
    and s: "cl_streams c1 = AList.update k ((stopKeepAlive st)\<lparr>rs_attached := False, rs_track := None\<rparr>) (cl_streams c)"
    using st at by (simp_all add: c1_def RTSPStream_reset_def cmd_defs Let_def forgetRTPChannel_def put_stream_def)
  have "\<forall>j \<in> set ks. \<exists>st. map_of (cl_streams c1) j = Some st \<and> rs_attached st"
    using Cons.prems by (auto simp: s update_conv')
  from Cons.IH [OF _ this] Cons.prems(1) show ?case by (simp add: seqC_def r)
qed (simp add: ret_def)

lemma reset_begin_ok:
  assumes "stream_ok c" "cl_sessions c = []"
  shows "\<exists>c'. reset_begin c = (Inr (), c') \<and> cl_streams c' = [] \<and> cl_sessions c' = [] \<and>
    cl_sm c' = cl_sm c \<and> cl_ontracks c' = cl_ontracks c"
proof -
  let ?c1 = "c\<lparr>cl_authenticator := NoAuth, cl_methods := [], cl_tracks := [], cl_rtpBuffer := []\<rparr>"
  have f: "fst (forC (for_in (cl_streams c)) RTSPStream_reset ?c1) = Inr ()"
    using assms(1) by (intro reset_streams) (auto simp: stream_ok_def distinct_for_in set_for_in)
  obtain x c2 where xc: "forC (for_in (cl_streams c)) RTSPStream_reset ?c1 = (x, c2)"
    by (cases "forC (for_in (cl_streams c)) RTSPStream_reset ?c1")
  then have c2: "forC (for_in (cl_streams c)) RTSPStream_reset ?c1 = (Inr (), c2)" using f by simp
  have "rest c2 = rest ?c1"
    using keepsD [of rest "forC (for_in (cl_streams c)) RTSPStream_reset" ?c1, OF _ c2]
    by (simp add: keeps_forC keeps_rest_stream_reset)
  then have r: "cl_sm c2 = cl_sm c" "cl_sessions c2 = []" "cl_ontracks c2 = cl_ontracks c"
    using assms(2) by (simp_all add: rest_def)
  then show ?thesis
    using c2 by (simp add: reset_begin_def seqC_def modify_def get_def for_in_def ret_def)
qed

text \<open>A server that refuses: every request fails with the code of the answer.\<close>

definition refuses :: "server \<Rightarrow> response \<Rightarrow> bool" where
  "refuses srv r \<longleftrightarrow> response_ok r \<and> rs_code r \<ge> 300 \<and> rs_code r \<noteq> 401 \<and> (\<forall>sent. srv sent = Inr (response_print r))"

lemma send_refused:
  assumes "refuses srv r" "cl_transport c" "cl_ready c = Inr ()"
  shows "fst (send srv d c) = Inl (RtspErr (int (rs_code r)) (rs_reason r))"
  using SM_parse_print [of r] assms
  by (simp add: refuses_def send_def cmd_defs on_response_def)

lemma sendRequest_refused:
  assumes "refuses srv r" "cl_transport c" "cl_ready c = Inr ()"
  shows "\<exists>c'. sendRequest srv cmd host ps c = (Inl (RtspErr (int (rs_code r)) (rs_reason r)), c') \<and> but_net c' = but_net c"
proof -
  let ?c1 = "c\<lparr>cl_cSeq := cl_cSeq c + 1\<rparr>"
  let ?d = "msg_build cmd host (request_params ?c1 cmd ps) None"
  obtain x c2 where s: "send srv ?d ?c1 = (x, c2)" by (cases "send srv ?d ?c1")
  have x: "x = Inl (RtspErr (int (rs_code r)) (rs_reason r))"
    using send_refused [OF assms(1), of ?c1 ?d] assms(2,3) s by simp
  have "but_net c2 = but_net c" using send_net [of ?c1 srv ?d] assms(3) s by simp
  with s x show ?thesis by (simp add: sendRequest_def numeral_2_eq_2 cmd_defs)
qed

definition before_setup :: "client \<Rightarrow> client \<Rightarrow> bool" where
  "before_setup c d \<longleftrightarrow> cl_sm d = cl_sm c \<and> cl_sessions d = [] \<and> cl_ontracks d = cl_ontracks c \<and> cl_transport d
     \<and> cl_ready d = Inr () \<and> cl_sdp d = cl_sdp c \<and> cl_tracks d = cl_tracks c \<and> stream_ok d"

lemma stream_ok_put: "stream_ok d \<Longrightarrow> rs_attached st \<Longrightarrow> stream_ok (d\<lparr>cl_streams := AList.update ty st (cl_streams d)\<rparr>)"
  using set_update_subset [of ty st "cl_streams d"] by (auto simp: stream_ok_def distinct_update)

lemma before_setup_put:
  "before_setup c d \<Longrightarrow> rs_attached st \<Longrightarrow> before_setup c (d\<lparr>cl_streams := AList.update ty st (cl_streams d)\<rparr>)"
  using stream_ok_put [of d st ty] by (simp add: before_setup_def)

lemma before_setup_queues:
  "before_setup c (d\<lparr>cl_sampleQueues := q, cl_rtpBuffer := b\<rparr>) \<longleftrightarrow> before_setup c d"
  by (simp add: before_setup_def stream_ok_def)

lemma before_setup_prepare: "before_setup c d \<Longrightarrow> before_setup c (snd (prepare_track s ty d))"
  using before_setup_put [of c d]
  by (auto simp: prepare_track_def put_stream_def cmd_defs RTSPStream_def before_setup_queues
      split: sum.split option.split prod.split)

lemma refused_stream:
  assumes "before_setup c d" "cl_sdp c = Some s" "refuses srv r"
  shows "\<exists>e d'. RTSPStream_sendSetup srv ty track sess d = (Inl e, d') \<and> before_setup c d'"
proof -
  define st where "st = (RTSPStream track)\<lparr>rs_state := Some STATE_SETUP, rs_rtpChannel := cl_interleave d\<rparr>"
  define d1 where "d1 = d\<lparr>cl_streams := AList.update ty st (cl_streams d), cl_interleave := cl_interleave d + 2\<rparr>"
  have at: "rs_attached st" by (simp add: st_def RTSPStream_def)
  have "stream_ok d1"
    using assms(1) set_update_subset [of ty st "cl_streams d"] at
    by (auto simp: before_setup_def stream_ok_def d1_def distinct_update)
  then have d1: "before_setup c d1" using assms(1) by (simp add: before_setup_def d1_def)
  obtain url where url: "getSetupURL track d1 = (Inr url, d1)"
    using d1 assms(2) by (simp add: getSetupURL_def session_block_def cmd_defs before_setup_def Let_def)
  define ps where "ps = setup_params (cl_interleave d) (cl_clock d1) sess"
  have "cl_transport d1" "cl_ready d1 = Inr ()" using d1 by (simp_all add: before_setup_def)
  from sendRequest_refused [OF assms(3) this, of "''SETUP''" url ps]
  obtain d2 e where d2: "sendRequest srv ''SETUP'' url ps d1 = (Inl e, d2)" "but_net d2 = but_net d1" by blast
  have "before_setup c d2"
    using d1 net_same [OF d2(2), of cl_sm] net_same [OF d2(2), of cl_sessions] net_same [OF d2(2), of cl_ontracks]
      net_same [OF d2(2), of cl_transport] net_same [OF d2(2), of cl_ready] net_same [OF d2(2), of cl_sdp]
      net_same [OF d2(2), of cl_tracks] net_same [OF d2(2), of cl_streams]
    by (simp add: but_net_fields before_setup_def stream_ok_def)
  moreover have "RTSPStream_sendSetup srv ty track sess d = (Inl e, d2)"
    using url d2(1) unfolding d1_def st_def ps_def
    by (simp add: RTSPStream_sendSetup_def put_stream_def seqC_def get_def modify_def Let_def)
  ultimately show ?thesis by blast
qed

lemma refused_tracks:
  assumes "before_setup c d" "cl_sdp c = Some s" "refuses srv r"
    and "\<forall>ty \<in> set tys. \<exists>x. find_track s ty = Inr x"
    and "\<exists>ty \<in> set tys. \<exists>track f name. find_track s ty = Inr (track, f, name) \<and> pt_string_map name \<noteq> None"
  shows "\<exists>e d'. setup_tracks srv s tys sess d = (Inl e, d') \<and> before_setup c d'"
  using assms(4,5)
proof (induction tys)
  case (Cons ty tys)
  from Cons.prems(1) obtain track f name where t: "find_track s ty = Inr (track, f, name)" by auto
  show ?case
  proof (cases "pt_string_map name")
    case None
    then have "\<exists>e d'. setup_tracks srv s tys sess d = (Inl e, d') \<and> before_setup c d'"
      using Cons t by auto
    then show ?thesis using t None by (simp add: seqC_def liftC_def)
  next
    case (Some pt)
    from refused_stream [OF assms(1-3), of ty track sess] obtain e d' where
      "RTSPStream_sendSetup srv ty track sess d = (Inl e, d')" "before_setup c d'" by blast
    then show ?thesis using t Some by (auto simp: seqC_def liftC_def)
  qed
qed simp

lemma prepare_tracks:
  assumes "before_setup c d" "\<forall>ty \<in> set tys. \<exists>x. find_track s ty = Inr x"
  shows "\<exists>d'. forC tys (prepare_track s) d = (Inr (), d') \<and> before_setup c d'"
  using assms
proof (induction tys arbitrary: d)
  case (Cons ty tys)
  from Cons.prems(2) have "fst (prepare_track s ty d) = Inr ()"
    by (auto simp: prepare_track_def put_stream_def cmd_defs split: option.split prod.split)
  then obtain d1 where d1: "prepare_track s ty d = (Inr (), d1)" by (cases "prepare_track s ty d") auto
  then have "before_setup c d1" using before_setup_prepare [OF Cons.prems(1), of s ty] by simp
  from Cons.IH [OF this] Cons.prems(2) d1 show ?case by (simp add: seqC_def)
qed (simp add: ret_def)

lemma setup_failed_run:
  assumes "stream_ok c" "cl_sessions c = []" "graph c = sm_states client_sm" "sm_current (cl_sm c) = Some 4"
  shows "\<exists>c'. setup_failed srv c = (Inr (), c') \<and> cl_streams c' = [] \<and> cl_sessions c' = [] \<and>
    cl_ontracks c' = cl_ontracks c"
proof -
  let ?c1 = "c\<lparr>cl_shouldReconnect := False\<rparr>"
  have stop: "detach (stop srv) c = (Inr (), ?c1)"
    using assms(2) by (simp add: stop_def detach_def cmd_defs for_in_def)
  obtain c2 where c2: "reset_begin ?c1 = (Inr (), c2)" "cl_streams c2 = []" "cl_sessions c2 = []"
    "cl_sm c2 = cl_sm c" "cl_ontracks c2 = cl_ontracks c"
    using reset_begin_ok [of ?c1] assms(1,2) by (auto simp: stream_ok_def)
  have p: "permit 32 c2 = (Inr True, c2)"
    by (rule permit_client [of c2 4 32]) (use assms(3,4) c2(4) client_edges_hold in \<open>simp_all add: graph_def\<close>)
  have "detach (seqC reset_begin (\<lambda>_. transition STATE_TEARDOWN clearStarted (\<lambda>_. ret ()))) ?c1
      = (Inr (), c2\<lparr>cl_started := False, cl_sm := (cl_sm c2)\<lparr>sm_current := Some 32\<rparr>\<rparr>)"
    using c2(1) p by (simp add: detach_def cmd_defs transition_def clearStarted_def enter_def)
  with stop show ?thesis using c2(2-5) by (simp add: setup_failed_def seqC_def modify_def)
qed

section \<open>What the set-up guarantees, and what it does not\<close>

text \<open>Whatever the server answers to SETUP and PLAY, and whatever fails on the way, the state machine
  goes on to STREAMS: the failure of the set-up is not a failure of the transition.\<close>

lemma setup_always_ends_in_streams:
  assumes "graph c = sm_states client_sm" "sm_current (cl_sm c) = Some STATE_DESCRIBE" "cl_sdp c = Some s"
    and "\<forall>ty \<in> set (cl_tracks c). \<exists>x. find_track s ty = Inr x"
  shows "\<exists>c'. toSetup srv c = (Inr (), c') \<and> sm_current (cl_sm c') = Some STATE_STREAMS"
proof -
  have "fst (forC (cl_tracks c) (prepare_track s) c) = Inr ()"
  proof -
    have "fst (prepare_track s ty d) = Inr ()" if "ty \<in> set (cl_tracks c)" for ty d
      using assms(4) that by (auto simp: prepare_track_def put_stream_def cmd_defs split: option.split prod.split)
    then show ?thesis by (intro forC_ok) simp
  qed
  from sendSetup_ok [OF assms(3) this] have "fst (sendSetup srv c) = Inr ()" .
  then obtain c1 where "sendSetup srv c = (Inr (), c1)" by (cases "sendSetup srv c") auto
  from toSetup_run [OF assms(1) _ this] assms(2) show ?thesis by simp
qed

definition example_described :: client where
  "example_described = example_client\<lparr>cl_sm := client_sm\<lparr>sm_current := Some STATE_DESCRIBE\<rparr>,
     cl_sdp := Some example_video_sdp, cl_tracks := [''video'']\<rparr>"

definition not_found :: response where
  "not_found = \<lparr>rs_code = 404, rs_reason = ''Not Found'', rs_headers = [], rs_body = []\<rparr>"

lemma example_described_fields:
  "graph example_described = sm_states client_sm" "sm_current (cl_sm example_described) = Some STATE_DESCRIBE"
  "cl_sdp example_described = Some example_video_sdp" "cl_tracks example_described = [''video'']"
  "cl_transport example_described" "cl_ready example_described = Inr ()" "cl_streams example_described = []"
  "cl_sessions example_described = []" "cl_ontracks example_described = None"
  by (simp_all add: example_described_def example_client_def blank_client_def graph_def)

lemma example_track: "\<exists>m. find_track example_video_sdp ''video'' = Inr (m, Some 96, ''H264'')"
  by (simp add: find_track_def getMediaBlock_def example_video_sdp_def SDPParser_def empty_block_def track_format_def)

lemma not_found_refuses: "refuses (\<lambda>sent. Inr (response_print not_found)) not_found"
  by (auto simp: refuses_def not_found_def response_ok_def lacks_def CRLF_def)

lemma setup_always_ends_in_streams_witness:
  "\<exists>c'. toSetup (\<lambda>sent. Inr (response_print not_found)) example_described = (Inr (), c') \<and>
     sm_current (cl_sm c') = Some STATE_STREAMS"
  using example_track
  by (intro setup_always_ends_in_streams) (auto simp: example_described_fields simp del: state_values)

text \<open>C23: When the server refuses the SETUP, the client ends in the state of a playing client without a
  stream, a session or a track, and starting it again does nothing.\<close>

theorem refused_setup_leaves_client_stuck:
  assumes "graph c = sm_states client_sm" "sm_current (cl_sm c) = Some STATE_DESCRIBE" "cl_sdp c = Some s"
    and "\<forall>ty \<in> set (cl_tracks c). \<exists>x. find_track s ty = Inr x"
    and "\<exists>ty \<in> set (cl_tracks c). \<exists>track f name. find_track s ty = Inr (track, f, name) \<and> pt_string_map name \<noteq> None"
    and "cl_transport c" "cl_ready c = Inr ()" "cl_streams c = []" "cl_sessions c = []" "refuses srv r"
  shows "\<exists>c'. toSetup srv c = (Inr (), c') \<and> sm_current (cl_sm c') = Some STATE_STREAMS \<and>
    cl_streams c' = [] \<and> cl_sessions c' = [] \<and> cl_ontracks c' = cl_ontracks c \<and> start srv c' = (Inr (), c')"
proof -
  have b: "before_setup c c" using assms by (simp add: before_setup_def stream_ok_def)
  from prepare_tracks [OF b assms(4)] obtain d where
    d: "forC (cl_tracks c) (prepare_track s) c = (Inr (), d)" "before_setup c d" by blast
  from refused_tracks [OF d(2) assms(3,10,4,5), of None] obtain e d' where
    d': "setup_tracks srv s (cl_tracks c) None d = (Inl e, d')" "before_setup c d'" by blast
  from setup_failed_run [of d' srv] d'(2) assms(1,2) obtain c1 where
    c1: "setup_failed srv d' = (Inr (), c1)" "cl_streams c1 = []" "cl_sessions c1 = []" "cl_ontracks c1 = cl_ontracks c"
    by (auto simp: before_setup_def graph_def)
  have "sendSetup srv c = (Inr (), c1)"
    using assms(3) d(1) d'(1) c1(1) by (simp add: sendSetup_def seqC_def get_def catchC_def)
  from toSetup_run [OF assms(1) _ this] assms(2)
  have "toSetup srv c = (Inr (), c1\<lparr>cl_sm := (cl_sm c1)\<lparr>sm_current := Some 16\<rparr>\<rparr>)" by simp
  moreover have "start srv (c1\<lparr>cl_sm := (cl_sm c1)\<lparr>sm_current := Some 16\<rparr>\<rparr>) = (Inr (), c1\<lparr>cl_sm := (cl_sm c1)\<lparr>sm_current := Some 16\<rparr>\<rparr>)"
    using c1(3) by (simp add: start_def seqC_def get_def for_in_def ret_def)
  ultimately show ?thesis using c1 by simp
qed

lemma refused_setup_leaves_client_stuck_witness:
  "\<exists>c'. toSetup (\<lambda>sent. Inr (response_print not_found)) example_described = (Inr (), c') \<and>
    sm_current (cl_sm c') = Some STATE_STREAMS \<and> cl_streams c' = [] \<and> cl_sessions c' = [] \<and>
    cl_ontracks c' = cl_ontracks example_described \<and> start (\<lambda>sent. Inr (response_print not_found)) c' = (Inr (), c')"
  using example_track
  by (intro refused_setup_leaves_client_stuck [OF _ _ _ _ _ _ _ _ _ not_found_refuses])
     (auto simp: example_described_fields pt_string_map_def simp del: state_values)

text \<open>After a successful SETUP the stream keeps itself alive every thirty seconds, whatever timeout the
  server announced; it stores the whole session header; and its channel is registered.\<close>

lemma setup_stream_state:
  assumes "RTSPStream_sendSetup srv ty track sess c = (Inr data, c')" "cl_ready c = Inr ()"
  shows "\<exists>st s. map_of (cl_streams c') ty = Some st \<and> rs_keepaliveInterval st = Timer 30000 \<and>
    map_of (rm_headers data) ''session'' = Some s \<and> rs_session st = Some s \<and>
    rs_rtpChannel st \<in> set (cl_rtp_channels c') \<and> cl_interleave c' = cl_interleave c + 2"
proof -
  let ?st = "(RTSPStream track)\<lparr>rs_state := Some STATE_SETUP, rs_rtpChannel := cl_interleave c\<rparr>"
  define d where "d = c\<lparr>cl_streams := AList.update ty ?st (cl_streams c), cl_interleave := cl_interleave c + 2\<rparr>"
  have pure: "cd = d" if "getSetupURL track d = (Inr url, cd)" for url cd
    using that by (auto simp: getSetupURL_def session_block_def cmd_defs Let_def split: option.splits)
  define st where "st = fst (sendSetup_response ?st data)"
  let ?fin = "\<lambda>d1. snd (put_stream ty (startKeepAlive st) (snd (useRTPChannel (rs_rtpChannel st) (snd (put_stream ty st d1)))))"
  from assms(1) have "\<exists>url s1 d1. getSetupURL track d = (Inr url, s1) \<and>
      sendRequest srv ''SETUP'' url (setup_params (cl_interleave c) (cl_clock c) sess) s1 = (Inr data, d1) \<and>
      snd (sendSetup_response ?st data) = Inr () \<and> c' = ?fin d1"
    by (auto simp: RTSPStream_sendSetup_def seqC_Inr_iff put_stream_def get_def modify_def liftC_def ret_def
        useRTPChannel_def d_def st_def case_prod_beta Let_def simp del: client.simps)
  then obtain url d1 where req: "sendRequest srv ''SETUP'' url (setup_params (cl_interleave c) (cl_clock c) sess) d = (Inr data, d1)"
    and resp: "sendSetup_response ?st data = (st, Inr ())" and c': "c' = ?fin d1"
    using pure unfolding st_def by (metis prod.collapse)
  have "but_net d1 = but_net d"
    using sendRequest_net [of d 2 srv "''SETUP''" url "setup_params (cl_interleave c) (cl_clock c) sess" None] req assms(2) by (simp add: sendRequest_def d_def)
  then have "cl_interleave (but_net d1) = cl_interleave (but_net d)" by simp
  then have "cl_interleave d1 = cl_interleave c + 2"
    unfolding but_net_fields by (simp add: d_def)
  moreover have "rs_keepaliveTime st = 30000" "rs_session st = map_of (rm_headers data) ''session''" "rs_session st \<noteq> None"
    using resp by (auto simp: sendSetup_response_def Let_def RTSPStream_def split: sum.splits option.splits if_splits)
  ultimately show ?thesis
    by (auto simp: c' put_stream_def modify_def useRTPChannel_def startKeepAlive_def update_conv')
qed

definition set_up :: response where
  "set_up = \<lparr>rs_code = 200, rs_reason = ''OK'', rs_headers = [(''Session'', ''7;timeout=10'')], rs_body = []\<rparr>"

lemma set_up_read: "\<exists>data. SM_parse (response_print set_up) = Inr data \<and> rm_code data = 200 \<and>
    rm_headers data = [(''session'', ''7;timeout=10'')]"
proof -
  have "response_ok set_up"
    by (simp add: response_ok_def set_up_def lacks_def header_ok_def is_space_def ch_code_def CRLF_def)
  moreover have "toLowerCase ''Session'' = ''session''" by code_simp
  ultimately show ?thesis by (simp add: SM_parse_print set_up_def)
qed

lemma setup_accepted:
  assumes "SM_parse (response_print r) = Inr data" "rm_code data = 200" "rm_headers data = [(''session'', ''7;timeout=10'')]"
    and "cl_transport c" "cl_ready c = Inr ()" "cl_sdp c = Some s"
  shows "\<exists>c'. RTSPStream_sendSetup (\<lambda>sent. Inr (response_print r)) ty track sess c = (Inr data, c')"
proof -
  have resp: "snd (sendSetup_response st data) = Inr ()" for st
    by (auto simp: sendSetup_response_def assms(3) Let_def truthy_str_def split: option.split)
  have url: "\<exists>u. getSetupURL track d = (Inr u, d)" if "cl_sdp d = Some s" for d
    using that by (simp add: getSetupURL_def session_block_def cmd_defs Let_def)
  have req: "\<exists>d'. sendRequest (\<lambda>sent. Inr (response_print r)) m u ps d = (Inr data, d')"
    if "cl_transport d" "cl_ready d = Inr ()" for m u ps d
    using that assms(1,2)
    by (simp add: sendRequest_def numeral_2_eq_2 cmd_defs send_def on_response_def)
  let ?d = "c\<lparr>cl_streams := AList.update ty ((RTSPStream track)\<lparr>rs_state := Some STATE_SETUP, rs_rtpChannel := cl_interleave c\<rparr>) (cl_streams c),
      cl_interleave := cl_interleave c + 2\<rparr>"
  obtain u where u: "getSetupURL track ?d = (Inr u, ?d)" using url [of ?d] assms(6) by auto
  obtain d' where d': "sendRequest (\<lambda>sent. Inr (response_print r)) ''SETUP'' u (setup_params (cl_interleave c) (cl_clock c) sess) ?d = (Inr data, d')"
    using req [of ?d "''SETUP''" u] assms(4,5) by auto
  obtain st where "sendSetup_response ((RTSPStream track)\<lparr>rs_state := Some STATE_SETUP, rs_rtpChannel := cl_interleave c\<rparr>) data = (st, Inr ())"
    using resp by (metis prod.collapse)
  with u d' show ?thesis
    by (simp add: RTSPStream_sendSetup_def seqC_def get_def modify_def put_stream_def liftC_def useRTPChannel_def ret_def)
qed

lemma setup_stream_state_witness:
  "\<exists>data c' st s. RTSPStream_sendSetup (\<lambda>sent. Inr (response_print set_up)) ''video'' empty_block None example_described = (Inr data, c') \<and>
    map_of (cl_streams c') ''video'' = Some st \<and> rs_keepaliveInterval st = Timer 30000 \<and>
    map_of (rm_headers data) ''session'' = Some s \<and> rs_session st = Some s \<and>
    rs_rtpChannel st \<in> set (cl_rtp_channels c') \<and> cl_interleave c' = cl_interleave example_described + 2"
proof -
  obtain data where d: "SM_parse (response_print set_up) = Inr data" "rm_code data = 200" "rm_headers data = [(''session'', ''7;timeout=10'')]"
    using set_up_read by blast
  obtain c' where c': "RTSPStream_sendSetup (\<lambda>sent. Inr (response_print set_up)) ''video'' empty_block None example_described = (Inr data, c')"
    using setup_accepted [OF d example_described_fields(5,6,3)] by blast
  from setup_stream_state [OF c' example_described_fields(6)] c' show ?thesis by blast
qed

end
