(* ===== verification/Fifo.thy ===== *)
theory Fifo
  imports JsBase
begin

text \<open>
  The contract of a queue that is served in order: whatever happens, the items served so far followed
  by the items that wait are the items that were put in. The media source buffers (theory \<^verbatim>\<open>Mse\<close>) and
  the requests that wait for their answers (theory \<^verbatim>\<open>Transport\<close>) are shown to keep it.
\<close>

section \<open>The abstract queue\<close>

record 'i fifo =
  fi_served :: "'i list"
  fi_waiting :: "'i list"

text \<open>An event brings items and lets some of those at the front be served.\<close>

definition fifo_step :: "'i list \<Rightarrow> 'i fifo \<Rightarrow> 'i fifo \<Rightarrow> bool" where
  "fifo_step xs q q' \<longleftrightarrow> (\<exists>n. q' = \<lparr>fi_served = fi_served q @ take n (fi_waiting q @ xs), fi_waiting = drop n (fi_waiting q @ xs)\<rparr>)"

lemma fifo_step_conserves:
  assumes "fifo_step xs q q'"
  shows "fi_served q' @ fi_waiting q' = fi_served q @ fi_waiting q @ xs"
proof -
  obtain n where "q' = \<lparr>fi_served = fi_served q @ take n (fi_waiting q @ xs), fi_waiting = drop n (fi_waiting q @ xs)\<rparr>"
    using assms by (auto simp: fifo_step_def)
  then show ?thesis using append_take_drop_id [of n "fi_waiting q @ xs"] by (simp del: take_append drop_append)
qed

lemma fifo_step_idle [intro]: "fifo_step xs q \<lparr>fi_served = fi_served q, fi_waiting = fi_waiting q @ xs\<rparr>"
  unfolding fifo_step_def by (rule exI [of _ 0]) simp

lemma fifo_step_refl [simp]: "fifo_step [] q q"
  using fifo_step_idle [of "[]" q] by (cases q) simp

lemma fifo_step_serve: "fi_waiting q @ xs = y # ys \<Longrightarrow> fifo_step xs q \<lparr>fi_served = fi_served q @ [y], fi_waiting = ys\<rparr>"
  unfolding fifo_step_def by (rule exI [of _ 1]) simp

lemma fifo_step_trans:
  assumes "fifo_step xs q q1" "fifo_step ys q1 q2"
  shows "fifo_step (xs @ ys) q q2"
proof -
  obtain m where m: "q1 = \<lparr>fi_served = fi_served q @ take m (fi_waiting q @ xs), fi_waiting = drop m (fi_waiting q @ xs)\<rparr>"
    using assms(1) by (auto simp: fifo_step_def)
  obtain n where n: "q2 = \<lparr>fi_served = fi_served q1 @ take n (fi_waiting q1 @ ys), fi_waiting = drop n (fi_waiting q1 @ ys)\<rparr>"
    using assms(2) by (auto simp: fifo_step_def)
  let ?w = "fi_waiting q @ xs"
  define k where "k = min m (length ?w)"
  have k: "k \<le> length ?w" "take m ?w = take k ?w" "drop m ?w = drop k ?w"
    by (simp_all add: k_def min_def del: take_append drop_append)
  have "take k (?w @ ys) = take k ?w" "drop k (?w @ ys) = drop k ?w @ ys"
    using k(1) by (simp_all del: append_assoc add: take_append [of k ?w] drop_append [of k ?w])
  then have "take k ?w @ take n (drop k ?w @ ys) = take (k + n) (?w @ ys)" "drop n (drop k ?w @ ys) = drop (k + n) (?w @ ys)"
    using take_add [of k n "?w @ ys"] drop_drop [of n k "?w @ ys"] by (simp_all only: add.commute)
  with k m n show ?thesis
    unfolding fifo_step_def by (intro exI [of _ "k + n"]) (simp del: take_append drop_append)
qed

section \<open>Refinement\<close>

text \<open>The events that the environment may bring (\<open>valid\<close>) and the states between them (\<open>ok\<close>).\<close>

locale fifo_refinement =
  fixes step :: "'e \<Rightarrow> 's \<Rightarrow> 's"
    and added :: "'e \<Rightarrow> 'i list"
    and queue_of :: "'s \<Rightarrow> 'i fifo"
    and valid :: "'e \<Rightarrow> bool"
    and ok :: "'s \<Rightarrow> bool"
  assumes ok_step: "ok s \<Longrightarrow> valid e \<Longrightarrow> ok (step e s)"
    and simulates: "ok s \<Longrightarrow> valid e \<Longrightarrow> fifo_step (added e) (queue_of s) (queue_of (step e s))"
begin

lemma ok_run: "ok s \<Longrightarrow> list_all valid es \<Longrightarrow> ok (fold step es s)"
  by (induction es arbitrary: s) (auto intro: ok_step)

lemma run_simulates:
  "ok s \<Longrightarrow> list_all valid es \<Longrightarrow> fifo_step (concat (map added es)) (queue_of s) (queue_of (fold step es s))"
proof (induction es arbitrary: s)
  case Nil
  then show ?case by (auto simp: fifo_step_def intro: exI [of _ 0])
next
  case (Cons e es)
  then have e: "valid e" and es: "list_all valid es" by simp_all
  from fifo_step_trans [OF simulates [OF Cons.prems(1) e] Cons.IH [OF ok_step [OF Cons.prems(1) e] es]] show ?case by simp
qed

text \<open>Nothing is lost, repeated or overtaken.\<close>

lemma run_conserves:
  assumes "ok s" "list_all valid es"
  shows "fi_served (queue_of (fold step es s)) @ fi_waiting (queue_of (fold step es s))
    = fi_served (queue_of s) @ fi_waiting (queue_of s) @ concat (map added es)"
  by (rule fifo_step_conserves [OF run_simulates [OF assms]])

end

end
