(* ===== verification/Mse.thy ===== *)
theory Mse
  imports Fifo "HOL-Library.AList"
begin

text \<open>
  Class \<^verbatim>\<open>MSEBuffer\<close> of \<^verbatim>\<open>demos/rtsp/rtsp.dev.js\<close>: the queue of fragments in front of a
  \<^verbatim>\<open>SourceBuffer\<close> of the browser. The record holds the object's fields, the part of the browser's
  state that the code reads (\<open>sb_updating\<close>, \<open>sb_buffered\<close>, \<open>pl_currentTime\<close>, \<open>pl_error\<close>) and a log of
  what it does to the browser. The browser's answers to \<^verbatim>\<open>appendBuffer\<close> are a parameter, a function of
  the number of attempts so far; the ranges that are buffered after an update come with the event
  that ends the update. \<open>feedNext\<close>, \<open>doAppend\<close>, \<open>initCleanup\<close> and \<open>doCleanup\<close> call each other; the
  depth of the stack is a parameter, and running out of it raises the exception that the browser raises.
\<close>

section \<open>The buffer and its browser\<close>

datatype append_answer = Accepted | QuotaExceeded | AppendFailed

record 'd mse_buffer =
  mb_codec :: string
  mb_cleaning :: bool
  mb_queue :: "'d list"
  mb_cleanResolvers :: "nat list"
  mb_cleanRanges :: "(rat \<times> rat) list"
  mb_is_live :: "bool option"
  sb_attached :: bool                        \<comment> \<open>still among the source buffers of the media source\<close>
  sb_updating :: bool
  sb_buffered :: "(rat \<times> rat) list"          \<comment> \<open>in ascending order, disjoint, not empty\<close>
  sb_onupdateend :: "(nat \<times> nat) option"     \<comment> \<open>range and promise of the handler that \<^verbatim>\<open>clear\<close> sets\<close>
  pl_currentTime :: rat                      \<comment> \<open>of \<^verbatim>\<open>players[0]\<close>\<close>
  pl_error :: bool
  mb_listening :: bool                       \<comment> \<open>the listeners of the event source are registered\<close>
  mb_appends :: nat                          \<comment> \<open>calls of \<^verbatim>\<open>appendBuffer\<close> that the browser answered\<close>
  mb_appended :: "'d list"
  mb_removed :: "(rat \<times> rat) list"
  mb_promises :: nat
  mb_settled :: "(nat \<times> bool) list"          \<comment> \<open>true: resolved, false: rejected\<close>
  mb_dispatched :: "string list"             \<comment> \<open>events dispatched to the parent\<close>
  mb_reported :: "js_error list"             \<comment> \<open>exceptions that left an event handler\<close>

type_synonym ('d, 'a) buf = "('d mse_buffer, 'a) cmd"

definition InvalidStateError :: js_error where "InvalidStateError = ErrMsg ''InvalidStateError''"
definition IndexSizeError :: js_error where "IndexSizeError = ErrMsg ''IndexSizeError''"
definition NotFoundError :: js_error where "NotFoundError = ErrMsg ''NotFoundError''"
definition QuotaExceededError :: js_error where "QuotaExceededError = ErrMsg ''QuotaExceededError''"

text \<open>The methods of \<^verbatim>\<open>SourceBuffer\<close> as the specification of Media Source Extensions states them:
  both raise \<^verbatim>\<open>InvalidStateError\<close> for a buffer that was removed or is updating; otherwise an update
  begins.\<close>

definition appendBuffer :: "(nat \<Rightarrow> append_answer) \<Rightarrow> 'd \<Rightarrow> ('d, unit) buf" where
  "appendBuffer br d = seqC (get id) (\<lambda>b.
     if \<not> sb_attached b \<or> sb_updating b then throw InvalidStateError
     else seqC (modify (\<lambda>b. b\<lparr>mb_appends := mb_appends b + 1\<rparr>)) (\<lambda>_.
       case br (mb_appends b) of
         Accepted \<Rightarrow> modify (\<lambda>b. b\<lparr>sb_updating := True, mb_appended := mb_appended b @ [d]\<rparr>)
       | QuotaExceeded \<Rightarrow> throw QuotaExceededError
       | AppendFailed \<Rightarrow> throw TypeErr))"

definition sb_remove :: "rat \<Rightarrow> rat \<Rightarrow> ('d, unit) buf" where
  "sb_remove s e = seqC (get id) (\<lambda>b.
     if \<not> sb_attached b \<or> sb_updating b then throw InvalidStateError
     else if s < 0 \<or> e \<le> s then throw TypeErr
     else modify (\<lambda>b. b\<lparr>sb_updating := True, mb_removed := mb_removed b @ [(s, e)]\<rparr>))"

text \<open>\<^verbatim>\<open>sourceBuffer.buffered\<close>, \<^verbatim>\<open>.start(i)\<close> and \<^verbatim>\<open>.end(i)\<close>.\<close>

definition buffered :: "('d, (rat \<times> rat) list) buf" where
  "buffered = seqC (get id) (\<lambda>b. if sb_attached b then ret (sb_buffered b) else throw InvalidStateError)"

definition range_at :: "nat \<Rightarrow> ('d, rat \<times> rat) buf" where
  "range_at i = seqC buffered (\<lambda>rs. if i < length rs then ret (rs ! i) else throw IndexSizeError)"

definition settle :: "nat \<Rightarrow> bool \<Rightarrow> ('d, unit) buf" where
  "settle p v = modify (\<lambda>b. if p \<in> fst ` set (mb_settled b) then b else b\<lparr>mb_settled := mb_settled b @ [(p, v)]\<rparr>)"

definition dispatch :: "string \<Rightarrow> ('d, unit) buf" where
  "dispatch ev = modify (\<lambda>b. b\<lparr>mb_dispatched := mb_dispatched b @ [ev]\<rparr>)"

text \<open>An exception that leaves an event handler is reported and does not stop the other handlers.\<close>

definition handler :: "('d, unit) buf \<Rightarrow> ('d, unit) buf" where
  "handler m = catchC m (\<lambda>e. modify (\<lambda>b. b\<lparr>mb_reported := mb_reported b @ [e]\<rparr>))"

section \<open>Appending and cleaning up\<close>

text \<open>The loop of \<^verbatim>\<open>initCleanup\<close> over the buffered ranges: what is removed of each.\<close>

definition clean_range :: "rat \<Rightarrow> rat \<Rightarrow> rat \<times> rat \<Rightarrow> (rat \<times> rat) list" where
  "clean_range currentTime removeBound r =
     (let removeStart = fst r; removeEnd = snd r in
      if currentTime \<le> removeStart \<or> removeBound \<le> removeStart then []
      else if removeBound \<le> removeEnd \<and> removeBound \<ge> removeStart
           then (if removeBound \<noteq> removeStart then [(removeStart, removeBound)] else [])
           else [(removeStart, removeEnd)])"

definition clean_ranges :: "'d mse_buffer \<Rightarrow> (rat \<times> rat) list" where
  "clean_ranges b = concat (map (clean_range (pl_currentTime b) (snd (last (sb_buffered b)) - 2)) (sb_buffered b))"

fun feedNext :: "(nat \<Rightarrow> append_answer) \<Rightarrow> nat \<Rightarrow> ('d, unit) buf"
  and doAppend :: "(nat \<Rightarrow> append_answer) \<Rightarrow> nat \<Rightarrow> 'd \<Rightarrow> ('d, unit) buf"
  and initCleanup :: "(nat \<Rightarrow> append_answer) \<Rightarrow> nat \<Rightarrow> ('d, unit) buf"
  and doCleanup :: "(nat \<Rightarrow> append_answer) \<Rightarrow> nat \<Rightarrow> ('d, unit) buf" where
  "feedNext br 0 = throw CallStackExceeded"
| "feedNext br (Suc n) = seqC (get id) (\<lambda>b.
     if \<not> sb_updating b \<and> \<not> mb_cleaning b \<and> mb_queue b \<noteq> []
     then seqC (modify (\<lambda>b. b\<lparr>mb_queue := tl (mb_queue b)\<rparr>)) (\<lambda>_. doAppend br n (hd (mb_queue b)))
     else ret ())"
| "doAppend br 0 d = throw CallStackExceeded"
| "doAppend br (Suc n) d = seqC (get pl_error) (\<lambda>err.
     if err then dispatch ''error''
     else catchC (appendBuffer br d) (\<lambda>e.
       if e = QuotaExceededError
       then seqC (modify (\<lambda>b. b\<lparr>mb_queue := d # mb_queue b\<rparr>)) (\<lambda>_. initCleanup br n)
       else dispatch ''error''))"
| "initCleanup br 0 = throw CallStackExceeded"
| "initCleanup br (Suc n) = seqC buffered (\<lambda>rs. seqC (get id) (\<lambda>b.
     if rs \<noteq> [] \<and> \<not> sb_updating b \<and> \<not> mb_cleaning b
     then seqC (modify (\<lambda>b. b\<lparr>mb_cleanRanges := mb_cleanRanges b @ clean_ranges b\<rparr>)) (\<lambda>_. doCleanup br n)
     else feedNext br n))"
| "doCleanup br 0 = throw CallStackExceeded"
| "doCleanup br (Suc n) = seqC (get mb_cleanRanges) (\<lambda>rs. case rs of
       [] \<Rightarrow> seqC (modify (\<lambda>b. b\<lparr>mb_cleaning := False\<rparr>)) (\<lambda>_. feedNext br n)
     | (s, e) # rest \<Rightarrow> seqC (modify (\<lambda>b. b\<lparr>mb_cleanRanges := rest, mb_cleaning := True\<rparr>)) (\<lambda>_. sb_remove s e))"

definition feed :: "(nat \<Rightarrow> append_answer) \<Rightarrow> nat \<Rightarrow> 'd list \<Rightarrow> ('d, unit) buf" where
  "feed br n data = seqC (modify (\<lambda>b. b\<lparr>mb_queue := mb_queue b @ data\<rparr>)) (\<lambda>_. seqC (get id) (\<lambda>b.
     if \<not> sb_updating b \<and> \<not> mb_cleaning b then feedNext br n else ret ()))"

definition setLive :: "bool option \<Rightarrow> ('d, unit) buf" where
  "setLive l = modify (\<lambda>b. b\<lparr>mb_is_live := l\<rparr>)"

section \<open>Clearing\<close>

text \<open>The executor of the promise for a range; an exception in it rejects the promise.\<close>

definition clear_range :: "nat \<Rightarrow> ('d, unit) buf" where
  "clear_range i =
     seqC (modify (\<lambda>b. b\<lparr>mb_cleaning := True\<rparr>)) (\<lambda>_.
     seqC (get mb_promises) (\<lambda>p.
     seqC (modify (\<lambda>b. b\<lparr>mb_promises := p + 1, mb_cleanResolvers := mb_cleanResolvers b @ [p]\<rparr>)) (\<lambda>_.
     seqC (get sb_updating) (\<lambda>updating.
     if \<not> updating
     then catchC (seqC (range_at i) (\<lambda>(s, e). seqC (sb_remove s e) (\<lambda>_. settle p True))) (\<lambda>e. settle p False)
     else modify (\<lambda>b. b\<lparr>sb_onupdateend := Some (i, p)\<rparr>)))))"

definition clear :: "('d, unit) buf" where
  "clear = seqC (modify (\<lambda>b. b\<lparr>mb_queue := []\<rparr>)) (\<lambda>_.
     seqC buffered (\<lambda>rs. forC [0..<length rs] clear_range))"

definition removeSourceBuffer :: "('d, unit) buf" where
  "removeSourceBuffer = seqC (get sb_attached) (\<lambda>a. if \<not> a then throw NotFoundError
     else modify (\<lambda>b. b\<lparr>sb_attached := False, sb_updating := False\<rparr>))"

definition destroy :: "('d, unit) buf" where
  "destroy = seqC (modify (\<lambda>b. b\<lparr>mb_listening := False\<rparr>)) (\<lambda>_.
     seqC clear (\<lambda>_.
     seqC (modify (\<lambda>b. b\<lparr>mb_queue := []\<rparr>)) (\<lambda>_. removeSourceBuffer)))"

section \<open>Events\<close>

text \<open>The end of an update, which leaves the ranges \<open>rs\<close> buffered: the listener of the constructor, then
  the handler that \<^verbatim>\<open>clear\<close> may have set.\<close>

definition catch_up :: "('d, unit) buf" where
  "catch_up = seqC buffered (\<lambda>rs. case rs of
       [] \<Rightarrow> ret ()
     | (s, e) # _ \<Rightarrow> modify (\<lambda>b. if pl_currentTime b < s then b\<lparr>pl_currentTime := s\<rparr> else b))"

definition on_updateend :: "(nat \<Rightarrow> append_answer) \<Rightarrow> nat \<Rightarrow> ('d, unit) buf" where
  "on_updateend br n = seqC (get mb_cleaning) (\<lambda>cleaning.
     if cleaning then
       seqC (catchC catch_up (\<lambda>e. ret ())) (\<lambda>_.
       seqC (get mb_cleanResolvers) (\<lambda>ps.
       seqC (forC ps (\<lambda>p. settle p True)) (\<lambda>_.
       seqC (modify (\<lambda>b. b\<lparr>mb_cleanResolvers := [], mb_cleaning := False\<rparr>)) (\<lambda>_.
       seqC (get mb_cleanRanges) (\<lambda>rs. if rs \<noteq> [] then doCleanup br n else feedNext br n)))))
     else feedNext br n)"

definition on_clear_end :: "('d, unit) buf" where
  "on_clear_end = seqC (get sb_onupdateend) (\<lambda>h. case h of
       None \<Rightarrow> ret ()
     | Some (i, p) \<Rightarrow> seqC (range_at i) (\<lambda>(s, e). seqC (sb_remove s e) (\<lambda>_. settle p True)))"

definition updateend :: "(nat \<Rightarrow> append_answer) \<Rightarrow> nat \<Rightarrow> (rat \<times> rat) list \<Rightarrow> ('d, unit) buf" where
  "updateend br n rs =
     seqC (modify (\<lambda>b. b\<lparr>sb_updating := False, sb_buffered := rs\<rparr>)) (\<lambda>_.
     seqC (get mb_listening) (\<lambda>l. seqC (if l then handler (on_updateend br n) else ret ()) (\<lambda>_. handler on_clear_end)))"

text \<open>The listeners of \<^verbatim>\<open>error\<close> and \<^verbatim>\<open>abort\<close>; \<open>others\<close>: the media source has other source buffers.\<close>

definition on_failure :: "bool \<Rightarrow> ('d, unit) buf" where
  "on_failure others = seqC (get mb_listening) (\<lambda>l. if \<not> l then ret () else
     seqC (get sb_attached) (\<lambda>a. seqC (if a \<or> others then removeSourceBuffer else ret ()) (\<lambda>_. dispatch ''error'')))"

text \<open>The constructor, on a new source buffer.\<close>

definition MSEBuffer :: "string \<Rightarrow> 'd mse_buffer" where
  "MSEBuffer codec = \<lparr>mb_codec = codec, mb_cleaning = False, mb_queue = [], mb_cleanResolvers = [], mb_cleanRanges = [],
     mb_is_live = None, sb_attached = True, sb_updating = False, sb_buffered = [], sb_onupdateend = None, pl_currentTime = 0,
     pl_error = False, mb_listening = True, mb_appends = 0, mb_appended = [], mb_removed = [], mb_promises = 0,
     mb_settled = [], mb_dispatched = [], mb_reported = []\<rparr>"

section \<open>In order\<close>

lemmas buf_defs = appendBuffer_def sb_remove_def buffered_def dispatch_def handler_def cmd_defs

lemma quota_not_state [simp]: "InvalidStateError \<noteq> QuotaExceededError" "QuotaExceededError \<noteq> InvalidStateError"
  by (simp_all add: InvalidStateError_def QuotaExceededError_def)

text \<open>The queue of a buffer: what the browser took and what waits.\<close>

definition queue_of :: "'d mse_buffer \<Rightarrow> 'd fifo" where
  "queue_of b = \<lparr>fi_served = mb_appended b, fi_waiting = mb_queue b\<rparr>"

definition serves :: "'d mse_buffer \<Rightarrow> 'd mse_buffer \<Rightarrow> bool" where
  "serves b b' \<longleftrightarrow> fifo_step [] (queue_of b) (queue_of b')"

lemma serves_same: "mb_appended b' = mb_appended b \<Longrightarrow> mb_queue b' = mb_queue b \<Longrightarrow> serves b b'"
  using fifo_step_idle [of "[]" "queue_of b"] by (simp add: serves_def queue_of_def)

lemma serves_trans: "serves b b1 \<Longrightarrow> serves b1 b2 \<Longrightarrow> serves b b2"
  using fifo_step_trans [of "[]" "queue_of b" "queue_of b1" "[]" "queue_of b2"] by (simp add: serves_def)

lemma serves_one: "mb_queue b = d # mb_queue b' \<Longrightarrow> mb_appended b' = mb_appended b @ [d] \<Longrightarrow> serves b b'"
  using fifo_step_serve [of "queue_of b" "[]" d "mb_queue b'"] by (simp add: serves_def queue_of_def)

text \<open>A buffer in use. While it cleans up, an update is on its way.\<close>

definition proper :: "(rat \<times> rat) list \<Rightarrow> bool" where
  "proper rs \<longleftrightarrow> (\<forall>(s, e) \<in> set rs. 0 \<le> s \<and> s < e)"

definition in_use :: "'d mse_buffer \<Rightarrow> bool" where
  "in_use b \<longleftrightarrow> sb_attached b \<and> \<not> pl_error b \<and> sb_onupdateend b = None \<and> mb_listening b \<and> mb_reported b = []
     \<and> mb_dispatched b = [] \<and> (mb_cleaning b \<longrightarrow> sb_updating b) \<and> proper (mb_cleanRanges b) \<and> proper (sb_buffered b)"

definition busy :: "'d mse_buffer \<Rightarrow> bool" where
  "busy b \<longleftrightarrow> sb_updating b \<or> mb_queue b = []"

lemma proper_append [simp]: "proper (rs @ rs') \<longleftrightarrow> proper rs \<and> proper rs'"
  by (auto simp: proper_def)

lemma proper_clean_ranges: "proper (sb_buffered b) \<Longrightarrow> proper (clean_ranges b)"
  by (fastforce simp: proper_def clean_ranges_def clean_range_def Let_def split: if_splits)

text \<open>The browser accepts a fragment after at most \<open>m\<close> refusals for lack of space.\<close>

fun accepts_within :: "(nat \<Rightarrow> append_answer) \<Rightarrow> nat \<Rightarrow> nat \<Rightarrow> bool" where
  "accepts_within br 0 k \<longleftrightarrow> br k = Accepted"
| "accepts_within br (Suc m) k \<longleftrightarrow> br k = Accepted \<or> br k = QuotaExceeded \<and> accepts_within br m (Suc k)"

definition works :: "('d, unit) buf \<Rightarrow> 'd mse_buffer \<Rightarrow> bool" where
  "works m b \<longleftrightarrow> (\<exists>b'. m b = (Inr (), b') \<and> in_use b' \<and> busy b' \<and> serves b b')"

lemma works_after:
  "m b = (Inr (), b1) \<Longrightarrow> serves b b1 \<Longrightarrow> works (f ()) b1 \<Longrightarrow> works (seqC m f) b"
  by (auto simp: works_def seqC_def intro: serves_trans)

lemma doCleanup_some:
  assumes "in_use b" "\<not> sb_updating b" "mb_cleanRanges b = r # rest"
  shows "doCleanup br (Suc n) b = (Inr (), b\<lparr>mb_cleanRanges := rest, mb_cleaning := True, sb_updating := True,
    mb_removed := mb_removed b @ [r]\<rparr>)"
proof -
  have "0 \<le> fst r" "fst r < snd r" using assms(1,3) by (auto simp: in_use_def proper_def)
  then show ?thesis using assms by (auto simp: in_use_def buf_defs split: prod.split)
qed

lemma doCleanup_works:
  assumes "in_use b" "\<not> sb_updating b" "mb_cleanRanges b \<noteq> [] \<or> works (feedNext br n) b"
  shows "works (doCleanup br (Suc n)) b"
proof (cases "mb_cleanRanges b")
  case Nil
  have "b\<lparr>mb_cleaning := False\<rparr> = b" using assms(1,2) by (simp add: in_use_def)
  then show ?thesis using assms(3) Nil by (simp add: works_def cmd_defs)
next
  case (Cons r rest)
  have "proper (r # rest)" using assms(1) Cons by (simp add: in_use_def)
  with assms(1) doCleanup_some [OF assms(1,2) Cons, of br n] show ?thesis
    by (auto simp: works_def in_use_def busy_def proper_def intro: serves_same)
qed

lemma feedNext_accept:
  assumes "in_use b" "\<not> sb_updating b" "mb_queue b = d # q" "br (mb_appends b) = Accepted"
  shows "works (feedNext br (Suc (Suc n))) b"
  using assms by (auto simp: works_def in_use_def busy_def buf_defs intro!: serves_one)

lemma feedNext_quota:
  assumes "in_use b" "\<not> sb_updating b" "mb_queue b = d # q" "br (mb_appends b) = QuotaExceeded"
  shows "feedNext br (Suc (Suc n)) b = initCleanup br n (b\<lparr>mb_appends := mb_appends b + 1\<rparr>)"
proof -
  have "b\<lparr>mb_appends := Suc (mb_appends b), mb_queue := d # q\<rparr> = b\<lparr>mb_appends := Suc (mb_appends b)\<rparr>"
    using assms(3) by (cases b) simp
  note eq = this
  from assms have "feedNext br (Suc (Suc n)) b = initCleanup br n (b\<lparr>mb_appends := Suc (mb_appends b), mb_queue := d # q\<rparr>)"
    by (simp add: in_use_def buf_defs)
  also note eq
  finally show ?thesis by simp
qed

lemma initCleanup_works:
  fixes b :: "'d mse_buffer"
  assumes "in_use b" "\<not> sb_updating b"
    and "\<And>(b1 :: 'd mse_buffer) n1. in_use b1 \<Longrightarrow> mb_appends b1 = mb_appends b \<Longrightarrow> n \<le> n1 \<Longrightarrow> works (feedNext br n1) b1"
  shows "works (initCleanup br (Suc (Suc n))) b"
proof (cases "sb_buffered b = []")
  case True
  with assms(1) have "initCleanup br (Suc (Suc n)) b = feedNext br (Suc n) b"
    by (simp add: in_use_def buf_defs del: feedNext.simps)
  with assms(3) [OF assms(1), of "Suc n"] show ?thesis by (simp add: works_def)
next
  case False
  let ?b1 = "b\<lparr>mb_cleanRanges := mb_cleanRanges b @ clean_ranges b\<rparr>"
  have use: "in_use ?b1" using assms(1) proper_clean_ranges [of b] by (simp add: in_use_def)
  have "serves b ?b1" by (simp add: serves_same)
  moreover have "works (doCleanup br (Suc n)) ?b1"
    using doCleanup_works [OF use, of br n] assms(2) assms(3) [OF use] by simp
  ultimately show ?thesis
    using assms(1,2) False by (auto simp: in_use_def works_def buf_defs intro: serves_trans)
qed

lemma feedNext_works:
  fixes b :: "'d mse_buffer"
  assumes "in_use b" "accepts_within br m (mb_appends b)" "4 * m + 2 \<le> n"
  shows "works (feedNext br n) b"
  using assms
proof (induction m arbitrary: n b)
  case (0 n b)
  define n1 where "n1 = n - 2"
  have n: "n = Suc (Suc n1)" using 0 by (simp add: n1_def)
  show ?case
  proof (cases "busy b")
    case True
    with 0 show ?thesis by (auto simp: n busy_def works_def in_use_def buf_defs intro: serves_same)
  next
    case False
    then obtain d q where "mb_queue b = d # q" by (auto simp: busy_def neq_Nil_conv)
    with 0 False show ?thesis unfolding n by (intro feedNext_accept) (auto simp: busy_def)
  qed
next
  case (Suc m n b)
  define n1 where "n1 = n - 4"
  have n: "n = Suc (Suc (Suc (Suc n1)))" "4 * m + 2 \<le> n1" using Suc.prems(3) by (simp_all add: n1_def)
  show ?case
  proof (cases "busy b \<or> br (mb_appends b) = Accepted")
    case True
    show ?thesis
    proof (cases "busy b")
      case True
      with Suc.prems show ?thesis by (auto simp: n busy_def works_def in_use_def buf_defs intro: serves_same)
    next
      case False
      then obtain d q where "mb_queue b = d # q" by (auto simp: busy_def neq_Nil_conv)
      with Suc.prems False True show ?thesis unfolding n by (intro feedNext_accept) (auto simp: busy_def)
    qed
  next
    case False
    then obtain d q where q: "mb_queue b = d # q" by (auto simp: busy_def neq_Nil_conv)
    let ?b1 = "b\<lparr>mb_appends := mb_appends b + 1\<rparr>"
    have br: "br (mb_appends b) = QuotaExceeded" "accepts_within br m (mb_appends ?b1)"
      using Suc.prems(2) False by auto
    have use: "in_use ?b1" using Suc.prems(1) by (simp add: in_use_def)
    have "works (initCleanup br (Suc (Suc n1))) ?b1"
    proof (rule initCleanup_works [OF use])
      show "\<not> sb_updating ?b1" using False by (simp add: busy_def)
      show "works (feedNext br n2) b1" if "in_use b1" "mb_appends b1 = mb_appends ?b1" "n1 \<le> n2" for b1 :: "'d mse_buffer" and n2
        by (rule Suc.IH) (use that br n(2) in simp_all)
    qed
    moreover have "serves b ?b1" by (simp add: serves_same)
    moreover have "feedNext br n b = initCleanup br (Suc (Suc n1)) ?b1"
      unfolding n(1) using Suc.prems(1) False q br(1) by (intro feedNext_quota) (auto simp: busy_def)
    ultimately show ?thesis by (auto simp: works_def intro: serves_trans)
  qed
qed

section \<open>Events\<close>

datatype 'd buffer_event = Feed "'d list" | UpdateEnd "(rat \<times> rat) list" | PlayerAt rat | SetLive "bool option"

definition buffer_step :: "(nat \<Rightarrow> append_answer) \<Rightarrow> nat \<Rightarrow> 'd buffer_event \<Rightarrow> 'd mse_buffer \<Rightarrow> 'd mse_buffer" where
  "buffer_step br n ev b = snd (handler (case ev of
       Feed ds \<Rightarrow> feed br n ds
     | UpdateEnd rs \<Rightarrow> updateend br n rs
     | PlayerAt t \<Rightarrow> modify (\<lambda>b. b\<lparr>pl_currentTime := t\<rparr>)
     | SetLive l \<Rightarrow> setLive l) b)"

fun fed :: "'d buffer_event \<Rightarrow> 'd list" where
  "fed (Feed ds) = ds"
| "fed ev = []"

fun sound :: "'d buffer_event \<Rightarrow> bool" where
  "sound (UpdateEnd rs) = proper rs"
| "sound ev = True"

text \<open>A browser and a stack under which the buffer works: at most \<open>m\<close> refusals in a row and four frames
  for each of them.\<close>

definition enough :: "(nat \<Rightarrow> append_answer) \<Rightarrow> nat \<Rightarrow> bool" where
  "enough br n \<longleftrightarrow> (\<exists>m. (\<forall>k. accepts_within br m k) \<and> 4 * m + 3 \<le> n)"

lemma enough_works:
  assumes "enough br n" "in_use b"
  shows "works (feedNext br n) b" "\<not> sb_updating b \<Longrightarrow> works (doCleanup br n) b"
proof -
  obtain m where m: "\<forall>k. accepts_within br m k" "4 * m + 3 \<le> n" using assms(1) by (auto simp: enough_def)
  then obtain n1 where n: "n = Suc n1" "4 * m + 2 \<le> n1" by (cases n) auto
  show "works (feedNext br n) b" using assms(2) m by (intro feedNext_works) auto
  show "works (doCleanup br n) b" if "\<not> sb_updating b"
    unfolding n(1) using assms(2) that m(1) n(2) by (intro doCleanup_works disjI2 feedNext_works) auto
qed

lemma works_handler: "works m b \<Longrightarrow> works (handler m) b"
  by (auto simp: works_def handler_def catchC_def)

lemma forC_settle: "\<exists>l. forC ps (\<lambda>p. settle p True) b = (Inr (), b\<lparr>mb_settled := l\<rparr>)"
proof (induction ps arbitrary: b)
  case Nil
  show ?case by (rule exI [of _ "mb_settled b"]) (simp add: ret_def)
next
  case (Cons p ps)
  define l where "l = (if p \<in> fst ` set (mb_settled b) then mb_settled b else mb_settled b @ [(p, True)])"
  have "settle p True b = (Inr (), b\<lparr>mb_settled := l\<rparr>)" by (simp add: settle_def modify_def l_def)
  with Cons.IH [of "b\<lparr>mb_settled := l\<rparr>"] show ?case by (auto simp: seqC_def)
qed

lemma catch_up_moves:
  assumes "sb_attached b"
  shows "\<exists>t. catch_up b = (Inr (), b\<lparr>pl_currentTime := t\<rparr>)"
proof -
  define t where "t = (case sb_buffered b of [] \<Rightarrow> pl_currentTime b | (s, e) # _ \<Rightarrow> if pl_currentTime b < s then s else pl_currentTime b)"
  have "catch_up b = (Inr (), b\<lparr>pl_currentTime := t\<rparr>)"
    using assms by (auto simp: catch_up_def buf_defs t_def split: list.split)
  then show ?thesis by blast
qed

lemma on_updateend_works:
  assumes en: "enough br n" and use: "in_use (b\<lparr>mb_cleaning := False\<rparr>)" and idle: "\<not> sb_updating b"
  shows "works (on_updateend br n) b"
proof (cases "mb_cleaning b")
  case False
  then have "b\<lparr>mb_cleaning := False\<rparr> = b" by simp
  with use False enough_works(1) [OF en, of b] show ?thesis by (simp add: works_def on_updateend_def seqC_def get_def)
next
  case True
  obtain t where t: "catch_up b = (Inr (), b\<lparr>pl_currentTime := t\<rparr>)"
    using catch_up_moves [of b] use by (auto simp: in_use_def)
  obtain l where l: "forC (mb_cleanResolvers b) (\<lambda>p. settle p True) (b\<lparr>pl_currentTime := t\<rparr>)
      = (Inr (), b\<lparr>pl_currentTime := t, mb_settled := l\<rparr>)"
    using forC_settle [of "mb_cleanResolvers b" "b\<lparr>pl_currentTime := t\<rparr>"] by blast
  let ?b = "b\<lparr>pl_currentTime := t, mb_settled := l, mb_cleanResolvers := [], mb_cleaning := False\<rparr>"
  have "in_use ?b" using use by (simp add: in_use_def)
  with enough_works [OF en this] idle
  have "works (if mb_cleanRanges b \<noteq> [] then doCleanup br n else feedNext br n) ?b" by simp
  moreover have "serves b ?b" by (simp add: serves_same)
  ultimately show ?thesis using True t l
    by (auto simp: works_def on_updateend_def seqC_def get_def catchC_def modify_def intro: serves_trans split: if_splits)
qed

definition ready :: "'d mse_buffer \<Rightarrow> bool" where
  "ready b \<longleftrightarrow> in_use b \<and> busy b"

lemma feed_works:
  assumes "enough br n" "ready b"
  shows "\<exists>b'. feed br n ds b = (Inr (), b') \<and> ready b' \<and> fifo_step ds (queue_of b) (queue_of b')"
proof -
  let ?b = "b\<lparr>mb_queue := mb_queue b @ ds\<rparr>"
  have q: "fifo_step ds (queue_of b) (queue_of ?b)" using fifo_step_idle [of ds "queue_of b"] by (simp add: queue_of_def)
  have use: "in_use ?b" using assms(2) by (simp add: ready_def in_use_def)
  have "works (\<lambda>b. if \<not> sb_updating b \<and> \<not> mb_cleaning b then feedNext br n b else ret () b) ?b"
    using enough_works(1) [OF assms(1) use] use by (auto simp: works_def ret_def busy_def in_use_def intro: serves_same)
  then show ?thesis using fifo_step_trans [OF q, of "[]"]
    by (auto simp: feed_def works_def serves_def ready_def buf_defs split: if_splits)
qed

lemma step_ready:
  assumes "enough br n" "ready b" "sound ev"
  shows "ready (buffer_step br n ev b)" "fifo_step (fed ev) (queue_of b) (queue_of (buffer_step br n ev b))"
proof -
  have "ready (buffer_step br n ev b) \<and> fifo_step (fed ev) (queue_of b) (queue_of (buffer_step br n ev b))"
  proof (cases ev)
    case (Feed ds)
    obtain b' where "feed br n ds b = (Inr (), b')" "ready b'" "fifo_step ds (queue_of b) (queue_of b')"
      using feed_works [OF assms(1,2)] by blast
    then show ?thesis by (simp add: Feed buffer_step_def handler_def catchC_def)
  next
    case (UpdateEnd rs)
    let ?b = "b\<lparr>sb_updating := False, sb_buffered := rs\<rparr>"
    have use: "in_use (?b\<lparr>mb_cleaning := False\<rparr>)" using assms(2,3) by (simp add: ready_def in_use_def UpdateEnd)
    have "serves b ?b" by (simp add: serves_same)
    moreover have "works (on_updateend br n) ?b" by (rule on_updateend_works [OF assms(1) use]) simp
    ultimately show ?thesis using assms(2)
      by (auto simp: UpdateEnd buffer_step_def updateend_def on_clear_end_def works_def ready_def in_use_def buf_defs
          simp flip: serves_def intro: serves_trans)
  next
    case (PlayerAt t)
    then show ?thesis using assms(2)
      by (auto simp: buffer_step_def ready_def in_use_def busy_def queue_of_def buf_defs)
  next
    case (SetLive l)
    then show ?thesis using assms(2)
      by (auto simp: buffer_step_def setLive_def ready_def in_use_def busy_def queue_of_def buf_defs)
  qed
  then show "ready (buffer_step br n ev b)" "fifo_step (fed ev) (queue_of b) (queue_of (buffer_step br n ev b))"
    by blast+
qed

interpretation mse: fifo_refinement "buffer_step br n" fed queue_of sound "\<lambda>b. enough br n \<and> ready b" for br n
  by unfold_locales (auto intro: step_ready)

lemma ready_new: "ready (MSEBuffer codec)"
  by (simp add: ready_def in_use_def busy_def MSEBuffer_def proper_def)

section \<open>What the buffer promises\<close>

text \<open>C10: As long as the browser refuses an append only for lack of space, and at most a fixed number of times in a
  row for which the stack is deep enough (property \<^verbatim>\<open>quota_exhausts_stack\<close> says what happens otherwise), and
  reports proper ranges after its updates: whatever fragments are fed and updates end, in whatever order, the
  browser gets the fragments in the order in which they were fed, none lost and none twice, although an append
  that is refused goes back to the front of the queue; no handler raises an exception; and the buffer never
  idles while a fragment waits.\<close>

theorem fragments_appended_in_order:
  assumes "enough br n" "list_all sound es" "b = fold (buffer_step br n) es (MSEBuffer codec)"
  shows "mb_appended b @ mb_queue b = concat (map fed es) \<and> mb_reported b = [] \<and> (sb_updating b \<or> mb_queue b = [])"
proof -
  have ok: "enough br n \<and> ready (MSEBuffer codec :: 'a mse_buffer)" using assms(1) ready_new by blast
  from mse.run_conserves [OF ok assms(2)] mse.ok_run [OF ok assms(2)] show ?thesis
    by (simp add: assms(3) queue_of_def ready_def in_use_def busy_def) (simp add: MSEBuffer_def)
qed

definition full_once :: "nat \<Rightarrow> append_answer" where
  "full_once k = (if k = 1 then QuotaExceeded else Accepted)"

lemma full_once_enough: "enough full_once 7"
proof -
  have "\<forall>k. accepts_within full_once (Suc 0) k" by (simp add: full_once_def)
  then show ?thesis unfolding enough_def by (intro exI [of _ "Suc 0"] conjI) (assumption, simp)
qed

lemma fragments_appended_in_order_witness:
  "let b = fold (buffer_step full_once 7) [Feed [0 :: nat, 1, 2], UpdateEnd [(0, 10)], PlayerAt 9, UpdateEnd [(8, 10)], Feed [3]]
       (MSEBuffer ''video/mp4'')
   in mb_appended b @ mb_queue b = [0, 1, 2, 3] \<and> (sb_updating b \<or> mb_queue b = [])"
  unfolding Let_def
  using fragments_appended_in_order [OF full_once_enough _ refl,
      of "[Feed [0 :: nat, 1, 2], UpdateEnd [(0, 10)], PlayerAt 9, UpdateEnd [(8, 10)], Feed [3]]" "''video/mp4''"]
  by (simp add: proper_def del: fold.simps fold_simps)

text \<open>C34: Cleaning up removes, one after the other, only parts of buffered ranges that begin before the
  current position, and never the last two seconds.\<close>

theorem cleanup_bounds:
  assumes "proper (sb_buffered b)" "sb_attached b" "\<not> sb_updating b" "\<not> mb_cleaning b" "mb_cleanRanges b = []"
    and "clean_ranges b = r # rest"
  shows "initCleanup br (Suc (Suc n)) b = (Inr (), b\<lparr>mb_cleanRanges := rest, mb_cleaning := True, sb_updating := True,
      mb_removed := mb_removed b @ [r]\<rparr>) \<and>
    (\<forall>(s, e) \<in> set (r # rest). s < e \<and> s < pl_currentTime b \<and> e \<le> snd (last (sb_buffered b)) - 2 \<and>
      (\<exists>e'. (s, e') \<in> set (sb_buffered b) \<and> e \<le> e'))"
proof -
  have rs: "\<forall>(s, e) \<in> set (clean_ranges b). s < e \<and> s < pl_currentTime b \<and> e \<le> snd (last (sb_buffered b)) - 2 \<and>
      (\<exists>e'. (s, e') \<in> set (sb_buffered b) \<and> e \<le> e')"
    using assms(1) by (fastforce simp: proper_def clean_ranges_def clean_range_def Let_def split: if_splits)
  have "proper (clean_ranges b)" by (rule proper_clean_ranges [OF assms(1)])
  then have "0 \<le> fst r" "fst r < snd r" by (auto simp: assms(6) proper_def)
  moreover have "sb_buffered b \<noteq> []" using assms(6) by (auto simp: clean_ranges_def)
  ultimately have "initCleanup br (Suc (Suc n)) b = (Inr (), b\<lparr>mb_cleanRanges := rest, mb_cleaning := True, sb_updating := True,
      mb_removed := mb_removed b @ [r]\<rparr>)"
    using assms by (auto simp: buf_defs split: prod.split)
  with rs show ?thesis by (simp add: assms(6))
qed

definition example_buffer :: "nat mse_buffer" where
  "example_buffer = (MSEBuffer ''video/mp4'')\<lparr>sb_buffered := [(0, 5), (6, 100)], pl_currentTime := 7\<rparr>"

lemma example_clean: "clean_ranges example_buffer = [(0, 5), (6, 98)]"
  by (simp add: clean_ranges_def clean_range_def example_buffer_def)

lemma cleanup_bounds_witness:
  "snd (initCleanup full_once 2 example_buffer) = example_buffer\<lparr>mb_cleanRanges := [(6, 98)], mb_cleaning := True,
     sb_updating := True, mb_removed := [(0, 5)]\<rparr>"
  using cleanup_bounds [of example_buffer "(0, 5)" "[(6, 98)]" full_once 0] example_clean
  by (simp add: example_buffer_def MSEBuffer_def proper_def numeral_2_eq_2)

text \<open>The second range of the example shows that what lies ahead of the current position is removed too,
  up to the last two seconds.\<close>

lemma cleanup_removes_ahead: "(6, 98) \<in> set (clean_ranges example_buffer) \<and> pl_currentTime example_buffer = 7"
  by (simp add: example_clean) (simp add: example_buffer_def)

text \<open>C35: When the browser has no room for a fragment and nothing is buffered that could be removed, feeding
  the buffer exhausts any stack.\<close>

theorem quota_exhausts_stack:
  assumes "\<And>k. br k = QuotaExceeded" "sb_attached b" "sb_buffered b = []" "\<not> pl_error b" "\<not> sb_updating b" "\<not> mb_cleaning b"
    and "mb_queue b @ ds \<noteq> []"
  shows "fst (feed br n ds b) = Inl CallStackExceeded"
proof -
  have "fst (feedNext br n b) = Inl CallStackExceeded"
    if "sb_attached b" "sb_buffered b = []" "\<not> pl_error b" "\<not> sb_updating b" "\<not> mb_cleaning b" "mb_queue b \<noteq> []"
    for b :: "'a mse_buffer" and n
    using that
  proof (induction n arbitrary: b rule: less_induct)
    case (less n b)
    consider "n = 0" | "n = 1" | "n = 2" | n1 where "n = Suc (Suc (Suc n1))" by (metis One_nat_def less_2_cases_iff nat_less_le not_less_eq old.nat.exhaust numeral_2_eq_2)
    then show ?case
    proof cases
      case 4
      let ?b = "b\<lparr>mb_queue := hd (mb_queue b) # tl (mb_queue b), mb_appends := mb_appends b + 1\<rparr>"
      have "fst (feedNext br n1 ?b) = Inl CallStackExceeded"
        using less by (intro less.IH) (auto simp: 4)
      then show ?thesis using less assms(1) by (simp add: 4 buf_defs del: feedNext.simps) (simp add: buf_defs)
    qed (use less assms(1) in \<open>simp_all add: buf_defs numeral_2_eq_2\<close>)
  qed
  with assms show ?thesis by (simp add: feed_def buf_defs)
qed

lemma quota_exhausts_stack_witness:
  "fst (feed (\<lambda>_. QuotaExceeded) 10000 [1 :: nat] (MSEBuffer ''video/mp4'')) = Inl CallStackExceeded"
  by (rule quota_exhausts_stack) (simp_all add: MSEBuffer_def)

text \<open>Two buffered ranges: \<^verbatim>\<open>clear\<close> removes the first; the handler that should remove the second looks for it
  under its old index.\<close>

lemma clear_leaves_second_range:
  assumes "b = (MSEBuffer c)\<lparr>sb_buffered := [(0, 1), (2, 3)]\<rparr>"
  shows "mb_removed (snd (clear b)) = [(0, 1)] \<and>
    mb_reported (snd (updateend br (Suc n) [(2, 3)] (snd (clear b)))) = [IndexSizeError]"
  using assms by (simp add: clear_def MSEBuffer_def upt_rec clear_range_def range_at_def settle_def buf_defs
      updateend_def on_updateend_def on_clear_end_def catch_up_def)

end
