(* ===== verification/MseSource.thy ===== *)
theory MseSource
  imports Mse Sdp
begin

text \<open>
  Class \<^verbatim>\<open>MSE\<close> of \<^verbatim>\<open>demos/rtsp/rtsp.dev.js\<close>: the media source, its players and one \<^verbatim>\<open>MSEBuffer\<close> per
  track. The element \<^verbatim>\<open>players[0]\<close>, which every buffer reads and moves, is kept here and lent to the
  buffer for the time of an operation. \<open>so_open\<close> is \<^verbatim>\<open>readyState == 'open'\<close>, \<open>so_mediaReady\<close> that the promise
  \<^verbatim>\<open>mediaReady\<close> is resolved; the calls of \<^verbatim>\<open>setCodec\<close> that wait for it are in \<open>so_waiting\<close>.
\<close>

record video =
  v_paused :: bool
  v_time :: rat
  v_error :: bool

record source =
  so_players :: "video list"
  so_playing :: "bool list"
  so_buffers :: "(payload_type \<times> bytes mse_buffer) list"
  so_is_live :: "bool option"
  so_ready :: bool
  so_updating :: bool
  so_resolved :: bool
  so_mediaReady :: bool
  so_open :: bool
  so_duration :: "rat option"
  so_srcs :: nat                             \<comment> \<open>how often the media source was made the source of the players\<close>
  so_waiting :: "(payload_type \<times> string) list"
  so_dispatched :: "string list"

type_synonym 'a source_cmd = "(source, 'a) cmd"

text \<open>What the browser decides: which types it supports, its answers to \<^verbatim>\<open>appendBuffer\<close> per track, and the
  depth of the stack.\<close>

record browser =
  br_isTypeSupported :: "string \<Rightarrow> bool"
  br_append :: "payload_type \<Rightarrow> nat \<Rightarrow> append_answer"
  br_stack :: nat
  br_chrome :: bool

definition isSupported :: "browser \<Rightarrow> string list \<Rightarrow> bool" where
  "isSupported br codecs = br_isTypeSupported br (''video/mp4; codecs='' @ [CHR 0x22] @ js_join codecs '','' @ [CHR 0x22])"

definition with_buffer :: "payload_type \<Rightarrow> (bytes, unit) buf \<Rightarrow> unit source_cmd" where
  "with_buffer k m so = (case map_of (so_buffers so) k of
       None \<Rightarrow> (Inr (), so)
     | Some b \<Rightarrow>
         (let v = so_players so ! 0;
              (r, b1) = m (b\<lparr>pl_currentTime := v_time v, pl_error := v_error v\<rparr>)
          in (r, so\<lparr>so_buffers := AList.update k b1 (so_buffers so),
                    so_players := (so_players so)[0 := v\<lparr>v_time := pl_currentTime b1\<rparr>],
                    so_dispatched := so_dispatched so @ drop (length (mb_dispatched b)) (mb_dispatched b1)\<rparr>)))"

definition buffer_keys :: "source \<Rightarrow> payload_type list" where
  "buffer_keys so = sort (map fst (so_buffers so))"

definition MSE_feed :: "browser \<Rightarrow> payload_type \<Rightarrow> bytes list \<Rightarrow> unit source_cmd" where
  "MSE_feed br k data = with_buffer k (feed (br_append br k) (br_stack br) data)"

definition MSE_setLive :: "bool option \<Rightarrow> unit source_cmd" where
  "MSE_setLive l = seqC (get buffer_keys) (\<lambda>ks. seqC (forC ks (\<lambda>k. with_buffer k (setLive l))) (\<lambda>_.
     modify (\<lambda>so. so\<lparr>so_is_live := l\<rparr>)))"

text \<open>\<^verbatim>\<open>setCodec\<close> only chains a callback to \<^verbatim>\<open>mediaReady\<close>; it runs after the caller, when the promise is resolved.
  \<^verbatim>\<open>addSourceBuffer\<close> needs an open media source.\<close>

definition setCodec :: "payload_type \<Rightarrow> string \<Rightarrow> unit source_cmd" where
  "setCodec k mimeCodec = modify (\<lambda>so. so\<lparr>so_waiting := so_waiting so @ [(k, mimeCodec)]\<rparr>)"

definition add_buffer :: "payload_type \<Rightarrow> string \<Rightarrow> unit source_cmd" where
  "add_buffer k mimeCodec = seqC (get id) (\<lambda>so.
     if \<not> so_open so then throw InvalidStateError
     else seqC (modify (\<lambda>so. so\<lparr>so_buffers := AList.update k (MSEBuffer mimeCodec) (so_buffers so)\<rparr>)) (\<lambda>_.
            with_buffer k (setLive (so_is_live so))))"

text \<open>The callbacks that wait: an exception of one rejects its promise and stops no other. The result lists the
  tracks whose promise was fulfilled.\<close>

fun add_buffers :: "(payload_type \<times> string) list \<Rightarrow> payload_type list source_cmd" where
  "add_buffers [] = ret []"
| "add_buffers ((k, mimeCodec) # ws) =
     seqC (catchC (seqC (add_buffer k mimeCodec) (\<lambda>_. ret [k])) (\<lambda>e. ret [])) (\<lambda>ks.
     seqC (add_buffers ws) (\<lambda>ks'. ret (ks @ ks')))"

definition mediaReady_then :: "payload_type list source_cmd" where
  "mediaReady_then = seqC (get so_waiting) (\<lambda>ws. seqC (modify (\<lambda>so. so\<lparr>so_waiting := []\<rparr>)) (\<lambda>_. add_buffers ws))"

definition MSE_reset :: "unit source_cmd" where
  "MSE_reset =
     seqC (modify (\<lambda>so. so\<lparr>so_ready := False\<rparr>)) (\<lambda>_.
     seqC (get buffer_keys) (\<lambda>ks.
     seqC (forC ks (\<lambda>k. seqC (with_buffer k destroy) (\<lambda>_. modify (\<lambda>so. so\<lparr>so_buffers := AList.delete k (so_buffers so)\<rparr>)))) (\<lambda>_.
       modify (\<lambda>so. so\<lparr>so_duration := (if so_open so then Some 0 else so_duration so), so_open := False,
         so_updating := False, so_resolved := False, so_buffers := []\<rparr>))))"

text \<open>\<^verbatim>\<open>setupEvents\<close> makes a new promise; whoever waits for the old one waits for ever.\<close>

definition setupEvents :: "unit source_cmd" where
  "setupEvents = modify (\<lambda>so. so\<lparr>so_resolved := False, so_mediaReady := False, so_waiting := []\<rparr>)"

definition MSE_clear :: "unit source_cmd" where
  "MSE_clear = seqC MSE_reset (\<lambda>_. seqC (modify (\<lambda>so. so\<lparr>so_srcs := so_srcs so + 1\<rparr>)) (\<lambda>_. setupEvents))"

text \<open>A source that was destroyed is not used again; that its fields become \<^verbatim>\<open>null\<close> is not kept.\<close>

definition MSE_destroy :: "unit source_cmd" where
  "MSE_destroy = MSE_reset"

text \<open>The plain object \<^verbatim>\<open>buffers\<close> has no method \<^verbatim>\<open>values\<close>.\<close>

definition resetBuffers :: "unit source_cmd" where
  "resetBuffers =
     seqC (modify (\<lambda>so. so\<lparr>so_players := map (\<lambda>(v, p). if \<not> v_paused v \<and> p then v\<lparr>v_paused := True, v_time := 0\<rparr> else v)
       (zip (so_players so) (so_playing so))\<rparr>)) (\<lambda>_. throw TypeErr)"

definition MSE_play :: "unit source_cmd" where
  "MSE_play = modify (\<lambda>so. so\<lparr>so_players := map (\<lambda>(v, p). if v_paused v \<and> \<not> p then v\<lparr>v_paused := False\<rparr> else v)
     (zip (so_players so) (so_playing so))\<rparr>)"

text \<open>The listeners of \<^verbatim>\<open>sourceopen\<close> and \<^verbatim>\<open>sourceclose\<close>, and of the players.\<close>

definition on_sourceopen :: "unit source_cmd" where
  "on_sourceopen =
     seqC (modify (\<lambda>so. so\<lparr>so_open := True\<rparr>)) (\<lambda>_.
     seqC (get id) (\<lambda>so.
     if so_resolved so then ret ()
     else modify (\<lambda>so. so\<lparr>so_resolved := True, so_mediaReady := True\<rparr>)))"

definition on_sourceclose :: "unit source_cmd" where
  "on_sourceclose = modify (\<lambda>so. so\<lparr>so_open := False,
     so_dispatched := (if so_resolved so then so_dispatched so @ [''sourceclosed''] else so_dispatched so)\<rparr>)"

definition on_playing :: "nat \<Rightarrow> bool \<Rightarrow> unit source_cmd" where
  "on_playing i p = modify (\<lambda>so. so\<lparr>so_playing := (so_playing so)[i := p]\<rparr>)"

definition MSE :: "video list \<Rightarrow> source" where
  "MSE players = \<lparr>so_players = players, so_playing = map (\<lambda>v. \<not> v_paused v) players, so_buffers = [], so_is_live = None,
     so_ready = False, so_updating = False, so_resolved = False, so_mediaReady = False, so_open = False, so_duration = None,
     so_srcs = 0, so_waiting = [], so_dispatched = []\<rparr>"

section \<open>Feeding a track\<close>

lemma with_buffer_other:
  "j \<noteq> k \<Longrightarrow> map_of (so_buffers (snd (with_buffer k m so))) j = map_of (so_buffers so) j"
  by (auto simp: with_buffer_def Let_def update_conv' split: option.split prod.split)

text \<open>An operation that keeps a buffer in order; the buffers of the other tracks stay as they are.\<close>

lemma with_buffer_serves:
  assumes "map_of (so_buffers so) k = Some b" "ready b" "\<not> v_error (so_players so ! 0)"
    and "\<And>b. ready b \<Longrightarrow> \<exists>b'. m b = (Inr (), b') \<and> ready b' \<and> fifo_step data (queue_of b) (queue_of b')"
  shows "\<exists>so' b'. with_buffer k m so = (Inr (), so') \<and> map_of (so_buffers so') k = Some b' \<and> ready b' \<and>
    mb_appended b' @ mb_queue b' = mb_appended b @ mb_queue b @ data \<and> so_dispatched so' = so_dispatched so \<and>
    (\<forall>j. j \<noteq> k \<longrightarrow> map_of (so_buffers so') j = map_of (so_buffers so) j) \<and>
    (\<exists>v. so_players so' = (so_players so)[0 := v] \<and> \<not> v_error v)"
proof -
  define b0 where "b0 = b\<lparr>pl_currentTime := v_time (so_players so ! 0), pl_error := v_error (so_players so ! 0)\<rparr>"
  have b0: "ready b0" "queue_of b0 = queue_of b" using assms(2,3) by (simp_all add: b0_def ready_def in_use_def busy_def queue_of_def)
  from assms(4) [OF b0(1)] obtain b' where b': "m b0 = (Inr (), b')" "ready b'" "fifo_step data (queue_of b0) (queue_of b')" by blast
  have "mb_appended b' @ mb_queue b' = mb_appended b @ mb_queue b @ data"
    using fifo_step_conserves [OF b'(3)] b0(2) by (simp add: queue_of_def)
  moreover have "mb_dispatched b' = []" using b'(2) by (simp add: ready_def in_use_def)
  moreover have "\<exists>v. (so_players so)[0 := (so_players so ! 0)\<lparr>v_time := pl_currentTime b'\<rparr>] = (so_players so)[0 := v] \<and> \<not> v_error v"
    using assms(3) by (intro exI [of _ "(so_players so ! 0)\<lparr>v_time := pl_currentTime b'\<rparr>"]) simp
  ultimately show ?thesis
    using b' assms(1) with_buffer_other [of _ k m so]
    by (auto simp: with_buffer_def b0_def [symmetric] update_conv' Let_def)
qed

text \<open>A buffer that is in use takes what it is fed in order.\<close>

lemma MSE_feed_in_order:
  assumes "enough (br_append br k) (br_stack br)" "map_of (so_buffers so) k = Some b" "ready b"
    and "\<not> v_error (so_players so ! 0)"
  shows "\<exists>so' b'. MSE_feed br k data so = (Inr (), so') \<and> map_of (so_buffers so') k = Some b' \<and> ready b' \<and>
    mb_appended b' @ mb_queue b' = mb_appended b @ mb_queue b @ data \<and> so_dispatched so' = so_dispatched so \<and>
    (\<forall>j. j \<noteq> k \<longrightarrow> map_of (so_buffers so') j = map_of (so_buffers so) j) \<and>
    (\<exists>v. so_players so' = (so_players so)[0 := v] \<and> \<not> v_error v)"
  unfolding MSE_feed_def by (rule with_buffer_serves [OF assms(2-4)]) (rule feed_works [OF assms(1)])

text \<open>An update of a buffer ends.\<close>

lemma handler_returns: "\<exists>b'. handler m b = (Inr (), b')"
  by (simp add: handler_def catchC_def modify_def split: prod.split sum.split)

lemma updateend_returns: "updateend br n rs b = (Inr (), buffer_step br n (UpdateEnd rs) b)"
proof -
  let ?b = "b\<lparr>sb_updating := False, sb_buffered := rs\<rparr>"
  obtain b1 where 1: "handler (on_updateend br n) ?b = (Inr (), b1)" using handler_returns by blast
  obtain b2 where 2: "handler on_clear_end (if mb_listening b then b1 else ?b) = (Inr (), b2)" using handler_returns by blast
  have "updateend br n rs b = (Inr (), b2)"
    using 1 2 by (auto simp: updateend_def seqC_def get_def ret_def modify_def split: if_splits)
  then show ?thesis by (simp add: buffer_step_def handler_def catchC_def)
qed

lemma update_ends:
  assumes "enough (br_append br k) (br_stack br)" "map_of (so_buffers so) k = Some b" "ready b"
    and "\<not> v_error (so_players so ! 0)" "proper rs"
  shows "\<exists>so' b'. with_buffer k (updateend (br_append br k) (br_stack br) rs) so = (Inr (), so') \<and>
    map_of (so_buffers so') k = Some b' \<and> ready b' \<and> mb_appended b' @ mb_queue b' = mb_appended b @ mb_queue b \<and>
    (\<exists>v. so_players so' = (so_players so)[0 := v] \<and> \<not> v_error v)"
proof -
  have "\<exists>b'. updateend (br_append br k) (br_stack br) rs c = (Inr (), b') \<and> ready b' \<and> fifo_step [] (queue_of c) (queue_of b')"
    if "ready c" for c
    using step_ready [OF assms(1) that, of "UpdateEnd rs"] assms(5) by (simp add: updateend_returns)
  from with_buffer_serves [OF assms(2-4) this] show ?thesis by auto
qed

end
