(* ===== verification/Transport.thy ===== *)
theory Transport
  imports Fifo Encodings Url
begin

text \<open>
  Classes \<^verbatim>\<open>BaseTransport\<close> and \<^verbatim>\<open>WebsocketTransport\<close> of \<^verbatim>\<open>demos/rtsp/rtsp.dev.js\<close>. A request waits for the
  next response; media packets go to \<^verbatim>\<open>dataQueue\<close>. Sockets are numbered in the order in which they are
  created, since the handlers of an old socket keep acting on the transport; a socket of the browser is
  its state and the \<^verbatim>\<open>onclose\<close> handler it has. The operations return the state; the events that they
  dispatch are logged, and the client that listens (theory \<^verbatim>\<open>Client\<close>) reacts to them. \<^verbatim>\<open>connect\<close> makes its socket
  one microtask after it is called, when the promise of \<^verbatim>\<open>disconnect\<close> is resolved; here it is made at once. No
  event of a socket comes in between.
\<close>

section \<open>Sockets\<close>

datatype ws_state = Connecting | Open | Closing
datatype close_handler = ReportClose | LogClose | NoHandler

record socket =
  ws_state :: ws_state
  ws_onclose :: close_handler

text \<open>A promise of \<^verbatim>\<open>send\<close>: its number and the request that it is for. Resolving a promise that was rejected
  before has no effect; the attempt is logged all the same.\<close>

type_synonym promise = "nat \<times> string"

record transport =
  tr_stream_type :: string
  tr_endpoint :: url
  tr_socket_url :: string
  tr_sockets :: "socket list"
  tr_wssocket :: "nat option"
  tr_dataQueue :: "bytes list"
  tr_awaiting :: "promise list"
  tr_requests :: nat
  tr_resolved :: "(promise \<times> string) list"
  tr_rejected :: "promise list"
  tr_wire :: "(nat \<times> string) list"           \<comment> \<open>what was sent, and on which socket\<close>
  tr_connects :: "nat list"                  \<comment> \<open>sockets whose \<^verbatim>\<open>_connect\<close> promise is resolved\<close>
  tr_listening :: bool
  tr_dispatched :: "string list"

definition streamTypes :: "string list" where "streamTypes = [''rtsp'']"

definition canTransfer :: "string \<Rightarrow> bool" where
  "canTransfer stream_type \<longleftrightarrow> stream_type \<in> set streamTypes"

text \<open>The base class transfers nothing.\<close>

definition base_streamTypes :: "string list" where "base_streamTypes = []"

definition base_canTransfer :: "string \<Rightarrow> bool" where
  "base_canTransfer stream_type \<longleftrightarrow> stream_type \<in> set base_streamTypes"

definition tr_dispatch :: "string \<Rightarrow> transport \<Rightarrow> transport" where
  "tr_dispatch ev t = (if tr_listening t then t\<lparr>tr_dispatched := tr_dispatched t @ [ev]\<rparr> else t)"

definition set_socket :: "nat \<Rightarrow> (socket \<Rightarrow> socket) \<Rightarrow> transport \<Rightarrow> transport" where
  "set_socket k f t = t\<lparr>tr_sockets := (if k < length (tr_sockets t) then (tr_sockets t)[k := f (tr_sockets t ! k)] else tr_sockets t)\<rparr>"

definition ws_close :: "nat \<Rightarrow> transport \<Rightarrow> transport" where
  "ws_close k = set_socket k (\<lambda>s. s\<lparr>ws_state := Closing\<rparr>)"

section \<open>Connecting\<close>

definition tr_connect_socket :: "transport \<Rightarrow> transport" where
  "tr_connect_socket t = t\<lparr>tr_sockets := tr_sockets t @ [\<lparr>ws_state = Connecting, ws_onclose = ReportClose\<rparr>],
     tr_wssocket := Some (length (tr_sockets t))\<rparr>"

definition tr_disconnect :: "transport \<Rightarrow> transport" where
  "tr_disconnect t = (case tr_wssocket t of
       None \<Rightarrow> t
     | Some k \<Rightarrow> ws_close k (set_socket k (\<lambda>s. s\<lparr>ws_onclose := LogClose\<rparr>) t))"

definition tr_connect :: "transport \<Rightarrow> transport" where
  "tr_connect t = tr_connect_socket (tr_disconnect t)"

definition tr_reconnect :: "transport \<Rightarrow> transport" where
  "tr_reconnect t = tr_connect (tr_disconnect t)"

definition setEndpoint :: "url \<Rightarrow> transport \<Rightarrow> transport" where
  "setEndpoint ep t = tr_reconnect (t\<lparr>tr_endpoint := ep\<rparr>)"

definition tr_destroy :: "transport \<Rightarrow> transport" where
  "tr_destroy t = (tr_disconnect t)\<lparr>tr_listening := False\<rparr>"

definition WebsocketTransport :: "url \<Rightarrow> string \<Rightarrow> string \<Rightarrow> transport" where
  "WebsocketTransport endpoint stream_type socket_url = tr_connect
     \<lparr>tr_stream_type = stream_type, tr_endpoint = endpoint, tr_socket_url = socket_url, tr_sockets = [],
      tr_wssocket = None, tr_dataQueue = [], tr_awaiting = [], tr_requests = 0, tr_resolved = [], tr_rejected = [],
      tr_wire = [], tr_connects = [], tr_listening = True, tr_dispatched = []\<rparr>"

section \<open>Events of a socket\<close>

definition ws_onopen :: "nat \<Rightarrow> transport \<Rightarrow> transport" where
  "ws_onopen k t = (let t1 = tr_dispatch ''connected'' (set_socket k (\<lambda>s. s\<lparr>ws_state := Open\<rparr>) t)
     in t1\<lparr>tr_connects := tr_connects t1 @ [k]\<rparr>)"

definition resolve_next :: "string \<Rightarrow> transport \<Rightarrow> transport" where
  "resolve_next text t = (case tr_awaiting t of
       [] \<Rightarrow> t
     | p # ps \<Rightarrow> t\<lparr>tr_awaiting := ps, tr_resolved := tr_resolved t @ [(p, text)]\<rparr>)"

definition ws_onmessage :: "bytes \<Rightarrow> transport \<Rightarrow> transport" where
  "ws_onmessage data t = (case data of
       [] \<Rightarrow> t
     | prefix # _ \<Rightarrow>
         if prefix = 36 then tr_dispatch ''data'' (t\<lparr>tr_dataQueue := tr_dataQueue t @ [data]\<rparr>)
         else if prefix = 82 then resolve_next (bytesToString data) t
         else t)"

definition ws_onerror :: "transport \<Rightarrow> transport" where
  "ws_onerror t = tr_dispatch ''error'' (case tr_wssocket t of None \<Rightarrow> t | Some k \<Rightarrow> ws_close k t)"

text \<open>The handler of socket \<open>k\<close> acts on the current socket.\<close>

definition ws_onclose_event :: "nat \<Rightarrow> transport \<Rightarrow> transport" where
  "ws_onclose_event k t = (if k < length (tr_sockets t) \<and> ws_onclose (tr_sockets t ! k) = ReportClose then
       tr_dispatch ''disconnected'' (case tr_wssocket t of
           None \<Rightarrow> t
         | Some j \<Rightarrow> ws_close j (set_socket j (\<lambda>s. s\<lparr>ws_onclose := NoHandler\<rparr>) t))
     else t)"

section \<open>Requests\<close>

text \<open>\<^verbatim>\<open>WebSocket.send\<close> raises \<^verbatim>\<open>InvalidStateError\<close> while the socket is connecting, which rejects the promise
  in whose executor it is called; a socket that is closed discards the message.\<close>

definition tr_send :: "string \<Rightarrow> transport \<Rightarrow> promise result \<times> transport" where
  "tr_send data t = (case tr_wssocket t of
       None \<Rightarrow> (Inl (ErrMsg ''websocekt disconnected''), t)
     | Some k \<Rightarrow>
         (let p = (tr_requests t, data);
              t1 = t\<lparr>tr_requests := tr_requests t + 1, tr_awaiting := tr_awaiting t @ [p]\<rparr>
          in (Inr p, case ws_state (tr_sockets t ! k) of
                Connecting \<Rightarrow> t1\<lparr>tr_rejected := tr_rejected t1 @ [p]\<rparr>
              | Open \<Rightarrow> t1\<lparr>tr_wire := tr_wire t1 @ [(k, data)]\<rparr>
              | Closing \<Rightarrow> t1)))"

section \<open>Requests and answers\<close>

datatype tr_event = Send string | Opened nat | Message bytes | Failed | Closed nat | Reconnect | SetEndpoint url

definition tr_step :: "tr_event \<Rightarrow> transport \<Rightarrow> transport" where
  "tr_step ev t = (case ev of
       Send d \<Rightarrow> snd (tr_send d t)
     | Opened k \<Rightarrow> ws_onopen k t
     | Message m \<Rightarrow> ws_onmessage m t
     | Failed \<Rightarrow> ws_onerror t
     | Closed k \<Rightarrow> ws_onclose_event k t
     | Reconnect \<Rightarrow> tr_reconnect t
     | SetEndpoint ep \<Rightarrow> setEndpoint ep t)"

fun requested :: "tr_event \<Rightarrow> string list" where
  "requested (Send d) = [d]"
| "requested ev = []"

definition requests_of :: "transport \<Rightarrow> string fifo" where
  "requests_of t = \<lparr>fi_served = map (snd \<circ> fst) (tr_resolved t), fi_waiting = map snd (tr_awaiting t)\<rparr>"

lemma requests_of_cong:
  "tr_resolved t' = tr_resolved t \<Longrightarrow> tr_awaiting t' = tr_awaiting t \<Longrightarrow> requests_of t' = requests_of t"
  by (simp add: requests_of_def)

lemma requests_frame [simp]:
  "requests_of (tr_dispatch ev t) = requests_of t" "requests_of (set_socket k f t) = requests_of t"
  "requests_of (ws_close k t) = requests_of t" "requests_of (tr_connect_socket t) = requests_of t"
  by (simp_all add: requests_of_def tr_dispatch_def set_socket_def ws_close_def tr_connect_socket_def)

lemma requests_connection [simp]:
  "requests_of (tr_disconnect t) = requests_of t" "requests_of (tr_connect t) = requests_of t"
  "requests_of (tr_reconnect t) = requests_of t"
  by (simp_all add: tr_disconnect_def tr_connect_def tr_reconnect_def split: option.split)

lemma wssocket_frame [simp]:
  "tr_wssocket (tr_dispatch ev t) = tr_wssocket t" "tr_wssocket (set_socket k f t) = tr_wssocket t"
  "tr_wssocket (ws_close k t) = tr_wssocket t" "tr_wssocket (tr_disconnect t) = tr_wssocket t"
  by (simp_all add: tr_dispatch_def set_socket_def ws_close_def tr_disconnect_def split: option.split)

lemma wssocket_step: "tr_wssocket t \<noteq> None \<Longrightarrow> tr_wssocket (tr_step ev t) \<noteq> None"
  by (auto simp: tr_step_def tr_send_def Let_def ws_onopen_def ws_onmessage_def resolve_next_def ws_onerror_def
      ws_onclose_event_def tr_reconnect_def setEndpoint_def tr_connect_def tr_connect_socket_def
      split: tr_event.splits list.splits option.splits ws_state.splits)

lemma requests_step:
  assumes "tr_wssocket t \<noteq> None"
  shows "fifo_step (requested ev) (requests_of t) (requests_of (tr_step ev t))"
proof (cases ev)
  case (Send d)
  then have "requests_of (tr_step ev t) = \<lparr>fi_served = fi_served (requests_of t), fi_waiting = fi_waiting (requests_of t) @ [d]\<rparr>"
    using assms by (auto simp: tr_step_def tr_send_def Let_def requests_of_def split: ws_state.split)
  then show ?thesis by (simp add: Send fifo_step_idle)
next
  case (Message m)
  consider "requests_of (ws_onmessage m t) = requests_of t" | x xs where "m = x # xs" "x = 82" "x \<noteq> 36"
  proof (cases "\<exists>xs. m = 82 # xs")
    case True
    then show thesis using that(2) by auto
  next
    case False
    then show thesis
      by (intro that(1)) (auto simp: ws_onmessage_def requests_of_def tr_dispatch_def split: list.split)
  qed
  then show ?thesis
  proof cases
    case 1
    then show ?thesis by (simp add: Message tr_step_def)
  next
    case 2
    show ?thesis
    proof (cases "tr_awaiting t")
      case Nil
      with 2 show ?thesis by (simp add: Message tr_step_def ws_onmessage_def resolve_next_def)
    next
      case (Cons p ps)
      from fifo_step_serve [of "requests_of t" "[]" "snd p" "map snd ps"] Cons 2 show ?thesis
        by (simp add: Message tr_step_def ws_onmessage_def resolve_next_def requests_of_def)
    qed
  qed
next
  case (SetEndpoint ep)
  have "requests_of (t\<lparr>tr_endpoint := ep\<rparr>) = requests_of t" by (simp add: requests_of_def)
  then show ?thesis by (simp add: SetEndpoint tr_step_def setEndpoint_def)
next
  case (Opened k)
  have "requests_of (ws_onopen k t) = requests_of t"
    unfolding ws_onopen_def Let_def by (subst requests_of_cong [of _ "tr_dispatch ''connected'' (set_socket k (\<lambda>s. s\<lparr>ws_state := Open\<rparr>) t)"]) simp_all
  then show ?thesis by (simp add: Opened tr_step_def)
next
  case (Closed k)
  then show ?thesis 
    by (simp add: tr_step_def ws_onclose_event_def split: option.split)
next
  case Failed
  then show ?thesis 
    by (simp add: tr_step_def ws_onerror_def split: option.split)
next
  case Reconnect
  then show ?thesis by (simp add: tr_step_def)
qed

interpretation answers: fifo_refinement tr_step requested requests_of "\<lambda>_. True" "\<lambda>t. tr_wssocket t \<noteq> None"
  by unfold_locales (use wssocket_step requests_step in blast)+

lemma requests_new:
  "requests_of (WebsocketTransport ep ty url) = \<lparr>fi_served = [], fi_waiting = []\<rparr>" "tr_wssocket (WebsocketTransport ep ty url) \<noteq> None"
  by (simp_all add: WebsocketTransport_def requests_of_def tr_connect_def tr_disconnect_def tr_connect_socket_def)

text \<open>The answers that count, told without the queue of the transport: a response (a message that begins with R) is
  accepted when there are more requests than answers so far; \<open>n\<close> is the number of those without one.\<close>

fun accepted :: "nat \<Rightarrow> tr_event list \<Rightarrow> string list" where
  "accepted n [] = []"
| "accepted n (ev # es) = (case ev of
       Send d \<Rightarrow> accepted (n + 1) es
     | Message m \<Rightarrow> if n \<noteq> 0 \<and> m \<noteq> [] \<and> hd m = 82 then bytesToString m # accepted (n - 1) es else accepted n es
     | _ \<Rightarrow> accepted n es)"

definition answered :: "transport \<Rightarrow> string list \<times> nat" where
  "answered t = (map snd (tr_resolved t), length (tr_awaiting t))"

lemma answered_cong:
  "tr_resolved t' = tr_resolved t \<Longrightarrow> tr_awaiting t' = tr_awaiting t \<Longrightarrow> answered t' = answered t"
  by (simp add: answered_def)

lemma answered_frame [simp]:
  "answered (tr_dispatch ev t) = answered t" "answered (set_socket k f t) = answered t"
  "answered (ws_close k t) = answered t" "answered (tr_connect_socket t) = answered t"
  "answered (tr_disconnect t) = answered t" "answered (tr_connect t) = answered t" "answered (tr_reconnect t) = answered t"
  "answered (setEndpoint ep t) = answered t" "answered (t\<lparr>tr_dataQueue := q\<rparr>) = answered t"
  by (simp_all add: answered_def tr_dispatch_def set_socket_def ws_close_def tr_connect_socket_def tr_disconnect_def
      tr_connect_def tr_reconnect_def setEndpoint_def split: option.split)

lemma answered_step:
  assumes "tr_wssocket t \<noteq> None"
  shows "fst (answered t) @ accepted (snd (answered t)) (ev # es)
    = fst (answered (tr_step ev t)) @ accepted (snd (answered (tr_step ev t))) es"
proof (cases ev)
  case (Send d)
  with assms show ?thesis by (auto simp: tr_step_def tr_send_def Let_def answered_def split: ws_state.split)
next
  case (Message m)
  show ?thesis
  proof (cases "\<exists>xs. m = 82 # xs")
    case True
    then obtain xs where m: "m = 82 # xs" ..
    then have "tr_step ev t = resolve_next (bytesToString m) t" by (simp add: Message tr_step_def ws_onmessage_def)
    then show ?thesis by (cases "tr_awaiting t") (simp_all add: Message m resolve_next_def answered_def)
  next
    case False
    then have "accepted n (ev # es) = accepted n es" for n by (cases m) (auto simp: Message)
    moreover have "answered (tr_step ev t) = answered t"
      using False by (auto simp: Message tr_step_def ws_onmessage_def split: list.split)
    ultimately show ?thesis by simp
  qed
next
  case (Opened k)
  have "answered (ws_onopen k t) = answered t"
    unfolding ws_onopen_def Let_def by (subst answered_cong [of _ "tr_dispatch ''connected'' (set_socket k (\<lambda>s. s\<lparr>ws_state := Open\<rparr>) t)"]) simp_all
  then show ?thesis by (simp add: Opened tr_step_def)
next
  case (Closed k)
  then show ?thesis by (simp add: tr_step_def ws_onclose_event_def split: option.split)
next
  case Failed
  then show ?thesis by (simp add: tr_step_def ws_onerror_def split: option.split)
qed (simp_all add: tr_step_def)

lemma answered_run:
  "tr_wssocket t \<noteq> None \<Longrightarrow> fst (answered (fold tr_step es t)) = fst (answered t) @ accepted (snd (answered t)) es"
proof (induction es arbitrary: t)
  case (Cons ev es)
  from Cons.IH [OF wssocket_step [OF Cons.prems]] answered_step [OF Cons.prems, of ev es] show ?case by simp
qed simp

text \<open>C11: Whatever is sent, received, opened, closed or reconnected, the k-th request is resolved with the k-th
  response that arrives while a request is unanswered, as soon as it arrives and with its text; the requests
  that still wait are the last ones, and none waits while an answer is kept back.\<close>

theorem responses_in_request_order:
  "let t = fold tr_step es (WebsocketTransport ep ty url) in
     map (\<lambda>(p, answer). (snd p, answer)) (tr_resolved t) = zip (concat (map requested es)) (accepted 0 es) \<and>
     map snd (tr_awaiting t) = drop (length (accepted 0 es)) (concat (map requested es))"
proof -
  define t where "t = fold tr_step es (WebsocketTransport ep ty url)"
  have order: "map (snd \<circ> fst) (tr_resolved t) @ map snd (tr_awaiting t) = concat (map requested es)"
    using answers.run_conserves [OF requests_new(2), of es ep ty url]
    by (simp add: list_all_iff requests_new(1) t_def) (simp add: requests_of_def)
  have new: "answered (WebsocketTransport ep ty url) = ([], 0)"
    using requests_new(1) [of ep ty url] by (simp add: answered_def requests_of_def)
  have texts: "map snd (tr_resolved t) = accepted 0 es"
    using answered_run [OF requests_new(2), of es ep ty url] unfolding new by (simp add: answered_def t_def)
  have len: "length (map (snd \<circ> fst) (tr_resolved t)) = length (accepted 0 es)" unfolding texts [symmetric] by simp
  have "map (\<lambda>(p, answer). (snd p, answer)) (tr_resolved t) = zip (map (snd \<circ> fst) (tr_resolved t)) (map snd (tr_resolved t))"
    by (simp add: zip_map_map zip_same_conv_map case_prod_beta)
  also have "\<dots> = zip (concat (map requested es)) (accepted 0 es)"
    unfolding order [symmetric] texts zip_append1 using len by simp
  finally show ?thesis unfolding Let_def t_def [symmetric] order [symmetric] using len by simp
qed

lemma responses_in_request_order_witness:
  "\<forall>ep ty url. map (\<lambda>(p, answer). (snd p, answer)) (tr_resolved (fold tr_step [Opened 0, Send ''OPTIONS'', Send ''DESCRIBE'', Message [36, 0],
      Message [82, 49], Message [82, 50], Message [82, 51], Send ''SETUP''] (WebsocketTransport ep ty url)))
    = [(''OPTIONS'', ''R1''), (''DESCRIBE'', ''R2'')]"
proof (intro allI)
  fix ep :: url and ty url :: string
  let ?es = "[Opened 0, Send ''OPTIONS'', Send ''DESCRIBE'', Message [36, 0], Message [82, 49], Message [82, 50], Message [82, 51], Send ''SETUP'']"
  have "accepted 0 ?es = [''R1'', ''R2'']" by code_simp
  then show "map (\<lambda>(p, answer). (snd p, answer)) (tr_resolved (fold tr_step ?es (WebsocketTransport ep ty url)))
      = [(''OPTIONS'', ''R1''), (''DESCRIBE'', ''R2'')]"
    using responses_in_request_order [of ?es ep ty url] by (simp only: Let_def) simp
qed

text \<open>A connection that is lost keeps its requests: on the next connection the first response goes to a
  request of the old one.\<close>

lemma stale_request_takes_answer:
  "tr_resolved (fold tr_step [Opened 0, Send ''OPTIONS'', Closed 0, Reconnect, Opened 1, Send ''TEARDOWN'', Message [82]]
     (WebsocketTransport ep ty url)) = [((0, ''OPTIONS''), ''R'')]"
  by (simp add: WebsocketTransport_def tr_step_def tr_connect_def tr_reconnect_def tr_disconnect_def tr_connect_socket_def
      ws_onopen_def tr_dispatch_def set_socket_def tr_send_def Let_def ws_onclose_event_def ws_close_def ws_onmessage_def
      resolve_next_def bytesToString_def char_of_def bit_0)

text \<open>A request made after a disconnect is never sent and never fails.\<close>

lemma request_after_disconnect:
  assumes "tr_wssocket t = Some k" "k < length (tr_sockets t)"
  shows "\<exists>p. fst (tr_send d (tr_disconnect t)) = Inr p \<and> tr_wire (snd (tr_send d (tr_disconnect t))) = tr_wire t"
  using assms by (simp add: tr_send_def tr_disconnect_def ws_close_def set_socket_def Let_def)

end
