(* ===== verification/Client.thy ===== *)
theory Client
  imports Transport RtspData
begin

text \<open>
  Classes \<^verbatim>\<open>BaseClient\<close> and \<^verbatim>\<open>RTSPClient\<close> of \<^verbatim>\<open>demos/rtsp/rtsp.dev.js\<close>: the client between the transport
  (theory \<^verbatim>\<open>Transport\<close>) and the protocol (theory \<^verbatim>\<open>Rtsp\<close>). The fields \<^verbatim>\<open>endpoint\<close>, \<^verbatim>\<open>seekable\<close> and
  \<^verbatim>\<open>sampleQueues\<close> are those of the record \<open>client\<close>, which the protocol reads and writes too. An event that
  the transport dispatches runs the handler of the client at once. Handing over a message may not end
  (the depacketizer may loop), so it is an option.
\<close>

section \<open>The client\<close>

record rtsp_client =
  rc_flush :: int
  rc_sm :: client
  rc_sourceUrl :: "string option"
  rc_paused :: bool
  rc_connected :: bool
  rc_transport :: "transport option"
  rc_timers :: nat                     \<comment> \<open>intervals that dispatch \<^verbatim>\<open>flush\<close>\<close>
  rc_dispatched :: "string list"
  rc_reported :: "js_error list"       \<comment> \<open>exceptions that left an event handler\<close>

type_synonym 'a client_cmd = "(rtsp_client, 'a) cmd"

definition sm_cmd :: "'a action \<Rightarrow> 'a client_cmd" where
  "sm_cmd m rc = (case m (rc_sm rc) of (r, c) \<Rightarrow> (r, rc\<lparr>rc_sm := c\<rparr>))"

definition rc_dispatch :: "string \<Rightarrow> unit client_cmd" where
  "rc_dispatch ev = modify (\<lambda>rc. rc\<lparr>rc_dispatched := rc_dispatched rc @ [ev]\<rparr>)"

section \<open>Operations\<close>

definition BaseClient_stop :: "unit client_cmd" where
  "BaseClient_stop = modify (\<lambda>rc. rc\<lparr>rc_paused := True\<rparr>)"

definition BaseClient_start :: "unit client_cmd" where
  "BaseClient_start = modify (\<lambda>rc. rc\<lparr>rc_paused := False\<rparr>)"

definition RTSPClient_stop :: "server \<Rightarrow> unit client_cmd" where
  "RTSPClient_stop srv = seqC BaseClient_stop (\<lambda>_. sm_cmd (stop srv))"

text \<open>\<^verbatim>\<open>start\<close> returns a promise; without a transport it is rejected.\<close>

definition RTSPClient_start :: "server \<Rightarrow> unit client_cmd" where
  "RTSPClient_start srv = seqC BaseClient_start (\<lambda>_.
     seqC (get rc_transport) (\<lambda>t. case t of
       None \<Rightarrow> throw (ErrMsg ''no transport attached'')
     | Some _ \<Rightarrow> seqC (get (\<lambda>rc. cl_ready (rc_sm rc))) (\<lambda>ready. seqC (liftC ready) (\<lambda>_. sm_cmd (start srv)))))"

definition BaseClient_detachTransport :: "unit client_cmd" where
  "BaseClient_detachTransport = modify (\<lambda>rc. rc\<lparr>rc_transport := None\<rparr>)"

definition RTSPClient_detachTransport :: "unit client_cmd" where
  "RTSPClient_detachTransport = seqC BaseClient_detachTransport (\<lambda>_.
     modify (\<lambda>rc. rc\<lparr>rc_sm := (rc_sm rc)\<lparr>cl_transport := False\<rparr>\<rparr>))"

text \<open>The methods of the base class that call a method which the derived class overrides: \<^verbatim>\<open>attachTransport\<close>
  calls \<^verbatim>\<open>detachTransport\<close>; \<^verbatim>\<open>setSource\<close> calls \<^verbatim>\<open>stop\<close> and ignores its promise.\<close>

definition BaseClient_attachTransport :: "transport \<Rightarrow> unit client_cmd" where
  "BaseClient_attachTransport t =
     seqC (get rc_transport) (\<lambda>old. seqC (if old \<noteq> None then RTSPClient_detachTransport else ret ()) (\<lambda>_.
       modify (\<lambda>rc. rc\<lparr>rc_transport := Some t\<rparr>)))"

definition RTSPClient_attachTransport :: "transport \<Rightarrow> unit client_cmd" where
  "RTSPClient_attachTransport t = seqC (BaseClient_attachTransport t) (\<lambda>_.
     modify (\<lambda>rc. rc\<lparr>rc_sm := (rc_sm rc)\<lparr>cl_transport := True\<rparr>\<rparr>))"

definition BaseClient_setSource :: "server \<Rightarrow> url \<Rightarrow> unit client_cmd" where
  "BaseClient_setSource srv url =
     seqC BaseClient_stop (\<lambda>_.
     seqC (sm_cmd (detach (stop srv))) (\<lambda>_.
       modify (\<lambda>rc. rc\<lparr>rc_sm := (rc_sm rc)\<lparr>cl_endpoint := url\<rparr>, rc_sourceUrl := Some (u_urlpath url)\<rparr>)))"

definition RTSPClient_setSource :: "server \<Rightarrow> url \<Rightarrow> unit client_cmd" where
  "RTSPClient_setSource srv url = seqC (BaseClient_setSource srv url) (\<lambda>_. sm_cmd (setSource url))"

definition RTSPClient_reset :: "unit client_cmd" where
  "RTSPClient_reset = modify (\<lambda>rc. rc\<lparr>rc_sm := (rc_sm rc)\<lparr>cl_sampleQueues := []\<rparr>\<rparr>)"

definition RTSPClient_destroy :: "unit client_cmd" where
  "RTSPClient_destroy = RTSPClient_detachTransport"

definition startStreamFlush :: "unit client_cmd" where
  "startStreamFlush = modify (\<lambda>rc. rc\<lparr>rc_timers := rc_timers rc + 1\<rparr>)"

text \<open>\<^verbatim>\<open>flushInterval\<close> is the last timer that was started.\<close>

definition stopStreamFlush :: "unit client_cmd" where
  "stopStreamFlush = modify (\<lambda>rc. rc\<lparr>rc_timers := rc_timers rc - 1\<rparr>)"

definition flush_tick :: "unit client_cmd" where
  "flush_tick = seqC (get rc_paused) (\<lambda>p. if \<not> p then rc_dispatch ''flush'' else ret ())"

definition on_tracks :: "unit client_cmd" where
  "on_tracks = seqC (rc_dispatch ''tracks'') (\<lambda>_. startStreamFlush)"

definition setCredentials :: "string \<Rightarrow> string \<Rightarrow> unit client_cmd" where
  "setCredentials user password = modify (\<lambda>rc. rc\<lparr>rc_sm := (rc_sm rc)\<lparr>cl_endpoint := (cl_endpoint (rc_sm rc))
     \<lparr>u_user := Some user, u_pass := Some password, u_auth := user @ '':'' @ password\<rparr>\<rparr>\<rparr>)"

section \<open>Handlers of the transport's events\<close>

definition BaseClient_onConnected :: "unit client_cmd" where
  "BaseClient_onConnected = seqC (get id) (\<lambda>rc.
     seqC (if \<not> cl_seekable (rc_sm rc)
       then (case rc_transport rc of
               None \<Rightarrow> throw TypeErr
             | Some t \<Rightarrow> seqC (modify (\<lambda>rc. rc\<lparr>rc_transport := Some (t\<lparr>tr_dataQueue := []\<rparr>)\<rparr>)) (\<lambda>_. rc_dispatch ''clear''))
       else ret ()) (\<lambda>_. modify (\<lambda>rc. rc\<lparr>rc_connected := True\<rparr>)))"

definition RTSPClient_onConnected :: "server \<Rightarrow> unit client_cmd" where
  "RTSPClient_onConnected srv = seqC (sm_cmd (onConnected srv)) (\<lambda>_. BaseClient_onConnected)"

definition RTSPClient_onDisconnected :: "unit client_cmd" where
  "RTSPClient_onDisconnected = seqC (modify (\<lambda>rc. rc\<lparr>rc_connected := False\<rparr>)) (\<lambda>_. sm_cmd (detach onDisconnected))"

text \<open>The loop over \<^verbatim>\<open>dataQueue\<close> takes the messages from its end; the argument is the reversed queue.\<close>

definition set_dataQueue :: "bytes list \<Rightarrow> rtsp_client \<Rightarrow> rtsp_client" where
  "set_dataQueue q rc = rc\<lparr>rc_transport := map_option (\<lambda>t. t\<lparr>tr_dataQueue := q\<rparr>) (rc_transport rc)\<rparr>"

fun drain_data :: "bytes list \<Rightarrow> rtsp_client \<Rightarrow> (unit result \<times> rtsp_client) option" where
  "drain_data [] rc = Some (Inr (), rc)"
| "drain_data (d # ds) rc = (case onData d (rc_sm (set_dataQueue (rev ds) rc)) of
       None \<Rightarrow> None
     | Some (Inl e, c) \<Rightarrow> Some (Inl e, (set_dataQueue (rev ds) rc)\<lparr>rc_sm := c\<rparr>)
     | Some (Inr _, c) \<Rightarrow> drain_data ds ((set_dataQueue (rev ds) rc)\<lparr>rc_sm := c\<rparr>))"

definition BaseClient_onData :: "rtsp_client \<Rightarrow> (unit result \<times> rtsp_client) option" where
  "BaseClient_onData rc = (if rc_connected rc
     then (case rc_transport rc of None \<Rightarrow> Some (Inl TypeErr, rc) | Some t \<Rightarrow> drain_data (rev (tr_dataQueue t)) rc)
     else Some (Inr (), rc))"

definition on_transport_event :: "server \<Rightarrow> string \<Rightarrow> rtsp_client \<Rightarrow> rtsp_client option" where
  "on_transport_event srv ev rc =
     map_option (\<lambda>(r, rc1). case r of Inl e \<Rightarrow> rc1\<lparr>rc_reported := rc_reported rc1 @ [e]\<rparr> | Inr _ \<Rightarrow> rc1)
       (if ev = ''data'' then BaseClient_onData rc
        else if ev = ''connected'' then Some (RTSPClient_onConnected srv rc)
        else if ev = ''disconnected'' then Some (RTSPClient_onDisconnected rc)
        else Some (Inr (), rc))"

fun on_transport_events :: "server \<Rightarrow> string list \<Rightarrow> rtsp_client \<Rightarrow> rtsp_client option" where
  "on_transport_events srv [] rc = Some rc"
| "on_transport_events srv (ev # evs) rc = (case on_transport_event srv ev rc of
       None \<Rightarrow> None | Some rc1 \<Rightarrow> on_transport_events srv evs rc1)"

text \<open>Something happens to the transport: the client handles what it dispatches.\<close>

definition transport_happens :: "server \<Rightarrow> tr_event \<Rightarrow> rtsp_client \<Rightarrow> rtsp_client option" where
  "transport_happens srv ev rc = (case rc_transport rc of
       None \<Rightarrow> Some rc
     | Some t \<Rightarrow> (let t1 = tr_step ev t
         in on_transport_events srv (drop (length (tr_dispatched t)) (tr_dispatched t1)) (rc\<lparr>rc_transport := Some t1\<rparr>)))"

fun transport_runs :: "server \<Rightarrow> tr_event list \<Rightarrow> rtsp_client \<Rightarrow> rtsp_client option" where
  "transport_runs srv [] rc = Some rc"
| "transport_runs srv (ev # evs) rc = (case transport_happens srv ev rc of
       None \<Rightarrow> None | Some rc1 \<Rightarrow> transport_runs srv evs rc1)"

definition RTSPClient :: "int \<Rightarrow> url \<Rightarrow> string \<Rightarrow> rtsp_client" where
  "RTSPClient flush endpoint clock = \<lparr>rc_flush = flush, rc_sm = RTSPClientSM endpoint clock, rc_sourceUrl = None,
     rc_paused = True, rc_connected = False, rc_transport = None, rc_timers = 0, rc_dispatched = [], rc_reported = []\<rparr>"

section \<open>From the socket to the sample queue\<close>

text \<open>A client that is connected handles a media message when it arrives.\<close>

definition receiving :: "rtsp_client \<Rightarrow> bool" where
  "receiving rc \<longleftrightarrow> rc_connected rc \<and> (\<exists>t. rc_transport rc = Some t \<and> tr_listening t \<and> tr_dataQueue t = [])"

lemma media_message:
  assumes "receiving rc" "m = 36 # m'" "onData m (rc_sm rc) = Some (Inr (), c)"
  shows "\<exists>rc'. transport_happens srv (Message m) rc = Some rc' \<and> receiving rc' \<and> rc_sm rc' = c \<and>
    rc_dispatched rc' = rc_dispatched rc \<and> rc_paused rc' = rc_paused rc"
proof -
  obtain t where t: "rc_transport rc = Some t" "tr_listening t" "tr_dataQueue t = []" "rc_connected rc"
    using assms(1) by (auto simp: receiving_def)
  let ?t = "t\<lparr>tr_dataQueue := [m], tr_dispatched := tr_dispatched t @ [''data'']\<rparr>"
  have "tr_step (Message m) t = ?t"
    using t by (simp add: tr_step_def ws_onmessage_def tr_dispatch_def assms(2))
  then show ?thesis
    using t assms(3) by (auto simp: transport_happens_def on_transport_event_def BaseClient_onData_def set_dataQueue_def receiving_def)
qed

lemma media_messages:
  assumes "receiving rc" "\<forall>m \<in> set ms. \<exists>m'. m = 36 # m'" "run_data ms (rc_sm rc) = Some (Inr (), c)"
  shows "\<exists>rc'. transport_runs srv (map Message ms) rc = Some rc' \<and> receiving rc' \<and> rc_sm rc' = c"
  using assms
proof (induction ms arbitrary: rc)
  case (Cons m ms)
  obtain c1 where c1: "onData m (rc_sm rc) = Some (Inr (), c1)" "run_data ms c1 = Some (Inr (), c)"
    using Cons.prems(3) by (auto split: option.splits sum.splits)
  obtain m' where "m = 36 # m'" using Cons.prems(2) by auto
  from media_message [OF Cons.prems(1) this c1(1)] obtain rc1 where
    "transport_happens srv (Message m) rc = Some rc1" "receiving rc1" "rc_sm rc1 = c1" by blast
  with Cons.IH [of rc1] Cons.prems(2) c1(2) show ?case by auto
qed auto

text \<open>The messages of the socket that carry the packets of a playing video track end up in the queue of
  the track: through the transport's queue, the client, the protocol and the depacketizer, none lost, in
  order of arrival, one NAL unit each.\<close>

lemma socket_messages_reach_queue:
  assumes "receiving rc" "video_track (rc_sm rc) pt ch off None q" "\<forall>p \<in> set ps. vp_ok p" "0 \<le> pt" "pt < 128" "0 \<le> ch" "ch < 256"
  shows "\<exists>rc'. transport_runs srv (map (\<lambda>p. Message (interleaved_frame ch (vp_bytes pt p))) ps) rc = Some rc' \<and> receiving rc' \<and>
    map_of (cl_sampleQueues (rc_sm rc')) PT_H264 = Some (q @ map2 (\<lambda>p t. [vp_unit p (t - hd (unwrap_run off (map vp_ts ps)))])
      ps (unwrap_run off (map vp_ts ps)))"
proof -
  obtain c where c: "run_data (map (\<lambda>p. interleaved_frame ch (vp_bytes pt p)) ps) (rc_sm rc) = Some (Inr (), c)"
    "map_of (cl_sampleQueues c) PT_H264 = Some (q @ map2 (\<lambda>p t. [vp_unit p (t - hd (unwrap_run off (map vp_ts ps)))])
      ps (unwrap_run off (map vp_ts ps)))"
    using video_packets_taken [OF assms(2-7)] by (auto simp: video_track_def)
  have "\<forall>m \<in> set (map (\<lambda>p. interleaved_frame ch (vp_bytes pt p)) ps). \<exists>m'. m = 36 # m'"
    by (auto simp: interleaved_frame_def)
  from media_messages [OF assms(1) this c(1)] c(2) show ?thesis by (auto simp: comp_def)
qed

definition example_receiver :: rtsp_client where
  "example_receiver = (RTSPClient 200 example_endpoint [])\<lparr>rc_sm := example_player, rc_connected := True,
     rc_transport := Some (ws_onopen 0 (WebsocketTransport example_endpoint ''rtsp'' ''ws://cam/ws''))\<rparr>"

lemma example_receiver_receives: "receiving example_receiver" "rc_sm example_receiver = example_player"
  by (simp_all add: receiving_def example_receiver_def RTSPClient_def WebsocketTransport_def ws_onopen_def tr_dispatch_def
      set_socket_def tr_connect_def tr_disconnect_def tr_connect_socket_def Let_def)

lemma socket_messages_reach_queue_witness:
  "\<exists>rc'. transport_runs (\<lambda>_. Inl TypeErr) [Message (interleaved_frame 0 (vp_bytes 96
       \<lparr>vp_marker = True, vp_seq = 1, vp_ts = 1000, vp_ssrc = 7, vp_nri = 0x60, vp_type = 5, vp_body = [1, 2]\<rparr>))] example_receiver = Some rc' \<and>
     receiving rc' \<and> map_of (cl_sampleQueues (rc_sm rc')) PT_H264 = Some [[VideoUnit (NALU 5 0x60 [1, 2] 0 None)]]"
proof -
  let ?ps = "[\<lparr>vp_marker = True, vp_seq = 1, vp_ts = 1000, vp_ssrc = 7, vp_nri = 0x60, vp_type = 5, vp_body = [1, 2]\<rparr>]"
  have ok: "\<forall>p \<in> set ?ps. vp_ok p" by (simp add: vp_ok_def)
  have tr: "video_track (rc_sm example_receiver) 96 0 \<lparr>ts_last = 0, ts_overflow = 0\<rparr> None []"
    using example_player_track example_receiver_receives(2) by simp
  from socket_messages_reach_queue [OF example_receiver_receives(1) tr ok, of "\<lambda>_. Inl TypeErr"] show ?thesis
    by (simp add: unwrap_ts_def vp_unit_def)
qed

text \<open>Messages that arrive before the client counts as connected wait; the next one makes the client take
  them from the end of the queue.\<close>

lemma backlog_reversed:
  assumes "rc_connected rc" "rc_transport rc = Some t" "tr_listening t" "tr_dataQueue t = [m1, m2]"
    and "onData (36 # m3) (rc_sm rc) = Some (Inr (), c1)" "onData m2 c1 = Some (Inr (), c2)" "onData m1 c2 = Some (Inr (), c3)"
  shows "map_option rc_sm (transport_happens srv (Message (36 # m3)) rc) = Some c3"
  using assms by (simp add: transport_happens_def tr_step_def ws_onmessage_def tr_dispatch_def on_transport_event_def
      BaseClient_onData_def set_dataQueue_def)

end
