(* ===== verification/Tracks.thy ===== *)
theory Tracks
  imports MseSource Client Remux
begin

text \<open>
  Class \<^verbatim>\<open>Remuxer\<close> of \<^verbatim>\<open>demos/rtsp/rtsp.dev.js\<close>: it makes a remuxer for every track of the client, hands
  the units in the client's queues to them, and feeds the fragments that they make to the media source.
  The client and the media source are part of its state, since it reads and changes them. A listener
  that is called by an event does not pass its exceptions on.
\<close>

section \<open>Tracks\<close>

datatype track = VideoTrk h264_remuxer | AudioTrk aac_remuxer

fun tk_mp4track :: "track \<Rightarrow> mp4_track" where
  "tk_mp4track (VideoTrk r) = b_track r"
| "tk_mp4track (AudioTrk r) = b_track r"

fun tk_timescale :: "track \<Rightarrow> rat" where
  "tk_timescale (VideoTrk r) = b_timescale r"
| "tk_timescale (AudioTrk r) = b_timescale r"

fun tk_duration :: "track \<Rightarrow> rat" where
  "tk_duration (VideoTrk r) = b_duration r"
| "tk_duration (AudioTrk r) = b_duration r"

fun tk_ready :: "track \<Rightarrow> bool" where
  "tk_ready (VideoTrk r) \<longleftrightarrow> b_ready r \<and> b_samples r \<noteq> []"
| "tk_ready (AudioTrk r) \<longleftrightarrow> b_ready r \<and> b_samples r \<noteq> []"

fun tk_set_duration :: "rat \<Rightarrow> track \<Rightarrow> track" where
  "tk_set_duration d (VideoTrk r) = VideoTrk (r\<lparr>b_duration := d\<rparr>)"
| "tk_set_duration d (AudioTrk r) = AudioTrk (r\<lparr>b_duration := d\<rparr>)"

fun tk_set_offset :: "rat \<Rightarrow> track \<Rightarrow> track" where
  "tk_set_offset t (VideoTrk r) = VideoTrk (r\<lparr>b_timeOffset := t\<rparr>)"
| "tk_set_offset t (AudioTrk r) = AudioTrk (r\<lparr>b_timeOffset := t\<rparr>)"

fun tk_set_mp4_duration :: "rat \<Rightarrow> track \<Rightarrow> track" where
  "tk_set_mp4_duration d (VideoTrk r) = VideoTrk (r\<lparr>b_track := (b_track r)\<lparr>t_duration := d\<rparr>\<rparr>)"
| "tk_set_mp4_duration d (AudioTrk r) = AudioTrk (r\<lparr>b_track := (b_track r)\<lparr>t_duration := d\<rparr>\<rparr>)"

fun tk_init :: "track \<Rightarrow> track result" where
  "tk_init (VideoTrk r) = bindE (base_init r None None True) (\<lambda>r. Inr (VideoTrk r))"
| "tk_init (AudioTrk r) = bindE (base_init r None None True) (\<lambda>r. Inr (AudioTrk r))"

fun tk_flush :: "track \<Rightarrow> track" where
  "tk_flush (VideoTrk r) = VideoTrk (base_flush r)"
| "tk_flush (AudioTrk r) = AudioTrk (base_flush r)"

fun tk_getPayload :: "bool \<Rightarrow> track \<Rightarrow> (bytes option \<times> track) result" where
  "tk_getPayload chrome (VideoTrk r) = bindE (h264_getPayload chrome r) (\<lambda>(pay, r). Inr (pay, VideoTrk r))"
| "tk_getPayload chrome (AudioTrk r) = bindE (aac_getPayload r) (\<lambda>(pay, r). Inr (pay, AudioTrk r))"

text \<open>\<^verbatim>\<open>MP4.moof(track.seq, track.scaled(track.firstDTS), track.mp4track)\<close>.\<close>

fun tk_moof :: "track \<Rightarrow> bytes" where
  "tk_moof (VideoTrk r) = moof (b_seq r) (scaled r (h_firstDTS r)) (b_track r)"
| "tk_moof (AudioTrk r) = moof (b_seq r) (scaled r (a_firstDTS r)) (b_track r)"

text \<open>The queues hold units of their own kind (theory \<^verbatim>\<open>Aac\<close>, the dispatch by the kind of the track); a unit
  of another kind has none of the methods that the remuxer calls.\<close>

fun tk_remux :: "track \<Rightarrow> media_unit \<Rightarrow> track \<times> unit result" where
  "tk_remux (VideoTrk r) (VideoUnit u) = (case h264_remux r u of (r1, res) \<Rightarrow> (VideoTrk r1, res))"
| "tk_remux (AudioTrk r) (AudioUnit f) = (AudioTrk (aac_remux r f), Inr ())"
| "tk_remux t u = (t, Inl TypeErr)"

definition TrackTimescale :: "payload_type \<Rightarrow> rat" where
  "TrackTimescale ty = (case ty of PT_H264 \<Rightarrow> 90000 | PT_AAC \<Rightarrow> 0)"

definition TrackScaleFactor :: "payload_type \<Rightarrow> rat" where
  "TrackScaleFactor ty = (case ty of PT_H264 \<Rightarrow> 1 | PT_AAC \<Rightarrow> 0)"

text \<open>\<^verbatim>\<open>duration || 1\<close>: undefined, NaN and 0 count as 1.\<close>

definition or_one :: "rat option \<Rightarrow> rat" where
  "or_one d = (case d of Some x \<Rightarrow> if x = 0 then 1 else x | None \<Rightarrow> 1)"

text \<open>\<^verbatim>\<open>new TrackConverters[type](TrackTimescale[type], TrackScaleFactor[type], params)\<close>. An audio configuration
  without a sampling rate would make every time NaN; it is outside the model.\<close>

definition new_track :: "int \<Rightarrow> payload_type \<Rightarrow> track_params \<Rightarrow> track result" where
  "new_track track_id ty params = (case ty of
       PT_H264 \<Rightarrow> bindE (H264Remuxer track_id (TrackTimescale ty) (TrackScaleFactor ty) (tp_sps params) (tp_pps params))
         (\<lambda>r. Inr (VideoTrk r))
     | PT_AAC \<Rightarrow>
         (let r = AACRemuxer track_id (TrackTimescale ty) (TrackScaleFactor ty) (or_one (tp_duration params))
          in case tp_config params of
               None \<Rightarrow> Inr (AudioTrk r)
             | Some conf \<Rightarrow> (case ac_samplerate conf of
                 None \<Rightarrow> Inl (ErrMsg ''sampling rate undefined'')
               | Some rate \<Rightarrow> Inr (AudioTrk (aac_setConfig r (ac_config conf) (ac_codec conf) rate (ac_channels conf))))))"

text \<open>The rest of the loop body of \<^verbatim>\<open>onTracks\<close>: offset and durations.\<close>

definition track_times :: "track_info \<Rightarrow> track \<Rightarrow> track" where
  "track_times ti t =
     (let t1 = (if ti_offset ti \<noteq> 0 then tk_set_offset (of_int (ti_offset ti)) t else t)
      in case ti_duration ti of
           Some d \<Rightarrow> if d = 0 then tk_set_duration 1 t1
             else tk_set_duration d (tk_set_mp4_duration
               (js_mul d (if tk_timescale t1 \<noteq> 0 then tk_timescale t1 else TrackTimescale (ti_type ti))) t1)
         | None \<Rightarrow> tk_set_duration 1 t1)"

section \<open>The remuxer\<close>

record remuxer =
  rx_tracks :: "(payload_type \<times> track) list"
  rx_initialized :: bool
  rx_enabled :: bool
  rx_initSegments :: "(payload_type \<times> bytes) list"
  rx_codecs :: "string list"
  rx_source :: source
  rx_client :: "rtsp_client option"
  rx_listening :: bool                       \<comment> \<open>the listener for \<^verbatim>\<open>ready\<close> is registered\<close>
  rx_mse_listening :: bool                   \<comment> \<open>\<^verbatim>\<open>initMSEHandlers\<close> has run\<close>
  rx_track_id :: int
  rx_feeding :: "payload_type list"          \<comment> \<open>init segments that wait for the media source\<close>
  rx_dispatched :: "string list"
  rx_reported :: "js_error list"

type_synonym 'a remux_cmd = "(remuxer, 'a) cmd"

definition source_cmd :: "'a source_cmd \<Rightarrow> 'a remux_cmd" where
  "source_cmd m rx = (case m (rx_source rx) of (r, so) \<Rightarrow> (r, rx\<lparr>rx_source := so\<rparr>))"

definition rx_dispatch :: "string \<Rightarrow> unit remux_cmd" where
  "rx_dispatch ev = modify (\<lambda>rx. rx\<lparr>rx_dispatched := rx_dispatched rx @ [ev]\<rparr>)"

definition listener :: "unit remux_cmd \<Rightarrow> unit remux_cmd" where
  "listener m = catchC m (\<lambda>e. modify (\<lambda>rx. rx\<lparr>rx_reported := rx_reported rx @ [e]\<rparr>))"

definition track_keys :: "remuxer \<Rightarrow> payload_type list" where
  "track_keys rx = sort (map fst (rx_tracks rx))"

definition put_track :: "payload_type \<Rightarrow> track \<Rightarrow> unit remux_cmd" where
  "put_track k t = modify (\<lambda>rx. rx\<lparr>rx_tracks := AList.update k t (rx_tracks rx)\<rparr>)"

definition the_track :: "payload_type \<Rightarrow> track remux_cmd" where
  "the_track k = seqC (get (\<lambda>rx. map_of (rx_tracks rx) k)) (\<lambda>t. case t of None \<Rightarrow> throw TypeErr | Some t \<Rightarrow> ret t)"

definition initMSEHandlers :: "unit remux_cmd" where
  "initMSEHandlers = modify (\<lambda>rx. rx\<lparr>rx_mse_listening := True\<rparr>)"

text \<open>\<^verbatim>\<open>mse.clear()\<close> also takes the handlers off the media source, with all of its listeners.\<close>

definition Remuxer_clear_source :: "unit remux_cmd" where
  "Remuxer_clear_source = seqC (source_cmd MSE_clear) (\<lambda>_. modify (\<lambda>rx. rx\<lparr>rx_mse_listening := False\<rparr>))"

text \<open>\<^verbatim>\<open>reset\<close> up to its \<^verbatim>\<open>await\<close>; the handlers of the media source are registered when it is open.\<close>

definition Remuxer_reset :: "unit remux_cmd" where
  "Remuxer_reset =
     seqC (modify (\<lambda>rx. rx\<lparr>rx_tracks := [], rx_initialized := False, rx_initSegments := [], rx_codecs := [],
       rx_enabled := False, rx_feeding := []\<rparr>)) (\<lambda>_. Remuxer_clear_source)"

definition onTracks :: "track_info list \<Rightarrow> unit remux_cmd" where
  "onTracks infos =
     seqC (forC infos (\<lambda>ti.
       seqC (get rx_track_id) (\<lambda>i.
       seqC (modify (\<lambda>rx. rx\<lparr>rx_track_id := i + 1\<rparr>)) (\<lambda>_.
       seqC (liftC (new_track i (ti_type ti) (ti_params ti))) (\<lambda>t.
         put_track (ti_type ti) (track_times ti t)))))) (\<lambda>_.
     seqC (get rx_client) (\<lambda>c. case c of
       None \<Rightarrow> throw TypeErr
     | Some rc \<Rightarrow> source_cmd (MSE_setLive (Some (\<not> cl_seekable (rc_sm rc))))))"

definition setTimeOffset :: "rat \<Rightarrow> payload_type \<Rightarrow> unit remux_cmd" where
  "setTimeOffset off k = seqC (get (\<lambda>rx. map_of (rx_tracks rx) k)) (\<lambda>t. case t of
       None \<Rightarrow> ret () | Some t \<Rightarrow> put_track k (tk_set_offset off t))"

text \<open>\<^verbatim>\<open>PayloadType.map\<close>.\<close>

definition pt_media :: "payload_type \<Rightarrow> string" where
  "pt_media k = (case k of PT_H264 \<Rightarrow> ''video'' | PT_AAC \<Rightarrow> ''audio'')"

definition initMSE :: "browser \<Rightarrow> payload_type \<Rightarrow> string \<Rightarrow> unit remux_cmd" where
  "initMSE br k codec = seqC (get rx_codecs) (\<lambda>codecs.
     if isSupported br codecs
     then seqC (source_cmd (setCodec k (pt_media k @ ''/mp4; codecs='' @ [CHR 0x22] @ codec @ [CHR 0x22]))) (\<lambda>_.
            modify (\<lambda>rx. rx\<lparr>rx_feeding := rx_feeding rx @ [k]\<rparr>))
     else throw (ErrMsg ''Codecs are not supported''))"

text \<open>What follows \<^verbatim>\<open>mediaReady\<close>: the source buffers are made; the tracks whose buffer was made are fed their
  initialisation segments, and when no promise was rejected, \<^verbatim>\<open>enabled\<close> is set.\<close>

fun feed_segments :: "browser \<Rightarrow> payload_type list \<Rightarrow> bool remux_cmd" where
  "feed_segments br [] = ret True"
| "feed_segments br (k # ks) =
     seqC (get (\<lambda>rx. map_of (rx_initSegments rx) k)) (\<lambda>seg.
     seqC (case seg of
        None \<Rightarrow> ret True
      | Some seg \<Rightarrow> catchC (seqC (source_cmd (MSE_feed br k [seg])) (\<lambda>_. ret True)) (\<lambda>e. ret False)) (\<lambda>fed.
     seqC (feed_segments br ks) (\<lambda>all. ret (fed \<and> all))))"

definition feed_init_segments :: "browser \<Rightarrow> unit remux_cmd" where
  "feed_init_segments br =
     seqC (source_cmd mediaReady_then) (\<lambda>made.
     seqC (get rx_feeding) (\<lambda>ks.
     seqC (feed_segments br (filter (\<lambda>k. k \<in> set made) ks)) (\<lambda>fed.
       modify (\<lambda>rx. rx\<lparr>rx_feeding := [], rx_enabled := (rx_enabled rx \<or> fed \<and> set ks \<subseteq> set made)\<rparr>))))"

definition Remuxer_init :: "browser \<Rightarrow> unit remux_cmd" where
  "Remuxer_init br =
     seqC (modify (\<lambda>rx. rx\<lparr>rx_codecs := []\<rparr>)) (\<lambda>_.
     seqC (get track_keys) (\<lambda>ks.
     seqC (forC ks (\<lambda>k. seqC (the_track k) (\<lambda>t.
        if \<not> isSupported br [t_codec (tk_mp4track t)]
        then throw (ErrMsg (pt_media k @ '' codec '' @ t_codec (tk_mp4track t) @ '' is not supported''))
        else seqC (modify (\<lambda>rx. rx\<lparr>rx_codecs := rx_codecs rx @ [t_codec (tk_mp4track t)]\<rparr>)) (\<lambda>_.
             seqC (liftC (tk_init t)) (put_track k))))) (\<lambda>_.
     seqC (forC ks (\<lambda>k. seqC (the_track k) (\<lambda>t.
        seqC (modify (\<lambda>rx. rx\<lparr>rx_initSegments := AList.update k
            (initSegment [tk_mp4track t] (js_mul (tk_duration t) (tk_timescale t)) (tk_timescale t)) (rx_initSegments rx)\<rparr>)) (\<lambda>_.
          initMSE br k (t_codec (tk_mp4track t)))))) (\<lambda>_.
     seqC (modify (\<lambda>rx. rx\<lparr>rx_initialized := True\<rparr>)) (\<lambda>_.
     seqC (get (\<lambda>rx. so_mediaReady (rx_source rx))) (\<lambda>rdy. if rdy then feed_init_segments br else ret ()))))))"

text \<open>The media source has opened: the handlers are registered, the source buffers are made, the segments fed.\<close>

definition media_opened :: "browser \<Rightarrow> unit remux_cmd" where
  "media_opened br =
     seqC (get (\<lambda>rx. so_resolved (rx_source rx))) (\<lambda>before.
     seqC (source_cmd on_sourceopen) (\<lambda>_.
     if before then ret ()
     else seqC initMSEHandlers (\<lambda>_.
          seqC (get rx_feeding) (\<lambda>ks. if ks \<noteq> [] then feed_init_segments br else ret ()))))"

section \<open>Samples and fragments\<close>

text \<open>The units of one message go to the track of their queue, if there is one.\<close>

fun remux_units :: "payload_type \<Rightarrow> media_unit list \<Rightarrow> unit remux_cmd" where
  "remux_units k [] = ret ()"
| "remux_units k (u # us) =
     seqC (seqC (get (\<lambda>rx. map_of (rx_tracks rx) k)) (\<lambda>t. case t of
        None \<Rightarrow> ret ()
      | Some t \<Rightarrow> (case tk_remux t u of (t1, res) \<Rightarrow> seqC (put_track k t1) (\<lambda>_. liftC res)))) (\<lambda>_. remux_units k us)"

definition set_queue :: "payload_type \<Rightarrow> media_unit list list \<Rightarrow> unit remux_cmd" where
  "set_queue k q = modify (\<lambda>rx. rx\<lparr>rx_client := map_option (\<lambda>rc. rc\<lparr>rc_sm := (rc_sm rc)
     \<lparr>cl_sampleQueues := AList.update k q (cl_sampleQueues (rc_sm rc))\<rparr>\<rparr>) (rx_client rx)\<rparr>)"

fun drain_queue :: "payload_type \<Rightarrow> media_unit list list \<Rightarrow> unit remux_cmd" where
  "drain_queue k [] = ret ()"
| "drain_queue k (us # q) = seqC (set_queue k q) (\<lambda>_. seqC (remux_units k us) (\<lambda>_. drain_queue k q))"

definition queues_of :: "remuxer \<Rightarrow> (payload_type \<times> media_unit list list) list option" where
  "queues_of rx = map_option (\<lambda>rc. cl_sampleQueues (rc_sm rc)) (rx_client rx)"

definition client_queue :: "payload_type \<Rightarrow> media_unit list list remux_cmd" where
  "client_queue k = get (\<lambda>rx. case queues_of rx of None \<Rightarrow> [] | Some qs \<Rightarrow> (case map_of qs k of None \<Rightarrow> [] | Some q \<Rightarrow> q))"

text \<open>What the client puts into its queues is an array, so the branch of \<^verbatim>\<open>onSamples\<close> for a missing one is
  never taken.\<close>

definition onSamples :: "unit remux_cmd" where
  "onSamples = seqC (get queues_of) (\<lambda>qs. case qs of
       None \<Rightarrow> throw TypeErr
     | Some qs \<Rightarrow> forC (sort (map fst qs)) (\<lambda>k. seqC (client_queue k) (drain_queue k)))"

definition flush_track :: "browser \<Rightarrow> payload_type \<Rightarrow> unit remux_cmd" where
  "flush_track br k =
     seqC (the_track k) (\<lambda>t.
     seqC (liftC (tk_getPayload (br_chrome br) t)) (\<lambda>(pay, t1).
     seqC (put_track k t1) (\<lambda>_.
       case pay of
         None \<Rightarrow> ret ()
       | Some p \<Rightarrow> if p = [] then ret ()
           else seqC (source_cmd (MSE_feed br k [tk_moof t1, mdat p])) (\<lambda>_. put_track k (tk_flush t1)))))"

definition Remuxer_flush :: "browser \<Rightarrow> unit remux_cmd" where
  "Remuxer_flush br =
     seqC onSamples (\<lambda>_.
     seqC (get id) (\<lambda>rx.
     if \<not> rx_initialized rx then
       (if rx_tracks rx \<noteq> [] \<and> list_all (\<lambda>k. case map_of (rx_tracks rx) k of Some t \<Rightarrow> tk_ready t | None \<Rightarrow> False) (track_keys rx)
        then seqC (rx_dispatch ''ready'') (\<lambda>_. if rx_listening rx then listener (Remuxer_init br) else ret ())
        else ret ())
     else forC (track_keys rx) (flush_track br)))"

section \<open>The client and its events\<close>

definition onAudioConfig :: "payload_type \<Rightarrow> aac_config \<Rightarrow> unit remux_cmd" where
  "onAudioConfig k conf = seqC (get (\<lambda>rx. map_of (rx_tracks rx) k)) (\<lambda>t. case t of
       Some (AudioTrk r) \<Rightarrow> (case ac_samplerate conf of
           None \<Rightarrow> throw (ErrMsg ''sampling rate undefined'')
         | Some rate \<Rightarrow> put_track k (AudioTrk (aac_setConfig r (ac_config conf) (ac_codec conf) rate (ac_channels conf))))
     | _ \<Rightarrow> ret ())"

definition client_cmd :: "'a client_cmd \<Rightarrow> 'a remux_cmd" where
  "client_cmd m rx = (case rx_client rx of
       None \<Rightarrow> (Inl TypeErr, rx)
     | Some rc \<Rightarrow> (case m rc of (r, rc1) \<Rightarrow> (r, rx\<lparr>rx_client := Some rc1\<rparr>)))"

definition mseClose :: "server \<Rightarrow> unit remux_cmd" where
  "mseClose srv = seqC (client_cmd (RTSPClient_stop srv)) (\<lambda>_. rx_dispatch ''stopped'')"

text \<open>The track 2 is the audio track.\<close>

definition mseErrorDecode :: "unit remux_cmd" where
  "mseErrorDecode = seqC (get id) (\<lambda>rx.
     if map_of (rx_tracks rx) PT_AAC = None then ret ()
     else if map_of (so_buffers (rx_source rx)) PT_AAC = None then throw TypeErr
     else seqC (source_cmd (with_buffer PT_AAC destroy)) (\<lambda>_.
       modify (\<lambda>rx. rx\<lparr>rx_tracks := AList.delete PT_AAC (rx_tracks rx)\<rparr>)))"

text \<open>\<^verbatim>\<open>clientEventSource.destroy()\<close> takes every listener off the emitter of the client; the remuxer is the only one
  that registers any there. No event of the client reaches it then.\<close>

definition detachClient :: "unit remux_cmd" where
  "detachClient = modify (\<lambda>rx. rx\<lparr>rx_client := None\<rparr>)"

text \<open>The listeners for \<^verbatim>\<open>samples\<close> and \<^verbatim>\<open>audio_config\<close> are undefined; those for \<^verbatim>\<open>tracks\<close>, \<^verbatim>\<open>flush\<close> and \<^verbatim>\<open>clear\<close>
  act as \<open>client_event\<close> says.\<close>

definition attachClient :: "rtsp_client \<Rightarrow> unit remux_cmd" where
  "attachClient rc = seqC detachClient (\<lambda>_. modify (\<lambda>rx. rx\<lparr>rx_client := Some rc\<rparr>))"

definition on_clear :: "unit remux_cmd" where
  "on_clear = seqC (listener Remuxer_reset) (\<lambda>_. Remuxer_clear_source)"

definition client_event :: "browser \<Rightarrow> string \<Rightarrow> track_info list \<Rightarrow> unit remux_cmd" where
  "client_event br ev infos = listener
     (if ev = ''tracks'' then onTracks infos
      else if ev = ''flush'' then Remuxer_flush br
      else if ev = ''clear'' then on_clear
      else ret ())"

definition Remuxer_destroy :: "unit remux_cmd" where
  "Remuxer_destroy = seqC (modify (\<lambda>rx. rx\<lparr>rx_mse_listening := False\<rparr>)) (\<lambda>_.
     seqC (source_cmd MSE_destroy) (\<lambda>_.
     seqC detachClient (\<lambda>_. modify (\<lambda>rx. rx\<lparr>rx_listening := False\<rparr>))))"

definition Remuxer :: "video \<Rightarrow> int \<Rightarrow> remuxer" where
  "Remuxer mediaElement track_id = snd (seqC Remuxer_reset (\<lambda>_. modify (\<lambda>rx. rx\<lparr>rx_listening := True\<rparr>))
     \<lparr>rx_tracks = [], rx_initialized = False, rx_enabled = False, rx_initSegments = [], rx_codecs = [],
      rx_source = MSE [mediaElement], rx_client = None, rx_listening = False, rx_mse_listening = False,
      rx_track_id = track_id, rx_feeding = [], rx_dispatched = [], rx_reported = []\<rparr>)"

section \<open>The way of the samples\<close>

lemmas rx_defs = source_cmd_def put_track_def the_track_def cmd_defs

definition remux_all :: "track \<Rightarrow> media_unit list \<Rightarrow> track" where
  "remux_all t us = foldl (\<lambda>t u. fst (tk_remux t u)) t us"

lemma remux_all_simps [simp]:
  "remux_all t [] = t" "remux_all t (u # us) = remux_all (fst (tk_remux t u)) us"
  "remux_all t (us @ vs) = remux_all (remux_all t us) vs"
  by (simp_all add: remux_all_def)

text \<open>What the units of a queue do to the tracks.\<close>

definition tracks_after :: "payload_type \<Rightarrow> media_unit list \<Rightarrow> (payload_type \<Rightarrow> track option) \<Rightarrow> payload_type \<Rightarrow> track option" where
  "tracks_after k us m = m(k := map_option (\<lambda>t. remux_all t us) (m k))"

lemma remux_units_ok:
  "remux_units k us rx = (Inr (), rx') \<Longrightarrow>
     map_of (rx_tracks rx') = tracks_after k us (map_of (rx_tracks rx)) \<and> queues_of rx' = queues_of rx"
proof (induction us arbitrary: rx)
  case Nil
  then show ?case by (auto simp: ret_def tracks_after_def fun_eq_iff option.map_ident)
next
  case (Cons u us)
  show ?case
  proof (cases "map_of (rx_tracks rx) k")
    case None
    with Cons.prems have "remux_units k us rx = (Inr (), rx')" by (simp add: cmd_defs)
    from Cons.IH [OF this] None show ?thesis by (simp add: tracks_after_def)
  next
    case (Some t)
    let ?rx = "rx\<lparr>rx_tracks := AList.update k (fst (tk_remux t u)) (rx_tracks rx)\<rparr>"
    have "remux_units k us ?rx = (Inr (), rx')"
      using Cons.prems Some by (auto simp: rx_defs split: prod.splits sum.splits)
    from Cons.IH [OF this] Some show ?thesis
      by (auto simp: tracks_after_def queues_of_def update_conv' fun_eq_iff)
  qed
qed

lemma drain_queue_ok:
  "drain_queue k q rx = (Inr (), rx') \<Longrightarrow> queues_of rx = Some qs \<Longrightarrow> map_of qs k = Some q \<Longrightarrow>
     map_of (rx_tracks rx') = tracks_after k (concat q) (map_of (rx_tracks rx)) \<and>
     (\<exists>qs'. queues_of rx' = Some qs' \<and> map_of qs' = (map_of qs)(k \<mapsto> []))"
proof (induction q arbitrary: rx qs)
  case Nil
  then show ?case by (auto simp: ret_def tracks_after_def fun_eq_iff option.map_ident)
next
  case (Cons us q)
  obtain rx1 where rx1: "set_queue k q rx = (Inr (), rx1)" "rx_tracks rx1 = rx_tracks rx"
    "queues_of rx1 = Some (AList.update k q qs)"
    using Cons.prems(2) by (auto simp: set_queue_def modify_def queues_of_def)
  obtain rx2 where rx2: "remux_units k us rx1 = (Inr (), rx2)" "drain_queue k q rx2 = (Inr (), rx')"
    using Cons.prems(1) rx1(1) by (auto simp: seqC_Inr_iff)
  from remux_units_ok [OF rx2(1)] rx1 have
    tr: "map_of (rx_tracks rx2) = tracks_after k us (map_of (rx_tracks rx))" "queues_of rx2 = Some (AList.update k q qs)" by simp_all
  have "map_of (AList.update k q qs) k = Some q" by (simp add: update_conv')
  from Cons.IH [OF rx2(2) tr(2) this] tr(1) show ?case
    by (auto simp: update_conv' tracks_after_def map_option.compositionality comp_def fun_eq_iff)
qed

definition queued :: "(payload_type \<times> media_unit list list) list \<Rightarrow> payload_type \<Rightarrow> media_unit list" where
  "queued qs k = (case map_of qs k of None \<Rightarrow> [] | Some q \<Rightarrow> concat q)"

lemma client_queue_some: "queues_of rx = Some qs \<Longrightarrow> map_of qs k = Some q \<Longrightarrow> client_queue k rx = (Inr q, rx)"
  by (simp add: client_queue_def get_def)

lemma onSamples_loop:
  assumes "forC ks (\<lambda>k. seqC (client_queue k) (drain_queue k)) rx = (Inr (), rx')"
    and "distinct ks" "set ks \<subseteq> dom (map_of qs)" "queues_of rx = Some qs"
  shows "(\<forall>k. map_of (rx_tracks rx') k = map_option (\<lambda>t. remux_all t (if k \<in> set ks then queued qs k else [])) (map_of (rx_tracks rx) k)) \<and>
    (\<exists>qs'. queues_of rx' = Some qs' \<and> (\<forall>k. map_of qs' k = (if k \<in> set ks then Some [] else map_of qs k)))"
  using assms
proof (induction ks arbitrary: rx qs)
  case Nil
  then show ?case by (auto simp: ret_def option.map_ident)
next
  case (Cons k ks)
  obtain q where q: "map_of qs k = Some q" using Cons.prems(3) by auto
  from Cons.prems(1,4) q obtain rx1 where rx1: "drain_queue k q rx = (Inr (), rx1)"
    "forC ks (\<lambda>k. seqC (client_queue k) (drain_queue k)) rx1 = (Inr (), rx')"
    by (auto simp: seqC_Inr_iff client_queue_some)
  from drain_queue_ok [OF rx1(1) Cons.prems(4) q] obtain qs1 where
    d: "map_of (rx_tracks rx1) = tracks_after k (concat q) (map_of (rx_tracks rx))" "queues_of rx1 = Some qs1"
      "map_of qs1 = (map_of qs)(k \<mapsto> [])" by blast
  have ks: "distinct ks" "k \<notin> set ks" "set ks \<subseteq> dom (map_of qs1)" using Cons.prems(2,3) d(3) by auto
  have qk: "queued qs k = concat q" using q by (simp add: queued_def)
  have qj: "queued qs1 j = queued qs j" if "j \<noteq> k" for j using d(3) that by (simp add: queued_def)
  note IH = Cons.IH [OF rx1(2) ks(1,3) d(2)]
  have "map_of (rx_tracks rx') j = map_option (\<lambda>t. remux_all t (if j \<in> set (k # ks) then queued qs j else [])) (map_of (rx_tracks rx) j)" for j
    using IH ks(2) d(1) qk qj [of j]
    by (cases "j = k") (simp_all add: tracks_after_def map_option.compositionality comp_def)
  moreover have "\<exists>qs'. queues_of rx' = Some qs' \<and> (\<forall>j. map_of qs' j = (if j \<in> set (k # ks) then Some [] else map_of qs j))"
    using IH d(3) by (elim conjE exE) (auto intro!: exI)
  ultimately show ?case by blast
qed

text \<open>When the samples are handed over without an exception, every unit that waited in a queue of the
  client went, in order, to the remuxer of its track; the queues are empty; no other track changed.\<close>

lemma samples_reach_tracks:
  assumes "onSamples rx = (Inr (), rx')" "queues_of rx = Some qs" "distinct (map fst qs)"
  shows "(\<forall>k. map_of (rx_tracks rx') k = map_option (\<lambda>t. remux_all t (queued qs k)) (map_of (rx_tracks rx) k)) \<and>
    (\<exists>qs'. queues_of rx' = Some qs' \<and> (\<forall>k. map_of qs' k = map_option (\<lambda>_. []) (map_of qs k)))"
proof -
  have ks: "set (sort (map fst qs)) = dom (map_of qs)" by (simp add: dom_map_of_conv_image_fst)
  have 1: "(if k \<in> dom (map_of qs) then queued qs k else []) = queued qs k" for k by (auto simp: queued_def split: option.split)
  have 2: "(if k \<in> dom (map_of qs) then Some [] else map_of qs k) = map_option (\<lambda>_. []) (map_of qs k)" for k by (cases "map_of qs k") auto
  have loop: "forC (sort (map fst qs)) (\<lambda>k. seqC (client_queue k) (drain_queue k)) rx = (Inr (), rx')"
    using assms(1,2) by (simp add: onSamples_def seqC_def get_def)
  from onSamples_loop [OF loop _ _ assms(2)] assms(3) show ?thesis
    unfolding ks 1 2 by simp
qed

definition example_remuxer :: "(payload_type \<times> track) list \<Rightarrow> (payload_type \<times> media_unit list list) list \<Rightarrow> remuxer" where
  "example_remuxer ts qs = (Remuxer \<lparr>v_paused = True, v_time = 0, v_error = False\<rparr> 1)\<lparr>rx_tracks := ts,
     rx_client := Some (example_receiver\<lparr>rc_sm := example_player\<lparr>cl_sampleQueues := qs\<rparr>\<rparr>)\<rparr>"

lemma example_remuxer_fields:
  "rx_tracks (example_remuxer ts qs) = ts" "queues_of (example_remuxer ts qs) = Some qs"
  by (simp_all add: example_remuxer_def queues_of_def)

lemma samples_reach_tracks_witness:
  "\<exists>rx'. onSamples (example_remuxer [(PT_AAC, AudioTrk example_aac)] [(PT_AAC, [[AudioUnit (AACFrame [5] 2048 None)], [AudioUnit (AACFrame [6] 3072 None)]])]) = (Inr (), rx') \<and>
     map_of (rx_tracks rx') PT_AAC = Some (AudioTrk (aac_remux (aac_remux example_aac (AACFrame [5] 2048 None)) (AACFrame [6] 3072 None)))"
proof -
  let ?rx = "example_remuxer [(PT_AAC, AudioTrk example_aac)] [(PT_AAC, [[AudioUnit (AACFrame [5] 2048 None)], [AudioUnit (AACFrame [6] 3072 None)]])]"
  have "\<exists>rx'. onSamples ?rx = (Inr (), rx')"
    by (simp add: onSamples_def client_queue_def set_queue_def queues_of_def example_remuxer_def put_track_def cmd_defs)
  then obtain rx' where rx': "onSamples ?rx = (Inr (), rx')" by blast
  from samples_reach_tracks [OF rx' example_remuxer_fields(2)] rx' show ?thesis
    by (simp add: example_remuxer_fields queued_def)
qed

section \<open>Fragments\<close>

lemma NALU_getData_ne [simp]: "NALU_getData u \<noteq> []"
  using length_NALU_getData [of u] NALU_getSize_pos [of u] by auto

text \<open>A flush of a remuxer with one video track that has something to send.\<close>

lemma flush_only_track:
  assumes "onSamples rx = (Inr (), rx1)" "rx_initialized rx1" "rx_tracks rx1 = [(k, t)]"
  shows "Remuxer_flush br rx = flush_track br k rx1"
  using assms by (simp add: Remuxer_flush_def seqC_def get_def track_keys_def ret_def split: prod.split sum.split)

lemma flush_run:
  assumes "onSamples rx = (Inr (), rx1)" "rx_initialized rx1" "rx_tracks rx1 = [(PT_H264, VideoTrk r)]"
    and "h264_getPayload (br_chrome br) r = Inr (Some p, r1)" "p \<noteq> []"
    and "map_of (so_buffers (rx_source rx1)) PT_H264 = Some b" "ready b" "\<not> v_error (so_players (rx_source rx1) ! 0)"
    and "enough (br_append br PT_H264) (br_stack br)"
  shows "\<exists>so b'. Remuxer_flush br rx = (Inr (), rx1\<lparr>rx_source := so, rx_tracks := [(PT_H264, VideoTrk (base_flush r1))]\<rparr>) \<and>
    map_of (so_buffers so) PT_H264 = Some b' \<and> ready b' \<and> \<not> v_error (so_players so ! 0) \<and>
    mb_appended b' @ mb_queue b' = mb_appended b @ mb_queue b @ [tk_moof (VideoTrk r1), mdat p]"
proof -
  let ?frag = "[tk_moof (VideoTrk r1), mdat p]"
  obtain so b' v where so: "MSE_feed br PT_H264 ?frag (rx_source rx1) = (Inr (), so)" "map_of (so_buffers so) PT_H264 = Some b'"
    "ready b'" "mb_appended b' @ mb_queue b' = mb_appended b @ mb_queue b @ ?frag"
    "so_players so = (so_players (rx_source rx1))[0 := v]" "\<not> v_error v"
    using MSE_feed_in_order [OF assms(9), of "rx_source rx1" b ?frag] assms(6-8) by blast
  have "flush_track br PT_H264 rx1 = (Inr (), rx1\<lparr>rx_source := so, rx_tracks := [(PT_H264, VideoTrk (base_flush r1))]\<rparr>)"
    using assms(3-5) so(1) by (simp add: flush_track_def rx_defs)
  moreover have "\<not> v_error (so_players so ! 0)"
    using so(5,6) assms(8) by (cases "so_players (rx_source rx1)") simp_all
  ultimately show ?thesis
    using flush_only_track [OF assms(1-3)] so(2-4) by (intro exI [of _ so] exI [of _ b'] conjI) simp_all
qed

text \<open>C9: Flushing an initialised remuxer for a video track feeds the source buffer of the track, behind everything
  it was fed before, boxes from which a player cuts exactly the queued units that are to be kept, in decoding
  order; and nothing when there are none. The queue is empty then and the remuxer ready for the next units.\<close>

theorem flush_feeds_fragment:
  assumes "onSamples rx = (Inr (), rx1)" "rx_initialized rx1" "rx_tracks rx1 = [(PT_H264, VideoTrk r)]"
    and "h264_rem_ok r" "b_ready r" "b_initialized r" "b_samples r \<noteq> []"
    and "104 + 17 * length (b_samples r) < 2 ^ 32" "8 + t_len (b_track r) < 2 ^ 32"
    and "map_of (so_buffers (rx_source rx1)) PT_H264 = Some b" "ready b" "\<not> v_error (so_players (rx_source rx1) ! 0)"
    and "enough (br_append br PT_H264) (br_stack br)"
  shows "\<exists>rx' b' r' kept frag. Remuxer_flush br rx = (Inr (), rx') \<and>
    map_of (so_buffers (rx_source rx')) PT_H264 = Some b' \<and> ready b' \<and>
    mb_appended b' @ mb_queue b' = mb_appended b @ mb_queue b @ frag \<and>
    kept = kept_units r (h_nextDts r) None (sort_key rs_dts (map the (b_samples r))) \<and>
    (if kept = [] then frag = [] else fragment_units (concat frag) = Some (map NALU_getData kept)) \<and>
    subseq kept (map rs_unit (sort_key rs_dts (map the (b_samples r)))) \<and>
    rx_tracks rx' = [(PT_H264, VideoTrk r')] \<and> b_samples r' = [] \<and> (kept \<noteq> [] \<longrightarrow> h264_rem_ok r')"
proof -
  let ?kept = "kept_units r (h_nextDts r) None (sort_key rs_dts (map the (b_samples r)))"
  obtain out r1 where
    pay: "h264_getPayload (br_chrome br) r = Inr (out, r1)"
    and r1: "h264_rem_ok (base_flush r1)" "b_samples r1 = []"
    and res: "case out of None \<Rightarrow> ?kept = [] | Some pay \<Rightarrow> pay = concat (map NALU_getData ?kept) \<and>
      (\<forall>sn t. fragment_units (moof sn t (b_track r1) @ mdat pay) = Some (map NALU_getData ?kept))"
    using video_fragment [OF assms(4-9), of "br_chrome br"] by blast
  have kept: "?kept = [] \<longleftrightarrow> out = None \<or> out = Some []" using res by (cases ?kept) (auto split: option.splits)
  have frag: "fragment_units (moof sn t (b_track r1) @ mdat p) = Some (map NALU_getData ?kept)" if "out = Some p" for p sn t
    using res that by auto
  note sub = kept_units_subseq [of r "h_nextDts r" None "sort_key rs_dts (map the (b_samples r))"]
  show ?thesis
  proof (cases "\<exists>p. out = Some p \<and> p \<noteq> []")
    case False
    then have "flush_track br PT_H264 rx1 = (Inr (), rx1\<lparr>rx_tracks := [(PT_H264, VideoTrk r1)]\<rparr>)"
      using assms(3) pay by (auto simp: flush_track_def rx_defs split: option.split)
    with flush_only_track [OF assms(1-3)] assms(10,11) sub kept False r1(2) show ?thesis
      by (intro exI [of _ "rx1\<lparr>rx_tracks := [(PT_H264, VideoTrk r1)]\<rparr>"] exI [of _ b] exI [of _ r1] exI [of _ ?kept] exI [of _ "[]"]) auto
  next
    case True
    then obtain p where p: "out = Some p" "p \<noteq> []" by blast
    from flush_run [OF assms(1-3) pay [unfolded p(1)] p(2) assms(10-13)] obtain so b' where
      run: "Remuxer_flush br rx = (Inr (), rx1\<lparr>rx_source := so, rx_tracks := [(PT_H264, VideoTrk (base_flush r1))]\<rparr>)"
      "map_of (so_buffers so) PT_H264 = Some b'" "ready b'"
      "mb_appended b' @ mb_queue b' = mb_appended b @ mb_queue b @ [tk_moof (VideoTrk r1), mdat p]" by blast
    have "fragment_units (concat [tk_moof (VideoTrk r1), mdat p]) = Some (map NALU_getData ?kept)" using frag [OF p(1)] by simp
    moreover have "?kept \<noteq> []" "b_samples (base_flush r1) = []" using kept p r1(2) by (simp_all add: base_flush_def)
    ultimately show ?thesis using run sub r1(1)
      by (intro exI [of _ "_\<lparr>rx_source := so, rx_tracks := _\<rparr>"] exI conjI) (auto simp del: tk_moof.simps)
  qed
qed

definition roomy :: browser where
  "roomy = \<lparr>br_isTypeSupported = \<lambda>_. True, br_append = \<lambda>_ _. Accepted, br_stack = 3, br_chrome = False\<rparr>"

lemma roomy_enough: "enough (br_append roomy k) (br_stack roomy)"
proof -
  have "accepts_within (br_append roomy j) 0 k" for j k by (simp add: roomy_def)
  moreover have "4 * 0 + 3 \<le> br_stack roomy" by (simp add: roomy_def)
  ultimately show ?thesis unfolding enough_def by blast
qed

definition example_flushing :: remuxer where
  "example_flushing = (example_remuxer [(PT_H264, VideoTrk example_h264_queued)] [])\<lparr>rx_initialized := True,
     rx_source := (MSE [\<lparr>v_paused = True, v_time = 0, v_error = False\<rparr>])\<lparr>so_buffers := [(PT_H264, MSEBuffer ''video/mp4'')]\<rparr>\<rparr>"

lemma flush_feeds_fragment_witness:
  "\<exists>rx' b'. Remuxer_flush roomy example_flushing = (Inr (), rx') \<and>
    map_of (so_buffers (rx_source rx')) PT_H264 = Some b' \<and>
    fragment_units (concat (mb_appended b' @ mb_queue b')) = Some [[0, 0, 0, 2, 0x61, 3], [0, 0, 0, 3, 0x65, 1, 2]]"
proof -
  have s: "onSamples example_flushing = (Inr (), example_flushing)"
    by (simp add: onSamples_def queues_of_def example_flushing_def example_remuxer_def cmd_defs)
  have rx: "rx_initialized example_flushing" "rx_tracks example_flushing = [(PT_H264, VideoTrk example_h264_queued)]"
    "map_of (so_buffers (rx_source example_flushing)) PT_H264 = Some (MSEBuffer ''video/mp4'')"
    "\<not> v_error (so_players (rx_source example_flushing) ! 0)"
    by (simp_all add: example_flushing_def example_remuxer_def MSE_def)
  have new: "mb_appended (MSEBuffer ''video/mp4'' :: bytes mse_buffer) = []" "mb_queue (MSEBuffer ''video/mp4'' :: bytes mse_buffer) = []"
    by (simp_all add: MSEBuffer_def)
  from flush_feeds_fragment [OF s rx(1,2) example_h264_ready rx(3) ready_new rx(4) roomy_enough]
  obtain rx' b' r' kept frag where
    "Remuxer_flush roomy example_flushing = (Inr (), rx')" "map_of (so_buffers (rx_source rx')) PT_H264 = Some b'"
    "mb_appended b' @ mb_queue b' = frag" and k: "kept = [NALU 1 0x60 [3] 0 None, NALU 5 0x60 [1, 2] 3000 None]"
    "if kept = [] then frag = [] else fragment_units (concat frag) = Some (map NALU_getData kept)"
    unfolding new append_Nil example_h264_kept by (elim exE conjE) (rule that)
  moreover have "fragment_units (concat frag) = Some [[0, 0, 0, 2, 0x61, 3], [0, 0, 0, 3, 0x65, 1, 2]]"
    using k(2) unfolding k(1) example_h264_bytes by simp
  ultimately show ?thesis by (intro exI [of _ rx'] exI [of _ b'] conjI) simp_all
qed

end
