(* ===== verification/RtspSetup.thy ===== *)
theory RtspSetup
  imports RtspFlow RtspData SdpPrint
begin

text \<open>
  The set-up of a stream, from \<^verbatim>\<open>start\<close> to the state in which the client plays: OPTIONS, DESCRIBE, SETUP and
  PLAY with a server that grants them, for a description with one H.264 track.
\<close>

section \<open>Requests that are granted\<close>

text \<open>What a response says to the client; a body counts only behind its length.\<close>

definition read_of :: "response \<Rightarrow> rtsp_msg" where
  "read_of r = \<lparr>rm_headers = map (\<lambda>(k, v). (toLowerCase k, v)) (rs_headers r),
     rm_body = Some (if length_header r then rs_body r else []), rm_code = int (rs_code r), rm_statusLine = rs_reason r\<rparr>"

definition header_of :: "response \<Rightarrow> string \<Rightarrow> string option" where
  "header_of r k = map_of (map (\<lambda>(k, v). (toLowerCase k, v)) (rs_headers r)) k"

lemma read_header: "map_of (rm_headers (read_of r)) k = header_of r k"
  by (simp add: read_of_def header_of_def)

definition granted :: "response \<Rightarrow> bool" where
  "granted r \<longleftrightarrow> response_ok r \<and> rs_code r < 300"

text \<open>Whatever the \<open>n\<close>-th request is, the server answers \<open>r\<close>.\<close>

definition answers :: "server \<Rightarrow> nat \<Rightarrow> response \<Rightarrow> bool" where
  "answers srv n r \<longleftrightarrow> (\<forall>sent. length sent = n \<longrightarrow> srv sent = Inr (response_print r))"

definition online :: "client \<Rightarrow> bool" where
  "online c \<longleftrightarrow> cl_transport c \<and> cl_ready c = Inr () \<and> cl_authenticator c = NoAuth"

lemma request_granted:
  assumes "online c" "answers srv (Suc (length (cl_sent c))) r" "granted r"
  shows "sendRequest srv cmd host ps c
    = (Inr (read_of r), c\<lparr>cl_cSeq := cl_cSeq c + 1, cl_sent := cl_sent c @ [plain_request c cmd host ps]\<rparr>)"
proof -
  let ?c1 = "c\<lparr>cl_cSeq := cl_cSeq c + 1\<rparr>"
  have ps: "request_params ?c1 cmd ps = numbered c 1 ps"
    using assms(1) by (simp add: request_params_def numbered_def authorization_def online_def)
  have "srv (cl_sent c @ [plain_request c cmd host ps]) = Inr (response_print r)"
    using assms(2) by (simp add: answers_def)
  then have "send srv (plain_request c cmd host ps) ?c1
      = (Inr (read_of r), ?c1\<lparr>cl_sent := cl_sent c @ [plain_request c cmd host ps]\<rparr>)"
    using assms(1,3) by (simp add: send_def online_def granted_def SM_parse_print on_response_def read_of_def cmd_defs)
  then show ?thesis by (simp add: sendRequest_def numeral_2_eq_2 ps cmd_defs plain_request_def)
qed

text \<open>The method of a request is its first word.\<close>

definition method_of :: "string \<Rightarrow> string" where
  "method_of q = takeWhile (\<lambda>ch. ch \<noteq> CHR '' '') q"

lemma method_of_request: "CHR '' '' \<notin> set cmd \<Longrightarrow> method_of (plain_request c cmd host ps) = cmd"
proof -
  assume cmd: "CHR '' '' \<notin> set cmd"
  have "\<exists>t. foldl (\<lambda>r (param, value). r @ param @ '': '' @ value @ CRLF) q xs = q @ t" for q and xs :: params
  proof (induction xs arbitrary: q)
    case (Cons x xs)
    obtain t where "foldl (\<lambda>r (param, value). r @ param @ '': '' @ value @ CRLF)
        (q @ fst x @ '': '' @ snd x @ CRLF) xs = (q @ fst x @ '': '' @ snd x @ CRLF) @ t"
      using Cons.IH by blast
    then show ?case by (cases x) simp
  qed simp
  from this [of "cmd @ '' '' @ host @ '' '' @ RTSP_1_0 @ CRLF" "numbered c 1 ps"]
  obtain t where "msg_build cmd host (numbered c 1 ps) None = (cmd @ '' '' @ host @ '' '' @ RTSP_1_0 @ CRLF) @ t"
    by (auto simp: msg_build_def truthy_str_def Let_def)
  then show ?thesis using cmd by (simp add: method_of_def plain_request_def takeWhile_append)
qed

section \<open>A description with one video track\<close>

definition one_video :: "sdp \<Rightarrow> media_desc \<Rightarrow> bool" where
  "one_video s m \<longleftrightarrow> sd_media s = [(''video'', 1)] \<and> sd_mediaMap s = [(Some (int (md_pt m)), 1)] \<and>
     (\<exists>control. sd_blocks s = [empty_block\<lparr>mb_control := control\<rparr>, block_of m]) \<and>
     md_type m = ''video'' \<and> md_codec m = ''H264''"

lemma one_video_parsed:
  assumes "desc_ok d" "sp_media d = [m]" "md_type m = ''video''" "md_codec m = ''H264''"
  shows "\<exists>s. sdp_parse (print_sdp d) = Inr s \<and> one_video s m"
proof -
  obtain s where "sdp_parse (print_sdp d) = Inr s" "sd_media s = filed [m]" "sd_mediaMap s = mapped [m]"
    "sd_blocks s = [empty_block\<lparr>mb_control := Some (sp_control d)\<rparr>, block_of m]"
    using sdp_parsed_state [OF assms(1)] assms(2) by auto
  then show ?thesis using assms(3,4) by (auto simp: one_video_def filed_def mapped_def)
qed

lemma one_video_track:
  assumes "one_video s m"
  shows "find_track s ''video'' = Inr (block_of m, Some (int (md_pt m)), ''H264'')" "getMediaBlockList s = [''video'']"
    "RTPFactory s = Inr [(Some (int (md_pt m)), \<lparr>ts_last = 0, ts_overflow = 0\<rparr>)]" "clamp_range s = s"
    "mb_range (getSessionBlock s) = None" "getMediaBlockByPayloadType s (int (md_pt m)) = Some (block_of m)"
  using assms by (auto simp: one_video_def find_track_def getMediaBlock_def track_format_def block_of_def getMediaBlockList_def
      RTPFactory_def clamp_range_def getSessionBlock_def empty_block_def getMediaBlockByPayloadType_def)

text \<open>The parameter sets that the description announces.\<close>

definition announces :: "media_desc \<Rightarrow> bytes \<Rightarrow> bytes \<Rightarrow> bool" where
  "announces m sps pps \<longleftrightarrow> map_of (md_params m) ''sprop-parameter-sets''
     = Some (btoa (bytesToString sps) @ '','' @ btoa (bytesToString pps))"


section \<open>SETUP and PLAY\<close>

text \<open>A client that has read such a description and is about to set the track up.\<close>

definition described :: "client \<Rightarrow> sdp \<Rightarrow> media_desc \<Rightarrow> bool" where
  "described c s m \<longleftrightarrow> online c \<and> graph c = sm_states client_sm \<and> sm_current (cl_sm c) = Some STATE_DESCRIBE \<and>
     cl_sdp c = Some s \<and> one_video s m \<and> cl_tracks c = [''video''] \<and> cl_streams c = [] \<and> cl_sessions c = [] \<and>
     cl_sampleQueues c = [] \<and> cl_lastTimestamp c = [] \<and>
     cl_rtpFactory c = Some [(Some (int (md_pt m)), \<lparr>ts_last = 0, ts_overflow = 0\<rparr>)]"

text \<open>The answer to SETUP names a session and a channel.\<close>

definition sets_up :: "response \<Rightarrow> string \<Rightarrow> int \<Rightarrow> bool" where
  "sets_up r sess ch \<longleftrightarrow> granted r \<and> header_of r ''session'' = Some sess \<and>
     (\<exists>t. header_of r ''transport'' = Some t \<and> t \<noteq> [] \<and> interleaved_of t = Inr ch)"

lemma setup_answer_read:
  assumes "sets_up r sess ch"
  shows "\<exists>s'. sendSetup_response st (read_of r) = (s', Inr ()) \<and> rs_rtpChannel s' = ch \<and>
    startKeepAlive s' = st\<lparr>rs_rtpChannel := ch, rs_session := Some sess, rs_keepaliveInterval := Timer (rs_keepaliveTime st)\<rparr>"
proof -
  from assms obtain t where "map_of (rm_headers (read_of r)) ''session'' = Some sess"
    "map_of (rm_headers (read_of r)) ''transport'' = Some t" "t \<noteq> []" "interleaved_of t = Inr ch"
    unfolding sets_up_def read_header by blast
  then show ?thesis
    by (auto simp: sendSetup_response_def Let_def startKeepAlive_def truthy_str_def split: option.split)
qed

lemma stream_set_up:
  assumes "online c" "answers srv (Suc (length (cl_sent c))) r" "sets_up r sess ch" "cl_sdp c = Some s"
  shows "\<exists>q. method_of q = ''SETUP'' \<and> RTSPStream_sendSetup srv ty track so c = (Inr (read_of r),
    c\<lparr>cl_cSeq := cl_cSeq c + 1, cl_sent := cl_sent c @ [q], cl_interleave := cl_interleave c + 2,
      cl_streams := AList.update ty ((RTSPStream track)\<lparr>rs_state := Some STATE_SETUP, rs_rtpChannel := ch,
         rs_session := Some sess, rs_keepaliveInterval := Timer 30000\<rparr>) (cl_streams c),
      cl_rtp_channels := (if ch \<in> set (cl_rtp_channels c) then cl_rtp_channels c else cl_rtp_channels c @ [ch])\<rparr>)"
proof -
  define st where "st = (RTSPStream track)\<lparr>rs_state := Some STATE_SETUP, rs_rtpChannel := cl_interleave c\<rparr>"
  define d where "d = c\<lparr>cl_streams := AList.update ty st (cl_streams c), cl_interleave := cl_interleave c + 2\<rparr>"
  obtain url where url: "getSetupURL track d = (Inr url, d)"
    using assms(4) by (simp add: getSetupURL_def session_block_def cmd_defs d_def Let_def)
  let ?ps = "setup_params (cl_interleave c) (cl_clock d) so"
  have "online d" "answers srv (Suc (length (cl_sent d))) r" "granted r"
    using assms(1-3) by (simp_all add: online_def d_def sets_up_def)
  note req = request_granted [OF this, of "''SETUP''" url ?ps]
  obtain s' where s': "sendSetup_response st (read_of r) = (s', Inr ())" "rs_rtpChannel s' = ch"
    "startKeepAlive s' = st\<lparr>rs_rtpChannel := ch, rs_session := Some sess, rs_keepaliveInterval := Timer (rs_keepaliveTime st)\<rparr>"
    using setup_answer_read [OF assms(3)] by blast
  have "method_of (plain_request d ''SETUP'' url ?ps) = ''SETUP''" by (rule method_of_request) simp
  moreover have "RTSPStream_sendSetup srv ty track so c = (Inr (read_of r),
    c\<lparr>cl_cSeq := cl_cSeq c + 1, cl_sent := cl_sent c @ [plain_request d ''SETUP'' url ?ps], cl_interleave := cl_interleave c + 2,
      cl_streams := AList.update ty ((RTSPStream track)\<lparr>rs_state := Some STATE_SETUP, rs_rtpChannel := ch,
         rs_session := Some sess, rs_keepaliveInterval := Timer 30000\<rparr>) (cl_streams c),
      cl_rtp_channels := (if ch \<in> set (cl_rtp_channels c) then cl_rtp_channels c else cl_rtp_channels c @ [ch])\<rparr>)"
    using url req s' by (simp add: RTSPStream_sendSetup_def cmd_defs put_stream_def useRTPChannel_def d_def st_def Let_def
        RTSPStream_def [THEN arg_cong, of rs_keepaliveTime])
  ultimately show ?thesis by blast
qed

text \<open>The parameter sets come out of the description as the bytes that went in.\<close>

lemma comma_not_encoded: "CHR '','' \<notin> set (btoa s)"
proof -
  have "CHR '','' \<noteq> b64_char n" if "n < 64" for n
  proof
    assume "CHR '','' = b64_char n"
    then have "ch_code (b64_char n) = ch_code (CHR '','')" by simp
    then show False using b64_code [OF that] by (auto simp: ch_code_def split: if_splits)
  qed
  then show ?thesis using b64_digits_bound by (auto simp: btoa_def btoa_digits b64_padding_def)
qed

lemma announced_sets:
  assumes "announces m sps pps"
  shows "track_config (block_of m) name c = (Inr (no_params\<lparr>tp_sps := Some sps, tp_pps := Some pps\<rparr>), c)"
proof -
  have "js_split (btoa (bytesToString sps) @ CHR '','' # btoa (bytesToString pps)) '',''
      = [btoa (bytesToString sps), btoa (bytesToString pps)]"
    by (simp add: js_split_char js_split_char_none comma_not_encoded)
  then show ?thesis
    using assms encoded_configs_decode
    by (simp add: track_config_def announces_def fmtp_text_def block_of_def truthy_str_def Let_def cmd_defs tmpl_def at_str_def)
qed

text \<open>What the client then hands out: the track, with the parameter sets and a duration of one second,
  since a live description has no range.\<close>

definition video_info :: "media_desc \<Rightarrow> bytes \<Rightarrow> bytes \<Rightarrow> track_info" where
  "video_info m sps pps = \<lparr>ti_track = block_of m, ti_offset = 0, ti_type = PT_H264,
     ti_params = no_params\<lparr>tp_sps := Some sps, tp_pps := Some pps, tp_duration := Some 1\<rparr>, ti_duration = Some 1\<rparr>"

lemma track_set_up:
  assumes "cl_sdp c = Some s" "one_video s m" "announces m sps pps" "header_of r ''session'' = Some sess" "cl_sessions c = []"
  shows "\<exists>url. on_track_setup (block_of m) f name PT_H264 (read_of r) c = (Inr (video_info m sps pps),
    c\<lparr>cl_timeOffset := AList.update f 0 (cl_timeOffset c), cl_seekable := False,
      cl_sessions := [(js_split sess '';'' ! 0, \<lparr>ss_state = None, ss_attached = True, ss_sessionId = js_split sess '';'' ! 0, ss_url = url\<rparr>)]\<rparr>)"
proof -
  have "sdp_duration (getSessionBlock s) = Some 1"
    by (simp add: sdp_duration_def one_video_track(5) [OF assms(2)])
  then show ?thesis
    using assms(1,4,5)
    by (auto simp: on_track_setup_def announced_sets [OF assms(3)] session_block_def cmd_defs Let_def read_header
        RTSPSession_def getControlURL_def put_session_def video_info_def)
qed

lemma session_played:
  assumes "online c" "answers srv (Suc (length (cl_sent c))) r" "granted r" "cl_sdp c = Some s" "clamp_range s = s"
    and "cl_sessions c = [(k, ss)]" "ss_attached ss"
  shows "\<exists>q. method_of q = ''PLAY'' \<and> sendPlay srv k c = (Inr (),
    c\<lparr>cl_cSeq := cl_cSeq c + 1, cl_sent := cl_sent c @ [q], cl_sessions := [(k, ss\<lparr>ss_state := Some STATE_PLAYING\<rparr>)]\<rparr>)"
proof -
  define d where "d = c\<lparr>cl_sessions := [(k, ss\<lparr>ss_state := Some STATE_PLAY\<rparr>)]\<rparr>"
  define ps where "ps = (if ss_sessionId ss \<noteq> [] then [(''Session'', ss_sessionId ss)] else [])"
  obtain url where url: "getControlURL d = (Inr url, d)"
    using assms(4) by (simp add: getControlURL_def session_block_def cmd_defs d_def Let_def)
  have "online d" "answers srv (Suc (length (cl_sent d))) r" using assms(1,2) by (simp_all add: online_def d_def)
  note req = request_granted [OF this assms(3), of "''PLAY''" url ps]
  have first_word: "method_of (plain_request d ''PLAY'' url ps) = ''PLAY''" by (rule method_of_request) simp
  have "RTSPSession_sendRequest srv k ''PLAY'' d = (Inr (read_of r),
      d\<lparr>cl_cSeq := cl_cSeq d + 1, cl_sent := cl_sent d @ [plain_request d ''PLAY'' url ps]\<rparr>)"
    using url req assms(7) unfolding RTSPSession_sendRequest_def
    by (cases "ss_sessionId ss = []") (simp_all add: cmd_defs d_def ps_def)
  moreover have "set_session_state k STATE_PLAY c = (Inr (), d)" "cl_sdp d = Some s"
    using assms(4,6) by (simp_all add: set_session_state_def modify_def d_def)
  moreover have "modify (\<lambda>c. c\<lparr>cl_sdp := Some (clamp_range s)\<rparr>) d = (Inr (), d)"
    using assms(4,5) by (cases c) (simp add: modify_def d_def)
  ultimately have "sendPlay srv k c = set_session_state k STATE_PLAYING
      (d\<lparr>cl_cSeq := cl_cSeq d + 1, cl_sent := cl_sent d @ [plain_request d ''PLAY'' url ps]\<rparr>)"
    by (simp add: sendPlay_def seqC_def get_def)
  then have "sendPlay srv k c = (Inr (), c\<lparr>cl_cSeq := cl_cSeq c + 1,
      cl_sent := cl_sent c @ [plain_request d ''PLAY'' url ps], cl_sessions := [(k, ss\<lparr>ss_state := Some STATE_PLAYING\<rparr>)]\<rparr>)"
    by (simp add: set_session_state_def modify_def d_def)
  with first_word show ?thesis by blast
qed

text \<open>The state of a client that plays: the requests it sent, the session it plays, the track it handed
  out, live, and empty buffers that wait for the packets of the channel.\<close>

definition plays :: "client \<Rightarrow> string list \<Rightarrow> media_desc \<Rightarrow> bytes \<Rightarrow> bytes \<Rightarrow> string \<Rightarrow> int \<Rightarrow> bool" where
  "plays c methods m sps pps k ch \<longleftrightarrow>
     sm_current (cl_sm c) = Some STATE_STREAMS \<and> map method_of (cl_sent c) = methods \<and>
     map (\<lambda>(k, ss). (k, ss_sessionId ss, ss_state ss)) (cl_sessions c) = [(k, k, Some STATE_PLAYING)] \<and>
     cl_ontracks c = Some [video_info m sps pps] \<and> \<not> cl_seekable c \<and> map fst (cl_sampleQueues c) = [PT_H264] \<and>
     video_track c (int (md_pt m)) ch \<lparr>ts_last = 0, ts_overflow = 0\<rparr> None []"

lemma described_client_plays:
  assumes "described c s m" "announces m sps pps"
    and "answers srv (length (cl_sent c) + 1) r3" "sets_up r3 sess ch"
    and "answers srv (length (cl_sent c) + 2) r4" "granted r4"
  shows "\<exists>c'. toSetup srv c = (Inr (), c') \<and>
    plays c' (map method_of (cl_sent c) @ [''SETUP'', ''PLAY'']) m sps pps (js_split sess '';'' ! 0) ch"
proof -
  let ?f = "Some (int (md_pt m))" and ?k = "js_split sess '';'' ! 0"
  from assms(1) have c: "online c" "graph c = sm_states client_sm" "sm_current (cl_sm c) = Some 4"
    "cl_sdp c = Some s" "one_video s m" "cl_tracks c = [''video'']" "cl_streams c = []" "cl_sessions c = []"
    "cl_sampleQueues c = []" "cl_lastTimestamp c = []" "cl_rtpFactory c = Some [(?f, \<lparr>ts_last = 0, ts_overflow = 0\<rparr>)]"
    by (simp_all add: described_def)
  note v = one_video_track [OF c(5)]
  have pt: "pt_string_map ''H264'' = Some PT_H264" by (simp add: pt_string_map_def)
  define c1 where "c1 = c\<lparr>cl_streams := [(''video'', RTSPStream (block_of m))], cl_sampleQueues := [(PT_H264, [])],
    cl_rtpBuffer := AList.update ?f [] (cl_rtpBuffer c)\<rparr>"
  have 1: "prepare_track s ''video'' c = (Inr (), c1)"
    using c(7,9) v(1) pt by (simp add: prepare_track_def cmd_defs put_stream_def c1_def)
  obtain q1 where q1: "method_of q1 = ''SETUP''"
    and 2: "RTSPStream_sendSetup srv ''video'' (block_of m) None c1 = (Inr (read_of r3),
      c1\<lparr>cl_cSeq := cl_cSeq c1 + 1, cl_sent := cl_sent c1 @ [q1], cl_interleave := cl_interleave c1 + 2,
        cl_streams := AList.update ''video'' ((RTSPStream (block_of m))\<lparr>rs_state := Some STATE_SETUP, rs_rtpChannel := ch,
           rs_session := Some sess, rs_keepaliveInterval := Timer 30000\<rparr>) (cl_streams c1),
        cl_rtp_channels := (if ch \<in> set (cl_rtp_channels c1) then cl_rtp_channels c1 else cl_rtp_channels c1 @ [ch])\<rparr>)"
    using stream_set_up [of c1 srv r3 sess ch s "''video''" "block_of m" None] assms(3,4) c(1,4)
    by (auto simp: c1_def online_def)
  define c2 where "c2 = c1\<lparr>cl_cSeq := cl_cSeq c1 + 1, cl_sent := cl_sent c1 @ [q1], cl_interleave := cl_interleave c1 + 2,
        cl_streams := AList.update ''video'' ((RTSPStream (block_of m))\<lparr>rs_state := Some STATE_SETUP, rs_rtpChannel := ch,
           rs_session := Some sess, rs_keepaliveInterval := Timer 30000\<rparr>) (cl_streams c1),
        cl_rtp_channels := (if ch \<in> set (cl_rtp_channels c1) then cl_rtp_channels c1 else cl_rtp_channels c1 @ [ch])\<rparr>"
  obtain url where 3: "on_track_setup (block_of m) ?f ''H264'' PT_H264 (read_of r3) c2 = (Inr (video_info m sps pps),
    c2\<lparr>cl_timeOffset := AList.update ?f 0 (cl_timeOffset c2), cl_seekable := False,
      cl_sessions := [(?k, \<lparr>ss_state = None, ss_attached = True, ss_sessionId = ?k, ss_url = url\<rparr>)]\<rparr>)"
    using track_set_up [of c2 s m sps pps r3 sess ?f "''H264''"] assms(2,4) c(4,5,8)
    by (auto simp: c2_def c1_def sets_up_def)
  define c3 where "c3 = c2\<lparr>cl_timeOffset := AList.update ?f 0 (cl_timeOffset c2), cl_seekable := False,
      cl_sessions := [(?k, \<lparr>ss_state = None, ss_attached = True, ss_sessionId = ?k, ss_url = url\<rparr>)]\<rparr>"
  have tracks: "setup_tracks srv s [''video''] None c1 = (Inr [video_info m sps pps], c3)"
    using v(1) pt 2 [folded c2_def] 3 [folded c3_def] by (simp add: cmd_defs)
  obtain q2 where q2: "method_of q2 = ''PLAY''" and 4: "sendPlay srv ?k c3 = (Inr (),
    c3\<lparr>cl_cSeq := cl_cSeq c3 + 1, cl_sent := cl_sent c3 @ [q2],
       cl_sessions := [(?k, \<lparr>ss_state = Some STATE_PLAYING, ss_attached = True, ss_sessionId = ?k, ss_url = url\<rparr>)]\<rparr>)"
    using session_played [of c3 srv r4 s ?k "\<lparr>ss_state = None, ss_attached = True, ss_sessionId = ?k, ss_url = url\<rparr>"] 
      assms(5,6) c(1,4) v(4) by (auto simp: c3_def c2_def c1_def online_def)
  define c4 where "c4 = c3\<lparr>cl_cSeq := cl_cSeq c3 + 1, cl_sent := cl_sent c3 @ [q2],
       cl_sessions := [(?k, \<lparr>ss_state = Some STATE_PLAYING, ss_attached = True, ss_sessionId = ?k, ss_url = url\<rparr>)],
       cl_ontracks := Some [video_info m sps pps]\<rparr>"
  have "for_in (cl_sessions c3) = [?k]" by (simp add: c3_def for_in_def)
  then have "sendSetup srv c = (Inr (), c4)"
    using c(4,6) 1 tracks 4 by (simp add: sendSetup_def cmd_defs c4_def)
  note run = toSetup_run [OF c(2,3) this]
  have "video_track (c4\<lparr>cl_sm := (cl_sm c4)\<lparr>sm_current := Some 16\<rparr>\<rparr>) (int (md_pt m)) ch \<lparr>ts_last = 0, ts_overflow = 0\<rparr> None []"
    using c(4,10,11) v(6) pt c(5)
    by (auto simp: video_track_def c4_def c3_def c2_def c1_def update_conv' block_of_def one_video_def)
  then have "plays (c4\<lparr>cl_sm := (cl_sm c4)\<lparr>sm_current := Some 16\<rparr>\<rparr>) (map method_of (cl_sent c) @ [''SETUP'', ''PLAY'']) m sps pps ?k ch"
    using q1 q2 by (simp add: plays_def c4_def c3_def c2_def c1_def)
  with run show ?thesis by blast
qed

section \<open>From the start\<close>

lemma detach_fine: "m c = (Inr (), c') \<Longrightarrow> detach m c = (Inr (), c')"
  by (simp add: detach_def catchC_def)

text \<open>A client whose OPTIONS request was answered; the buffers for packets are still those of the reset.\<close>

definition knows_methods :: "client \<Rightarrow> bool" where
  "knows_methods c \<longleftrightarrow> online c \<and> graph c = sm_states client_sm \<and> sm_current (cl_sm c) = Some STATE_OPTIONS \<and>
     cl_streams c = [] \<and> cl_sessions c = [] \<and> cl_sampleQueues c = [] \<and> cl_lastTimestamp c = []"

text \<open>The answer to DESCRIBE carries the description, behind its length.\<close>

definition describes :: "response \<Rightarrow> sdp_desc \<Rightarrow> bool" where
  "describes r d \<longleftrightarrow> granted r \<and> length_header r \<and> rs_body r = print_sdp d"

lemma client_described:
  assumes "knows_methods c" "answers srv (length (cl_sent c) + 1) r2" "describes r2 d"
    and "desc_ok d" "sp_media d = [m]" "md_type m = ''video''" "md_codec m = ''H264''"
  shows "\<exists>s c1. described c1 s m \<and> map method_of (cl_sent c1) = map method_of (cl_sent c) @ [''DESCRIBE''] \<and>
    toDescribe srv c = detach (toSetup srv) c1"
proof -
  obtain s where s: "sdp_parse (print_sdp d) = Inr s" "one_video s m" using one_video_parsed [OF assms(4-7)] by blast
  note v = one_video_track [OF s(2)]
  define q where "q = plain_request c ''DESCRIBE'' (cl_url c) [(''Accept'', ''application/sdp'')]"
  have q: "method_of q = ''DESCRIBE''" unfolding q_def by (rule method_of_request) simp
  have c: "online c" "graph c = sm_states client_sm" "sm_current (cl_sm c) = Some 2" and r: "granted r2"
    using assms(1,3) by (simp_all add: knows_methods_def describes_def)
  define c1 where "c1 = c\<lparr>cl_cSeq := cl_cSeq c + 1, cl_sent := cl_sent c @ [q], cl_sdp := Some s\<rparr>"
  have "rm_body (read_of r2) = Some (print_sdp d)" using assms(3) by (simp add: read_of_def describes_def)
  then have 1: "sendDescribe srv c = (Inr (read_of r2), c1)"
    using request_granted [OF c(1) _ r, of srv "''DESCRIBE''" "cl_url c" "[(''Accept'', ''application/sdp'')]"] assms(2) s(1)
    by (simp add: sendDescribe_def cmd_defs c1_def q_def)
  define c2 where "c2 = c1\<lparr>cl_sm := (cl_sm c1)\<lparr>sm_current := Some 4\<rparr>\<rparr>"
  define c3 where "c3 = c2\<lparr>
    cl_contentBase := (case header_of r2 ''content-base'' of Some b \<Rightarrow> if b \<noteq> [] then b else cl_url c2 | None \<Rightarrow> cl_url c2),
    cl_tracks := [''video''], cl_rtpFactory := Some [(Some (int (md_pt m)), \<lparr>ts_last = 0, ts_overflow = 0\<rparr>)],
    cl_session := (case header_of r2 ''session'' of Some x \<Rightarrow> if x \<noteq> [] then Some x else cl_session c2 | None \<Rightarrow> cl_session c2)\<rparr>"
  have "cl_sdp c2 = Some s" by (simp add: c2_def c1_def)
  then have 2: "onDescribe srv (read_of r2) c2 = detach (toSetup srv) c3"
    using v(2,3) by (simp add: onDescribe_def cmd_defs read_header c3_def cong: option.case_cong if_cong)
  have "toDescribe srv c = detach (toSetup srv) c3"
    using permit_client [OF c(2,3), of 4] client_edges_hold 1 2
    by (simp add: toDescribe_def transition_def seqC_def enter_def modify_def c2_def)
  moreover have "described c3 s m"
    using assms(1) s(2) by (simp add: described_def knows_methods_def c3_def c2_def c1_def online_def graph_def)
  moreover have "map method_of (cl_sent c3) = map method_of (cl_sent c) @ [''DESCRIBE'']"
    using q by (simp add: c3_def c2_def c1_def)
  ultimately show ?thesis by blast
qed

text \<open>A client in its first state.\<close>

definition fresh :: "client \<Rightarrow> bool" where
  "fresh c \<longleftrightarrow> online c \<and> graph c = sm_states client_sm \<and> sm_current (cl_sm c) = Some STATE_INITIAL \<and>
     cl_streams c = [] \<and> cl_sessions c = [] \<and> cl_sampleQueues c = []"

lemma client_knows_methods:
  assumes "fresh c" "answers srv (length (cl_sent c) + 1) r1" "granted r1" "header_of r1 ''public'' = Some p"
  shows "\<exists>c1. knows_methods c1 \<and> cl_methods c1 = map js_trim (js_split p '','') \<and>
    map method_of (cl_sent c1) = map method_of (cl_sent c) @ [''OPTIONS''] \<and> start srv c = detach (toDescribe srv) c1"
proof -
  from assms(1) have c: "online c" "graph c = sm_states client_sm" "sm_current (cl_sm c) = Some 1" "cl_streams c = []"
    "cl_sessions c = []" "cl_sampleQueues c = []"
    by (simp_all add: fresh_def)
  define c0 where "c0 = c\<lparr>cl_authenticator := NoAuth, cl_methods := [], cl_tracks := [], cl_rtpBuffer := [], cl_streams := [],
    cl_sessions := [], cl_contentBase := [], cl_sdp := None, cl_interleave := 0, cl_session := None, cl_timeOffset := [],
    cl_lastTimestamp := [], cl_started := True, cl_cSeq := 0\<rparr>"
  define q where "q = plain_request c0 ''OPTIONS'' ''*'' []"
  have q: "method_of q = ''OPTIONS''" unfolding q_def by (rule method_of_request) simp
  have c0: "online c0" "answers srv (Suc (length (cl_sent c0))) r1" using c(1) assms(2) by (simp_all add: c0_def online_def)
  define c1 where "c1 = c0\<lparr>cl_cSeq := cl_cSeq c0 + 1, cl_sent := cl_sent c0 @ [q]\<rparr>"
  have "detach reset c = (Inr (), c\<lparr>cl_authenticator := NoAuth, cl_methods := [], cl_tracks := [], cl_rtpBuffer := [],
    cl_streams := [], cl_sessions := [], cl_contentBase := [], cl_sdp := None, cl_interleave := 0, cl_session := None,
    cl_timeOffset := [], cl_lastTimestamp := []\<rparr>)"
    using c(3-5) by (intro detach_fine) (simp add: reset_def reset_begin_def reset_end_def cmd_defs for_in_def)
  then have 1: "sendOptions srv c = (Inr (read_of r1), c1)"
    using request_granted [OF c0 assms(3), of "''OPTIONS''" "''*''" "[]"]
    by (simp add: sendOptions_def seqC_def modify_def c0_def c1_def q_def)
  define c2 where "c2 = c1\<lparr>cl_sm := (cl_sm c1)\<lparr>sm_current := Some 2\<rparr>, cl_methods := map js_trim (js_split p '','')\<rparr>"
  have 2: "onOptions srv (read_of r1) (c1\<lparr>cl_sm := (cl_sm c1)\<lparr>sm_current := Some 2\<rparr>\<rparr>) = detach (toDescribe srv) c2"
    using assms(4) by (simp add: onOptions_def cmd_defs read_header c2_def)
  have "start srv c = detach (toDescribe srv) c2"
    using permit_client [OF c(2,3), of 2] client_edges_hold 1 2 c(3)
    by (simp add: start_def toOptions_def transition_def seqC_def enter_def modify_def get_def)
  moreover have "knows_methods c2"
    using c c0(1) by (simp add: knows_methods_def c2_def c1_def c0_def online_def graph_def)
  moreover have "map method_of (cl_sent c2) = map method_of (cl_sent c) @ [''OPTIONS'']"
    using q by (simp add: c2_def c1_def c0_def)
  ultimately show ?thesis by (intro exI [of _ c2]) (simp add: c2_def)
qed

text \<open>A server that grants the four requests after the first \<open>n\<close>.\<close>

definition serves_camera :: "server \<Rightarrow> nat \<Rightarrow> sdp_desc \<Rightarrow> string \<Rightarrow> int \<Rightarrow> bool" where
  "serves_camera srv n d sess ch \<longleftrightarrow>
     (\<exists>r1 p. answers srv (n + 1) r1 \<and> granted r1 \<and> header_of r1 ''public'' = Some p) \<and>
     (\<exists>r2. answers srv (n + 2) r2 \<and> describes r2 d) \<and> (\<exists>r3. answers srv (n + 3) r3 \<and> sets_up r3 sess ch) \<and>
     (\<exists>r4. answers srv (n + 4) r4 \<and> granted r4)"

definition one_camera :: "sdp_desc \<Rightarrow> media_desc \<Rightarrow> bool" where
  "one_camera d m \<longleftrightarrow> desc_ok d \<and> sp_media d = [m] \<and> md_type m = ''video'' \<and> md_codec m = ''H264''"

text \<open>A client that is started against a server that grants its requests and describes one H.264 track
  sends OPTIONS, DESCRIBE, SETUP and PLAY, in this order and each once, and ends in the playing state: one
  session that plays, the track handed out with the parameter sets that the server put into its
  description, and an empty queue, buffer and clock for the packets of the channel the server chose.\<close>

lemma granted_start_plays:
  assumes "fresh c" "one_camera d m" "announces m sps pps" "serves_camera srv (length (cl_sent c)) d sess ch"
  shows "\<exists>c'. start srv c = (Inr (), c') \<and>
    plays c' (map method_of (cl_sent c) @ [''OPTIONS'', ''DESCRIBE'', ''SETUP'', ''PLAY'']) m sps pps (js_split sess '';'' ! 0) ch"
proof -
  let ?n = "length (cl_sent c)" and ?sent = "\<lambda>c. map method_of (cl_sent c)"
  obtain r1 p r2 r3 r4 where r: "answers srv (?n + 1) r1" "granted r1" "header_of r1 ''public'' = Some p"
    "answers srv (?n + 2) r2" "describes r2 d" "answers srv (?n + 3) r3" "sets_up r3 sess ch"
    "answers srv (?n + 4) r4" "granted r4"
    using assms(4) unfolding serves_camera_def by blast
  obtain c1 where c1: "knows_methods c1" "?sent c1 = ?sent c @ [''OPTIONS'']" "start srv c = detach (toDescribe srv) c1"
    using client_knows_methods [OF assms(1) r(1-3)] by blast
  from c1(2) have n1: "length (cl_sent c1) = ?n + 1" by (metis length_append_singleton length_map Suc_eq_plus1)
  have "answers srv (length (cl_sent c1) + 1) r2" using r(4) n1 by (simp add: numeral_2_eq_2)
  from client_described [OF c1(1) this r(5)] assms(2) obtain s c2 where c2: "described c2 s m"
    "?sent c2 = ?sent c @ [''OPTIONS'', ''DESCRIBE'']" "toDescribe srv c1 = detach (toSetup srv) c2"
    using c1(2) by (auto simp: one_camera_def)
  have n2: "length (cl_sent c2) = ?n + 2" using arg_cong [OF c2(2), of length] by simp
  have "answers srv (length (cl_sent c2) + 1) r3" "answers srv (length (cl_sent c2) + 2) r4"
    using r(6,8) n2 by (simp_all add: eval_nat_numeral)
  from described_client_plays [OF c2(1) assms(3) this(1) r(7) this(2) r(9)] c2(2) obtain c' where
    "toSetup srv c2 = (Inr (), c')"
    "plays c' (?sent c @ [''OPTIONS'', ''DESCRIBE'', ''SETUP'', ''PLAY'']) m sps pps (js_split sess '';'' ! 0) ch"
    by auto
  then show ?thesis using c1(3) c2(3) by (auto simp: detach_fine)
qed

definition camera_sps :: bytes where
  "camera_sps = [0x67, 0x64, 0x00, 0x1e, 0xac, 0xe8, 0x0a, 0x03, 0xd9]"

definition camera_pps :: bytes where
  "camera_pps = [0x68, 0xee, 0x3c, 0x80]"

definition camera_media :: media_desc where
  "camera_media = \<lparr>md_type = ''video'', md_port = ''0'', md_proto = ''RTP/AVP'', md_pt = 96, md_codec = ''H264'', md_clock = ''90000'',
     md_params = [(''sprop-parameter-sets'', btoa (bytesToString camera_sps) @ '','' @ btoa (bytesToString camera_pps))],
     md_control = ''track1''\<rparr>"

definition camera_desc :: sdp_desc where
  "camera_desc = \<lparr>sp_user = ''-'', sp_sessid = 1, sp_sessver = 1, sp_addr = ''10.0.0.1'', sp_name = ''cam'', sp_control = ''*'', sp_media = [camera_media]\<rparr>"

definition camera_answers :: "response list" where
  "camera_answers = map (\<lambda>(hs, body). \<lparr>rs_code = 200, rs_reason = ''OK'', rs_headers = hs, rs_body = body\<rparr>)
     [([(''Public'', ''OPTIONS, DESCRIBE, SETUP, PLAY'')], []), ([(''Content-Length'', ''150'')], print_sdp camera_desc),
      ([(''Session'', ''7;timeout=10''), (''Transport'', ''RTP/AVP/TCP;unicast;interleaved=0-1'')], []), ([], [])]"

definition camera :: server where
  "camera sent = Inr (response_print (camera_answers ! (length sent - 1)))"

lemma camera_announces: "announces camera_media camera_sps camera_pps"
  by (simp add: announces_def camera_media_def)

lemma camera_desc_ok: "one_camera camera_desc camera_media"
  by code_simp

lemma camera_grants: "\<forall>r \<in> set camera_answers. granted r"
  by code_simp

lemma camera_headers:
  "header_of (camera_answers ! 0) ''public'' = Some ''OPTIONS, DESCRIBE, SETUP, PLAY''"
  "header_of (camera_answers ! 2) ''session'' = Some ''7;timeout=10''"
  "header_of (camera_answers ! 2) ''transport'' = Some ''RTP/AVP/TCP;unicast;interleaved=0-1''"
  "interleaved_of ''RTP/AVP/TCP;unicast;interleaved=0-1'' = Inr 0"
  "rs_body (camera_answers ! 1) = print_sdp camera_desc"
  by code_simp+

lemma camera_length: "length_header (camera_answers ! 1)"
proof -
  have "map_of (map (\<lambda>(k, v). (toLowerCase k, v)) (rs_headers (camera_answers ! 1))) ''content-length'' = Some ''150''"
    "js_Number ''150'' = Some 150"
    by code_simp+
  then show ?thesis by (simp add: length_header_def)
qed

lemma camera_serves: "serves_camera camera 0 camera_desc ''7;timeout=10'' 0"
proof -
  have a: "answers camera (Suc k) (camera_answers ! k)" for k
    by (simp add: answers_def camera_def)
  have "length camera_answers = 4" by (simp add: camera_answers_def)
  then have "\<forall>k < 4. granted (camera_answers ! k)" using camera_grants by (metis nth_mem)
  then have g: "granted (camera_answers ! 0)" "granted (camera_answers ! 1)" "granted (camera_answers ! 2)" "granted (camera_answers ! 3)"
    by simp_all
  have d: "describes (camera_answers ! 1) camera_desc"
    using g(2) camera_length camera_headers(5) by (simp add: describes_def)
  have s: "sets_up (camera_answers ! 2) ''7;timeout=10'' 0"
    using g(3) camera_headers(2-4) by (simp add: sets_up_def)
  show ?thesis
    unfolding serves_camera_def
    using a [of 0] a [of 1] a [of 2] a [of 3] g camera_headers(1) d s by (auto simp: eval_nat_numeral)
qed

lemma new_client_fresh: "fresh ((RTSPClientSM ep clock)\<lparr>cl_transport := True\<rparr>)"
  using fresh_client [of ep clock] by (simp add: fresh_def online_def graph_def)

lemma granted_start_plays_witness:
  "\<exists>c'. start camera ((RTSPClientSM example_endpoint [])\<lparr>cl_transport := True\<rparr>) = (Inr (), c') \<and>
     plays c' [''OPTIONS'', ''DESCRIBE'', ''SETUP'', ''PLAY''] camera_media camera_sps camera_pps ''7'' 0"
proof -
  have "js_split ''7;timeout=10'' '';'' ! 0 = ''7''" by code_simp
  moreover have "cl_sent (RTSPClientSM example_endpoint []) = []" using fresh_client [of example_endpoint "[]"] by simp
  ultimately show ?thesis
    using granted_start_plays [OF new_client_fresh camera_desc_ok camera_announces, of camera example_endpoint "[]" "''7;timeout=10''" 0]
      camera_serves by simp
qed

end
