(* ===== verification/Player.thy ===== *)
theory Player
  imports Tracks RtspSetup
begin

text \<open>
  Class \<^verbatim>\<open>WSPlayer\<close> of \<^verbatim>\<open>demos/rtsp/rtsp.dev.js\<close>: it makes the transport, the client and the remuxer, wires
  them, and takes them down. The three objects are made and dropped together, and each holds the next:
  the remuxer the client it is attached to, the client its transport; so the player's state is an
  optional remuxer. Events that the client dispatches go to the remuxer. The connection is opened by
  the socket later: \<open>connection_ready\<close> is what waits for it.
\<close>

section \<open>The player\<close>

record ws_player =
  wp_url :: string
  wp_endpoint :: "url option"
  wp_remuxer :: "remuxer option"
  wp_src :: string                     \<comment> \<open>\<^verbatim>\<open>videoElement.src\<close>\<close>
  wp_video :: video
  wp_track_id :: int                   \<comment> \<open>the counter of the track identifiers\<close>
  wp_errors :: "js_error list"         \<comment> \<open>\<^verbatim>\<open>error\<close> events\<close>
  wp_released :: "transport list"      \<comment> \<open>transports that were destroyed\<close>

type_synonym 'a player_cmd = "(ws_player, 'a) cmd"

definition placeholder :: string where "placeholder = ''rtsp://placehold''"

definition WSPlayer :: "video \<Rightarrow> ws_player" where
  "WSPlayer v = \<lparr>wp_url = [], wp_endpoint = None, wp_remuxer = None, wp_src = [], wp_video = v, wp_track_id = 1,
     wp_errors = [], wp_released = []\<rparr>"

definition errorHandler :: "js_error \<Rightarrow> unit player_cmd" where
  "errorHandler e = modify (\<lambda>p. p\<lparr>wp_errors := wp_errors p @ [e]\<rparr>)"

definition remuxer_cmd :: "remuxer \<Rightarrow> 'a remux_cmd \<Rightarrow> 'a player_cmd" where
  "remuxer_cmd rx m p = (case m rx of (r, rx1) \<Rightarrow> (r, p\<lparr>wp_remuxer := Some rx1\<rparr>))"

text \<open>Taking the client down: \<^verbatim>\<open>client.stop()\<close>, whose promise is ignored, and \<^verbatim>\<open>client.destroy()\<close>. The requests that
  \<^verbatim>\<open>stop\<close> begins wait for \<^verbatim>\<open>transport.ready\<close>; when they go on, the transport is detached, so none is sent and
  reading \<^verbatim>\<open>send\<close> of \<^verbatim>\<open>null\<close> rejects their promise.\<close>

definition release_client :: "server \<Rightarrow> unit client_cmd" where
  "release_client srv = seqC BaseClient_stop (\<lambda>_. seqC RTSPClient_destroy (\<lambda>_.
     sm_cmd (detach (catchC (stop srv) (\<lambda>e. throw TypeErr)))))"

definition release_transport :: "rtsp_client option \<Rightarrow> transport list" where
  "release_transport c = (case c of None \<Rightarrow> [] | Some rc \<Rightarrow> (case rc_transport rc of None \<Rightarrow> [] | Some t \<Rightarrow> [tr_destroy t]))"

text \<open>The video element is lent to the media source while there is one.\<close>

definition video_of :: "remuxer \<Rightarrow> video \<Rightarrow> video" where
  "video_of rx v = (case so_players (rx_source rx) of [] \<Rightarrow> v | v1 # _ \<Rightarrow> v1)"

definition unload :: "server \<Rightarrow> unit player_cmd" where
  "unload srv =
     seqC (get wp_remuxer) (\<lambda>rx. seqC (case rx of
         None \<Rightarrow> ret ()
       | Some rx \<Rightarrow>
           seqC (remuxer_cmd rx Remuxer_destroy) (\<lambda>_.
           seqC (liftC (case rx_client rx of None \<Rightarrow> Inr () | Some rc \<Rightarrow> fst (release_client srv rc))) (\<lambda>_.
             modify (\<lambda>p. p\<lparr>wp_remuxer := None, wp_track_id := rx_track_id rx,
               wp_video := (case wp_remuxer p of None \<Rightarrow> wp_video p | Some rx1 \<Rightarrow> video_of rx1 (wp_video p)),
               wp_released := wp_released p @ release_transport (rx_client rx)\<rparr>)))) (\<lambda>_.
       modify (\<lambda>p. p\<lparr>wp_src := placeholder\<rparr>)))"

text \<open>There is no field \<^verbatim>\<open>player\<close>; reading its \<^verbatim>\<open>paused\<close> raises.\<close>

definition isPlaying :: "bool player_cmd" where
  "isPlaying = throw TypeErr"

text \<open>What \<^verbatim>\<open>load\<close> does with the new remuxer and the new client. \<^verbatim>\<open>client.start\<close> waits for the connection
  before it asks anything of the server (\<open>connection_ready\<close>).\<close>

definition wire :: "server \<Rightarrow> string \<Rightarrow> url \<Rightarrow> string \<Rightarrow> unit remux_cmd" where
  "wire srv clock endpoint wsurl =
     seqC (attachClient (RTSPClient 200 endpoint clock)) (\<lambda>_.
     seqC (client_cmd (RTSPClient_attachTransport (WebsocketTransport endpoint ''rtsp'' wsurl))) (\<lambda>_.
       client_cmd (RTSPClient_setSource srv endpoint)))"

definition load :: "server \<Rightarrow> string \<Rightarrow> string \<Rightarrow> unit player_cmd" where
  "load srv clock wsurl =
     seqC (unload srv) (\<lambda>_.
     seqC (modify (\<lambda>p. p\<lparr>wp_url := wsurl\<rparr>)) (\<lambda>_.
     case Url_parse wsurl of
       Inl e \<Rightarrow> ret ()
     | Inr u \<Rightarrow>
         (let endpoint = u\<lparr>u_protocol := ''rtsp''\<rparr>
          in seqC (modify (\<lambda>p. p\<lparr>wp_endpoint := Some endpoint\<rparr>)) (\<lambda>_.
             seqC (get id) (\<lambda>p.
             seqC (remuxer_cmd (Remuxer (wp_video p) (wp_track_id p)) (wire srv clock endpoint wsurl)) (\<lambda>_.
             seqC (modify (\<lambda>p. p\<lparr>wp_src := placeholder\<rparr>)) (\<lambda>_.
             seqC (get wp_remuxer) (\<lambda>rx. case rx of None \<Rightarrow> ret ()
               | Some rx \<Rightarrow> remuxer_cmd rx (client_cmd BaseClient_start)))))))))"

section \<open>Events\<close>

text \<open>The remuxer handles what its client has dispatched since \<open>n\<close> events, and the tracks the protocol has
  found.\<close>

definition pump_events :: "browser \<Rightarrow> nat \<Rightarrow> unit remux_cmd" where
  "pump_events br n =
     seqC (get rx_client) (\<lambda>c. case c of
       None \<Rightarrow> ret ()
     | Some rc \<Rightarrow> forC (drop n (rc_dispatched rc)) (\<lambda>ev.
         client_event br ev (case cl_ontracks (rc_sm rc) of None \<Rightarrow> [] | Some infos \<Rightarrow> infos)))"

text \<open>\<^verbatim>\<open>ontracks\<close> is called when the set-up is complete.\<close>

definition after_protocol :: "unit client_cmd" where
  "after_protocol = seqC (get (\<lambda>rc. cl_ontracks (rc_sm rc))) (\<lambda>t. if t \<noteq> None then on_tracks else ret ())"

definition forget_tracks :: "unit client_cmd" where
  "forget_tracks = modify (\<lambda>rc. rc\<lparr>rc_sm := (rc_sm rc)\<lparr>cl_ontracks := None\<rparr>\<rparr>)"

definition with_client :: "browser \<Rightarrow> unit client_cmd \<Rightarrow> unit remux_cmd" where
  "with_client br m =
     seqC (get rx_client) (\<lambda>c. case c of
       None \<Rightarrow> ret ()
     | Some rc \<Rightarrow>
         seqC (client_cmd m) (\<lambda>_.
         seqC (client_cmd after_protocol) (\<lambda>_.
         seqC (pump_events br (length (rc_dispatched rc))) (\<lambda>_. client_cmd forget_tracks))))"

text \<open>Something happens to the transport. The client handles what the transport dispatches, the remuxer what
  the client dispatches then; both may not end.\<close>

definition socket_event :: "server \<Rightarrow> browser \<Rightarrow> tr_event \<Rightarrow> ws_player \<Rightarrow> ws_player option" where
  "socket_event srv br ev p = (case wp_remuxer p of
       None \<Rightarrow> Some p
     | Some rx \<Rightarrow> (case rx_client rx of
           None \<Rightarrow> Some p
         | Some rc \<Rightarrow> map_option (\<lambda>rc1. snd (remuxer_cmd (rx\<lparr>rx_client := Some rc1\<rparr>) (pump_events br (length (rc_dispatched rc))) p))
             (transport_happens srv ev rc)))"

fun socket_events :: "server \<Rightarrow> browser \<Rightarrow> tr_event list \<Rightarrow> ws_player \<Rightarrow> ws_player option" where
  "socket_events srv br [] p = Some p"
| "socket_events srv br (ev # evs) p = (case socket_event srv br ev p of None \<Rightarrow> None | Some p1 \<Rightarrow> socket_events srv br evs p1)"

text \<open>\<^verbatim>\<open>transport.ready.then(() => clientSM.start())\<close> once the first socket is open, with the handler of
  \<^verbatim>\<open>load\<close> for a rejection.\<close>

definition connected_once :: "remuxer \<Rightarrow> bool" where
  "connected_once rx \<longleftrightarrow> (case rx_client rx of None \<Rightarrow> False
     | Some rc \<Rightarrow> (case rc_transport rc of None \<Rightarrow> False | Some t \<Rightarrow> 0 \<in> set (tr_connects t)))"

definition connection_ready :: "server \<Rightarrow> browser \<Rightarrow> unit player_cmd" where
  "connection_ready srv br = seqC (get wp_remuxer) (\<lambda>rx. case rx of
       None \<Rightarrow> ret ()
     | Some rx \<Rightarrow> if connected_once rx then catchC (remuxer_cmd rx (with_client br (sm_cmd (start srv)))) errorHandler
         else ret ())"

text \<open>A tick of the flush timer.\<close>

definition flush_timer :: "browser \<Rightarrow> unit player_cmd" where
  "flush_timer br = seqC (get wp_remuxer) (\<lambda>rx. case rx of
       None \<Rightarrow> ret ()
     | Some rx \<Rightarrow> remuxer_cmd rx (with_client br flush_tick))"

text \<open>The listener for \<^verbatim>\<open>abort\<close> of the video element; an exception rejects a promise that nobody handles.\<close>

definition on_abort :: "server \<Rightarrow> unit player_cmd" where
  "on_abort srv = catchC (unload srv) (\<lambda>e. ret ())"

section \<open>Taking down\<close>

text \<open>Some source buffer was removed from the media source by its error handler.\<close>

definition buffer_lost :: "source \<Rightarrow> bool" where
  "buffer_lost so \<longleftrightarrow> (\<exists>k b. map_of (so_buffers so) k = Some b \<and> \<not> sb_attached b)"

lemma clear_range_total: "\<exists>b'. clear_range i b = (Inr (), b') \<and> sb_attached b' = sb_attached b"
  by (auto simp: clear_range_def range_at_def settle_def buf_defs split: prod.split sum.split if_splits)

lemma clear_ranges_total: "\<exists>b'. forC is clear_range b = (Inr (), b') \<and> sb_attached b' = sb_attached b"
proof (induction "is" arbitrary: b)
  case (Cons i "is")
  obtain b1 where "clear_range i b = (Inr (), b1)" "sb_attached b1 = sb_attached b" using clear_range_total by blast
  with Cons.IH [of b1] show ?case by (auto simp: seqC_def)
qed (simp add: ret_def)

text \<open>A buffer can be destroyed once; destroying one that was removed raises.\<close>

lemma destroy_attached: "sb_attached b \<Longrightarrow> \<exists>b'. destroy b = (Inr (), b')"
  using clear_ranges_total [of "[0..<length (sb_buffered b)]" "b\<lparr>mb_listening := False, mb_queue := []\<rparr>"]
  by (auto simp: destroy_def clear_def removeSourceBuffer_def buffered_def cmd_defs)

lemma destroy_lost: "\<not> sb_attached b \<Longrightarrow> \<exists>b'. destroy b = (Inl InvalidStateError, b') \<and> \<not> sb_attached b'"
  by (auto simp: destroy_def clear_def buffered_def cmd_defs)

definition drop_buffer :: "payload_type \<Rightarrow> unit source_cmd" where
  "drop_buffer k = seqC (with_buffer k destroy) (\<lambda>_. modify (\<lambda>so. so\<lparr>so_buffers := AList.delete k (so_buffers so)\<rparr>))"

lemma drop_buffer_kept:
  assumes "\<And>b. map_of (so_buffers so) k = Some b \<Longrightarrow> sb_attached b"
  shows "\<exists>so'. drop_buffer k so = (Inr (), so') \<and> map_of (so_buffers so') = (map_of (so_buffers so))(k := None)"
proof (cases "map_of (so_buffers so) k")
  case None
  then show ?thesis by (auto simp: drop_buffer_def with_buffer_def cmd_defs delete_conv' fun_eq_iff)
next
  case (Some b)
  let ?b = "b\<lparr>pl_currentTime := v_time (so_players so ! 0), pl_error := v_error (so_players so ! 0)\<rparr>"
  have "sb_attached ?b" using assms Some by simp
  from destroy_attached [OF this] obtain b' where "destroy ?b = (Inr (), b')" by blast
  with Some show ?thesis
    by (auto simp: drop_buffer_def with_buffer_def cmd_defs delete_conv' update_conv' fun_eq_iff Let_def)
qed

lemma drop_buffer_lost:
  assumes "map_of (so_buffers so) k = Some b" "\<not> sb_attached b"
  shows "\<exists>so'. drop_buffer k so = (Inl InvalidStateError, so') \<and> buffer_lost so'"
proof -
  let ?b = "b\<lparr>pl_currentTime := v_time (so_players so ! 0), pl_error := v_error (so_players so ! 0)\<rparr>"
  have "\<not> sb_attached ?b" using assms by simp
  from destroy_lost [OF this] obtain b' where "destroy ?b = (Inl InvalidStateError, b')" "\<not> sb_attached b'" by blast
  with assms(1) show ?thesis
    by (auto simp: drop_buffer_def with_buffer_def cmd_defs update_conv' buffer_lost_def Let_def)
qed

text \<open>The loop of \<^verbatim>\<open>reset\<close> over the buffers ends normally exactly when none of them was lost.\<close>

lemma drop_buffers_kept:
  assumes "\<not> buffer_lost so"
  shows "\<exists>so'. forC ks drop_buffer so = (Inr (), so') \<and> map_of (so_buffers so') = (map_of (so_buffers so))|` (- set ks)"
  using assms
proof (induction ks arbitrary: so)
  case (Cons k ks)
  obtain so1 where so1: "drop_buffer k so = (Inr (), so1)" "map_of (so_buffers so1) = (map_of (so_buffers so))(k := None)"
    using drop_buffer_kept [of so k] Cons.prems by (auto simp: buffer_lost_def)
  then have "\<not> buffer_lost so1" using Cons.prems by (auto simp: buffer_lost_def)
  from Cons.IH [OF this] so1 show ?case by (auto simp: seqC_def fun_eq_iff restrict_map_def)
qed (simp add: ret_def restrict_map_def)

lemma drop_buffers_lost:
  assumes "map_of (so_buffers so) k = Some b" "\<not> sb_attached b" "k \<in> set ks"
  shows "\<exists>so'. forC ks drop_buffer so = (Inl InvalidStateError, so') \<and> buffer_lost so'"
  using assms
proof (induction ks arbitrary: so)
  case (Cons j ks)
  show ?case
  proof (cases "\<exists>b. map_of (so_buffers so) j = Some b \<and> \<not> sb_attached b")
    case True
    then show ?thesis using drop_buffer_lost [of so j] by (auto simp: seqC_def)
  next
    case False
    then obtain so1 where so1: "drop_buffer j so = (Inr (), so1)" "map_of (so_buffers so1) = (map_of (so_buffers so))(j := None)"
      using drop_buffer_kept [of so j] by blast
    have "j \<noteq> k" using False Cons.prems(1,2) by auto
    with Cons.IH [of so1] so1 Cons.prems show ?thesis by (auto simp: seqC_def)
  qed
qed simp

lemma MSE_reset_eq:
  "MSE_reset = seqC (modify (\<lambda>so. so\<lparr>so_ready := False\<rparr>)) (\<lambda>_. seqC (get buffer_keys) (\<lambda>ks. seqC (forC ks drop_buffer) (\<lambda>_.
     modify (\<lambda>so. so\<lparr>so_duration := (if so_open so then Some 0 else so_duration so), so_open := False,
         so_updating := False, so_resolved := False, so_buffers := []\<rparr>))))"
  by (simp add: MSE_reset_def drop_buffer_def [abs_def])

lemma MSE_reset_kept: "\<not> buffer_lost so \<Longrightarrow> \<exists>so'. MSE_reset so = (Inr (), so') \<and> so_buffers so' = []"
  using drop_buffers_kept [of "so\<lparr>so_ready := False\<rparr>" "buffer_keys so"]
  by (auto simp: MSE_reset_eq cmd_defs buffer_lost_def buffer_keys_def)

lemma MSE_reset_lost: "buffer_lost so \<Longrightarrow> \<exists>so'. MSE_reset so = (Inl InvalidStateError, so') \<and> buffer_lost so'"
proof -
  assume "buffer_lost so"
  then obtain k b where b: "map_of (so_buffers so) k = Some b" "\<not> sb_attached b" by (auto simp: buffer_lost_def)
  then have "k \<in> set (buffer_keys so)" by (simp add: buffer_keys_def flip: dom_map_of_conv_image_fst) blast
  with drop_buffers_lost [of "so\<lparr>so_ready := False\<rparr>" k b "buffer_keys so"] b show ?thesis
    by (auto simp: MSE_reset_eq cmd_defs buffer_keys_def)
qed

text \<open>The player cannot be taken down any more once a source buffer was lost.\<close>

definition stuck :: "ws_player \<Rightarrow> bool" where
  "stuck p \<longleftrightarrow> (\<exists>rx. wp_remuxer p = Some rx \<and> buffer_lost (rx_source rx))"

lemma Remuxer_destroy_kept:
  assumes "\<not> buffer_lost (rx_source rx)"
  shows "\<exists>rx'. Remuxer_destroy rx = (Inr (), rx') \<and> rx_client rx' = None \<and> so_buffers (rx_source rx') = [] \<and> \<not> rx_listening rx'"
  using MSE_reset_kept [OF assms] by (auto simp: Remuxer_destroy_def MSE_destroy_def detachClient_def rx_defs)

lemma Remuxer_destroy_lost:
  assumes "buffer_lost (rx_source rx)"
  shows "\<exists>rx'. Remuxer_destroy rx = (Inl InvalidStateError, rx') \<and> rx_client rx' = rx_client rx \<and> buffer_lost (rx_source rx')"
  using MSE_reset_lost [OF assms] by (auto simp: Remuxer_destroy_def MSE_destroy_def detachClient_def rx_defs)

lemma release_client_total: "fst (release_client srv rc) = Inr ()"
  by (simp add: release_client_def BaseClient_stop_def sm_cmd_def detach_def RTSPClient_destroy_def RTSPClient_detachTransport_def
      BaseClient_detachTransport_def cmd_defs split: prod.split sum.split)

lemma unload_kept:
  assumes "\<not> stuck p"
  shows "\<exists>p'. unload srv p = (Inr (), p') \<and> wp_remuxer p' = None \<and> wp_src p' = placeholder \<and> wp_errors p' = wp_errors p \<and>
    wp_released p' = wp_released p @ release_transport (case wp_remuxer p of None \<Rightarrow> None | Some rx \<Rightarrow> rx_client rx)"
proof (cases "wp_remuxer p")
  case None
  then show ?thesis by (simp add: unload_def release_transport_def cmd_defs)
next
  case (Some rx)
  with assms obtain rx' where "Remuxer_destroy rx = (Inr (), rx')" using Remuxer_destroy_kept [of rx] by (auto simp: stuck_def)
  with Some show ?thesis
    by (auto simp: unload_def remuxer_cmd_def release_client_total cmd_defs split: option.split)
qed

lemma unload_stuck:
  assumes "stuck p"
  shows "\<exists>p'. unload srv p = (Inl InvalidStateError, p') \<and> stuck p' \<and> wp_released p' = wp_released p \<and>
    map_option rx_client (wp_remuxer p') = map_option rx_client (wp_remuxer p)"
proof -
  obtain rx where rx: "wp_remuxer p = Some rx" "buffer_lost (rx_source rx)" using assms by (auto simp: stuck_def)
  from Remuxer_destroy_lost [OF rx(2)] rx(1) show ?thesis
    by (auto simp: unload_def remuxer_cmd_def stuck_def cmd_defs)
qed

lemma load_stuck: "stuck p \<Longrightarrow> load srv clock wsurl p = unload srv p"
  using unload_stuck [of p srv] by (auto simp: load_def cmd_defs)

text \<open>Any number of attempts to unload or to load again.\<close>

datatype attempt = Unload server | Load server string string

fun attempt_on :: "attempt \<Rightarrow> unit player_cmd" where
  "attempt_on (Unload srv) = unload srv"
| "attempt_on (Load srv clock wsurl) = load srv clock wsurl"

lemma attempt_stuck:
  assumes "stuck p"
  shows "\<exists>p'. attempt_on a p = (Inl InvalidStateError, p') \<and> stuck p' \<and> wp_released p' = wp_released p \<and>
    map_option rx_client (wp_remuxer p') = map_option rx_client (wp_remuxer p)"
  using unload_stuck [OF assms] load_stuck [OF assms] by (cases a) simp_all

lemma attempts_stuck:
  assumes "stuck p"
  shows "stuck (foldl (\<lambda>p a. snd (attempt_on a p)) p as) \<and> wp_released (foldl (\<lambda>p a. snd (attempt_on a p)) p as) = wp_released p \<and>
    map_option rx_client (wp_remuxer (foldl (\<lambda>p a. snd (attempt_on a p)) p as)) = map_option rx_client (wp_remuxer p)"
  using assms
proof (induction "as" arbitrary: p)
  case (Cons a as)
  obtain p' where p': "attempt_on a p = (Inl InvalidStateError, p')" "stuck p'" "wp_released p' = wp_released p"
    "map_option rx_client (wp_remuxer p') = map_option rx_client (wp_remuxer p)"
    using attempt_stuck [OF Cons.prems] by blast
  from Cons.IH [OF p'(2)] p' show ?case by simp
qed simp

lemma failure_loses_buffer:
  assumes "map_of (so_buffers so) k = Some b" "sb_attached b" "mb_listening b"
  shows "\<exists>so'. with_buffer k (on_failure others) so = (Inr (), so') \<and> buffer_lost so'"
proof -
  let ?b = "b\<lparr>pl_currentTime := v_time (so_players so ! 0), pl_error := v_error (so_players so ! 0)\<rparr>"
  obtain b' where "on_failure others ?b = (Inr (), b')" "\<not> sb_attached b'"
    using assms(2,3) by (simp add: on_failure_def removeSourceBuffer_def dispatch_def cmd_defs)
  with assms(1) show ?thesis by (auto simp: with_buffer_def Let_def buffer_lost_def update_conv' intro!: exI [of _ k])
qed


section \<open>Loading\<close>

lemma stop_fresh: "cl_sessions c = [] \<Longrightarrow> detach (stop srv) c = (Inr (), c\<lparr>cl_shouldReconnect := False\<rparr>)"
  by (simp add: detach_def stop_def for_in_def cmd_defs)

text \<open>A client that was just made, wired to its transport and told what to ask for.\<close>

definition wired :: "rtsp_client \<Rightarrow> transport \<Rightarrow> url \<Rightarrow> bool" where
  "wired rc t ep \<longleftrightarrow> rc_transport rc = Some t \<and> rc_sourceUrl rc = Some (u_urlpath ep) \<and> rc_dispatched rc = [] \<and>
     rc_reported rc = [] \<and> \<not> rc_connected rc \<and> cl_endpoint (rc_sm rc) = ep \<and>
     cl_url (rc_sm rc) = u_protocol ep @ ''://'' @ u_location ep @ u_urlpath ep \<and> fresh (rc_sm rc) \<and> cl_sent (rc_sm rc) = [] \<and>
     \<not> cl_started (rc_sm rc) \<and> \<not> cl_seekable (rc_sm rc) \<and> \<not> cl_shouldReconnect (rc_sm rc) \<and> cl_ontracks (rc_sm rc) = None"

lemma client_wired:
  "\<exists>rc. seqC (RTSPClient_attachTransport t) (\<lambda>_. RTSPClient_setSource srv ep) (RTSPClient 200 ep clock) = (Inr (), rc) \<and> wired rc t ep"
  using fresh_client [of ep clock]
  by (simp add: RTSPClient_def RTSPClient_attachTransport_def BaseClient_attachTransport_def RTSPClient_setSource_def
      BaseClient_setSource_def BaseClient_stop_def sm_cmd_def stop_fresh setSource_def reset_fresh cmd_defs wired_def
      fresh_def online_def graph_def)

lemma wire_run:
  "\<exists>rc. wire srv clock ep wsurl rx = (Inr (), rx\<lparr>rx_client := Some rc\<rparr>) \<and> wired rc (WebsocketTransport ep ''rtsp'' wsurl) ep"
proof -
  let ?t = "WebsocketTransport ep ''rtsp'' wsurl"
  obtain rc where rc: "seqC (RTSPClient_attachTransport ?t) (\<lambda>_. RTSPClient_setSource srv ep) (RTSPClient 200 ep clock) = (Inr (), rc)"
    "wired rc ?t ep"
    using client_wired [of ?t srv ep clock] by blast
  then obtain rc1 where "RTSPClient_attachTransport ?t (RTSPClient 200 ep clock) = (Inr (), rc1)" "RTSPClient_setSource srv ep rc1 = (Inr (), rc)"
    by (auto simp: seqC_Inr_iff)
  then have "wire srv clock ep wsurl rx = (Inr (), rx\<lparr>rx_client := Some rc\<rparr>)"
    by (simp add: wire_def attachClient_def detachClient_def client_cmd_def cmd_defs)
  with rc show ?thesis by blast
qed

lemma Remuxer_new:
  "rx_tracks (Remuxer v i) = []" "so_buffers (rx_source (Remuxer v i)) = []" "rx_listening (Remuxer v i)"
  "\<not> rx_initialized (Remuxer v i)" "rx_client (Remuxer v i) = None"
  "so_players (rx_source (Remuxer v i)) = [v]"
  by (simp_all add: Remuxer_def Remuxer_reset_def Remuxer_clear_source_def MSE_clear_def MSE_reset_def MSE_def setupEvents_def buffer_keys_def source_cmd_def cmd_defs)

lemma load_run:
  assumes "\<not> stuck p" "Url_parse wsurl = Inr u"
  shows "\<exists>p' v i rc. load srv clock wsurl p = (Inr (), p') \<and> wp_remuxer p' = Some ((Remuxer v i)\<lparr>rx_client := Some rc\<rparr>) \<and>
    wired rc (WebsocketTransport (u\<lparr>u_protocol := ''rtsp''\<rparr>) ''rtsp'' wsurl) (u\<lparr>u_protocol := ''rtsp''\<rparr>) \<and> \<not> rc_paused rc \<and>
    wp_src p' = placeholder \<and> (wp_remuxer p = None \<longrightarrow> v = wp_video p) \<and>
    wp_released p' = wp_released p @ release_transport (case wp_remuxer p of None \<Rightarrow> None | Some rx \<Rightarrow> rx_client rx)"
proof -
  let ?ep = "u\<lparr>u_protocol := ''rtsp''\<rparr>"
  obtain p1 where p1: "unload srv p = (Inr (), p1)"
    "wp_released p1 = wp_released p @ release_transport (case wp_remuxer p of None \<Rightarrow> None | Some rx \<Rightarrow> rx_client rx)"
    using unload_kept [OF assms(1)] by blast
  have v: "wp_video p1 = wp_video p" if "wp_remuxer p = None"
    using p1(1) that by (auto simp: unload_def cmd_defs)
  let ?rx = "Remuxer (wp_video p1) (wp_track_id p1)"
  obtain rc where wire: "wire srv clock ?ep wsurl ?rx = (Inr (), ?rx\<lparr>rx_client := Some rc\<rparr>)"
    and rc: "wired rc (WebsocketTransport ?ep ''rtsp'' wsurl) ?ep"
    using wire_run [of srv clock ?ep wsurl ?rx] by auto
  let ?p = "p1\<lparr>wp_url := wsurl, wp_endpoint := Some ?ep, wp_src := placeholder,
      wp_remuxer := Some (?rx\<lparr>rx_client := Some (rc\<lparr>rc_paused := False\<rparr>)\<rparr>)\<rparr>"
  have "load srv clock wsurl p = (Inr (), ?p)"
    using p1(1) wire assms(2)
    by (simp add: load_def remuxer_cmd_def client_cmd_def BaseClient_start_def cmd_defs Let_def)
  moreover have "wired (rc\<lparr>rc_paused := False\<rparr>) (WebsocketTransport ?ep ''rtsp'' wsurl) ?ep" using rc by (simp add: wired_def)
  ultimately show ?thesis
    using p1(2) v by (intro exI [of _ ?p] exI [of _ "wp_video p1"] exI [of _ "wp_track_id p1"]
        exI [of _ "rc\<lparr>rc_paused := False\<rparr>"] conjI) simp_all
qed

text \<open>C12: Unless a source buffer was lost before (property \<^verbatim>\<open>lost_buffer_blocks_unload\<close>), loading an address takes
  down what was there and leaves a new remuxer, client and transport wired to each other: the transport connects to the address, the protocol is in its initial
  state and asks for the path of the address by RTSP, the client is not paused, no track and no source
  buffer of the old stream is left. The transport of the old stream is closed and listens to nobody.\<close>

theorem load_wires_player:
  assumes "\<not> stuck p" "Url_parse wsurl = Inr u"
  shows "\<exists>p' rx rc. load srv clock wsurl p = (Inr (), p') \<and> wp_remuxer p' = Some rx \<and> rx_client rx = Some rc \<and>
    rc_transport rc = Some (WebsocketTransport (u\<lparr>u_protocol := ''rtsp''\<rparr>) ''rtsp'' wsurl) \<and> cl_transport (rc_sm rc) \<and>
    cl_url (rc_sm rc) = ''rtsp://'' @ u_location u @ u_urlpath u \<and> sm_current (cl_sm (rc_sm rc)) = Some STATE_INITIAL \<and>
    \<not> rc_paused rc \<and> rx_tracks rx = [] \<and> so_buffers (rx_source rx) = [] \<and> \<not> stuck p' \<and> wp_src p' = placeholder \<and>
    wp_released p' = wp_released p @ release_transport (case wp_remuxer p of None \<Rightarrow> None | Some rx \<Rightarrow> rx_client rx)"
proof -
  let ?ep = "u\<lparr>u_protocol := ''rtsp''\<rparr>"
  obtain p' v i rc where "load srv clock wsurl p = (Inr (), p')" "wp_remuxer p' = Some ((Remuxer v i)\<lparr>rx_client := Some rc\<rparr>)"
    "wired rc (WebsocketTransport ?ep ''rtsp'' wsurl) ?ep" "\<not> rc_paused rc" "wp_src p' = placeholder"
    "wp_remuxer p = None \<longrightarrow> v = wp_video p"
    "wp_released p' = wp_released p @ release_transport (case wp_remuxer p of None \<Rightarrow> None | Some rx \<Rightarrow> rx_client rx)"
    using load_run [OF assms, of srv clock] by (elim exE conjE) (rule that)
  then show ?thesis
    by (auto simp: wired_def fresh_def online_def Remuxer_new stuck_def buffer_lost_def)
qed

definition example_video :: video where
  "example_video = \<lparr>v_paused = True, v_time = 0, v_error = False\<rparr>"

text \<open>The default ports do not include those of \<^verbatim>\<open>ws\<close> and \<^verbatim>\<open>wss\<close>.\<close>

lemma load_asks_port_zero:
  "map_sum id (\<lambda>u. (u_location u, u_urlpath u)) (Url_parse ''ws://cam/live'') = Inr (''cam:0'', ''/live'')"
  by code_simp

lemma example_flushing_kept: "\<not> buffer_lost (rx_source example_flushing)"
  by (auto simp: buffer_lost_def example_flushing_def MSEBuffer_def split: if_splits)

text \<open>A player with a track, a source buffer and a connection is given another address.\<close>

lemma load_wires_player_witness:
  "\<exists>p' rx rc t. load (\<lambda>_. Inl TypeErr) [] ''ws://cam/live'' ((WSPlayer example_video)\<lparr>wp_remuxer := Some example_flushing\<rparr>) = (Inr (), p') \<and>
     wp_remuxer p' = Some rx \<and> rx_client rx = Some rc \<and> cl_url (rc_sm rc) = ''rtsp://cam:0/live'' \<and> \<not> rc_paused rc \<and>
     rx_tracks rx = [] \<and> so_buffers (rx_source rx) = [] \<and> wp_released p' = [t] \<and> \<not> tr_listening t"
proof -
  let ?p = "(WSPlayer example_video)\<lparr>wp_remuxer := Some example_flushing\<rparr>"
  obtain u where u: "Url_parse ''ws://cam/live'' = Inr u" "u_location u = ''cam:0''" "u_urlpath u = ''/live''"
    using load_asks_port_zero by (cases "Url_parse ''ws://cam/live''") auto
  have "\<not> stuck ?p" using example_flushing_kept by (simp add: stuck_def)
  note run = load_wires_player [OF this u(1), of "\<lambda>_. Inl TypeErr" "[]"]
  from run obtain p' rx rc where "load (\<lambda>_. Inl TypeErr) [] ''ws://cam/live'' ?p = (Inr (), p')"
    "wp_remuxer p' = Some rx" "rx_client rx = Some rc" "cl_url (rc_sm rc) = ''rtsp://'' @ u_location u @ u_urlpath u"
    "\<not> rc_paused rc" "rx_tracks rx = []" "so_buffers (rx_source rx) = []"
    "wp_released p' = wp_released ?p @ release_transport (case wp_remuxer ?p of None \<Rightarrow> None | Some rx \<Rightarrow> rx_client rx)"
    by (elim exE conjE) (rule that)
  moreover have "\<exists>t. wp_released ?p @ release_transport (case wp_remuxer ?p of None \<Rightarrow> None | Some rx \<Rightarrow> rx_client rx) = [t] \<and> \<not> tr_listening t"
    by (simp add: WSPlayer_def example_flushing_def example_remuxer_def example_receiver_def release_transport_def tr_destroy_def)
  ultimately show ?thesis using u(2,3) by auto
qed


end
