(* ===== verification/Startup.thy ===== *)
theory Startup
  imports Player Sps
begin

text \<open>
  From the address to the track: what a player does when it is told to load an address, when the socket of
  its transport opens and when the connection counts as ready.
\<close>

section \<open>The socket opens\<close>

text \<open>The media elements that the media source of a player feeds; a healthy one has not failed.\<close>

definition screen :: "ws_player \<Rightarrow> video list option" where
  "screen p = map_option (\<lambda>rx. so_players (rx_source rx)) (wp_remuxer p)"

definition healthy :: "ws_player \<Rightarrow> bool" where
  "healthy p \<longleftrightarrow> (\<exists>v. screen p = Some [v] \<and> \<not> v_error v)"

text \<open>A client on an open connection that has not asked for anything.\<close>

definition connected :: "rtsp_client \<Rightarrow> bool" where
  "connected rc \<longleftrightarrow> receiving rc \<and> \<not> rc_paused rc \<and> fresh (rc_sm rc) \<and> cl_sent (rc_sm rc) = [] \<and> cl_ontracks (rc_sm rc) = None"

lemma socket_opens:
  assumes "wired rc (WebsocketTransport ep ''rtsp'' wsurl) ep" "\<not> rc_paused rc"
  shows "\<exists>rc1 t. transport_happens srv (Opened 0) rc = Some rc1 \<and> connected rc1 \<and> rc_dispatched rc1 = [''clear''] \<and>
    rc_transport rc1 = Some t \<and> 0 \<in> set (tr_connects t)"
  using assms
  by (simp add: transport_happens_def wired_def WebsocketTransport_def tr_connect_def tr_disconnect_def tr_connect_socket_def
      tr_step_def ws_onopen_def set_socket_def tr_dispatch_def on_transport_event_def RTSPClient_onConnected_def sm_cmd_def
      onConnected_def BaseClient_onConnected_def rc_dispatch_def cmd_defs connected_def receiving_def fresh_def online_def graph_def Let_def)

text \<open>The remuxer of a player that is about to receive tracks.\<close>

definition empty_remuxer :: "remuxer \<Rightarrow> bool" where
  "empty_remuxer rx \<longleftrightarrow> rx_tracks rx = [] \<and> \<not> rx_initialized rx \<and> rx_listening rx \<and> so_buffers (rx_source rx) = [] \<and>
     rx_reported rx = [] \<and> rx_feeding rx = [] \<and> \<not> so_mediaReady (rx_source rx) \<and> \<not> so_resolved (rx_source rx) \<and>
     so_waiting (rx_source rx) = []"

lemma MSE_clear_empty: "so_buffers so = [] \<Longrightarrow> \<exists>so'. MSE_clear so = (Inr (), so') \<and> so_buffers so' = [] \<and>
    \<not> so_mediaReady so' \<and> \<not> so_resolved so' \<and> so_waiting so' = [] \<and> so_players so' = so_players so"
  by (simp add: MSE_clear_def MSE_reset_def setupEvents_def buffer_keys_def cmd_defs)

lemma on_clear_run:
  assumes "so_buffers (rx_source rx) = []" "rx_listening rx" "rx_reported rx = []"
  shows "\<exists>rx'. client_event br ''clear'' infos rx = (Inr (), rx') \<and> empty_remuxer rx' \<and> rx_client rx' = rx_client rx \<and>
    so_players (rx_source rx') = so_players (rx_source rx)"
proof -
  obtain so1 where so1: "MSE_clear (rx_source rx) = (Inr (), so1)" "so_buffers so1 = []" "so_players so1 = so_players (rx_source rx)"
    using MSE_clear_empty [OF assms(1)] by blast
  obtain so2 where "MSE_clear so1 = (Inr (), so2)" "so_buffers so2 = []" "\<not> so_mediaReady so2" "\<not> so_resolved so2" "so_waiting so2 = []"
    "so_players so2 = so_players so1" using MSE_clear_empty [OF so1(2)] by blast
  with so1 assms(2,3) show ?thesis
    by (simp add: client_event_def on_clear_def listener_def Remuxer_reset_def Remuxer_clear_source_def source_cmd_def cmd_defs empty_remuxer_def)
qed

lemma player_connected:
  assumes "wp_remuxer p = Some ((Remuxer v i)\<lparr>rx_client := Some rc\<rparr>)"
    and "wired rc (WebsocketTransport ep ''rtsp'' wsurl) ep" "\<not> rc_paused rc"
  shows "\<exists>p' rx rc1 t. socket_event srv br (Opened 0) p = Some p' \<and> wp_remuxer p' = Some rx \<and> empty_remuxer rx \<and>
    screen p' = Some [v] \<and> rx_client rx = Some rc1 \<and> connected rc1 \<and> rc_transport rc1 = Some t \<and> 0 \<in> set (tr_connects t)"
proof -
  obtain rc1 t where rc1: "transport_happens srv (Opened 0) rc = Some rc1" "connected rc1" "rc_dispatched rc1 = [''clear'']"
    "rc_transport rc1 = Some t" "0 \<in> set (tr_connects t)"
    using socket_opens [OF assms(2,3)] by blast
  let ?rx = "(Remuxer v i)\<lparr>rx_client := Some rc1\<rparr>"
  have "rx_reported (Remuxer v i) = []"
    by (simp add: Remuxer_def Remuxer_reset_def Remuxer_clear_source_def MSE_clear_def MSE_reset_def MSE_def setupEvents_def buffer_keys_def rx_defs)
  then obtain rx where rx: "client_event br ''clear'' [] ?rx = (Inr (), rx)" "empty_remuxer rx" "rx_client rx = Some rc1"
    "so_players (rx_source rx) = [v]" using on_clear_run [of ?rx br "[]"] by (auto simp: Remuxer_new)
  have "rc_dispatched rc = []" "cl_ontracks (rc_sm rc1) = None" using assms(2) rc1(2) by (simp_all add: wired_def connected_def)
  then have "pump_events br 0 ?rx = (Inr (), rx)" using rc1(3) rx(1) by (simp add: pump_events_def cmd_defs)
  with \<open>rc_dispatched rc = []\<close> rc1 rx show ?thesis using assms(1) by (simp add: socket_event_def remuxer_cmd_def screen_def)
qed

section \<open>The track is made\<close>

text \<open>A remuxer for the H.264 track of a camera: it is ready for slices, has seen none yet, and its track has
  the parameter sets and the dimensions that the first of them says.\<close>

definition sees_picture :: "bytes \<Rightarrow> bytes \<Rightarrow> sps \<Rightarrow> mp4_track \<Rightarrow> bool" where
  "sees_picture sps pps s t \<longleftrightarrow> t_sps t = [sps] \<and> t_pps t = [pps] \<and>
     t_codec t = ''avc1.'' @ concat (map hex2 (take 3 (drop 1 sps))) \<and>
     t_width t = (case cfg_width (sps_picture s) of Some w \<Rightarrow> w | None \<Rightarrow> 0) \<and> t_height t = cfg_height (sps_picture s)"

definition no_slice_yet :: "h264_remuxer \<Rightarrow> bool" where
  "no_slice_yet r \<longleftrightarrow> b_ready r \<and> \<not> b_initialized r \<and> b_samples r = [] \<and> h_gop r = [] \<and> h_nextDts r = None \<and>
     h_lastGopDTS r < 0 \<and> h_lastDurations r = [] \<and> b_scaleFactor r = 1 \<and> b_duration r = 1 \<and> b_timescale r = 90000 \<and> h264_rem_ok r"

definition made_for :: "bytes \<Rightarrow> bytes \<Rightarrow> sps \<Rightarrow> h264_remuxer \<Rightarrow> bool" where
  "made_for sps pps s r \<longleftrightarrow> sees_picture sps pps s (b_track r) \<and> no_slice_yet r"

text \<open>The bytes of a parameter set with these syntax elements.\<close>

definition sps_of :: "sps \<Rightarrow> bytes \<Rightarrow> bool" where
  "sps_of s sps \<longleftrightarrow> sps_ok s \<and> (\<exists>rest. bytes_bits sps = sps_bits s @ rest \<and> rest \<noteq> []) \<and> 4 < length sps \<and> set_kind sps = 7"

lemma track_made:
  assumes "sps_of s sps" "set_kind pps = 8"
  shows "\<exists>t r. new_track i PT_H264 (ti_params (video_info m sps pps)) = Inr t \<and>
    track_times (video_info m sps pps) t = VideoTrk r \<and> made_for sps pps s r"
proof -
  obtain rest where s: "sps_ok s" "bytes_bits sps = sps_bits s @ rest" "rest \<noteq> []" "4 < length sps" "set_kind sps = 7"
    using assms(1) by (auto simp: sps_of_def)
  have "parseSPS tr sps = Inr (tr\<lparr>t_width := (case cfg_width (sps_picture s) of Some w \<Rightarrow> w | None \<Rightarrow> 0),
      t_height := cfg_height (sps_picture s), t_sps := [sps], t_codec := ''avc1.'' @ concat (map hex2 (take 3 (drop 1 sps)))\<rparr>)" for tr
    using readSPS_correct [OF s(1-3)] s(4) by (simp add: parseSPS_def)
  then show ?thesis
    using s(5) assms(2)
    by (simp add: new_track_def video_info_def no_params_def H264Remuxer_def parsePPS_def Let_def track_times_def made_for_def
        sees_picture_def no_slice_yet_def h264_rem_ok_def TrackScaleFactor_def TrackTimescale_def)
qed

lemma tracks_made:
  assumes "empty_remuxer rx" "rx_client rx = Some rc" "sps_of s sps" "set_kind pps = 8"
  shows "\<exists>rx' r. client_event br ''tracks'' [video_info m sps pps] rx = (Inr (), rx') \<and> rx_client rx' = Some rc \<and>
    rx_tracks rx' = [(PT_H264, VideoTrk r)] \<and> made_for sps pps s r \<and> \<not> rx_initialized rx' \<and> rx_listening rx' \<and>
    so_buffers (rx_source rx') = [] \<and> so_is_live (rx_source rx') = Some (\<not> cl_seekable (rc_sm rc)) \<and>
    rx_feeding rx' = [] \<and> \<not> so_mediaReady (rx_source rx') \<and> \<not> so_resolved (rx_source rx') \<and> so_waiting (rx_source rx') = [] \<and>
    so_players (rx_source rx') = so_players (rx_source rx)"
proof -
  obtain t r where t: "new_track (rx_track_id rx) PT_H264 (ti_params (video_info m sps pps)) = Inr t"
    "track_times (video_info m sps pps) t = VideoTrk r" "made_for sps pps s r"
    using track_made [OF assms(3,4)] by blast
  have "ti_type (video_info m sps pps) = PT_H264" by (simp add: video_info_def)
  then have "client_event br ''tracks'' [video_info m sps pps] rx = (Inr (), rx\<lparr>rx_track_id := rx_track_id rx + 1,
      rx_tracks := [(PT_H264, VideoTrk r)], rx_source := (rx_source rx)\<lparr>so_is_live := Some (\<not> cl_seekable (rc_sm rc))\<rparr>\<rparr>)"
    using assms(1,2) t(1,2)
    by (simp add: client_event_def listener_def onTracks_def rx_defs MSE_setLive_def buffer_keys_def empty_remuxer_def)
  then show ?thesis using assms(1,2) t(3) by (simp add: empty_remuxer_def)
qed

section \<open>The connection is ready\<close>

text \<open>What the player has then: a client that waits for the packets of the channel, and the track for them.\<close>

definition awaits_packets :: "ws_player \<Rightarrow> media_desc \<Rightarrow> int \<Rightarrow> bytes \<Rightarrow> bytes \<Rightarrow> sps \<Rightarrow> bool" where
  "awaits_packets p m ch sps pps s \<longleftrightarrow> (\<exists>rx rc r. wp_remuxer p = Some rx \<and> rx_client rx = Some rc \<and> receiving rc \<and>
     \<not> rc_paused rc \<and> map method_of (cl_sent (rc_sm rc)) = [''OPTIONS'', ''DESCRIBE'', ''SETUP'', ''PLAY''] \<and>
     video_track (rc_sm rc) (int (md_pt m)) ch \<lparr>ts_last = 0, ts_overflow = 0\<rparr> None [] \<and>
     map fst (cl_sampleQueues (rc_sm rc)) = [PT_H264] \<and> cl_ontracks (rc_sm rc) = None \<and> 0 < rc_timers rc \<and>
     rx_tracks rx = [(PT_H264, VideoTrk r)] \<and> made_for sps pps s r \<and> \<not> rx_initialized rx \<and> rx_listening rx \<and>
     so_buffers (rx_source rx) = [] \<and> so_is_live (rx_source rx) = Some True \<and>
     rx_feeding rx = [] \<and> \<not> so_mediaReady (rx_source rx) \<and> \<not> so_resolved (rx_source rx) \<and> so_waiting (rx_source rx) = [])"

lemma connection_starts:
  assumes "wp_remuxer p = Some rx" "empty_remuxer rx" "rx_client rx = Some rc" "connected rc"
    and "rc_transport rc = Some t" "0 \<in> set (tr_connects t)"
    and "one_camera d m" "announces m sps pps" "serves_camera srv 0 d sess ch" "sps_of s sps" "set_kind pps = 8"
  shows "\<exists>p'. connection_ready srv br p = (Inr (), p') \<and> awaits_packets p' m ch sps pps s \<and> screen p' = screen p"
proof -
  have c: "fresh (rc_sm rc)" "cl_sent (rc_sm rc) = []" using assms(4) by (simp_all add: connected_def)
  obtain c' where start: "start srv (rc_sm rc) = (Inr (), c')"
    and plays: "plays c' [''OPTIONS'', ''DESCRIBE'', ''SETUP'', ''PLAY''] m sps pps (js_split sess '';'' ! 0) ch"
    using granted_start_plays [OF c(1) assms(7,8), of srv sess ch] c(2) assms(9) by auto
  define rc1 where "rc1 = rc\<lparr>rc_sm := c', rc_dispatched := rc_dispatched rc @ [''tracks''], rc_timers := rc_timers rc + 1\<rparr>"
  have infos: "cl_ontracks (rc_sm rc1) = Some [video_info m sps pps]" "\<not> cl_seekable (rc_sm rc1)"
    using plays by (simp_all add: rc1_def plays_def)
  have "empty_remuxer (rx\<lparr>rx_client := Some rc1\<rparr>)" using assms(2) by (simp add: empty_remuxer_def)
  from tracks_made [OF this _ assms(10,11), of rc1 br m] obtain rx1 r where
    rx1: "client_event br ''tracks'' [video_info m sps pps] (rx\<lparr>rx_client := Some rc1\<rparr>) = (Inr (), rx1)" "rx_client rx1 = Some rc1"
      "rx_tracks rx1 = [(PT_H264, VideoTrk r)]" "made_for sps pps s r" "\<not> rx_initialized rx1" "rx_listening rx1"
      "so_buffers (rx_source rx1) = []" "so_is_live (rx_source rx1) = Some True"
      "rx_feeding rx1 = []" "\<not> so_mediaReady (rx_source rx1)" "\<not> so_resolved (rx_source rx1)" "so_waiting (rx_source rx1) = []"
      "so_players (rx_source rx1) = so_players (rx_source rx)" using infos(2) by auto
  let ?rc2 = "rc1\<lparr>rc_sm := (rc_sm rc1)\<lparr>cl_ontracks := None\<rparr>\<rparr>"
  have "with_client br (sm_cmd (start srv)) rx = (Inr (), rx1\<lparr>rx_client := Some ?rc2\<rparr>)"
    using assms(3) start infos rx1(1,2) plays
    by (simp add: with_client_def client_cmd_def sm_cmd_def after_protocol_def on_tracks_def rc_dispatch_def startStreamFlush_def
        pump_events_def forget_tracks_def cmd_defs plays_def rc1_def)
  moreover have "connected_once rx" using assms(3,5,6) by (simp add: connected_once_def)
  ultimately have "connection_ready srv br p = (Inr (), p\<lparr>wp_remuxer := Some (rx1\<lparr>rx_client := Some ?rc2\<rparr>)\<rparr>)"
    using assms(1) by (simp add: connection_ready_def remuxer_cmd_def cmd_defs)
  moreover have "awaits_packets (p\<lparr>wp_remuxer := Some (rx1\<lparr>rx_client := Some ?rc2\<rparr>)\<rparr>) m ch sps pps s"
    using rx1(3-12) plays assms(4)
    by (simp add: awaits_packets_def rc1_def plays_def connected_def receiving_def video_track_def)
  moreover have "screen (p\<lparr>wp_remuxer := Some (rx1\<lparr>rx_client := Some ?rc2\<rparr>)\<rparr>) = screen p"
    using rx1(13) assms(1) by (simp add: screen_def)
  ultimately show ?thesis by blast
qed

lemma load_awaits:
  assumes "\<not> stuck p" "Url_parse wsurl = Inr u"
    and "one_camera d m" "announces m sps pps" "serves_camera srv 0 d sess ch" "sps_of s sps" "set_kind pps = 8"
  shows "\<exists>p1 p2 p3. load srv clock wsurl p = (Inr (), p1) \<and> socket_event srv br (Opened 0) p1 = Some p2 \<and>
    connection_ready srv br p2 = (Inr (), p3) \<and> awaits_packets p3 m ch sps pps s \<and>
    (wp_remuxer p = None \<and> \<not> v_error (wp_video p) \<longrightarrow> healthy p3)"
proof -
  let ?ep = "u\<lparr>u_protocol := ''rtsp''\<rparr>"
  obtain p1 v i rc where p1: "load srv clock wsurl p = (Inr (), p1)" "wp_remuxer p1 = Some ((Remuxer v i)\<lparr>rx_client := Some rc\<rparr>)"
    "wired rc (WebsocketTransport ?ep ''rtsp'' wsurl) ?ep" "\<not> rc_paused rc"
    "wp_remuxer p = None \<longrightarrow> v = wp_video p"
    using load_run [OF assms(1,2), of srv clock] by (elim exE conjE) (rule that)
  obtain p2 rx rc1 t where p2: "socket_event srv br (Opened 0) p1 = Some p2" "wp_remuxer p2 = Some rx" "empty_remuxer rx"
    "rx_client rx = Some rc1" "connected rc1" "rc_transport rc1 = Some t" "0 \<in> set (tr_connects t)"
    "screen p2 = Some [v]" using player_connected [OF p1(2-4), of srv br] by (elim exE conjE) (rule that)
  obtain p3 where p3: "connection_ready srv br p2 = (Inr (), p3)" "awaits_packets p3 m ch sps pps s" "screen p3 = Some [v]"
    using connection_starts [OF p2(2-7) assms(3-7), of br] p2(8) by auto
  then have "wp_remuxer p = None \<and> \<not> v_error (wp_video p) \<longrightarrow> healthy p3" using p1(5) by (simp add: healthy_def)
  with p1(1) p2(1) p3 show ?thesis by blast
qed

lemma example_video_fine: "\<not> stuck (WSPlayer example_video)" "wp_remuxer (WSPlayer example_video) = None"
    "\<not> v_error (wp_video (WSPlayer example_video))"
  by (simp_all add: stuck_def WSPlayer_def example_video_def)

lemma camera_sps_of: "sps_of example_sps camera_sps"
proof -
  have "bytes_bits camera_sps = sps_bits example_sps @ [True]" by code_simp
  moreover have "sps_ok example_sps" by (simp add: sps_ok_def example_sps_def field_ok_def ue_ok_def high_ok_def crop_ok_def)
  moreover have "4 < length camera_sps" "set_kind camera_sps = 7" by code_simp+
  ultimately show ?thesis unfolding sps_of_def by blast
qed

lemma camera_pps_kind: "set_kind camera_pps = 8"
  by code_simp

lemma example_address: "\<exists>u. Url_parse ''ws://cam/live'' = Inr u"
  using load_asks_port_zero by (cases "Url_parse ''ws://cam/live''") auto

text \<open>C3: Loading an address, the opening of the socket and the start of the protocol, against a server that grants
  the requests and describes one H.264 track, lead any player that can be taken down to the state in which it
  waits for the packets of the channel that the server chose: the connection is open, the four requests were
  sent, the remuxer has the track, ready for slices and with the dimensions that the announced parameter set
  says, the media source is told that the stream is live, and the flush timer runs. A player that had loaded
  nothing before has a healthy media element then, if its own has not failed.\<close>

theorem loaded_player_awaits_packets:
  assumes "\<not> stuck p" "Url_parse wsurl = Inr u"
    and "one_camera d m" "announces m sps pps" "serves_camera srv 0 d sess ch" "sps_of s sps" "set_kind pps = 8"
  shows "\<exists>p1 p2 p3. load srv clock wsurl p = (Inr (), p1) \<and> socket_event srv br (Opened 0) p1 = Some p2 \<and>
    connection_ready srv br p2 = (Inr (), p3) \<and> awaits_packets p3 m ch sps pps s \<and>
    (wp_remuxer p = None \<and> \<not> v_error (wp_video p) \<longrightarrow> healthy p3)"
  by (rule load_awaits [OF assms])

lemma loaded_player_awaits_packets_witness:
  "\<exists>p1 p2 p3. load camera [] ''ws://cam/live'' (WSPlayer example_video) = (Inr (), p1) \<and>
    socket_event camera roomy (Opened 0) p1 = Some p2 \<and> connection_ready camera roomy p2 = (Inr (), p3) \<and>
    awaits_packets p3 camera_media 0 camera_sps camera_pps example_sps \<and> healthy p3"
  using loaded_player_awaits_packets [OF example_video_fine(1) _ camera_desc_ok camera_announces camera_serves camera_sps_of camera_pps_kind]
    example_address example_video_fine(2,3) by blast

end
