(* ===== verification/Stream.thy ===== *)
theory Stream
  imports Tracks
begin

text \<open>
  A steady video stream through the remuxer: slices whose decoding times grow, until the first fragment.
  Every unit but the last, which may still get more slices, is in the fragment.
\<close>

section \<open>The queue of a steady stream\<close>

text \<open>A unit that the parser takes for a slice.\<close>

definition slice :: "nalu \<Rightarrow> bool" where
  "slice u \<longleftrightarrow> (n_type u = nal_code NDR \<or> n_type u = nal_code IDR) \<and> (\<exists>st. parceSliceHeader (n_data u) = Inr st)"

text \<open>The units \<open>us\<close> are queued, the last as the open group.\<close>

definition in_queue :: "h264_remuxer \<Rightarrow> nalu list \<Rightarrow> bool" where
  "in_queue r us \<longleftrightarrow> h264_rem_ok r \<and> b_ready r \<and> h_firstFound r \<and> 0 < b_scaleFactor r \<and>
     (\<exists>gop. h_gop r = gop \<and> length gop \<le> 1 \<and> (us \<noteq> [] \<longrightarrow> gop \<noteq> []) \<and> map (rs_unit \<circ> the) (b_samples r) @ gop = us) \<and>
     (\<forall>s \<in> set (map the (b_samples r)). rs_dts s = n_dts (rs_unit s) \<and> rs_pts s = n_dts (rs_unit s)) \<and>
     (\<forall>u \<in> set us. n_pts u = n_dts u \<and> n_dts u \<le> h_lastGopDTS r) \<and> sorted_wrt (<) (map n_dts us)"

text \<open>The same when nothing was sent yet.\<close>

definition nothing_sent :: "h264_remuxer \<Rightarrow> bool" where
  "nothing_sent r \<longleftrightarrow> (h_nextDts r = None \<or> h_nextDts r = Some 0) \<and> h_lastDurations r = []"

definition steady_queue :: "h264_remuxer \<Rightarrow> nalu list \<Rightarrow> bool" where
  "steady_queue r us \<longleftrightarrow> in_queue r us \<and> nothing_sent r"

text \<open>What queueing a unit leaves as it is: the track but for the length of its payload, and what is known of
  the fragments that were sent.\<close>

definition about_track :: "h264_remuxer \<Rightarrow> mp4_track \<times> rat \<times> rat \<times> rat" where
  "about_track r = ((b_track r)\<lparr>t_len := 0\<rparr>, b_duration r, b_timescale r, b_scaleFactor r)"

definition about_past :: "h264_remuxer \<Rightarrow> bool \<times> rat \<times> rat option \<times> rat list \<times> int" where
  "about_past r = (b_initialized r, init_dts r, h_nextDts r, h_lastDurations r, h_lastSampleDuration r)"

lemma close_one: "length gop \<le> 1 \<Longrightarrow> close_gop gop = Inr gop"
  by (cases gop) (auto simp: close_gop_def)

lemma parse_slice:
  assumes "slice u" "hp_firstFound p"
  shows "\<exists>st. parseNAL p u = Inr (True, u\<lparr>n_sliceType := Some st\<rparr>, p)"
  using assms by (auto simp: slice_def parseNAL_def Let_def)

lemma h264_remux_queued:
  assumes "in_queue r us" "slice u" "n_pts u = n_dts u" "h_lastGopDTS r < n_dts u"
  shows "\<exists>r' st. h264_remux r u = (r', Inr ()) \<and> in_queue r' (us @ [u\<lparr>n_sliceType := Some st\<rparr>]) \<and>
    h_lastGopDTS r' = n_dts u \<and> about_track r' = about_track r \<and> about_past r' = about_past r"
proof -
  define r1 where "r1 = (foldl push_unit r (h_gop r))\<lparr>h_gop := [], h_lastGopDTS := n_dts u\<rparr>"
  have gop: "length (h_gop r) \<le> 1" using assms(1) by (auto simp: in_queue_def)
  have found: "hp_firstFound (h264_parser_of r1)"
    using assms(1) gop by (cases "h_gop r") (auto simp: in_queue_def r1_def h264_parser_of_def push_unit_def base_remux_def Let_def)
  obtain st where "parseNAL (h264_parser_of r1) u = Inr (True, u\<lparr>n_sliceType := Some st\<rparr>, h264_parser_of r1)"
    using parse_slice [OF assms(2) found] by blast
  moreover have "with_parser r1 (h264_parser_of r1) = r1" by (simp add: with_parser_def h264_parser_of_def)
  ultimately have run: "h264_remux r u = (r1\<lparr>h_gop := [u\<lparr>n_sliceType := Some st\<rparr>]\<rparr>, Inr ())"
    using assms(4) close_one [OF gop] by (simp add: h264_remux_def r1_def [symmetric] Let_def) (simp add: r1_def)
  have ok: "h264_rem_ok r1"
    using foldl_push_unit_ok [of r "h_gop r"] assms(1) by (simp add: in_queue_def r1_def h264_rem_ok_def)
  have "in_queue (r1\<lparr>h_gop := [u\<lparr>n_sliceType := Some st\<rparr>]\<rparr>) (us @ [u\<lparr>n_sliceType := Some st\<rparr>])"
    using assms gop ok
    by (cases "h_gop r") (auto simp: in_queue_def r1_def h264_rem_ok_def push_unit_def base_remux_def Let_def sorted_wrt_append
        intro: le_less_trans less_imp_le)
  moreover have "h_lastGopDTS r1 = n_dts u \<and> about_track r1 = about_track r \<and> about_past r1 = about_past r"
    using gop by (cases "h_gop r") (simp_all add: r1_def init_dts_def push_unit_def base_remux_def Let_def about_track_def about_past_def)
  ultimately show ?thesis using run by (intro exI [of _ "r1\<lparr>h_gop := [u\<lparr>n_sliceType := Some st\<rparr>]\<rparr>"] exI [of _ st]) (simp add: init_dts_def about_track_def about_past_def)
qed

text \<open>No unit raises.\<close>

fun remux_ok :: "track \<Rightarrow> media_unit list \<Rightarrow> bool" where
  "remux_ok t [] \<longleftrightarrow> True"
| "remux_ok t (u # us) \<longleftrightarrow> snd (tk_remux t u) = Inr () \<and> remux_ok (fst (tk_remux t u)) us"

lemma remux_ok_append: "remux_ok t (us @ vs) \<longleftrightarrow> remux_ok t us \<and> remux_ok (remux_all t us) vs"
  by (induction us arbitrary: t) auto

definition steady_units :: "rat \<Rightarrow> nalu list \<Rightarrow> bool" where
  "steady_units d vs \<longleftrightarrow> (\<forall>v \<in> set vs. slice v \<and> n_pts v = n_dts v) \<and> sorted_wrt (<) (d # map n_dts vs)"

lemma NALU_getData_sliceType [simp]: "NALU_getData (u\<lparr>n_sliceType := st\<rparr>) = NALU_getData u"
  by (simp add: NALU_getData_def)

lemma remux_queued:
  assumes "in_queue r us" "steady_units (h_lastGopDTS r) vs"
  shows "\<exists>r' ws. remux_ok (VideoTrk r) (map VideoUnit vs) \<and> remux_all (VideoTrk r) (map VideoUnit vs) = VideoTrk r' \<and>
    in_queue r' (us @ ws) \<and> map NALU_getData ws = map NALU_getData vs \<and> map n_dts ws = map n_dts vs \<and>
    about_track r' = about_track r \<and> about_past r' = about_past r \<and> h_lastGopDTS r' = last (h_lastGopDTS r # map n_dts vs)"
  using assms
proof (induction vs arbitrary: r us)
  case (Cons v vs)
  have v: "slice v" "n_pts v = n_dts v" "h_lastGopDTS r < n_dts v" using Cons.prems(2) by (auto simp: steady_units_def)
  obtain r1 st where r1: "h264_remux r v = (r1, Inr ())" "in_queue r1 (us @ [v\<lparr>n_sliceType := Some st\<rparr>])"
    "h_lastGopDTS r1 = n_dts v" "about_track r1 = about_track r" "about_past r1 = about_past r"
    using h264_remux_queued [OF Cons.prems(1) v] by (elim exE conjE)
  have "steady_units (h_lastGopDTS r1) vs" using Cons.prems(2) r1(3) by (auto simp: steady_units_def)
  from Cons.IH [OF r1(2) this] obtain r' ws where
    "remux_ok (VideoTrk r1) (map VideoUnit vs)" "remux_all (VideoTrk r1) (map VideoUnit vs) = VideoTrk r'"
    "in_queue r' ((us @ [v\<lparr>n_sliceType := Some st\<rparr>]) @ ws)" "map NALU_getData ws = map NALU_getData vs"
    "map n_dts ws = map n_dts vs" "about_track r' = about_track r1" "about_past r' = about_past r1"
    "h_lastGopDTS r' = last (h_lastGopDTS r1 # map n_dts vs)" by blast
  then show ?case
    using r1 by (intro exI [of _ r'] exI [of _ "v\<lparr>n_sliceType := Some st\<rparr> # ws"]) simp
qed simp

lemma remux_steady:
  assumes "steady_queue r us" "steady_units (h_lastGopDTS r) vs"
  shows "\<exists>r' ws. remux_ok (VideoTrk r) (map VideoUnit vs) \<and> remux_all (VideoTrk r) (map VideoUnit vs) = VideoTrk r' \<and>
    steady_queue r' (us @ ws) \<and> map NALU_getData ws = map NALU_getData vs \<and> map n_dts ws = map n_dts vs \<and>
    b_initialized r' = b_initialized r \<and> init_dts r' = init_dts r \<and> about_track r' = about_track r \<and>
    h_lastGopDTS r' = last (h_lastGopDTS r # map n_dts vs)"
  using remux_queued [of r us vs] assms unfolding steady_queue_def nothing_sent_def about_past_def by auto

section \<open>From the client's queue to the track\<close>

definition with_queue :: "payload_type \<Rightarrow> media_unit list list \<Rightarrow> rtsp_client \<Rightarrow> rtsp_client" where
  "with_queue k q rc = rc\<lparr>rc_sm := (rc_sm rc)\<lparr>cl_sampleQueues := [(k, q)]\<rparr>\<rparr>"

lemma with_queue_self: "cl_sampleQueues (rc_sm rc) = [(k, q)] \<Longrightarrow> with_queue k q rc = rc"
  by (cases rc) (simp add: with_queue_def)

lemma with_queue_twice [simp]: "with_queue k q (with_queue k q' rc) = with_queue k q rc"
  by (simp add: with_queue_def)

lemma queues_with_queue [simp]: "cl_sampleQueues (rc_sm (with_queue k q rc)) = [(k, q)]"
  by (simp add: with_queue_def)

lemma remux_units_run:
  "rx_tracks rx = [(k, t)] \<Longrightarrow> remux_ok t us \<Longrightarrow> remux_units k us rx = (Inr (), rx\<lparr>rx_tracks := [(k, remux_all t us)]\<rparr>)"
proof (induction us arbitrary: rx t)
  case (Cons u us)
  obtain t1 where t1: "tk_remux t u = (t1, Inr ())" using Cons.prems(2) by (cases "tk_remux t u") simp
  let ?rx = "rx\<lparr>rx_tracks := [(k, t1)]\<rparr>"
  have "remux_units k (u # us) rx = remux_units k us ?rx"
    using Cons.prems(1) t1 by (simp add: rx_defs)
  with Cons.IH [of ?rx t1] Cons.prems(2) t1 show ?case by simp
qed (simp add: ret_def)

lemma set_queue_run:
  "rx_client rx = Some rc \<Longrightarrow> cl_sampleQueues (rc_sm rc) = [(k, q)] \<Longrightarrow>
     set_queue k q' rx = (Inr (), rx\<lparr>rx_client := Some (with_queue k q' rc)\<rparr>)"
  by (simp add: set_queue_def modify_def with_queue_def)

lemma drain_queue_run:
  "rx_tracks rx = [(k, t)] \<Longrightarrow> rx_client rx = Some rc \<Longrightarrow> cl_sampleQueues (rc_sm rc) = [(k, q)] \<Longrightarrow> remux_ok t (concat q) \<Longrightarrow>
     drain_queue k q rx = (Inr (), rx\<lparr>rx_tracks := [(k, remux_all t (concat q))], rx_client := Some (with_queue k [] rc)\<rparr>)"
proof (induction q arbitrary: rx t rc)
  case Nil
  then show ?case by (simp add: ret_def with_queue_self)
next
  case (Cons us q)
  let ?rx1 = "rx\<lparr>rx_client := Some (with_queue k q rc)\<rparr>"
  let ?rx2 = "?rx1\<lparr>rx_tracks := [(k, remux_all t us)]\<rparr>"
  have 1: "set_queue k q rx = (Inr (), ?rx1)" by (rule set_queue_run [OF Cons.prems(2,3)])
  have 2: "remux_units k us ?rx1 = (Inr (), ?rx2)"
    using remux_units_run [of ?rx1 k t us] Cons.prems(1,4) by (simp add: remux_ok_append)
  have 3: "drain_queue k q ?rx2 = (Inr (), ?rx2\<lparr>rx_tracks := [(k, remux_all t (concat (us # q)))], rx_client := Some (with_queue k [] rc)\<rparr>)"
    using Cons.IH [of ?rx2 "remux_all t us" "with_queue k q rc"] Cons.prems(4) by (simp add: remux_ok_append)
  show ?case using 1 2 3 by (simp add: seqC_def)
qed

lemma onSamples_run:
  assumes "rx_tracks rx = [(k, t)]" "rx_client rx = Some rc" "cl_sampleQueues (rc_sm rc) = [(k, q)]" "remux_ok t (concat q)"
  shows "onSamples rx = (Inr (), rx\<lparr>rx_tracks := [(k, remux_all t (concat q))], rx_client := Some (with_queue k [] rc)\<rparr>)"
  using drain_queue_run [OF assms] assms by (simp add: onSamples_def queues_of_def client_queue_def cmd_defs)

section \<open>The first fragment\<close>

text \<open>Times are integers not too far from the first one.\<close>

definition whole_times :: "rat \<Rightarrow> nalu list \<Rightarrow> bool" where
  "whole_times d us \<longleftrightarrow> (\<exists>i. d = of_int i \<and> (\<forall>u \<in> set us. \<exists>n. n_dts u = of_int n \<and> \<bar>n - i\<bar> \<le> 2 ^ 53))"

lemma same_units:
  assumes "map NALU_getData ws = map NALU_getData vs" "map n_dts ws = map n_dts vs"
  shows "length ws = length vs" "units_size ws = units_size vs" "whole_times i (us @ ws) = whole_times i (us @ vs)"
proof -
  show "length ws = length vs" using arg_cong [OF assms(1), of length] by simp
  have "units_size xs = int (length (concat (map NALU_getData xs)))" for xs by (simp only: length_units)
  then show "units_size ws = units_size vs" by (simp only: assms(1))
  have "n_dts ` set (us @ ws) = n_dts ` set (us @ vs)"
    using arg_cong [OF assms(2), of set] by (simp only: set_map set_append image_Un)
  moreover have "whole_times i us \<longleftrightarrow> (\<exists>k. i = of_int k \<and> (\<forall>x \<in> n_dts ` set us. \<exists>n. x = of_int n \<and> \<bar>n - k\<bar> \<le> 2 ^ 53))" for us
    by (simp add: whole_times_def)
  ultimately show "whole_times i (us @ ws) = whole_times i (us @ vs)" by (simp only:)
qed

lemma sorted_js_sub:
  assumes "whole_times d us" "sorted (map n_dts us)"
  shows "sorted (map (\<lambda>u. js_sub (n_dts u) d) us)"
proof -
  obtain i where i: "d = of_int i" "\<forall>u \<in> set us. \<exists>n. n_dts u = of_int n \<and> \<bar>n - i\<bar> \<le> 2 ^ 53"
    using assms(1) by (auto simp: whole_times_def)
  have "map (\<lambda>u. js_sub (n_dts u) d) us = map (\<lambda>u. n_dts u - d) us"
    using i by (auto simp: js_sub_of_int)
  also have "sorted \<dots>" using assms(2) by (simp add: sorted_wrt_map)
  finally show ?thesis .
qed

lemma sorted_strict: "sorted_wrt (<) (xs :: rat list) \<Longrightarrow> sorted xs"
  by (rule sorted_wrt_mono_rel [of xs "(<)"]) auto

text \<open>The queue in decoding order is the queue.\<close>

lemma sorted_queue:
  assumes "in_queue r us" "us \<noteq> []"
  shows "\<exists>g. us = map rs_unit (h264_sorted r) @ [g] \<and> h264_sorted r = map the (b_samples r) \<and>
    (\<forall>s \<in> set (h264_sorted r). rs_dts s = n_dts (rs_unit s) \<and> rs_pts s = n_dts (rs_unit s)) \<and> sorted (map n_dts (map rs_unit (h264_sorted r)))"
proof -
  let ?ss = "map the (b_samples r)"
  obtain g where us: "us = map rs_unit ?ss @ [g]"
    using assms by (cases "h_gop r") (auto simp: in_queue_def comp_def)
  have times: "\<forall>s \<in> set ?ss. rs_dts s = n_dts (rs_unit s) \<and> rs_pts s = n_dts (rs_unit s)" "sorted_wrt (<) (map n_dts us)"
    using assms(1) by (simp_all add: in_queue_def)
  have dts: "map rs_dts ?ss = map n_dts (map rs_unit ?ss)" using times(1) by auto
  have sorted: "sorted (map n_dts (map rs_unit ?ss))"
    using times(2) by (intro sorted_strict) (simp add: us sorted_wrt_append)
  then have "h264_sorted r = ?ss" unfolding h264_sorted_def by (intro sort_key_id_if_sorted) (simp only: dts)
  then show ?thesis using us times(1) sorted by (intro exI [of _ g]) (simp only:)
qed

text \<open>Draining the queue when the loop does not move the first unit: the fragment has every unit but the last.\<close>

lemma queued_payload:
  assumes "in_queue r us" "b_initialized r" "1 < length us" "whole_times (init_dts r) us"
    and "h264_first (h_nextDts r) d d = Some (d, d)" "d = js_sub (n_dts (hd us)) (init_dts r)"
    and "104 + 17 * length us < 2 ^ 32" "8 + units_size us < 2 ^ 32"
  shows "\<exists>p r' v. h264_getPayload chrome r = Inr (Some p, r') \<and> p \<noteq> [] \<and> h264_drained (butlast us) (Some p) r' \<and>
    (\<forall>sn t. fragment_units (moof sn t (b_track r') @ mdat p) = Some (map NALU_getData (butlast us))) \<and>
    h264_after r (butlast us) v r' \<and> hv_dts v = last (map (\<lambda>u. js_sub (n_dts u) (init_dts r)) (butlast us)) \<and>
    hv_lastDurations v = note_durations (b_scaleFactor r) None (map (\<lambda>u. js_sub (n_dts u) (init_dts r)) (butlast us)) (h_lastDurations r)"
proof -
  let ?ss = "map the (b_samples r)"
  have "us \<noteq> []" using assms(3) by auto
  from sorted_queue [OF assms(1) this] obtain g where ss: "h264_sorted r = ?ss" and q: "us = map rs_unit (h264_sorted r) @ [g]"
    "\<forall>s \<in> set (h264_sorted r). rs_dts s = n_dts (rs_unit s) \<and> rs_pts s = n_dts (rs_unit s)"
    "sorted (map n_dts (map rs_unit (h264_sorted r)))" by (elim exE conjE)
  note us = q(1) [unfolded ss] and times = q(2) [unfolded ss] and sorted = q(3) [unfolded ss]
  have bl: "butlast us = map rs_unit ?ss" by (simp add: us)
  have rel: "map (\<lambda>s. js_sub (rs_dts s) (init_dts r)) ?ss = map (\<lambda>u. js_sub (n_dts u) (init_dts r)) (butlast us)"
    using times unfolding bl by simp
  have "whole_times (init_dts r) (map rs_unit ?ss)" using assms(4) by (auto simp: whole_times_def us)
  from sorted_js_sub [OF this sorted] have mono: "sorted (map (\<lambda>s. js_sub (rs_dts s) (init_dts r)) (h264_sorted r))"
    unfolding ss rel bl .
  have q: "h264_rem_ok r" "b_ready r" "b_samples r \<noteq> []" "0 < b_scaleFactor r"
    using assms(1,3) us by (auto simp: in_queue_def)
  have pts: "\<forall>s \<in> set (h264_sorted r). rs_pts s = rs_dts s" using times by (simp add: ss)
  have ne: "?ss \<noteq> []" using q(3) by simp
  have d: "d = js_sub (rs_dts (hd (h264_sorted r))) (init_dts r)"
    using assms(6) times ne unfolding ss us by (cases ?ss) auto
  from h264_getPayload_keeps_all [OF q(1,2) assms(2) q(3,4) pts mono assms(5) d, of chrome] obtain out r' v where
    pay: "h264_getPayload chrome r = Inr (out, r')" and dr: "h264_drained (butlast us) out r'" and af: "h264_after r (butlast us) v r'"
    and v: "hv_dts v = last (map (\<lambda>u. js_sub (n_dts u) (init_dts r)) (butlast us))"
      "hv_lastDurations v = note_durations (b_scaleFactor r) None (map (\<lambda>u. js_sub (n_dts u) (init_dts r)) (butlast us)) (h_lastDurations r)"
    unfolding ss bl [symmetric] rel using ne by (auto simp: bl)
  have ne: "butlast us \<noteq> []" using ne by (simp add: bl)
  then obtain p where p: "out = Some p" "p = concat (map NALU_getData (butlast us))"
    using dr by (simp add: h264_drained_def)
  have "p \<noteq> []" using p(2) ne by (cases "butlast us") auto
  moreover have "fragment_units (moof sn t (b_track r') @ mdat p) = Some (map NALU_getData (butlast us))" for sn t
  proof -
    have "8 + units_size (butlast us) < 2 ^ 32"
      using assms(8) NALU_getSize_pos [of g] by (simp add: us)
    moreover have "104 + 17 * length (butlast us) < 2 ^ 32" using assms(7) by simp
    moreover have "h264_drained (butlast us) (Some p) r'" using dr p(1) by simp
    ultimately show ?thesis using drained_fragment [of "butlast us" p r' sn t] by simp
  qed
  ultimately show ?thesis using pay p(1) dr af v by blast
qed

lemma steady_fragment:
  assumes "steady_queue r us" "b_initialized r" "1 < length us" "whole_times (init_dts r) us"
    and "104 + 17 * length us < 2 ^ 32" "8 + units_size us < 2 ^ 32"
  shows "\<exists>p r'. h264_getPayload chrome r = Inr (Some p, r') \<and> p \<noteq> [] \<and>
    (\<forall>sn t. fragment_units (moof sn t (b_track r') @ mdat p) = Some (map NALU_getData (butlast us)))"
proof -
  have "h264_first (h_nextDts r) d d = Some (d, d)" for d using assms(1) by (auto simp: steady_queue_def nothing_sent_def h264_first_def)
  then show ?thesis using queued_payload [OF _ assms(2-4) _ refl assms(5,6), of chrome] assms(1) unfolding steady_queue_def by blast
qed

end
