(* ===== verification/Playback.thy ===== *)
theory Playback
  imports Player Stream
begin

text \<open>
  From the socket to the source buffer: what a player that plays a video track does with the packets that
  arrive between two ticks of its flush timer.
\<close>

section \<open>A player that plays\<close>

text \<open>The bytes that the source buffer of a track was fed since it was made.\<close>

definition fed_to :: "payload_type \<Rightarrow> ws_player \<Rightarrow> bytes list" where
  "fed_to k p = (case wp_remuxer p of None \<Rightarrow> [] | Some rx \<Rightarrow>
     (case map_of (so_buffers (rx_source rx)) k of None \<Rightarrow> [] | Some b \<Rightarrow> mb_appended b @ mb_queue b))"

text \<open>The player plays one video track: the units \<open>us\<close> wait in the remuxer of the track, the last of them
  of time \<open>d\<close>; \<open>i\<close> is the time that counts as zero in the media source.\<close>

definition plays_video :: "browser \<Rightarrow> ws_player \<Rightarrow> int \<Rightarrow> int \<Rightarrow> ts_offset \<Rightarrow> int option \<Rightarrow> nalu list \<Rightarrow> rat \<Rightarrow> rat \<Rightarrow> bool" where
  "plays_video br p pt ch off first us d i \<longleftrightarrow> (\<exists>rx rc r b. wp_remuxer p = Some rx \<and> rx_client rx = Some rc \<and>
     receiving rc \<and> \<not> rc_paused rc \<and> video_track (rc_sm rc) pt ch off first [] \<and>
     map fst (cl_sampleQueues (rc_sm rc)) = [PT_H264] \<and> cl_ontracks (rc_sm rc) = None \<and>
     rx_initialized rx \<and> rx_tracks rx = [(PT_H264, VideoTrk r)] \<and> steady_queue r us \<and> b_initialized r \<and>
     h_lastGopDTS r = d \<and> init_dts r = i \<and> b_scaleFactor r = 1 \<and>
     map_of (so_buffers (rx_source rx)) PT_H264 = Some b \<and> ready b \<and> \<not> v_error (so_players (rx_source rx) ! 0) \<and>
     enough (br_append br PT_H264) (br_stack br))"

text \<open>The times of packets, counted from the first packet of the track.\<close>

definition packet_times :: "ts_offset \<Rightarrow> int option \<Rightarrow> video_packet list \<Rightarrow> int list" where
  "packet_times off first ps = map (\<lambda>t. t - (case first of None \<Rightarrow> hd (unwrap_run off (map vp_ts ps)) | Some f \<Rightarrow> f))
     (unwrap_run off (map vp_ts ps))"

definition packet_unit :: "video_packet \<Rightarrow> int \<Rightarrow> nalu" where
  "packet_unit q t = NALU (vp_type q) (vp_nri q) (vp_body q) (of_int t) None"

text \<open>What the packet carries, as it stands in an MP4 file: the NAL unit behind its length.\<close>

definition packet_data :: "video_packet \<Rightarrow> bytes" where
  "packet_data q = be32 (1 + int (length (vp_body q))) @ nal_header (vp_nri q) (vp_type q) # vp_body q"

definition slice_packet :: "video_packet \<Rightarrow> bool" where
  "slice_packet q \<longleftrightarrow> vp_ok q \<and> vp_type q \<in> {1, 5} \<and> (\<exists>st. parceSliceHeader (vp_body q) = Inr st)"

lemma packet_unit_simps [simp]:
  "NALU_getData (packet_unit q t) = packet_data q" "n_dts (packet_unit q t) = of_int t" "n_pts (packet_unit q t) = of_int t"
  "NALU_getSize (packet_unit q t) = 5 + int (length (vp_body q))"
  by (simp_all add: packet_unit_def packet_data_def NALU_def NALU_getData_def NALU_getSize_def nal_header_def pts_or_dts_def add.commute)

lemma packet_slice: "slice_packet q \<Longrightarrow> slice (packet_unit q t)"
  by (auto simp: slice_packet_def slice_def packet_unit_def NALU_def)

lemma length_unwrap_run: "length (unwrap_run off ts) = length ts"
  by (induction ts arbitrary: off) (simp_all add: case_prod_beta Let_def)

lemma length_packet_times [simp]: "length (packet_times off first ps) = length ps"
  by (simp add: packet_times_def length_unwrap_run)

lemma map2_vp_unit:
  "map2 (\<lambda>q t. [vp_unit q (t - f)]) ps ts = map (\<lambda>v. [VideoUnit v]) (map2 packet_unit ps (map (\<lambda>t. t - f) ts))"
  by (simp add: zip_map2 comp_def case_prod_beta vp_unit_def packet_unit_def)

lemma concat_singles: "concat (map (\<lambda>v. [f v]) vs) = map f vs"
  by (induction vs) simp_all

lemma map2_packet_unit:
  assumes "length ts = length ps"
  shows "map NALU_getData (map2 packet_unit ps ts) = map packet_data ps"
    and "map n_dts (map2 packet_unit ps ts) = map of_int ts"
    and "units_size (map2 packet_unit ps ts) = (\<Sum>q\<leftarrow>ps. 5 + int (length (vp_body q)))"
    and "\<forall>q \<in> set ps. slice_packet q \<Longrightarrow> \<forall>v \<in> set (map2 packet_unit ps ts). slice v \<and> n_pts v = n_dts v"
  using assms by (induction ps ts rule: list_induct2') (auto simp: units_size_def packet_slice)

section \<open>Packets arrive\<close>

lemma message_at_player:
  assumes "wp_remuxer p = Some rx" "rx_client rx = Some rc" "receiving rc" "m = 36 # m'" "onData m (rc_sm rc) = Some (Inr (), c)"
  shows "\<exists>rc'. socket_event srv br (Message m) p = Some (p\<lparr>wp_remuxer := Some (rx\<lparr>rx_client := Some rc'\<rparr>)\<rparr>) \<and>
    receiving rc' \<and> rc_sm rc' = c \<and> rc_paused rc' = rc_paused rc"
proof -
  obtain rc' where rc': "transport_happens srv (Message m) rc = Some rc'" "receiving rc'" "rc_sm rc' = c"
    "rc_dispatched rc' = rc_dispatched rc" "rc_paused rc' = rc_paused rc"
    using media_message [OF assms(3-5), of srv] by blast
  have "pump_events br (length (rc_dispatched rc)) (rx\<lparr>rx_client := Some rc'\<rparr>) = (Inr (), rx\<lparr>rx_client := Some rc'\<rparr>)"
    using rc'(4) by (simp add: pump_events_def cmd_defs)
  with assms(1,2) rc' show ?thesis by (intro exI [of _ rc']) (simp add: socket_event_def remuxer_cmd_def)
qed

lemma messages_at_player:
  assumes "wp_remuxer p = Some rx" "rx_client rx = Some rc" "receiving rc" "\<forall>m \<in> set ms. \<exists>m'. m = 36 # m'"
    and "run_data ms (rc_sm rc) = Some (Inr (), c)"
  shows "\<exists>rc'. socket_events srv br (map Message ms) p = Some (p\<lparr>wp_remuxer := Some (rx\<lparr>rx_client := Some rc'\<rparr>)\<rparr>) \<and>
    receiving rc' \<and> rc_sm rc' = c \<and> rc_paused rc' = rc_paused rc"
  using assms
proof (induction ms arbitrary: p rx rc)
  case Nil
  have "p\<lparr>wp_remuxer := Some (rx\<lparr>rx_client := Some rc\<rparr>)\<rparr> = p"
    using Nil.prems(1,2) by (cases p, cases rx) simp
  with Nil.prems show ?case by (intro exI [of _ rc]) simp
next
  case (Cons m ms)
  obtain c1 where c1: "onData m (rc_sm rc) = Some (Inr (), c1)" "run_data ms c1 = Some (Inr (), c)"
    using Cons.prems(5) by (auto split: option.splits sum.splits)
  obtain m' where m: "m = 36 # m'" using Cons.prems(4) by auto
  from message_at_player [OF Cons.prems(1-3) m c1(1), of srv br] obtain rc1 where
    rc1: "socket_event srv br (Message m) p = Some (p\<lparr>wp_remuxer := Some (rx\<lparr>rx_client := Some rc1\<rparr>)\<rparr>)"
      "receiving rc1" "rc_sm rc1 = c1" "rc_paused rc1 = rc_paused rc" by blast
  from Cons.IH [of "p\<lparr>wp_remuxer := Some (rx\<lparr>rx_client := Some rc1\<rparr>)\<rparr>" "rx\<lparr>rx_client := Some rc1\<rparr>" rc1]
  show ?case using rc1 Cons.prems(4) c1(2) by auto
qed

section \<open>A tick of the timer\<close>

definition flush_noted :: "rtsp_client \<Rightarrow> rtsp_client" where
  "flush_noted rc = rc\<lparr>rc_dispatched := rc_dispatched rc @ [''flush'']\<rparr>"

lemma flush_timer_run:
  assumes "wp_remuxer p = Some rx" "rx_client rx = Some rc" "\<not> rc_paused rc" "cl_ontracks (rc_sm rc) = None"
    and "Remuxer_flush br (rx\<lparr>rx_client := Some (flush_noted rc)\<rparr>) = (Inr (), rx2)" "rx_client rx2 = Some rc2"
  shows "flush_timer br p = (Inr (), p\<lparr>wp_remuxer := Some (rx2\<lparr>rx_client := Some (rc2\<lparr>rc_sm := (rc_sm rc2)\<lparr>cl_ontracks := None\<rparr>\<rparr>)\<rparr>)\<rparr>)"
proof -
  have "with_client br flush_tick rx = (Inr (), rx2\<lparr>rx_client := Some (rc2\<lparr>rc_sm := (rc_sm rc2)\<lparr>cl_ontracks := None\<rparr>\<rparr>)\<rparr>)"
    using assms(2-6) by (simp add: with_client_def client_cmd_def flush_tick_def rc_dispatch_def after_protocol_def
        pump_events_def client_event_def listener_def forget_tracks_def flush_noted_def cmd_defs)
  then show ?thesis using assms(1) by (simp add: flush_timer_def remuxer_cmd_def cmd_defs)
qed

definition flushed :: "rtsp_client \<Rightarrow> rtsp_client" where
  "flushed rc = (with_queue PT_H264 [] (flush_noted rc))\<lparr>rc_sm := (rc_sm (with_queue PT_H264 [] (flush_noted rc)))\<lparr>cl_ontracks := None\<rparr>\<rparr>"

text \<open>A tick with the units \<open>vs\<close> in the queue of the client, when the remuxer then makes the payload \<open>pay\<close>.\<close>

lemma tick_feeds:
  assumes "wp_remuxer p = Some rx" "rx_client rx = Some rc" "\<not> rc_paused rc" "cl_ontracks (rc_sm rc) = None"
    and "cl_sampleQueues (rc_sm rc) = [(PT_H264, map (\<lambda>v. [VideoUnit v]) vs)]"
    and "rx_initialized rx" "rx_tracks rx = [(PT_H264, VideoTrk r)]"
    and "remux_ok (VideoTrk r) (map VideoUnit vs)" "remux_all (VideoTrk r) (map VideoUnit vs) = VideoTrk r1"
    and "h264_getPayload (br_chrome br) r1 = Inr (Some pay, r2)" "pay \<noteq> []"
    and "map_of (so_buffers (rx_source rx)) PT_H264 = Some b" "ready b" "\<not> v_error (so_players (rx_source rx) ! 0)"
    and "enough (br_append br PT_H264) (br_stack br)"
  shows "\<exists>rx3 b'. flush_timer br p = (Inr (), p\<lparr>wp_remuxer := Some rx3\<rparr>) \<and> rx_client rx3 = Some (flushed rc) \<and>
    rx_initialized rx3 \<and> rx_tracks rx3 = [(PT_H264, VideoTrk (base_flush r2))] \<and>
    map_of (so_buffers (rx_source rx3)) PT_H264 = Some b' \<and> ready b' \<and> \<not> v_error (so_players (rx_source rx3) ! 0) \<and>
    mb_appended b' @ mb_queue b' = mb_appended b @ mb_queue b @ [tk_moof (VideoTrk r2), mdat pay]"
proof -
  let ?rx = "rx\<lparr>rx_client := Some (flush_noted rc)\<rparr>"
  let ?rx1 = "?rx\<lparr>rx_tracks := [(PT_H264, VideoTrk r1)], rx_client := Some (with_queue PT_H264 [] (flush_noted rc))\<rparr>"
  have samples: "onSamples ?rx = (Inr (), ?rx1)"
    using onSamples_run [of ?rx PT_H264 "VideoTrk r" "flush_noted rc" "map (\<lambda>v. [VideoUnit v]) vs"] assms(5,7-9)
    by (simp add: flush_noted_def concat_singles)
  let ?rx2 = "\<lambda>so. ?rx1\<lparr>rx_source := so, rx_tracks := [(PT_H264, VideoTrk (base_flush r2))]\<rparr>"
  obtain so b' where flush: "Remuxer_flush br ?rx = (Inr (), ?rx2 so)"
    "map_of (so_buffers so) PT_H264 = Some b'" "ready b'" "\<not> v_error (so_players so ! 0)"
    "mb_appended b' @ mb_queue b' = mb_appended b @ mb_queue b @ [tk_moof (VideoTrk r2), mdat pay]"
    using flush_run [OF samples _ _ assms(10,11) _ assms(13) _ assms(15)] assms(6,12,14) by auto
  have "rx_client (?rx2 so) = Some (with_queue PT_H264 [] (flush_noted rc))" by simp
  from flush_timer_run [OF assms(1-4) flush(1) this] flush(2-5) assms(6) show ?thesis
    by (intro exI [of _ "(?rx2 so)\<lparr>rx_client := Some (flushed rc)\<rparr>"] exI [of _ b']) (simp add: flushed_def)
qed

lemma tick_feeds_fragment:
  assumes "wp_remuxer p = Some rx" "rx_client rx = Some rc" "\<not> rc_paused rc" "cl_ontracks (rc_sm rc) = None"
    and "cl_sampleQueues (rc_sm rc) = [(PT_H264, map (\<lambda>v. [VideoUnit v]) vs)]"
    and "rx_initialized rx" "rx_tracks rx = [(PT_H264, VideoTrk r)]" "steady_queue r us" "b_initialized r"
    and "steady_units (h_lastGopDTS r) vs" "whole_times (init_dts r) (us @ vs)" "1 < length us + length vs"
    and "104 + 17 * (length us + length vs) < 2 ^ 32" "8 + units_size us + units_size vs < 2 ^ 32"
    and "map_of (so_buffers (rx_source rx)) PT_H264 = Some b" "ready b" "\<not> v_error (so_players (rx_source rx) ! 0)"
    and "enough (br_append br PT_H264) (br_stack br)"
  shows "\<exists>rx3 b' frag. flush_timer br p = (Inr (), p\<lparr>wp_remuxer := Some rx3\<rparr>) \<and>
    map_of (so_buffers (rx_source rx3)) PT_H264 = Some b' \<and> mb_appended b' @ mb_queue b' = mb_appended b @ mb_queue b @ frag \<and>
    fragment_units (concat frag) = Some (butlast (map NALU_getData (us @ vs)))"
proof -
  obtain r1 ws where
    r1: "remux_ok (VideoTrk r) (map VideoUnit vs)" "remux_all (VideoTrk r) (map VideoUnit vs) = VideoTrk r1"
      "steady_queue r1 (us @ ws)" and w: "map NALU_getData ws = map NALU_getData vs" "map n_dts ws = map n_dts vs"
      and i: "b_initialized r1 = b_initialized r" "init_dts r1 = init_dts r"
    using remux_steady [OF assms(8,10)] by (elim exE conjE)
  note ws = same_units [OF w]
  have "1 < length (us @ ws)" "104 + 17 * length (us @ ws) < 2 ^ 32" "8 + units_size (us @ ws) < 2 ^ 32"
    "whole_times (init_dts r1) (us @ ws)" "b_initialized r1"
    using assms(9,11-14) ws i by simp_all
  then obtain pay r2 where pay: "h264_getPayload (br_chrome br) r1 = Inr (Some pay, r2)" "pay \<noteq> []"
    "\<forall>sn t. fragment_units (moof sn t (b_track r2) @ mdat pay) = Some (map NALU_getData (butlast (us @ ws)))"
    using steady_fragment [OF r1(3), of "br_chrome br"] by blast
  have "fragment_units (concat [tk_moof (VideoTrk r2), mdat pay]) = Some (butlast (map NALU_getData (us @ vs)))"
    using pay(3) w(1) by (simp add: map_butlast)
  then show ?thesis using tick_feeds [OF assms(1-7) r1(1,2) pay(1,2) assms(15-18)] by (elim exE conjE) blast
qed

lemma player_takes_packets:
  assumes "wp_remuxer p = Some rx" "rx_client rx = Some rc" "receiving rc" "video_track (rc_sm rc) pt ch off first []"
    and "map fst (cl_sampleQueues (rc_sm rc)) = [PT_H264]" "\<forall>q \<in> set ps. vp_ok q" "0 \<le> pt" "pt < 128" "0 \<le> ch" "ch < 256"
  shows "\<exists>rc'. socket_events srv br (map (\<lambda>q. Message (interleaved_frame ch (vp_bytes pt q))) ps) p
      = Some (p\<lparr>wp_remuxer := Some (rx\<lparr>rx_client := Some rc'\<rparr>)\<rparr>) \<and> rc_paused rc' = rc_paused rc \<and> receiving rc' \<and>
    (\<exists>q. video_track (rc_sm rc') pt ch (unwrap_end off ps) (first_time off first ps) q) \<and> cl_ontracks (rc_sm rc') = cl_ontracks (rc_sm rc) \<and>
    cl_sampleQueues (rc_sm rc') = [(PT_H264, map (\<lambda>v. [VideoUnit v]) (map2 packet_unit ps (packet_times off first ps)))]"
proof -
  let ?ms = "map (\<lambda>q. interleaved_frame ch (vp_bytes pt q)) ps"
  obtain c where c: "run_data ?ms (rc_sm rc) = Some (Inr (), c)"
    "video_track c pt ch (unwrap_end off ps) (first_time off first ps) (map (\<lambda>v. [VideoUnit v]) (map2 packet_unit ps (packet_times off first ps)))"
    "cl_ontracks c = cl_ontracks (rc_sm rc)" "map fst (cl_sampleQueues c) = [PT_H264]"
    using video_packets_taken [OF assms(4,6-10)] assms(5) by (auto simp: map2_vp_unit packet_times_def)
  have q: "cl_sampleQueues c = [(PT_H264, map (\<lambda>v. [VideoUnit v]) (map2 packet_unit ps (packet_times off first ps)))]"
    using c(2,4) by (auto simp: video_track_def map_eq_Cons_conv)
  have "\<forall>m \<in> set ?ms. \<exists>m'. m = 36 # m'" by (auto simp: interleaved_frame_def)
  from messages_at_player [OF assms(1-3) this c(1), of srv br] c(2,3) q show ?thesis by (auto simp: comp_def)
qed

text \<open>C2: Whatever video packets arrive on the socket between two ticks of the flush timer, the tick feeds the
  source buffer a fragment from which a media player cuts the NAL units that waited and those of the packets,
  without the last one, in order and unchanged; nothing else is fed. The packets carry slices with growing
  timestamps, and the track has not sent a fragment yet.\<close>

theorem packets_become_fragment:
  assumes "plays_video br p pt ch off first us d i" "\<forall>q \<in> set ps. slice_packet q" "0 \<le> pt" "pt < 128" "0 \<le> ch" "ch < 256"
    and "sorted_wrt (<) (d # map of_int (packet_times off first ps))"
    and "whole_times i (us @ map2 packet_unit ps (packet_times off first ps))"
    and "1 < length us + length ps" "104 + 17 * (length us + length ps) < 2 ^ 32"
    and "8 + units_size us + (\<Sum>q\<leftarrow>ps. 5 + int (length (vp_body q))) < 2 ^ 32"
  shows "\<exists>p1 p2 frag. socket_events srv br (map (\<lambda>q. Message (interleaved_frame ch (vp_bytes pt q))) ps) p = Some p1 \<and>
    flush_timer br p1 = (Inr (), p2) \<and> fed_to PT_H264 p2 = fed_to PT_H264 p @ frag \<and>
    fragment_units (concat frag) = Some (butlast (map NALU_getData us @ map packet_data ps))"
proof -
  obtain rx rc r b where p: "wp_remuxer p = Some rx" "rx_client rx = Some rc" "receiving rc" "\<not> rc_paused rc"
    and track: "video_track (rc_sm rc) pt ch off first []"
    and queues: "map fst (cl_sampleQueues (rc_sm rc)) = [PT_H264]" "cl_ontracks (rc_sm rc) = None"
    and rx: "rx_initialized rx" "rx_tracks rx = [(PT_H264, VideoTrk r)]" "steady_queue r us" "b_initialized r"
      "h_lastGopDTS r = d" "init_dts r = i"
    and buffer: "map_of (so_buffers (rx_source rx)) PT_H264 = Some b" "ready b" "\<not> v_error (so_players (rx_source rx) ! 0)"
      "enough (br_append br PT_H264) (br_stack br)"
    using assms(1) unfolding plays_video_def by (elim exE conjE) (rule that)
  define vs where "vs = map2 packet_unit ps (packet_times off first ps)"
  note vs = map2_packet_unit [of "packet_times off first ps" ps, OF length_packet_times, folded vs_def]
  have len: "length vs = length ps" by (simp add: vs_def)
  have ok: "\<forall>q \<in> set ps. vp_ok q" using assms(2) by (simp add: slice_packet_def)
  obtain rc1 where run: "socket_events srv br (map (\<lambda>q. Message (interleaved_frame ch (vp_bytes pt q))) ps) p
      = Some (p\<lparr>wp_remuxer := Some (rx\<lparr>rx_client := Some rc1\<rparr>)\<rparr>)" (is "_ = Some ?p1")
    and rc1: "\<not> rc_paused rc1" "cl_ontracks (rc_sm rc1) = None"
      "cl_sampleQueues (rc_sm rc1) = [(PT_H264, map (\<lambda>v. [VideoUnit v]) vs)]"
    using player_takes_packets [OF p(1-3) track queues(1) ok assms(3-6), of srv br] p(4) queues(2) by (auto simp: vs_def)
  have steady: "steady_units (h_lastGopDTS r) vs" using vs(2,4) assms(2,7) rx(5) by (simp add: steady_units_def)
  have "\<exists>rx3 b' frag. flush_timer br ?p1 = (Inr (), ?p1\<lparr>wp_remuxer := Some rx3\<rparr>) \<and>
    map_of (so_buffers (rx_source rx3)) PT_H264 = Some b' \<and> mb_appended b' @ mb_queue b' = mb_appended b @ mb_queue b @ frag \<and>
    fragment_units (concat frag) = Some (butlast (map NALU_getData (us @ vs)))"
  proof (rule tick_feeds_fragment [OF _ _ rc1, where rx = "rx\<lparr>rx_client := Some rc1\<rparr>" and r = r])
    show "whole_times (init_dts r) (us @ vs)" using assms(8) rx(6) by (simp add: vs_def)
    show "8 + units_size us + units_size vs < 2 ^ 32" using assms(11) vs(3) by simp
  qed (use rx(1-4) buffer steady assms(9,10) len in simp_all)
  with run p(1) buffer(1) vs(1) show ?thesis by (fastforce simp: fed_to_def)
qed

definition example_packets :: "video_packet list" where
  "example_packets =
     [\<lparr>vp_marker = True, vp_seq = 1, vp_ts = 1000, vp_ssrc = 7, vp_nri = 0x60, vp_type = 5, vp_body = [0x88, 0x84, 0x21]\<rparr>,
      \<lparr>vp_marker = True, vp_seq = 2, vp_ts = 4000, vp_ssrc = 7, vp_nri = 0x40, vp_type = 1, vp_body = [0x9a, 0x21, 0x6c]\<rparr>]"

definition example_playing :: ws_player where
  "example_playing = (WSPlayer example_video)\<lparr>wp_remuxer := Some (example_flushing\<lparr>rx_client := Some (example_receiver\<lparr>rc_paused := False\<rparr>),
     rx_tracks := [(PT_H264, VideoTrk (example_h264\<lparr>h_lastGopDTS := - 1\<rparr>))]\<rparr>)\<rparr>"

lemma example_slices: "\<forall>q \<in> set example_packets. slice_packet q"
proof -
  have "parceSliceHeader [0x88, 0x84, 0x21] = Inr 7" "parceSliceHeader [0x9a, 0x21, 0x6c] = Inr 5"
    by code_simp+
  then show ?thesis by (simp add: example_packets_def slice_packet_def vp_ok_def)
qed

lemma example_plays: "plays_video roomy example_playing 96 0 \<lparr>ts_last = 0, ts_overflow = 0\<rparr> None [] (- 1) 0"
proof -
  let ?rx = "example_flushing\<lparr>rx_client := Some (example_receiver\<lparr>rc_paused := False\<rparr>),
     rx_tracks := [(PT_H264, VideoTrk (example_h264\<lparr>h_lastGopDTS := - 1\<rparr>))]\<rparr>"
  have "receiving (example_receiver\<lparr>rc_paused := False\<rparr>)" using example_receiver_receives(1) by (simp add: receiving_def)
  moreover have "cl_ontracks example_player = None" "map fst (cl_sampleQueues example_player) = [PT_H264]"
    by (simp_all add: example_player_def blank_client_def)
  moreover have "steady_queue (example_h264\<lparr>h_lastGopDTS := - 1\<rparr>) []"
    using example_h264_ok by (simp add: steady_queue_def in_queue_def nothing_sent_def h264_rem_ok_def) (simp add: example_h264_def)
  moreover have "b_initialized (example_h264\<lparr>h_lastGopDTS := - 1\<rparr>)" "init_dts (example_h264\<lparr>h_lastGopDTS := - 1\<rparr>) = 0"
    "b_scaleFactor (example_h264\<lparr>h_lastGopDTS := - 1\<rparr>) = 1"
    by (simp_all add: example_h264_def init_dts_def)
  moreover have "rx_initialized ?rx" "map_of (so_buffers (rx_source ?rx)) PT_H264 = Some (MSEBuffer ''video/mp4'')"
    "\<not> v_error (so_players (rx_source ?rx) ! 0)"
    by (simp_all add: example_flushing_def MSE_def)
  ultimately show ?thesis
    using example_player_track example_receiver_receives(2) ready_new roomy_enough
    unfolding plays_video_def example_playing_def
    by (intro exI [of _ ?rx] exI [of _ "example_receiver\<lparr>rc_paused := False\<rparr>"] exI [of _ "example_h264\<lparr>h_lastGopDTS := - 1\<rparr>"]
        exI [of _ "MSEBuffer ''video/mp4''"] conjI) simp_all
qed

lemma packets_become_fragment_witness:
  "\<exists>p1 p2 frag. socket_events (\<lambda>_. Inl TypeErr) roomy (map (\<lambda>q. Message (interleaved_frame 0 (vp_bytes 96 q))) example_packets)
      example_playing = Some p1 \<and> flush_timer roomy p1 = (Inr (), p2) \<and> fed_to PT_H264 p2 = fed_to PT_H264 example_playing @ frag \<and>
    fragment_units (concat frag) = Some [[0, 0, 0, 4, 0x65, 0x88, 0x84, 0x21]]"
proof -
  have t: "packet_times \<lparr>ts_last = 0, ts_overflow = 0\<rparr> None example_packets = [0, 3000]"
    by (simp add: packet_times_def example_packets_def unwrap_ts_def)
  have u: "map2 packet_unit example_packets [0, 3000] = [packet_unit (example_packets ! 0) 0, packet_unit (example_packets ! 1) 3000]"
    by (simp add: example_packets_def)
  have w: "whole_times 0 [packet_unit (example_packets ! 0) 0, packet_unit (example_packets ! 1) 3000]"
    unfolding whole_times_def by (rule exI [of _ 0]) auto
  have d: "butlast (map packet_data example_packets) = [[0, 0, 0, 4, 0x65, 0x88, 0x84, 0x21]]"
    by (simp add: example_packets_def packet_data_def) code_simp
  from packets_become_fragment [OF example_plays example_slices, of "\<lambda>_. Inl TypeErr"] show ?thesis
    unfolding t u using w d by (simp add: example_packets_def)
qed

end
