(* ===== verification/Opening.thy ===== *)
theory Opening
  imports Startup Playback
begin

text \<open>
  The opening of the playback: the media source opens, the first packets arrive, and the first tick of the
  flush timer finds a track that is ready: it makes the source buffer, feeds it the initialisation segment
  and leaves the player in the state that theory \<^verbatim>\<open>Playback\<close> starts from.
\<close>

section \<open>The first slices\<close>

lemma first_slice:
  assumes "no_slice_yet r" "slice u" "n_type u = nal_code IDR" "n_pts u = n_dts u" "0 \<le> n_dts u"
  shows "\<exists>r' st. h264_remux r u = (r', Inr ()) \<and> steady_queue r' [u\<lparr>n_sliceType := Some st\<rparr>] \<and> h_lastGopDTS r' = n_dts u \<and>
    about_track r' = about_track r \<and> about_past r' = about_past r"
proof -
  obtain st where st: "parceSliceHeader (n_data u) = Inr st" using assms(2) by (auto simp: slice_def)
  let ?u = "u\<lparr>n_sliceType := Some st\<rparr>"
  let ?r = "r\<lparr>h_gop := [?u], h_lastGopDTS := n_dts u, h_firstFound := True\<rparr>"
  have key: "NALU_isKeyframe ?u" using assms(3) by (simp add: NALU_isKeyframe_def)
  have "h264_remux r u = (?r, Inr ())"
    using assms(1,3,5) st key
    by (simp add: h264_remux_def no_slice_yet_def close_gop_def parseNAL_def h264_parser_of_def with_parser_def Let_def)
  moreover have "steady_queue ?r [?u]"
    using assms(1,4) by (simp add: steady_queue_def in_queue_def nothing_sent_def no_slice_yet_def h264_rem_ok_def)
  ultimately show ?thesis by (intro exI [of _ ?r] exI [of _ st]) (simp add: about_track_def about_past_def init_dts_def)
qed

text \<open>The first key frame and the slices behind it.\<close>

definition opening_units :: "nalu list \<Rightarrow> bool" where
  "opening_units vs \<longleftrightarrow> (case vs of [] \<Rightarrow> False
     | v # vs \<Rightarrow> slice v \<and> n_type v = nal_code IDR \<and> n_pts v = n_dts v \<and> 0 \<le> n_dts v \<and> steady_units (n_dts v) vs)"

lemma remux_opening:
  assumes "no_slice_yet r" "opening_units vs"
  shows "\<exists>r' ws. remux_ok (VideoTrk r) (map VideoUnit vs) \<and> remux_all (VideoTrk r) (map VideoUnit vs) = VideoTrk r' \<and>
    steady_queue r' ws \<and> map NALU_getData ws = map NALU_getData vs \<and> map n_dts ws = map n_dts vs \<and>
    about_track r' = about_track r \<and> about_past r' = about_past r \<and> h_lastGopDTS r' = last (map n_dts vs)"
proof -
  obtain v vs' where vs: "vs = v # vs'" "slice v" "n_type v = nal_code IDR" "n_pts v = n_dts v" "0 \<le> n_dts v" "steady_units (n_dts v) vs'"
    using assms(2) by (auto simp: opening_units_def split: list.splits)
  obtain r1 st where r1: "h264_remux r v = (r1, Inr ())" "steady_queue r1 [v\<lparr>n_sliceType := Some st\<rparr>]" "h_lastGopDTS r1 = n_dts v"
    "about_track r1 = about_track r" "about_past r1 = about_past r"
    using first_slice [OF assms(1) vs(2-5)] by blast
  have "steady_units (h_lastGopDTS r1) vs'" using vs(6) r1(3) by simp
  moreover have "in_queue r1 [v\<lparr>n_sliceType := Some st\<rparr>]" using r1(2) by (simp add: steady_queue_def)
  ultimately obtain r' ws where
    "remux_ok (VideoTrk r1) (map VideoUnit vs')" "remux_all (VideoTrk r1) (map VideoUnit vs') = VideoTrk r'"
    "in_queue r' ([v\<lparr>n_sliceType := Some st\<rparr>] @ ws)" "map NALU_getData ws = map NALU_getData vs'" "map n_dts ws = map n_dts vs'"
    "about_track r' = about_track r1" "about_past r' = about_past r1" "h_lastGopDTS r' = last (h_lastGopDTS r1 # map n_dts vs')"
    using remux_queued by blast
  moreover have "h_nextDts r = None" "h_lastDurations r = []" using assms(1) by (simp_all add: no_slice_yet_def)
  ultimately show ?thesis
    using r1 by (intro exI [of _ r'] exI [of _ "v\<lparr>n_sliceType := Some st\<rparr> # ws"]) (simp add: vs(1) steady_queue_def nothing_sent_def about_past_def)
qed

text \<open>A queue of two units or more has a closed one, the first.\<close>

lemma steady_first:
  assumes "steady_queue r us" "1 < length us"
  shows "\<exists>s xs. b_samples r = Some s # xs \<and> rs_dts s = n_dts (hd us)"
proof -
  from assms(1) obtain gop where us: "map (rs_unit \<circ> the) (b_samples r) @ gop = us" "length gop \<le> 1"
    and t: "\<forall>s \<in> set (map the (b_samples r)). rs_dts s = n_dts (rs_unit s)" and ok: "None \<notin> set (b_samples r)"
    by (auto simp: steady_queue_def in_queue_def nothing_sent_def h264_rem_ok_def)
  with assms(2) obtain x xs where x: "b_samples r = x # xs" by (cases "b_samples r") auto
  then obtain s where "x = Some s" using ok by (cases x) auto
  with x us(1) t show ?thesis by auto
qed

section \<open>The initialisation segment\<close>

definition initialised :: "rat \<Rightarrow> h264_remuxer \<Rightarrow> h264_remuxer" where
  "initialised d r = r\<lparr>b_initPTS := Some d, b_initDTS := Some d, b_initialized := True\<rparr>"

lemma initialised_steady: "steady_queue r us \<Longrightarrow> steady_queue (initialised d r) us"
  by (simp add: steady_queue_def in_queue_def nothing_sent_def initialised_def h264_rem_ok_def)

text \<open>A media source that is open and has no source buffer yet.\<close>

definition opened :: "source \<Rightarrow> bool" where
  "opened so \<longleftrightarrow> so_open so \<and> so_mediaReady so \<and> so_buffers so = [] \<and> so_waiting so = [] \<and>
     (\<exists>v. so_players so = [v] \<and> \<not> v_error v)"

lemma buffer_made:
  assumes "opened so"
  shows "\<exists>so' b. mediaReady_then (so\<lparr>so_waiting := [(k, codec)]\<rparr>) = (Inr [k], so') \<and> map_of (so_buffers so') k = Some b \<and> ready b \<and>
    mb_appended b = [] \<and> mb_queue b = [] \<and> so_players so' = so_players so"
  using assms by (auto simp: mediaReady_then_def opened_def add_buffer_def with_buffer_def setLive_def cmd_defs Let_def
      ready_def in_use_def busy_def MSEBuffer_def proper_def)

text \<open>The browser plays tracks with this codec.\<close>

definition plays_codec :: "browser \<Rightarrow> string \<Rightarrow> bool" where
  "plays_codec br codec \<longleftrightarrow> isSupported br [codec] \<and> enough (br_append br PT_H264) (br_stack br)"

definition init_segment :: "h264_remuxer \<Rightarrow> bytes" where
  "init_segment r = initSegment [b_track r] (js_mul (b_duration r) (b_timescale r)) (b_timescale r)"

lemma init_run:
  assumes "rx_tracks rx = [(PT_H264, VideoTrk r)]" "steady_queue r us" "1 < length us" "plays_codec br (t_codec (b_track r))"
    and "opened (rx_source rx)" "rx_feeding rx = []"
  shows "\<exists>rx' b. Remuxer_init br rx = (Inr (), rx') \<and> rx_initialized rx' \<and> rx_client rx' = rx_client rx \<and>
    rx_tracks rx' = [(PT_H264, VideoTrk (initialised (n_dts (hd us)) r))] \<and>
    map_of (so_buffers (rx_source rx')) PT_H264 = Some b \<and> ready b \<and> mb_appended b @ mb_queue b = [init_segment r] \<and>
    \<not> v_error (so_players (rx_source rx') ! 0)"
proof -
  let ?r = "initialised (n_dts (hd us)) r" and ?c = "t_codec (b_track r)"
  obtain s xs where "b_samples r = Some s # xs" "rs_dts s = n_dts (hd us)" using steady_first [OF assms(2,3)] by blast
  then have init: "tk_init (VideoTrk r) = Inr (VideoTrk ?r)" by (simp add: base_init_def min_inf_def initialised_def)
  have sup: "isSupported br [?c]" "enough (br_append br PT_H264) (br_stack br)" using assms(4) by (simp_all add: plays_codec_def)
  let ?mime = "pt_media PT_H264 @ ''/mp4; codecs='' @ [CHR 0x22] @ ?c @ [CHR 0x22]"
  obtain so b where so: "mediaReady_then ((rx_source rx)\<lparr>so_waiting := [(PT_H264, ?mime)]\<rparr>) = (Inr [PT_H264], so)"
    "map_of (so_buffers so) PT_H264 = Some b" "ready b"
    "mb_appended b = []" "mb_queue b = []" "so_players so = so_players (rx_source rx)"
    using buffer_made [OF assms(5)] by blast
  have v: "\<not> v_error (so_players so ! 0)" "so_players so \<noteq> []" "so_waiting (rx_source rx) = []" "so_mediaReady (rx_source rx)"
    using assms(5) so(6) by (auto simp: opened_def)
  obtain so1 b1 where so1: "MSE_feed br PT_H264 [init_segment r] so = (Inr (), so1)" "map_of (so_buffers so1) PT_H264 = Some b1"
    "ready b1" "mb_appended b1 @ mb_queue b1 = [init_segment r]" "\<not> v_error (so_players so1 ! 0)"
    using MSE_feed_in_order [OF sup(2) so(2,3) v(1), of "[init_segment r]"] so(4,5) v by fastforce
  have same: "b_track ?r = b_track r" "b_duration ?r = b_duration r" "b_timescale ?r = b_timescale r"
    by (simp_all add: initialised_def)
  have "Remuxer_init br rx = (Inr (), rx\<lparr>rx_codecs := [?c], rx_tracks := [(PT_H264, VideoTrk ?r)],
      rx_initSegments := AList.update PT_H264 (init_segment r) (rx_initSegments rx), rx_source := so1, rx_feeding := [],
      rx_initialized := True, rx_enabled := True\<rparr>)"
    using assms(1,6) sup(1) init so(1) v(3,4) so1(1)
    by (simp add: Remuxer_init_def track_keys_def rx_defs initMSE_def setCodec_def feed_init_segments_def same init_segment_def update_conv' del: tk_init.simps)
  then show ?thesis using so1(2-5) by simp
qed

section \<open>The first tick\<close>

text \<open>The browser opens the media source of the player.\<close>

definition source_opens :: "browser \<Rightarrow> unit player_cmd" where
  "source_opens br = seqC (get wp_remuxer) (\<lambda>rx. case rx of None \<Rightarrow> ret () | Some rx \<Rightarrow> remuxer_cmd rx (media_opened br))"

lemma source_opened:
  assumes "wp_remuxer p = Some rx" "healthy p" "so_buffers (rx_source rx) = []" "rx_feeding rx = []"
    and "\<not> so_resolved (rx_source rx)" "so_waiting (rx_source rx) = []"
  shows "\<exists>so. source_opens br p = (Inr (), p\<lparr>wp_remuxer := Some (rx\<lparr>rx_source := so, rx_mse_listening := True\<rparr>)\<rparr>) \<and> opened so"
  using assms by (intro exI [of _ "(rx_source rx)\<lparr>so_open := True, so_resolved := True, so_mediaReady := True, so_waiting := []\<rparr>"])
    (simp add: source_opens_def remuxer_cmd_def media_opened_def on_sourceopen_def initMSEHandlers_def rx_defs healthy_def screen_def opened_def)

text \<open>A flush of a remuxer that is not initialised, with a track that is ready.\<close>

lemma first_flush:
  assumes "onSamples rx = (Inr (), rx1)" "\<not> rx_initialized rx1" "rx_listening rx1" "rx_tracks rx1 = [(PT_H264, VideoTrk r)]"
    and "steady_queue r us" "1 < length us" "plays_codec br (t_codec (b_track r))" "opened (rx_source rx1)" "rx_feeding rx1 = []"
  shows "\<exists>rx' b. Remuxer_flush br rx = (Inr (), rx') \<and> rx_initialized rx' \<and> rx_client rx' = rx_client rx1 \<and>
    rx_tracks rx' = [(PT_H264, VideoTrk (initialised (n_dts (hd us)) r))] \<and>
    map_of (so_buffers (rx_source rx')) PT_H264 = Some b \<and> ready b \<and> mb_appended b @ mb_queue b = [init_segment r] \<and>
    \<not> v_error (so_players (rx_source rx') ! 0)"
proof -
  let ?rx = "rx1\<lparr>rx_dispatched := rx_dispatched rx1 @ [''ready'']\<rparr>"
  obtain rx' b where rx': "Remuxer_init br ?rx = (Inr (), rx')" "rx_initialized rx'" "rx_client rx' = rx_client rx1"
    "rx_tracks rx' = [(PT_H264, VideoTrk (initialised (n_dts (hd us)) r))]" "map_of (so_buffers (rx_source rx')) PT_H264 = Some b"
    "ready b" "mb_appended b @ mb_queue b = [init_segment r]" "\<not> v_error (so_players (rx_source rx') ! 0)"
    using init_run [of ?rx r us br] assms(4-9) by auto
  have "tk_ready (VideoTrk r)" using assms(5) steady_first [OF assms(5,6)] by (auto simp: steady_queue_def in_queue_def nothing_sent_def)
  then have "Remuxer_flush br rx = (Inr (), rx')"
    using assms(1-4) rx'(1) by (simp add: Remuxer_flush_def track_keys_def rx_dispatch_def listener_def cmd_defs)
  with rx'(2-8) show ?thesis by blast
qed

lemma about_track_same:
  assumes "about_track r' = about_track r" "made_for sps pps s r"
  shows "sees_picture sps pps s (b_track r')" "init_segment r' = initSegment [b_track r'] 90000 90000"
    "t_codec (b_track r') = ''avc1.'' @ concat (map hex2 (take 3 (drop 1 sps)))" "b_scaleFactor r' = 1"
proof -
  have t: "(b_track r')\<lparr>t_len := 0\<rparr> = (b_track r)\<lparr>t_len := 0\<rparr>" and d: "b_duration r' = 1" "b_timescale r' = 90000" "b_scaleFactor r' = 1"
    using assms by (simp_all add: about_track_def made_for_def no_slice_yet_def)
  have "f (b_track r') = f (b_track r)" if "\<And>t. f (t\<lparr>t_len := 0\<rparr>) = f t" for f :: "mp4_track \<Rightarrow> 'a"
    using arg_cong [OF t, of f] that by simp
  from this [of t_sps] this [of t_pps] this [of t_codec] this [of t_width] this [of t_height]
  show "sees_picture sps pps s (b_track r')" "t_codec (b_track r') = ''avc1.'' @ concat (map hex2 (take 3 (drop 1 sps)))"
    using assms(2) by (simp_all add: made_for_def sees_picture_def)
  show "b_scaleFactor r' = 1" by (fact d(3))
  show "init_segment r' = initSegment [b_track r'] 90000 90000"
    using d js_mul_1_of_int [of 90000] by (simp add: init_segment_def js_mul_def)
qed

text \<open>Packets of slices, the first a key frame, with growing times.\<close>

definition opening_packets :: "video_packet list \<Rightarrow> bool" where
  "opening_packets ps \<longleftrightarrow> 1 < length ps \<and> vp_type (hd ps) = 5 \<and> (\<forall>q \<in> set ps. slice_packet q) \<and>
     sorted_wrt (<) (packet_times \<lparr>ts_last = 0, ts_overflow = 0\<rparr> None ps)"

lemma packets_open:
  assumes "opening_packets ps"
  defines "ts \<equiv> packet_times \<lparr>ts_last = 0, ts_overflow = 0\<rparr> None ps"
  shows "opening_units (map2 packet_unit ps ts)" "hd ts = 0"
proof -
  obtain q ps' where ps: "ps = q # ps'" using assms(1) by (cases ps) (auto simp: opening_packets_def)
  have "length ts = length ps" by (simp add: ts_def)
  then obtain t ts' where ts: "ts = t # ts'" using ps by (cases ts) auto
  have "ts \<noteq> []" using ts by simp
  then show hd: "hd ts = 0" by (simp add: ts_def packet_times_def hd_map)
  then have t: "t = 0" using ts by simp
  have len: "length ts' = length ps'" using \<open>length ts = length ps\<close> ps ts by simp
  note vs = map2_packet_unit [of ts' ps', OF len]
  have "sorted_wrt (<) (map (of_int :: int \<Rightarrow> rat) ts)"
    using assms(1) by (simp add: opening_packets_def ts_def sorted_wrt_map)
  then have "steady_units 0 (map2 packet_unit ps' ts')"
    using vs(2,4) assms(1) t by (simp add: steady_units_def ts ps opening_packets_def)
  moreover have "slice (packet_unit q 0)" by (rule packet_slice) (use assms(1) in \<open>simp add: opening_packets_def ps\<close>)
  moreover have "n_type (packet_unit q 0) = nal_code IDR"
    using assms(1) by (simp add: opening_packets_def ps packet_unit_def NALU_def)
  ultimately show "opening_units (map2 packet_unit ps ts)" by (simp add: opening_units_def ps ts t)
qed

text \<open>The tick itself, with the units of the packets in the queue of the client.\<close>

lemma tick_opens:
  assumes "wp_remuxer p = Some rx" "rx_client rx = Some rc" "\<not> rc_paused rc" "cl_ontracks (rc_sm rc) = None"
    and "cl_sampleQueues (rc_sm rc) = [(PT_H264, map (\<lambda>v. [VideoUnit v]) vs)]" "opening_units vs" "1 < length vs"
    and "rx_tracks rx = [(PT_H264, VideoTrk r)]" "made_for sps pps s r" "\<not> rx_initialized rx" "rx_listening rx"
    and "opened (rx_source rx)" "rx_feeding rx = []" "plays_codec br (''avc1.'' @ concat (map hex2 (take 3 (drop 1 sps))))"
  shows "\<exists>rx' r' us b. flush_timer br p = (Inr (), p\<lparr>wp_remuxer := Some rx'\<rparr>) \<and> rx_client rx' = Some (flushed rc) \<and>
    rx_initialized rx' \<and> rx_tracks rx' = [(PT_H264, VideoTrk (initialised (hd (map n_dts vs)) r'))] \<and> steady_queue r' us \<and>
    map NALU_getData us = map NALU_getData vs \<and> map n_dts us = map n_dts vs \<and> b_scaleFactor r' = 1 \<and>
    h_lastGopDTS r' = last (map n_dts vs) \<and> sees_picture sps pps s (b_track r') \<and>
    map_of (so_buffers (rx_source rx')) PT_H264 = Some b \<and> ready b \<and>
    mb_appended b @ mb_queue b = [initSegment [b_track r'] 90000 90000] \<and> \<not> v_error (so_players (rx_source rx') ! 0)"
proof -
  let ?rx = "rx\<lparr>rx_client := Some (flush_noted rc)\<rparr>" and ?rc = "with_queue PT_H264 [] (flush_noted rc)"
  have "no_slice_yet r" using assms(9) by (simp add: made_for_def)
  from remux_opening [OF this assms(6)] obtain r1 us where
    r1: "remux_ok (VideoTrk r) (map VideoUnit vs)" "remux_all (VideoTrk r) (map VideoUnit vs) = VideoTrk r1" "steady_queue r1 us"
      "map NALU_getData us = map NALU_getData vs" "map n_dts us = map n_dts vs" "about_track r1 = about_track r"
      "about_past r1 = about_past r" "h_lastGopDTS r1 = last (map n_dts vs)" by (elim exE conjE)
  note same = about_track_same [OF r1(6) assms(9)]
  have len: "1 < length us" using arg_cong [OF r1(4), of length] assms(7) by simp
  then have first: "n_dts (hd us) = hd (map n_dts vs)" unfolding r1(5) [symmetric] by (cases us) auto
  let ?rx1 = "?rx\<lparr>rx_tracks := [(PT_H264, VideoTrk r1)], rx_client := Some ?rc\<rparr>"
  have samples: "onSamples ?rx = (Inr (), ?rx1)"
    using onSamples_run [of ?rx PT_H264 "VideoTrk r" "flush_noted rc" "map (\<lambda>v. [VideoUnit v]) vs"] assms(5,8) r1(1,2)
    by (simp add: flush_noted_def concat_singles)
  obtain rx2 b where rx2: "Remuxer_flush br ?rx = (Inr (), rx2)" "rx_initialized rx2" "rx_client rx2 = Some ?rc"
    "rx_tracks rx2 = [(PT_H264, VideoTrk (initialised (hd (map n_dts vs)) r1))]" "map_of (so_buffers (rx_source rx2)) PT_H264 = Some b"
    "ready b" "mb_appended b @ mb_queue b = [init_segment r1]" "\<not> v_error (so_players (rx_source rx2) ! 0)"
    using first_flush [OF samples _ _ _ r1(3) len, of br] assms(10-14) same(3) first by auto
  note tick = flush_timer_run [OF assms(1-4) rx2(1,3)]
  show ?thesis
    using tick rx2(2,4-8) r1(3-5,8) same(1,2,4)
    by (intro exI [of _ "rx2\<lparr>rx_client := Some (flushed rc)\<rparr>"] exI [of _ r1] exI [of _ us] exI [of _ b] conjI)
      (simp_all add: flushed_def)
qed

lemma first_tick_opens_playback_run:
  assumes "awaits_packets p m ch sps pps s" "healthy p"
    and "plays_codec br (''avc1.'' @ concat (map hex2 (take 3 (drop 1 sps))))"
    and "md_pt m < 128" "0 \<le> ch" "ch < 256" "opening_packets ps"
  shows "\<exists>p1 p2 p3 us t. source_opens br p = (Inr (), p1) \<and>
    socket_events srv br (map (\<lambda>q. Message (interleaved_frame ch (vp_bytes (int (md_pt m)) q))) ps) p1 = Some p2 \<and>
    flush_timer br p2 = (Inr (), p3) \<and> fed_to PT_H264 p3 = [initSegment [t] 90000 90000] \<and> sees_picture sps pps s t \<and>
    plays_video br p3 (int (md_pt m)) ch (unwrap_end \<lparr>ts_last = 0, ts_overflow = 0\<rparr> ps) (Some (hd (unwrap_run \<lparr>ts_last = 0, ts_overflow = 0\<rparr> (map vp_ts ps)))) us
      (of_int (last (packet_times \<lparr>ts_last = 0, ts_overflow = 0\<rparr> None ps))) 0 \<and>
    map NALU_getData us = map packet_data ps \<and> map n_dts us = map of_int (packet_times \<lparr>ts_last = 0, ts_overflow = 0\<rparr> None ps)"
proof -
  let ?ts = "packet_times \<lparr>ts_last = 0, ts_overflow = 0\<rparr> None ps"
  let ?ms = "map (\<lambda>q. Message (interleaved_frame ch (vp_bytes (int (md_pt m)) q))) ps"
  obtain rx rc r where p: "wp_remuxer p = Some rx" "rx_client rx = Some rc" "receiving rc" "\<not> rc_paused rc"
      "video_track (rc_sm rc) (int (md_pt m)) ch \<lparr>ts_last = 0, ts_overflow = 0\<rparr> None []"
      "map fst (cl_sampleQueues (rc_sm rc)) = [PT_H264]" "cl_ontracks (rc_sm rc) = None"
    and rx: "rx_tracks rx = [(PT_H264, VideoTrk r)]" "made_for sps pps s r" "\<not> rx_initialized rx" "rx_listening rx"
      "so_buffers (rx_source rx) = []" "rx_feeding rx = []" "\<not> so_resolved (rx_source rx)" "so_waiting (rx_source rx) = []"
    using assms(1) unfolding awaits_packets_def by (elim exE conjE) (rule that)
  obtain so where opens: "source_opens br p = (Inr (), p\<lparr>wp_remuxer := Some (rx\<lparr>rx_source := so, rx_mse_listening := True\<rparr>)\<rparr>)"
    (is "_ = (_, ?p1)") and so: "opened so"
    using source_opened [OF p(1) assms(2) rx(5-8)] by blast
  define vs where "vs = map2 packet_unit ps ?ts"
  note vs = map2_packet_unit [of ?ts ps, OF length_packet_times, folded vs_def]
  have ok: "\<forall>q \<in> set ps. vp_ok q" "1 < length vs" "?ts \<noteq> []"
    using assms(7) length_packet_times [of "\<lparr>ts_last = 0, ts_overflow = 0\<rparr>" None ps]
    by (auto simp: opening_packets_def slice_packet_def vs_def simp del: length_packet_times)
  let ?rx1 = "rx\<lparr>rx_source := so, rx_mse_listening := True\<rparr>"
  let ?off = "unwrap_end \<lparr>ts_last = 0, ts_overflow = 0\<rparr> ps" and ?first = "Some (hd (unwrap_run \<lparr>ts_last = 0, ts_overflow = 0\<rparr> (map vp_ts ps)))"
  have first: "first_time \<lparr>ts_last = 0, ts_overflow = 0\<rparr> None ps = ?first"
    using ok(3) by (auto simp: first_time_def packet_times_def split: list.split)
  obtain rc1 q where run: "socket_events srv br ?ms ?p1 = Some (?p1\<lparr>wp_remuxer := Some (?rx1\<lparr>rx_client := Some rc1\<rparr>)\<rparr>)"
      (is "_ = Some ?p2")
    and rc1: "\<not> rc_paused rc1" "receiving rc1" "video_track (rc_sm rc1) (int (md_pt m)) ch ?off ?first q"
      "cl_ontracks (rc_sm rc1) = None" "cl_sampleQueues (rc_sm rc1) = [(PT_H264, map (\<lambda>v. [VideoUnit v]) vs)]"
    using player_takes_packets [of ?p1 ?rx1 rc "int (md_pt m)" ch "\<lparr>ts_last = 0, ts_overflow = 0\<rparr>" None ps srv br]
      p(2-7) ok(1) assms(4-6) by (auto simp: vs_def first)
  have times: "hd (map n_dts vs) = 0" "last (map n_dts vs) = of_int (last ?ts)"
    using vs(2) ok(3) packets_open(2) [OF assms(7)] by (simp_all add: hd_map last_map)
  obtain rx2 r1 us b where tick: "flush_timer br ?p2 = (Inr (), ?p2\<lparr>wp_remuxer := Some rx2\<rparr>)" "rx_client rx2 = Some (flushed rc1)"
      "rx_initialized rx2" "rx_tracks rx2 = [(PT_H264, VideoTrk (initialised 0 r1))]" "steady_queue r1 us"
      "map NALU_getData us = map NALU_getData vs" "map n_dts us = map n_dts vs" "b_scaleFactor r1 = 1" "h_lastGopDTS r1 = of_int (last ?ts)" "sees_picture sps pps s (b_track r1)"
      "map_of (so_buffers (rx_source rx2)) PT_H264 = Some b" "ready b"
      "mb_appended b @ mb_queue b = [initSegment [b_track r1] 90000 90000]" "\<not> v_error (so_players (rx_source rx2) ! 0)"
    using tick_opens [of ?p2 "?rx1\<lparr>rx_client := Some rc1\<rparr>" rc1 vs r sps pps s br] rc1(1,4,5) rx(1-4,6) so assms(3) ok(2)
      packets_open(1) [OF assms(7), folded vs_def] times by (simp del: map_map) (elim exE conjE, rule that, simp, assumption+)
  have "plays_video br (?p2\<lparr>wp_remuxer := Some rx2\<rparr>) (int (md_pt m)) ch ?off ?first us (of_int (last ?ts)) 0"
    using tick(2-5,8,9,11,12,14) rc1(1-3) initialised_steady [OF tick(5)] assms(3)
    by (auto simp: plays_video_def flushed_def with_queue_def flush_noted_def receiving_def video_track_def initialised_def init_dts_def plays_codec_def)
  moreover have "fed_to PT_H264 (?p2\<lparr>wp_remuxer := Some rx2\<rparr>) = [initSegment [b_track r1] 90000 90000]"
    using tick(11,13) by (simp add: fed_to_def)
  moreover have "map NALU_getData us = map packet_data ps" "map n_dts us = map of_int ?ts" using tick(6,7) vs(1,2) by simp_all
  ultimately show ?thesis using opens run tick(1,10) by - (intro exI conjI, assumption+)
qed

text \<open>C4: A player that waits for packets starts to play with the first key frame: the media source opens, packets
  that begin with a key frame arrive, and the next tick of the flush timer makes the source buffer and feeds it
  the initialisation segment of a track with the announced parameter sets and the dimensions that they say. The
  player is then in the state from which the fragments follow: the units of all the packets wait in the
  remuxer, in order and unchanged, and time counts from the first packet.\<close>

theorem first_tick_opens_playback:
  assumes "awaits_packets p m ch sps pps s" "healthy p"
    and "plays_codec br (''avc1.'' @ concat (map hex2 (take 3 (drop 1 sps))))"
    and "md_pt m < 128" "0 \<le> ch" "ch < 256" "opening_packets ps"
  shows "\<exists>p1 p2 p3 us t. source_opens br p = (Inr (), p1) \<and>
    socket_events srv br (map (\<lambda>q. Message (interleaved_frame ch (vp_bytes (int (md_pt m)) q))) ps) p1 = Some p2 \<and>
    flush_timer br p2 = (Inr (), p3) \<and> fed_to PT_H264 p3 = [initSegment [t] 90000 90000] \<and> sees_picture sps pps s t \<and>
    plays_video br p3 (int (md_pt m)) ch (unwrap_end \<lparr>ts_last = 0, ts_overflow = 0\<rparr> ps) (Some (hd (unwrap_run \<lparr>ts_last = 0, ts_overflow = 0\<rparr> (map vp_ts ps)))) us
      (of_int (last (packet_times \<lparr>ts_last = 0, ts_overflow = 0\<rparr> None ps))) 0 \<and>
    map NALU_getData us = map packet_data ps \<and> map n_dts us = map of_int (packet_times \<lparr>ts_last = 0, ts_overflow = 0\<rparr> None ps)"
  using first_tick_opens_playback_run [OF assms] .

lemma example_opening_packets: "opening_packets example_packets"
proof -
  have "packet_times \<lparr>ts_last = 0, ts_overflow = 0\<rparr> None example_packets = [0, 3000]"
    by (simp add: packet_times_def example_packets_def unwrap_ts_def)
  then show ?thesis using example_slices by (simp add: opening_packets_def) (simp add: example_packets_def)
qed

lemma camera_awaits: "\<exists>p. awaits_packets p camera_media 0 camera_sps camera_pps example_sps \<and> healthy p"
proof -
  obtain u where u: "Url_parse ''ws://cam/live'' = Inr u" using example_address by blast
  show ?thesis
    using load_awaits [OF example_video_fine(1) u camera_desc_ok camera_announces camera_serves camera_sps_of camera_pps_kind, of "[]" roomy]
      example_video_fine(2,3) by blast
qed

lemma first_tick_opens_playback_witness:
  "\<exists>p p1 p2 p3 us t. awaits_packets p camera_media 0 camera_sps camera_pps example_sps \<and>
    source_opens roomy p = (Inr (), p1) \<and>
    socket_events camera roomy (map (\<lambda>q. Message (interleaved_frame 0 (vp_bytes 96 q))) example_packets) p1 = Some p2 \<and>
    flush_timer roomy p2 = (Inr (), p3) \<and> fed_to PT_H264 p3 = [initSegment [t] 90000 90000] \<and>
    t_sps t = [camera_sps] \<and> plays_video roomy p3 96 0 \<lparr>ts_last = 4000, ts_overflow = 0\<rparr> (Some 1000) us 3000 0 \<and> map NALU_getData us = map packet_data example_packets"
proof -
  obtain p where p: "awaits_packets p camera_media 0 camera_sps camera_pps example_sps" "healthy p"
    using camera_awaits by blast
  have c: "plays_codec roomy codec" for codec using roomy_enough by (simp add: plays_codec_def isSupported_def roomy_def)
  have m: "md_pt camera_media = 96" by (simp add: camera_media_def)
  have t: "packet_times \<lparr>ts_last = 0, ts_overflow = 0\<rparr> None example_packets = [0, 3000]"
    by (simp add: packet_times_def example_packets_def unwrap_ts_def)
  have e: "unwrap_end \<lparr>ts_last = 0, ts_overflow = 0\<rparr> example_packets = \<lparr>ts_last = 4000, ts_overflow = 0\<rparr>"
    "hd (unwrap_run \<lparr>ts_last = 0, ts_overflow = 0\<rparr> (map vp_ts example_packets)) = 1000"
    by (simp_all add: unwrap_end_def example_packets_def unwrap_ts_def)
  have "md_pt camera_media < 128" using m by simp
  from first_tick_opens_playback [OF p c this _ _ example_opening_packets, of camera] p(1) show ?thesis
    unfolding m t e sees_picture_def by simp blast
qed

end
