(* ===== verification/Pace.thy ===== *)
theory Pace
  imports Stream
begin

text \<open>
  A video track of constant frame rate over many fragments: what the remuxer remembers of a fragment (the mean
  of the last durations and the time it expects next) fits the next one, so no unit is moved or dropped.
\<close>

section \<open>Frames at a constant distance\<close>

text \<open>The times of \<open>m\<close> frames, the first of number \<open>n\<close>, at a distance \<open>D\<close>.\<close>

fun beats :: "int \<Rightarrow> int \<Rightarrow> nat \<Rightarrow> int list" where
  "beats D n 0 = []"
| "beats D n (Suc m) = n * D # beats D (n + 1) m"

lemma length_beats [simp]: "length (beats D n m) = m"
  by (induction m arbitrary: n) simp_all

lemma beats_Nil [simp]: "beats D n m = [] \<longleftrightarrow> m = 0"
  by (cases m) simp_all

lemma beats_add: "beats D n (m + k) = beats D n m @ beats D (n + int m) k"
  by (induction m arbitrary: n) (simp_all add: add.assoc)

lemma beats_snoc: "beats D n (Suc m) = beats D n m @ [(n + int m) * D]"
  using beats_add [of D n m 1] by simp

lemma last_beats: "0 < m \<Longrightarrow> last (beats D n m) = (n + int m - 1) * D"
  by (cases m) (simp_all add: beats_snoc del: beats.simps)

lemma beats_bounds: "t \<in> set (beats D n m) \<Longrightarrow> 0 < D \<Longrightarrow> n * D \<le> t \<and> t \<le> (n + int m - 1) * D"
proof (induction m arbitrary: n)
  case (Suc m)
  have "n * D \<le> (n + int m) * D" using Suc.prems(2) by simp
  then show ?case using Suc.IH [of "n + 1"] Suc.prems by (auto simp: algebra_simps)
qed simp

lemma beats_rise: "0 < D \<Longrightarrow> sorted_wrt (<) (beats D n m)"
proof (induction m arbitrary: n)
  case (Suc m)
  then show ?case using beats_bounds [of _ D "n + 1" m] by (fastforce simp: algebra_simps)
qed simp

text \<open>A frame rate for which the sum of a hundred durations stays below $2^{31}$.\<close>

definition frame_distance :: "int \<Rightarrow> bool" where
  "frame_distance D \<longleftrightarrow> 0 < D \<and> D \<le> 2 ^ 24"

lemma distance_exact:
  assumes "frame_distance D"
  shows "js_sub (of_int ((n + 1) * D)) (of_int (n * D)) = of_int D" "js_div (of_int D) 1 = of_int D" "js_mul (of_int D) 1 = of_int D"
proof -
  have "\<bar>D\<bar> \<le> 2 ^ 53" using assms by (simp add: frame_distance_def)
  then show "js_div (of_int D) 1 = of_int D" "js_mul (of_int D) 1 = of_int D"
    using js_div_1_of_int js_mul_1_of_int by blast+
  have "\<bar>(n + 1) * D - n * D\<bar> \<le> 2 ^ 53" using assms by (simp add: frame_distance_def algebra_simps)
  then have "js_sub (of_int ((n + 1) * D)) (of_int (n * D)) = of_int ((n + 1) * D - n * D)" by (rule js_sub_of_int)
  also have "(n + 1) * D - n * D = D" by (simp add: algebra_simps)
  finally show "js_sub (of_int ((n + 1) * D)) (of_int (n * D)) = of_int D" .
qed

section \<open>The mean duration\<close>

lemma note_beats:
  assumes "frame_distance D" "k \<le> 100"
  shows "note_durations 1 (Some (of_int (n * D))) (map of_int (beats D (n + 1) m)) (replicate k (of_int D))
    = replicate (min 100 (k + m)) (of_int D)"
  using assms(2)
proof (induction m arbitrary: n k)
  case (Suc m)
  have tl: "tl (replicate k (of_int D) @ [of_int D]) = replicate k (of_int D :: rat)"
    by (cases k) (simp_all add: replicate_append_same)
  have "replicate k (of_int D) @ [of_int D] = (replicate (Suc k) (of_int D) :: rat list)" by (simp add: replicate_append_same)
  moreover have "replicate 100 x = x # replicate 99 x" for x :: rat using replicate_Suc [of 99 x] by simp
  ultimately show ?case using tl Suc.IH [of k "n + 1"] Suc.IH [of "Suc k" "n + 1"] Suc.prems
    distance_exact(1,2) [OF assms(1)] by (auto simp: Let_def simp del: of_int_add of_int_mult)
qed simp

lemma note_first_beats:
  assumes "frame_distance D" "k \<le> 100" "0 < m"
  shows "note_durations 1 None (map of_int (beats D n m)) (replicate k (of_int D)) = replicate (min 100 (k + m - 1)) (of_int D)"
  using note_beats [OF assms(1,2), of n "m - 1"] assms(3) by (cases m) simp_all

lemma avg_replicate:
  assumes "frame_distance D" "0 < k" "k \<le> 100"
  shows "avg_duration (replicate k (of_int D)) = D"
proof -
  have small: "0 < D" "D < 2 ^ 31" using assms(1) by (simp_all add: frame_distance_def)
  have sum: "foldl (\<lambda>a b. toInt32 a + toInt32 (js_trunc b)) (int j * D) (replicate i (of_int D)) = int (j + i) * D" if "j + i \<le> 100" for i j
    using that
  proof (induction i arbitrary: j)
    case (Suc i)
    have "int j * D \<le> 100 * D" "0 \<le> int j * D" using Suc.prems small by (auto intro: mult_right_mono)
    moreover have "100 * D < 2 ^ 31" using assms(1) by (simp add: frame_distance_def)
    ultimately have "- (2 ^ 31) \<le> int j * D" "int j * D < 2 ^ 31" by linarith+
    then have "toInt32 (int j * D) = int j * D" "toInt32 D = D" using small by (auto intro!: toInt32_id)
    moreover have "int j * D + D = int (Suc j) * D" by (simp add: algebra_simps)
    ultimately show ?case using Suc.IH [of "Suc j"] Suc.prems by simp
  qed simp
  from sum [of 0 k] assms(3) have "foldl (\<lambda>a b. toInt32 a + toInt32 (js_trunc b)) 0 (replicate k (of_int D)) = int k * D" by simp
  moreover have "js_div (of_int (int k * D)) (of_nat k) = of_int D"
    using assms(2) distance_exact(2) [OF assms(1)] by (simp add: js_div_def)
  ultimately show ?thesis
    using assms(2) small toInt32_id [of D] by (simp add: avg_duration_def)
qed

section \<open>The remuxer of such a track\<close>

text \<open>The units \<open>us\<close> wait, the first of them frame number \<open>n\<close>. What the last fragment left behind, if there was
  one, fits frame \<open>n\<close>.\<close>

definition in_step :: "h264_remuxer \<Rightarrow> int \<Rightarrow> int \<Rightarrow> bool" where
  "in_step r D n \<longleftrightarrow> h_nextDts r = Some (of_int (n * D)) \<and> h_lastSampleDuration r = D \<and>
     (\<exists>k. 0 < k \<and> k \<le> 100 \<and> h_lastDurations r = replicate k (of_int D))"

definition paced :: "h264_remuxer \<Rightarrow> nalu list \<Rightarrow> int \<Rightarrow> int \<Rightarrow> bool" where
  "paced r us D n \<longleftrightarrow> in_queue r us \<and> b_initialized r \<and> init_dts r = 0 \<and> b_scaleFactor r = 1 \<and> us \<noteq> [] \<and>
     map n_dts us = map of_int (beats D n (length us)) \<and> h_lastGopDTS r = n_dts (last us) \<and>
     (nothing_sent r \<and> 2 \<le> length us \<or> in_step r D n)"

lemma whole_beats:
  assumes "map n_dts us = map of_int (beats D n (length us))" "0 < D" "0 \<le> n" "(n + int (length us)) * D \<le> 2 ^ 53"
  shows "whole_times 0 us"
proof -
  have "\<bar>t\<bar> \<le> 2 ^ 53" if "t \<in> set (beats D n (length us))" for t
  proof -
    have "(n + int (length us) - 1) * D \<le> (n + int (length us)) * D" "0 \<le> n * D" using assms(2,3) by simp_all
    then show ?thesis using beats_bounds [OF that assms(2)] assms(4) by linarith
  qed
  moreover have "\<forall>u \<in> set us. \<exists>t \<in> set (beats D n (length us)). n_dts u = of_int t"
    using arg_cong [OF assms(1), of set] by auto
  ultimately show ?thesis unfolding whole_times_def by (intro exI [of _ 0]) fastforce
qed

lemma first_kept:
  assumes "frame_distance D" "nothing_sent r \<or> in_step r D n" "\<bar>n * D\<bar> \<le> 2 ^ 53"
  shows "h264_first (h_nextDts r) (of_int (n * D)) (of_int (n * D)) = Some (of_int (n * D), of_int (n * D))"
proof -
  have "js_sub (of_int (n * D)) (of_int (n * D)) = 0" by (simp add: js_sub_def)
  then show ?thesis using assms(2) by (auto simp: h264_first_def nothing_sent_def in_step_def toMS_def js_div_def js_round_def)
qed

lemma relative_times:
  assumes "whole_times 0 us" shows "map (\<lambda>u. js_sub (n_dts u) 0) us = map n_dts us"
  using assms by (auto simp: whole_times_def js_sub_def dbl_of_int)

text \<open>What a fragment of the first \<open>m\<close> frames leaves behind fits the frame that follows.\<close>

lemma in_step_after:
  assumes "h264_after r ws v r'" "length ws = m" "0 < m" "b_scaleFactor r = 1" "hv_dts v = last (map of_int (beats D n m))"
    and "hv_lastDurations v = note_durations 1 None (map of_int (beats D n m)) (h_lastDurations r)"
    and "nothing_sent r \<and> 2 \<le> m \<or> in_step r D n" "frame_distance D" "\<bar>(n + int m) * D\<bar> \<le> 2 ^ 53"
  shows "in_step (base_flush r') D (n + int m)"
proof -
  obtain k where k: "h_lastDurations r = replicate k (of_int D)" "k \<le> 100" "k = 0 \<longrightarrow> 2 \<le> m" "k \<noteq> 0 \<longrightarrow> h_lastSampleDuration r = D"
    using assms(7) by (auto simp: nothing_sent_def in_step_def)
  have durs: "hv_lastDurations v = replicate (min 100 (k + m - 1)) (of_int D)"
    using assms(6) note_first_beats [OF assms(8) k(2) assms(3)] by (simp add: k(1))
  have pos: "min 100 (k + m - 1) \<noteq> 0" using k(3) assms(3) by (cases k) auto
  with durs have avg: "avg_duration (hv_lastDurations v) = D" using avg_replicate [OF assms(8)] by simp
  have "ws \<noteq> []" using assms(2,3) by auto
  then have after: "h_lastSampleDuration r' = (if 2 \<le> m then avg_duration (hv_lastDurations v) else h_lastSampleDuration r)"
    "h_nextDts r' = Some (js_add (hv_dts v) (unscaled r (of_int (h_lastSampleDuration r'))))" "h_lastDurations r' = hv_lastDurations v"
    using assms(1,2) by (simp_all add: h264_after_def)
  have last: "h_lastSampleDuration r' = D" using after(1) avg k(3,4) by (cases "k = 0") simp_all
  have "js_add (of_int ((n + int m - 1) * D)) (of_int D) = of_int ((n + int m - 1) * D + D)"
    using assms(9) by (intro js_add_of_int) (simp add: algebra_simps)
  also have "(n + int m - 1) * D + D = (n + int m) * D" by (simp add: algebra_simps)
  finally have "h_nextDts r' = Some (of_int ((n + int m) * D))"
    using after(2) assms(3-5) last distance_exact(3) [OF assms(8)]
    by (simp add: unscaled_def last_map last_beats del: of_int_mult of_int_add of_int_diff)
  then show ?thesis
    using last durs pos after(3) by (auto simp: in_step_def base_flush_def intro!: exI [of _ "min 100 (k + m - 1)"])
qed

text \<open>One fragment of the track: every unit but the last, and the last is in step.\<close>

lemma paced_payload:
  assumes "in_queue r us" "b_initialized r" "init_dts r = 0" "b_scaleFactor r = 1" "2 \<le> length us"
    and "map n_dts us = map of_int (beats D n (length us))" "h_lastGopDTS r = n_dts (last us)"
    and "nothing_sent r \<and> 3 \<le> length us \<or> in_step r D n" "frame_distance D" "0 \<le> n" "(n + int (length us)) * D \<le> 2 ^ 53"
    and "104 + 17 * length us < 2 ^ 32" "8 + units_size us < 2 ^ 32"
  shows "\<exists>p r'. h264_getPayload chrome r = Inr (Some p, r') \<and> p \<noteq> [] \<and>
    (\<forall>sn t. fragment_units (moof sn t (b_track r') @ mdat p) = Some (map NALU_getData (butlast us))) \<and>
    paced (base_flush r') [last us] D (n + int (length us) - 1)"
proof -
  define m where "m = length us - 1"
  have m: "length us = Suc m" "0 < m" using assms(5) by (simp_all add: m_def)
  obtain ws w where us: "us = ws @ [w]" using assms(5) by (cases us rule: rev_exhaust) auto
  have len: "length ws = m" using m us by simp
  have times: "map n_dts ws = map of_int (beats D n m)" "n_dts w = of_int ((n + int m) * D)"
    using assms(6) unfolding m(1) beats_snoc unfolding us by (simp_all del: of_int_mult of_int_add)
  have D: "0 < D" using assms(9) by (simp add: frame_distance_def)
  have whole: "whole_times 0 us" by (rule whole_beats [OF assms(6) D assms(10,11)])
  have bound: "\<bar>(n + int j) * D\<bar> \<le> 2 ^ 53" if "j \<le> length us" for j
  proof -
    have "(n + int j) * D \<le> (n + int (length us)) * D" "0 \<le> (n + int j) * D" using that D assms(10) by simp_all
    then show ?thesis using assms(11) by linarith
  qed
  have rel: "map (\<lambda>u. js_sub (n_dts u) (init_dts r)) (butlast us) = map of_int (beats D n m)"
  proof -
    have "whole_times 0 ws" using whole by (auto simp: whole_times_def us)
    from relative_times [OF this] show ?thesis using times(1) assms(3) by (simp add: us)
  qed
  have hd: "js_sub (n_dts (hd us)) (init_dts r) = of_int (n * D)"
    using arg_cong [OF rel, of hd] m us by (cases ws; cases m) (auto simp: len)
  have "h264_first (h_nextDts r) (of_int (n * D)) (of_int (n * D)) = Some (of_int (n * D), of_int (n * D))"
    by (rule first_kept [OF assms(9)]) (use assms(8) bound [of 0] in auto)
  from queued_payload [OF assms(1,2) _ _ this hd [symmetric] assms(12,13), of chrome] obtain p r' v where
    pay: "h264_getPayload chrome r = Inr (Some p, r')" "p \<noteq> []"
      "\<forall>sn t. fragment_units (moof sn t (b_track r') @ mdat p) = Some (map NALU_getData (butlast us))"
    and dr: "h264_drained (butlast us) (Some p) r'" and af: "h264_after r (butlast us) v r'"
    and v: "hv_dts v = last (map of_int (beats D n m))" "hv_lastDurations v = note_durations 1 None (map of_int (beats D n m)) (h_lastDurations r)"
    using assms(3,4,5) whole unfolding rel by auto
  have step: "in_step (base_flush r') D (n + int m)"
    using in_step_after [OF af _ m(2) assms(4) v _ assms(9) bound [of m]] assms(8) m(1) len by (simp add: us)
  have gop: "h_gop r = [w]" using assms(1) by (cases "h_gop r") (auto simp: in_queue_def us)
  have "in_queue (base_flush r') [w]"
    using assms(1) af dr h264_rem_ok_flush [OF dr] gop by (simp add: in_queue_def h264_after_def h264_drained_def base_flush_def us)
  then have "paced (base_flush r') [w] D (n + int m)"
    using step times(2) af assms(2-4,7) by (simp add: paced_def h264_after_def base_flush_def init_dts_def us)
  then show ?thesis using pay m(1) by (intro exI [of _ p] exI [of _ r'] conjI) (simp_all add: us)
qed

end
