(* ===== verification/Watching.thy ===== *)
theory Watching
  imports Opening Pace
begin

text \<open>
  A camera with a constant frame rate, watched over any number of ticks of the flush timer, while the updates
  of the source buffer end whenever the browser likes: what was fed is every NAL unit but the last, once.
\<close>

section \<open>Timestamps at a constant rate\<close>

definition stamped :: "int \<Rightarrow> int \<Rightarrow> int \<Rightarrow> video_packet list \<Rightarrow> bool" where
  "stamped t0 D n ps \<longleftrightarrow> map vp_ts ps = map ((+) t0) (beats D n (length ps)) \<and> (\<forall>q \<in> set ps. slice_packet q)"

lemma stamped_append: "stamped t0 D n (ps @ qs) \<longleftrightarrow> stamped t0 D n ps \<and> stamped t0 D (n + int (length ps)) qs"
  by (auto simp: stamped_def beats_add append_eq_append_conv)

definition clock_at :: "int \<Rightarrow> ts_offset" where
  "clock_at t = \<lparr>ts_last = t, ts_overflow = 0\<rparr>"

lemma unwrap_next:
  assumes "frame_distance D"
  shows "unwrap_ts (clock_at (t0 + (n - 1) * D)) (t0 + n * D) = (t0 + n * D, clock_at (t0 + n * D))"
  using assms by (simp add: unwrap_ts_def clock_at_def frame_distance_def Let_def algebra_simps)

lemma unwrap_beats:
  assumes "frame_distance D" "map vp_ts ps = map ((+) t0) (beats D n (length ps))"
  shows "unwrap_run (clock_at (t0 + (n - 1) * D)) (map vp_ts ps) = map vp_ts ps"
    and "unwrap_end (clock_at (t0 + (n - 1) * D)) ps = clock_at (t0 + (n + int (length ps) - 1) * D)"
proof -
  have "unwrap_run (clock_at (t0 + (n - 1) * D)) (map vp_ts ps) = map vp_ts ps \<and>
    unwrap_end (clock_at (t0 + (n - 1) * D)) ps = clock_at (t0 + (n + int (length ps) - 1) * D)"
    using assms(2)
  proof (induction ps arbitrary: n)
    case (Cons q ps)
    then have "map vp_ts ps = map ((+) t0) (beats D (n + 1) (length ps))" and q: "vp_ts q = t0 + n * D" by simp_all
    from Cons.IH [OF this(1)] unwrap_next [OF assms(1), of t0 n] show ?case
      by (simp add: unwrap_end_def q add.commute add.left_commute)
  qed (simp add: unwrap_end_def)
  then show "unwrap_run (clock_at (t0 + (n - 1) * D)) (map vp_ts ps) = map vp_ts ps"
    "unwrap_end (clock_at (t0 + (n - 1) * D)) ps = clock_at (t0 + (n + int (length ps) - 1) * D)" by blast+
qed

lemma later_times:
  assumes "frame_distance D" "stamped t0 D n ps"
  shows "packet_times (clock_at (t0 + (n - 1) * D)) (Some t0) ps = beats D n (length ps)"
    and "unwrap_end (clock_at (t0 + (n - 1) * D)) ps = clock_at (t0 + (n + int (length ps) - 1) * D)"
  using unwrap_beats [OF assms(1), of ps t0 n] assms(2) by (simp_all add: packet_times_def stamped_def comp_def)

lemma opening_times:
  assumes "frame_distance D" "stamped t0 D 0 ps" "ps \<noteq> []"
  shows "packet_times (clock_at 0) None ps = beats D 0 (length ps)" "hd (unwrap_run (clock_at 0) (map vp_ts ps)) = t0"
    and "unwrap_end (clock_at 0) ps = clock_at (t0 + (int (length ps) - 1) * D)"
proof -
  obtain q qs where ps: "ps = q # qs" using assms(3) by (cases ps) auto
  have q: "vp_ts q = t0" "map vp_ts qs = map ((+) t0) (beats D 1 (length qs))"
    using assms(2) by (simp_all add: stamped_def ps)
  have first: "unwrap_ts (clock_at 0) t0 = (t0, clock_at t0)" by (simp add: unwrap_ts_def clock_at_def)
  note run = unwrap_beats [OF assms(1) q(2), simplified]
  show "packet_times (clock_at 0) None ps = beats D 0 (length ps)" "hd (unwrap_run (clock_at 0) (map vp_ts ps)) = t0"
    "unwrap_end (clock_at 0) ps = clock_at (t0 + (int (length ps) - 1) * D)"
    using run first q by (simp_all add: packet_times_def ps comp_def unwrap_end_def)
qed

text \<open>A stamped packet is not far from the first one.\<close>

lemma stamped_bound:
  assumes "frame_distance D" "stamped t0 D n ps" "ps \<noteq> []" "0 \<le> t0"
  shows "(n + int (length ps)) * D \<le> 2 ^ 53"
proof -
  have "vp_ts (last ps) = t0 + (n + int (length ps) - 1) * D"
    using arg_cong [of _ _ last, OF conjunct1 [OF assms(2) [unfolded stamped_def]]] assms(3)
    by (simp add: last_map last_beats)
  moreover have "slice_packet (last ps)" using assms(2,3) by (simp add: stamped_def)
  ultimately have "t0 + (n + int (length ps) - 1) * D < 2 ^ 32" by (simp add: slice_packet_def vp_ok_def)
  then show ?thesis using assms(1,4) by (simp add: frame_distance_def algebra_simps)
qed

section \<open>A player in the middle of a stream\<close>

text \<open>The player plays a track of frames at the distance \<open>D\<close>, the first of them stamped \<open>t0\<close>; the units \<open>us\<close>, frame
  \<open>n\<close> and those behind it, wait in the remuxer.\<close>

definition plays_on :: "browser \<Rightarrow> ws_player \<Rightarrow> int \<Rightarrow> int \<Rightarrow> int \<Rightarrow> int \<Rightarrow> int \<Rightarrow> nalu list \<Rightarrow> bool" where
  "plays_on br p pt ch t0 D n us \<longleftrightarrow> (\<exists>rx rc r b. wp_remuxer p = Some rx \<and> rx_client rx = Some rc \<and>
     receiving rc \<and> \<not> rc_paused rc \<and> cl_ontracks (rc_sm rc) = None \<and> map fst (cl_sampleQueues (rc_sm rc)) = [PT_H264] \<and>
     video_track (rc_sm rc) pt ch (clock_at (t0 + (n + int (length us) - 1) * D)) (Some t0) [] \<and>
     rx_initialized rx \<and> rx_tracks rx = [(PT_H264, VideoTrk r)] \<and> paced r us D n \<and>
     map_of (so_buffers (rx_source rx)) PT_H264 = Some b \<and> ready b \<and> \<not> v_error (so_players (rx_source rx) ! 0)) \<and>
     enough (br_append br PT_H264) (br_stack br) \<and> 0 \<le> n \<and> 0 \<le> t0 \<and> frame_distance D"

definition arriving :: "int \<Rightarrow> int \<Rightarrow> video_packet list \<Rightarrow> tr_event list" where
  "arriving pt ch ps = map (\<lambda>q. Message (interleaved_frame ch (vp_bytes pt q))) ps"

lemma plays_on_start:
  assumes "plays_video br p pt ch (clock_at (t0 + (int (length us) - 1) * D)) (Some t0) us d 0"
    and "map n_dts us = map of_int (beats D 0 (length us))" "d = n_dts (last us)" "2 \<le> length us" "frame_distance D" "0 \<le> t0"
  shows "plays_on br p pt ch t0 D 0 us"
proof -
  obtain rx rc r b where p: "wp_remuxer p = Some rx" "rx_client rx = Some rc" "receiving rc" "\<not> rc_paused rc"
      "video_track (rc_sm rc) pt ch (clock_at (t0 + (int (length us) - 1) * D)) (Some t0) []"
      "map fst (cl_sampleQueues (rc_sm rc)) = [PT_H264]" "cl_ontracks (rc_sm rc) = None"
    and r: "rx_initialized rx" "rx_tracks rx = [(PT_H264, VideoTrk r)]" "steady_queue r us" "b_initialized r"
      "h_lastGopDTS r = d" "init_dts r = 0" "b_scaleFactor r = 1"
    and b: "map_of (so_buffers (rx_source rx)) PT_H264 = Some b" "ready b" "\<not> v_error (so_players (rx_source rx) ! 0)"
      "enough (br_append br PT_H264) (br_stack br)"
    using assms(1) unfolding plays_video_def by (elim exE conjE) (rule that)
  have "paced r us D 0" using r(3-7) assms(2-4) by (auto simp: paced_def steady_queue_def)
  with p r(1,2) b assms(5,6) show ?thesis unfolding plays_on_def by auto
qed

text \<open>Sizes for which a fragment's length fits its 32 bits.\<close>

definition light :: "video_packet list \<Rightarrow> bool" where
  "light ps \<longleftrightarrow> 17 * length ps < 2 ^ 30 \<and> (\<Sum>q\<leftarrow>ps. 5 + int (length (vp_body q))) < 2 ^ 30"

definition light_units :: "nalu list \<Rightarrow> bool" where
  "light_units us \<longleftrightarrow> 17 * length us < 2 ^ 30 \<and> units_size us < 2 ^ 30"

lemma light_last:
  assumes "light_units us" "us \<noteq> []"
  shows "light_units [last us]"
proof -
  obtain vs v where us: "us = vs @ [v]" using assms(2) by (cases us rule: rev_exhaust) auto
  have "0 \<le> units_size vs" by (rule units_size_nonneg)
  then show ?thesis using assms(1) by (simp add: light_units_def us)
qed

lemma light_append: "light_units us \<Longrightarrow> light_units vs \<Longrightarrow>
    104 + 17 * length (us @ vs) < 2 ^ 32 \<and> 8 + units_size (us @ vs) < 2 ^ 32"
  by (simp add: light_units_def)

section \<open>A batch of packets and a tick\<close>

text \<open>The remuxer of the track gets the units of frames that follow those that wait, and makes a payload.\<close>

lemma paced_batch:
  assumes "paced r us D n" "vs \<noteq> []" "\<forall>v \<in> set vs. slice v \<and> n_pts v = n_dts v"
    and "map n_dts vs = map of_int (beats D (n + int (length us)) (length vs))" "frame_distance D" "0 \<le> n"
    and "(n + int (length us) + int (length vs)) * D \<le> 2 ^ 53" "light_units us" "light_units vs"
  shows "\<exists>r1 pay r2 u. remux_ok (VideoTrk r) (map VideoUnit vs) \<and> remux_all (VideoTrk r) (map VideoUnit vs) = VideoTrk r1 \<and>
    h264_getPayload chrome r1 = Inr (Some pay, r2) \<and> pay \<noteq> [] \<and>
    (\<forall>sn t. fragment_units (moof sn t (b_track r2) @ mdat pay) = Some (butlast (map NALU_getData (us @ vs)))) \<and>
    paced (base_flush r2) [u] D (n + int (length us) + int (length vs) - 1) \<and> NALU_getData u = NALU_getData (last vs)"
proof -
  have D: "0 < D" using assms(5) by (simp add: frame_distance_def)
  have ts: "map n_dts (us @ vs) = map of_int (beats D n (length us + length vs))"
    using assms(1,4) by (simp add: paced_def beats_add)
  have "h_lastGopDTS r = of_int ((n + int (length us) - 1) * D)"
  proof -
    have us: "us \<noteq> []" "map n_dts us = map of_int (beats D n (length us))" "h_lastGopDTS r = n_dts (last us)"
      using assms(1) by (simp_all add: paced_def)
    have "h_lastGopDTS r = last (map n_dts us)" using us(1,3) by (simp add: last_map)
    then show ?thesis using us(1) unfolding us(2) by (simp add: last_map last_beats del: of_int_mult)
  qed
  moreover have "sorted_wrt (<) (beats D (n + int (length us) - 1) (Suc (length vs)))" by (rule beats_rise [OF D])
  ultimately have "sorted_wrt (<) (h_lastGopDTS r # map n_dts vs)"
    unfolding assms(4) by (simp add: sorted_wrt_map del: of_int_mult of_int_add)
  then have "steady_units (h_lastGopDTS r) vs" using assms(3) by (simp add: steady_units_def)
  moreover have "in_queue r us" using assms(1) by (simp add: paced_def)
  ultimately obtain r1 ws where
    r1: "remux_ok (VideoTrk r) (map VideoUnit vs)" "remux_all (VideoTrk r) (map VideoUnit vs) = VideoTrk r1" "in_queue r1 (us @ ws)"
    and ws: "map NALU_getData ws = map NALU_getData vs" "map n_dts ws = map n_dts vs" and same: "about_track r1 = about_track r"
      "about_past r1 = about_past r" and last: "h_lastGopDTS r1 = last (h_lastGopDTS r # map n_dts vs)"
    using remux_queued by blast
  note w = same_units [OF ws]
  have len: "length (us @ ws) = length us + length vs" "ws \<noteq> []" using w(1) assms(2) by auto
  have "h_lastGopDTS r1 = n_dts (last (us @ ws))"
    using last ws(2) assms(2) len(2) by (metis last_ConsR last_append last_map map_is_Nil_conv)
  moreover have "nothing_sent r1 \<and> 3 \<le> length (us @ ws) \<or> in_step r1 D n"
    using assms(1,2) same(2) len by (cases vs) (auto simp: paced_def about_past_def nothing_sent_def in_step_def)
  moreover have "2 \<le> length (us @ ws)" using assms(1,2) len by (cases us; cases vs) (auto simp: paced_def)
  moreover have "104 + 17 * length (us @ ws) < 2 ^ 32" "8 + units_size (us @ ws) < 2 ^ 32"
    using light_append [OF assms(8,9)] w(1,2) by simp_all
  moreover have "b_initialized r1" "init_dts r1 = 0" "b_scaleFactor r1 = 1"
    using assms(1) same by (simp_all add: paced_def about_past_def about_track_def)
  moreover have "map n_dts (us @ ws) = map of_int (beats D n (length (us @ ws)))" using ts ws(2) len(1) by simp
  moreover have "(n + int (length (us @ ws))) * D \<le> 2 ^ 53" using assms(7) len(1) by (simp add: add.assoc)
  ultimately obtain pay r2 where pay: "h264_getPayload chrome r1 = Inr (Some pay, r2)" "pay \<noteq> []"
    "\<forall>sn t. fragment_units (moof sn t (b_track r2) @ mdat pay) = Some (map NALU_getData (butlast (us @ ws)))"
    "paced (base_flush r2) [last (us @ ws)] D (n + int (length (us @ ws)) - 1)"
    using paced_payload [OF r1(3), of D n chrome] assms(5,6) by blast
  have "NALU_getData (last ws) = NALU_getData (last vs)"
    using arg_cong [OF ws(1), of last] assms(2) len(2) by (simp add: last_map)
  then show ?thesis
    using r1(1,2) pay ws(1) len by (intro exI [of _ r1] exI [of _ pay] exI [of _ r2] exI [of _ "last ws"])
      (simp add: map_butlast add.assoc)
qed

text \<open>The units of the packets wait in the queue of the client.\<close>

lemma batch_arrives:
  assumes "wp_remuxer p = Some rx" "rx_client rx = Some rc" "receiving rc"
    and "video_track (rc_sm rc) pt ch (clock_at (t0 + (n - 1) * D)) (Some t0) []" "map fst (cl_sampleQueues (rc_sm rc)) = [PT_H264]"
    and "frame_distance D" "stamped t0 D n ps" "light ps" "ps \<noteq> []" "0 \<le> pt" "pt < 128" "0 \<le> ch" "ch < 256"
  shows "\<exists>rc1 vs q. socket_events srv br (arriving pt ch ps) p = Some (p\<lparr>wp_remuxer := Some (rx\<lparr>rx_client := Some rc1\<rparr>)\<rparr>) \<and>
    rc_paused rc1 = rc_paused rc \<and> receiving rc1 \<and> cl_ontracks (rc_sm rc1) = cl_ontracks (rc_sm rc) \<and>
    cl_sampleQueues (rc_sm rc1) = [(PT_H264, map (\<lambda>v. [VideoUnit v]) vs)] \<and>
    video_track (rc_sm rc1) pt ch (clock_at (t0 + (n + int (length ps) - 1) * D)) (Some t0) q \<and>
    map NALU_getData vs = map packet_data ps \<and> map n_dts vs = map of_int (beats D n (length vs)) \<and>
    (\<forall>v \<in> set vs. slice v \<and> n_pts v = n_dts v) \<and> length vs = length ps \<and> light_units vs"
proof -
  note times = later_times [OF assms(6,7)]
  define vs where "vs = map2 packet_unit ps (beats D n (length ps))"
  note vs = map2_packet_unit [of "beats D n (length ps)" ps, OF length_beats, folded vs_def]
  have len: "length vs = length ps" by (simp add: vs_def)
  have ok: "\<forall>q \<in> set ps. slice_packet q" "\<forall>q \<in> set ps. vp_ok q" using assms(7) by (simp_all add: stamped_def slice_packet_def)
  have light: "light_units vs" using assms(8) vs(3) len by (simp add: light_def light_units_def)
  obtain rc1 q where run: "socket_events srv br (arriving pt ch ps) p = Some (p\<lparr>wp_remuxer := Some (rx\<lparr>rx_client := Some rc1\<rparr>)\<rparr>)"
    "rc_paused rc1 = rc_paused rc" "receiving rc1" "cl_ontracks (rc_sm rc1) = cl_ontracks (rc_sm rc)"
    "cl_sampleQueues (rc_sm rc1) = [(PT_H264, map (\<lambda>v. [VideoUnit v]) vs)]"
    "video_track (rc_sm rc1) pt ch (clock_at (t0 + (n + int (length ps) - 1) * D)) (Some t0) q"
    using player_takes_packets [OF assms(1-5) ok(2) assms(10-13), of srv br, folded arriving_def] times
    unfolding vs_def by (auto simp: first_time_def)
  then show ?thesis using vs(1,2) vs(4) [OF ok(1)] len light
    by - (rule exI [of _ rc1], rule exI [of _ vs], rule exI [of _ q], simp)
qed

lemma batch_and_tick:
  assumes "plays_on br p pt ch t0 D n us" "light_units us" "ps \<noteq> []" "stamped t0 D (n + int (length us)) ps" "light ps"
    and "0 \<le> pt" "pt < 128" "0 \<le> ch" "ch < 256"
  shows "\<exists>p1 p2 frag u. socket_events srv br (arriving pt ch ps) p = Some p1 \<and> flush_timer br p1 = (Inr (), p2) \<and>
    fed_to PT_H264 p2 = fed_to PT_H264 p @ frag \<and>
    fragment_units (concat frag) = Some (butlast (map NALU_getData us @ map packet_data ps)) \<and>
    plays_on br p2 pt ch t0 D (n + int (length us) + int (length ps) - 1) [u] \<and> light_units [u] \<and> NALU_getData u = packet_data (last ps)"
proof -
  obtain rx rc r b where p: "wp_remuxer p = Some rx" "rx_client rx = Some rc" "receiving rc" "\<not> rc_paused rc"
      "cl_ontracks (rc_sm rc) = None" "map fst (cl_sampleQueues (rc_sm rc)) = [PT_H264]"
      "video_track (rc_sm rc) pt ch (clock_at (t0 + (n + int (length us) - 1) * D)) (Some t0) []"
    and r: "rx_initialized rx" "rx_tracks rx = [(PT_H264, VideoTrk r)]" "paced r us D n"
    and b: "map_of (so_buffers (rx_source rx)) PT_H264 = Some b" "ready b" "\<not> v_error (so_players (rx_source rx) ! 0)"
    and rest: "enough (br_append br PT_H264) (br_stack br)" "0 \<le> n" "0 \<le> t0" "frame_distance D"
    using assms(1) unfolding plays_on_def by (elim exE conjE) (rule that)
  obtain rc1 vs q where run: "socket_events srv br (arriving pt ch ps) p = Some (p\<lparr>wp_remuxer := Some (rx\<lparr>rx_client := Some rc1\<rparr>)\<rparr>)"
      (is "_ = Some ?p1")
    and rc1: "rc_paused rc1 = rc_paused rc" "receiving rc1" "cl_ontracks (rc_sm rc1) = cl_ontracks (rc_sm rc)"
      "cl_sampleQueues (rc_sm rc1) = [(PT_H264, map (\<lambda>v. [VideoUnit v]) vs)]"
      "video_track (rc_sm rc1) pt ch (clock_at (t0 + (n + int (length us) + int (length ps) - 1) * D)) (Some t0) q"
    and vs: "map NALU_getData vs = map packet_data ps" "map n_dts vs = map of_int (beats D (n + int (length us)) (length vs))"
      "\<forall>v \<in> set vs. slice v \<and> n_pts v = n_dts v" "length vs = length ps" "light_units vs"
    using batch_arrives [OF p(1-3,7,6) rest(4) assms(4,5,3,6-9), of srv br] by (elim exE conjE) (rule that)
  have ne: "vs \<noteq> []" using vs(4) assms(3) by auto
  have bound: "(n + int (length us) + int (length vs)) * D \<le> 2 ^ 53"
    using stamped_bound [OF rest(4) assms(4,3) rest(3)] vs(4) by simp
  obtain r1 pay r2 u where batch: "remux_ok (VideoTrk r) (map VideoUnit vs)" "remux_all (VideoTrk r) (map VideoUnit vs) = VideoTrk r1"
      "h264_getPayload (br_chrome br) r1 = Inr (Some pay, r2)" "pay \<noteq> []"
    and frag: "\<forall>sn t. fragment_units (moof sn t (b_track r2) @ mdat pay) = Some (butlast (map NALU_getData (us @ vs)))"
    and next_one: "paced (base_flush r2) [u] D (n + int (length us) + int (length vs) - 1)" "NALU_getData u = NALU_getData (last vs)"
    using paced_batch [OF r(3) ne vs(3,2) rest(4,2) bound assms(2) vs(5), of "br_chrome br"] by blast
  obtain rx3 b' where tick: "flush_timer br ?p1 = (Inr (), ?p1\<lparr>wp_remuxer := Some rx3\<rparr>)" "rx_client rx3 = Some (flushed rc1)"
      "rx_initialized rx3" "rx_tracks rx3 = [(PT_H264, VideoTrk (base_flush r2))]"
    and b': "map_of (so_buffers (rx_source rx3)) PT_H264 = Some b'" "ready b'" "\<not> v_error (so_players (rx_source rx3) ! 0)"
      "mb_appended b' @ mb_queue b' = mb_appended b @ mb_queue b @ [tk_moof (VideoTrk r2), mdat pay]"
    using tick_feeds [of ?p1 "rx\<lparr>rx_client := Some rc1\<rparr>" rc1 vs r r1 br pay r2 b] rc1(1,3,4) p(4,5) r(1,2) batch b rest(1) by auto
  have "0 < n + int (length us) + int (length ps)" using rest(2) assms(3) by (cases ps) simp_all
  then have "plays_on br (?p1\<lparr>wp_remuxer := Some rx3\<rparr>) pt ch t0 D (n + int (length us) + int (length ps) - 1) [u]"
    unfolding plays_on_def using tick(2-4) b'(1-3) next_one(1) rc1(1,2,5) p(4) rest vs(4)
    by (auto simp: flushed_def with_queue_def flush_noted_def receiving_def video_track_def Suc_le_eq)
  moreover have "fed_to PT_H264 (?p1\<lparr>wp_remuxer := Some rx3\<rparr>) = fed_to PT_H264 p @ [tk_moof (VideoTrk r2), mdat pay]"
    using b'(1,4) b(1) p(1) by (simp add: fed_to_def)
  moreover have "fragment_units (concat [tk_moof (VideoTrk r2), mdat pay]) = Some (butlast (map NALU_getData us @ map packet_data ps))"
    using frag vs(1) by simp
  moreover have "NALU_getData u = packet_data (last ps)"
    using next_one(2) arg_cong [OF vs(1), of last] assms(3) ne by (simp add: last_map)
  moreover have "light_units [u]"
    using light_last [OF vs(5) ne] next_one(2) by (simp add: light_units_def flip: length_NALU_getData)
  ultimately show ?thesis using run tick(1) by - (intro exI conjI, assumption+)
qed

section \<open>Any number of batches and updates\<close>

text \<open>The update of the source buffer of the track ends, which leaves the ranges \<open>rs\<close> buffered.\<close>

definition update_done :: "browser \<Rightarrow> (rat \<times> rat) list \<Rightarrow> unit player_cmd" where
  "update_done br rs = seqC (get wp_remuxer) (\<lambda>rx. case rx of None \<Rightarrow> ret ()
     | Some rx \<Rightarrow> remuxer_cmd rx (source_cmd (with_buffer PT_H264 (updateend (br_append br PT_H264) (br_stack br) rs))))"

lemma update_keeps_playing:
  assumes "plays_on br p pt ch t0 D n us" "proper rs"
  shows "\<exists>p'. update_done br rs p = (Inr (), p') \<and> plays_on br p' pt ch t0 D n us \<and> fed_to PT_H264 p' = fed_to PT_H264 p"
proof -
  obtain rx rc r b where p: "wp_remuxer p = Some rx" "rx_client rx = Some rc" "receiving rc" "\<not> rc_paused rc"
      "cl_ontracks (rc_sm rc) = None" "map fst (cl_sampleQueues (rc_sm rc)) = [PT_H264]"
      "video_track (rc_sm rc) pt ch (clock_at (t0 + (n + int (length us) - 1) * D)) (Some t0) []"
    and r: "rx_initialized rx" "rx_tracks rx = [(PT_H264, VideoTrk r)]" "paced r us D n"
    and b: "map_of (so_buffers (rx_source rx)) PT_H264 = Some b" "ready b" "\<not> v_error (so_players (rx_source rx) ! 0)"
    and rest: "enough (br_append br PT_H264) (br_stack br)" "0 \<le> n" "0 \<le> t0" "frame_distance D"
    using assms(1) unfolding plays_on_def by (elim exE conjE) (rule that)
  obtain so b' v where so: "with_buffer PT_H264 (updateend (br_append br PT_H264) (br_stack br) rs) (rx_source rx) = (Inr (), so)"
      "map_of (so_buffers so) PT_H264 = Some b'" "ready b'" "mb_appended b' @ mb_queue b' = mb_appended b @ mb_queue b"
      "so_players so = (so_players (rx_source rx))[0 := v]" "\<not> v_error v"
    using update_ends [OF rest(1) b assms(2)] by blast
  let ?p = "p\<lparr>wp_remuxer := Some (rx\<lparr>rx_source := so\<rparr>)\<rparr>"
  have "update_done br rs p = (Inr (), ?p)"
    using p(1) so(1) by (simp add: update_done_def remuxer_cmd_def source_cmd_def cmd_defs)
  moreover have "\<not> v_error (so_players so ! 0)" using so(5,6) b(3) by (cases "so_players (rx_source rx)") simp_all
  then have "plays_on br ?p pt ch t0 D n us"
    unfolding plays_on_def using p(2-7) r so(2,3) rest by auto
  moreover have "fed_to PT_H264 ?p = fed_to PT_H264 p" using so(2,4) b(1) p(1) by (simp add: fed_to_def)
  ultimately show ?thesis by blast
qed

text \<open>What happens to the player: packets arrive and the timer ticks, or an update ends.\<close>

datatype moment = Batch "video_packet list" | Updated "(rat \<times> rat) list"

fun watch :: "server \<Rightarrow> browser \<Rightarrow> int \<Rightarrow> int \<Rightarrow> ws_player \<Rightarrow> moment list \<Rightarrow> ws_player option" where
  "watch srv br pt ch p [] = Some p"
| "watch srv br pt ch p (Batch ps # ms) =
     (case socket_events srv br (arriving pt ch ps) p of None \<Rightarrow> None
      | Some p1 \<Rightarrow> (case flush_timer br p1 of (Inr _, p2) \<Rightarrow> watch srv br pt ch p2 ms | (Inl _, _) \<Rightarrow> None))"
| "watch srv br pt ch p (Updated rs # ms) =
     (case update_done br rs p of (Inr _, p1) \<Rightarrow> watch srv br pt ch p1 ms | (Inl _, _) \<Rightarrow> None)"

fun packets_of :: "moment list \<Rightarrow> video_packet list" where
  "packets_of [] = []"
| "packets_of (Batch ps # ms) = ps @ packets_of ms"
| "packets_of (Updated rs # ms) = packets_of ms"

text \<open>The frames from number \<open>n\<close> on, in batches that are not empty and not huge.\<close>

fun orderly :: "int \<Rightarrow> int \<Rightarrow> int \<Rightarrow> moment list \<Rightarrow> bool" where
  "orderly t0 D n [] \<longleftrightarrow> True"
| "orderly t0 D n (Batch ps # ms) \<longleftrightarrow> ps \<noteq> [] \<and> stamped t0 D n ps \<and> light ps \<and> orderly t0 D (n + int (length ps)) ms"
| "orderly t0 D n (Updated rs # ms) \<longleftrightarrow> proper rs \<and> orderly t0 D n ms"

text \<open>The boxes \<open>fs\<close> are fragments from which a media player cuts the units \<open>us\<close>.\<close>

definition carries :: "bytes list \<Rightarrow> bytes list \<Rightarrow> bool" where
  "carries fs us \<longleftrightarrow> (\<exists>frags uss. fs = concat frags \<and> map (\<lambda>f. fragment_units (concat f)) frags = map Some uss \<and> us = concat uss)"

lemma carries_Nil: "carries [] []"
  unfolding carries_def by (intro exI [of _ "[]"]) simp

lemma carries_Cons: "fragment_units (concat f) = Some us \<Longrightarrow> carries fs vs \<Longrightarrow> carries (f @ fs) (us @ vs)"
  unfolding carries_def by (elim exE conjE, rule_tac x = "f # frags" in exI, rule_tac x = "us # uss" in exI) simp

lemma watched:
  assumes "plays_on br p pt ch t0 D n us" "light_units us" "orderly t0 D (n + int (length us)) ms"
    and "0 \<le> pt" "pt < 128" "0 \<le> ch" "ch < 256"
  shows "\<exists>p' fs vs ws n'. watch srv br pt ch p ms = Some p' \<and> fed_to PT_H264 p' = fed_to PT_H264 p @ fs \<and> carries fs vs \<and>
    plays_on br p' pt ch t0 D n' ws \<and> vs @ map NALU_getData ws = map NALU_getData us @ map packet_data (packets_of ms) \<and>
    (packets_of ms \<noteq> [] \<longrightarrow> length ws = 1) \<and> (packets_of ms = [] \<longrightarrow> vs = [])"
  using assms(1-3)
proof (induction ms arbitrary: p n us)
  case Nil
  then show ?case using carries_Nil by fastforce
next
  case (Cons m ms)
  show ?case
  proof (cases m)
    case (Updated rs)
    with Cons.prems obtain p1 where p1: "update_done br rs p = (Inr (), p1)" "plays_on br p1 pt ch t0 D n us"
      "fed_to PT_H264 p1 = fed_to PT_H264 p" using update_keeps_playing by force
    then show ?thesis using Cons.IH [OF p1(2) Cons.prems(2)] Cons.prems(3) by (simp add: Updated)
  next
    case (Batch ps)
    with Cons.prems(3) have ps: "ps \<noteq> []" "stamped t0 D (n + int (length us)) ps" "light ps"
      and rest: "orderly t0 D (n + int (length us) + int (length ps)) ms" by simp_all
    let ?n = "n + int (length us) + int (length ps) - 1"
    obtain p1 p2 frag u where step: "socket_events srv br (arriving pt ch ps) p = Some p1" "flush_timer br p1 = (Inr (), p2)"
        "fed_to PT_H264 p2 = fed_to PT_H264 p @ frag" "plays_on br p2 pt ch t0 D ?n [u]" "light_units [u]"
      and cut: "fragment_units (concat frag) = Some (butlast (map NALU_getData us @ map packet_data ps))" "NALU_getData u = packet_data (last ps)"
      using batch_and_tick [OF Cons.prems(1,2) ps assms(4-7)] by blast
    have "orderly t0 D (?n + int (length [u])) ms" using rest by simp
    from Cons.IH [OF step(4,5) this] obtain p' fs vs ws n' where
      run: "watch srv br pt ch p2 ms = Some p'" "fed_to PT_H264 p' = fed_to PT_H264 p2 @ fs" "carries fs vs"
        "plays_on br p' pt ch t0 D n' ws" and kept: "vs @ map NALU_getData ws = map NALU_getData [u] @ map packet_data (packets_of ms)"
      and one: "packets_of ms \<noteq> [] \<longrightarrow> length ws = 1" "packets_of ms = [] \<longrightarrow> vs = []" by blast
    let ?us = "butlast (map NALU_getData us @ map packet_data ps)"
    have "?us @ [packet_data (last ps)] = map NALU_getData us @ map packet_data ps"
      using append_butlast_last_id [of "map NALU_getData us @ map packet_data ps"] ps(1) by (simp add: last_map)
    then have "(?us @ vs) @ map NALU_getData ws = map NALU_getData us @ map packet_data (packets_of (m # ms))"
      using kept cut(2) by (simp add: Batch)
    moreover have "length ws = 1" using one kept by (cases "packets_of ms = []") (auto dest: arg_cong [of _ _ length])
    moreover have "packets_of (m # ms) \<noteq> []" using ps(1) by (simp add: Batch)
    ultimately show ?thesis
      using ps(1) step(1-3) run carries_Cons [OF cut(1) run(3)]
      by - (rule exI [of _ p'], rule exI [of _ "frag @ fs"], rule exI [of _ "?us @ vs"], rule exI [of _ ws], rule exI [of _ n'],
        simp add: Batch)
  qed
qed

section \<open>From the first packet on\<close>

text \<open>C1: Nothing of a camera with a constant frame rate is lost or doubled: a player that waits for packets gets a
  first batch, from a key frame on, and opens the playback at the next tick. Then batches arrive and the timer
  ticks after each, while the updates of the source buffer end at any time in between. At the end the source
  buffer was fed the initialisation segment and fragments from which a media player cuts, in order, the NAL
  units of all packets but the last one.\<close>

theorem camera_watched:
  assumes "awaits_packets p m ch sps pps s" "healthy p"
    and "plays_codec br (''avc1.'' @ concat (map hex2 (take 3 (drop 1 sps))))"
    and "md_pt m < 128" "0 \<le> ch" "ch < 256" "frame_distance D" "0 \<le> t0"
    and "1 < length ps" "vp_type (hd ps) = 5" "orderly t0 D 0 (Batch ps # ms)" "packets_of ms \<noteq> []"
  shows "\<exists>p1 p2 p3 p4 t fs. source_opens br p = (Inr (), p1) \<and>
    socket_events srv br (arriving (int (md_pt m)) ch ps) p1 = Some p2 \<and> flush_timer br p2 = (Inr (), p3) \<and>
    watch srv br (int (md_pt m)) ch p3 ms = Some p4 \<and> sees_picture sps pps s t \<and>
    fed_to PT_H264 p4 = initSegment [t] 90000 90000 # fs \<and> carries fs (butlast (map packet_data (ps @ packets_of ms)))"
proof -
  have ps: "stamped t0 D 0 ps" "light ps" "orderly t0 D (int (length ps)) ms" "ps \<noteq> []"
    using assms(9,11) by auto
  note times = opening_times [OF assms(7) ps(1,4), unfolded clock_at_def]
  have D: "0 < D" using assms(7) by (simp add: frame_distance_def)
  have "opening_packets ps"
    using assms(9,10) ps(1) beats_rise [OF D, of 0] by (simp add: opening_packets_def times(1) stamped_def)
  from first_tick_opens_playback_run [OF assms(1-6) this] obtain p1 p2 p3 us t where
    start: "source_opens br p = (Inr (), p1)" "socket_events srv br (arriving (int (md_pt m)) ch ps) p1 = Some p2"
      "flush_timer br p2 = (Inr (), p3)" "fed_to PT_H264 p3 = [initSegment [t] 90000 90000]" "sees_picture sps pps s t"
    and plays: "plays_video br p3 (int (md_pt m)) ch (clock_at (t0 + (int (length ps) - 1) * D)) (Some t0) us
        (of_int (last (beats D 0 (length ps)))) 0"
    and us: "map NALU_getData us = map packet_data ps" "map n_dts us = map of_int (beats D 0 (length ps))"
    unfolding times(1-3) arriving_def clock_at_def by blast
  have len: "length us = length ps" using arg_cong [OF us(1), of length] by simp
  then have ne: "us \<noteq> []" using ps(4) by auto
  then have "n_dts (last us) = last (map n_dts us)" by (simp add: last_map)
  then have last: "of_int (last (beats D 0 (length ps))) = n_dts (last us)" using us(2) ps(4) by (simp add: last_map)
  have on: "plays_on br p3 (int (md_pt m)) ch t0 D 0 us"
    using plays_on_start [of br p3 "int (md_pt m)" ch t0 us D] plays us(2) len last assms(7-9) by simp
  have "units_size us = (\<Sum>q\<leftarrow>ps. 5 + int (length (vp_body q)))"
  proof -
    have "units_size us = int (length (concat (map NALU_getData us)))" by (simp only: length_units)
    also have "\<dots> = (\<Sum>q\<leftarrow>ps. 5 + int (length (vp_body q)))"
      unfolding us(1) by (induction ps) (simp_all add: packet_data_def be32_def)
    finally show ?thesis .
  qed
  then have light: "light_units us" using ps(2) len by (simp add: light_def light_units_def)
  have "orderly t0 D (0 + int (length us)) ms" using ps(3) len by simp
  from watched [OF on light this, of srv] assms(4-6) obtain p4 fs vs ws where
    run: "watch srv br (int (md_pt m)) ch p3 ms = Some p4" "fed_to PT_H264 p4 = fed_to PT_H264 p3 @ fs" "carries fs vs"
    and kept: "vs @ map NALU_getData ws = map NALU_getData us @ map packet_data (packets_of ms)" "length ws = 1"
    using assms(12) by auto
  have "vs = butlast (map packet_data (ps @ packets_of ms))"
    using kept us(1) arg_cong [OF kept(1), of butlast] by (cases ws) simp_all
  then show ?thesis using start run by - (intro exI conjI, assumption+, simp, simp)
qed

definition third_packet :: video_packet where
  "third_packet = \<lparr>vp_marker = True, vp_seq = 3, vp_ts = 7000, vp_ssrc = 7, vp_nri = 0x40, vp_type = 1, vp_body = [0x9a, 0x21, 0x6c]\<rparr>"

definition example_moments :: "moment list" where
  "example_moments = [Updated [(0, 1)], Batch [third_packet], Updated [(0, 2)]]"

lemma example_orderly: "orderly 1000 3000 0 (Batch example_packets # example_moments)"
proof -
  have "slice_packet third_packet"
    using example_slices by (simp add: third_packet_def example_packets_def slice_packet_def vp_ok_def)
  then have "stamped 1000 3000 2 [third_packet]" by (simp add: stamped_def) (simp add: third_packet_def)
  moreover have "stamped 1000 3000 0 example_packets"
    using example_slices by (simp add: stamped_def) (simp add: example_packets_def)
  moreover have "light example_packets" "light [third_packet]" "length example_packets = 2" "example_packets \<noteq> []"
    by (simp_all add: example_packets_def third_packet_def light_def)
  moreover have "proper [(0, 1)]" "proper [(0, 2)]" by (simp_all add: proper_def)
  ultimately show ?thesis by (simp add: example_moments_def)
qed

lemma camera_watched_witness:
  "\<exists>p p1 p2 p3 p4 t fs. awaits_packets p camera_media 0 camera_sps camera_pps example_sps \<and>
    source_opens roomy p = (Inr (), p1) \<and> socket_events camera roomy (arriving 96 0 example_packets) p1 = Some p2 \<and>
    flush_timer roomy p2 = (Inr (), p3) \<and> watch camera roomy 96 0 p3 example_moments = Some p4 \<and>
    fed_to PT_H264 p4 = initSegment [t] 90000 90000 # fs \<and>
    carries fs [[0, 0, 0, 4, 0x65, 0x88, 0x84, 0x21], [0, 0, 0, 4, 0x41, 0x9a, 0x21, 0x6c]]"
proof -
  obtain p where p: "awaits_packets p camera_media 0 camera_sps camera_pps example_sps" "healthy p"
    using camera_awaits by blast
  have c: "plays_codec roomy codec" for codec using roomy_enough by (simp add: plays_codec_def isSupported_def roomy_def)
  have m: "md_pt camera_media = 96" by (simp add: camera_media_def)
  have "butlast (map packet_data (example_packets @ packets_of example_moments))
      = [[0, 0, 0, 4, 0x65, 0x88, 0x84, 0x21], [0, 0, 0, 4, 0x41, 0x9a, 0x21, 0x6c]]"
    by (simp add: example_packets_def example_moments_def third_packet_def packet_data_def) code_simp
  moreover have "packets_of example_moments \<noteq> []" by (simp add: example_moments_def)
  ultimately show ?thesis
    using camera_watched [OF p c _ _ _ _ _ _ _ example_orderly, of camera] p(1) m
    by (simp add: example_packets_def frame_distance_def) blast
qed

end
