(* ===== verification/Uneven.thy ===== *)
theory Uneven
  imports Stream
begin

text \<open>
  A video track whose frame rate varies. The time at which the next fragment should begin is an estimate, the
  end of the last unit with the mean of the last durations; the first unit of the next fragment is moved there,
  and the units that are then overtaken are dropped.
\<close>

lemma h264_loop_drops:
  assumes "h264_loop_inv kept (map rs_unit ss) v" "hv_lastDTS v = Some l"
    and "\<forall>s \<in> set ss. scaled r (js_sub (min (js_sub (rs_pts s) (init_dts r)) (js_sub (rs_dts s) (init_dts r))) l) < 0"
  shows "\<exists>v'. h264_loop r (map Some ss) v = Inr (v', []) \<and> h264_loop_inv kept [] v'"
  using assms
proof (induction ss arbitrary: v)
  case (Cons s ss)
  let ?v = "v\<lparr>hv_len := hv_len v - NALU_getSize (rs_unit s), hv_dts := min (js_sub (rs_pts s) (init_dts r)) (js_sub (rs_dts s) (init_dts r))\<rparr>"
  have "h264_loop r (map Some (s # ss)) v = h264_loop r (map Some ss) ?v"
    using Cons.prems(2,3) by (simp add: Let_def)
  moreover have "h264_loop_inv kept (map rs_unit ss) ?v" using Cons.prems(1) h264_loop_skip by simp
  ultimately show ?case using Cons.IH [of ?v] Cons.prems(2,3) by simp
qed simp

text \<open>The first unit is moved when it is not more than half a second early.\<close>

lemma first_moved:
  assumes "t < N" "N \<le> t + 45000" "0 < N" "N \<le> 2 ^ 53"
  shows "h264_first (Some (of_int N)) (of_int t) (of_int t) = Some (of_int N, of_int N)"
proof -
  let ?x = "of_int (t - N) / 90 :: rat"
  have delta: "js_sub (of_int t) (of_int N) = of_int (t - N)" using assms by (intro js_sub_of_int) simp
  have undo: "js_sub (of_int t) (of_int (t - N)) = of_int N"
    using js_sub_of_int [of t "t - N"] assms(3,4) by simp
  have x: "- 500 \<le> ?x" "?x < 0" using assms by simp_all
  have "\<bar>dbl ?x - ?x\<bar> \<le> 1"
  proof -
    have "\<bar>dbl ?x - ?x\<bar> * 2 ^ 53 \<le> \<bar>?x\<bar>" by (rule dbl_error)
    also have "\<bar>?x\<bar> \<le> 500" using x by linarith
    also have "(500 :: rat) \<le> 1 * 2 ^ 53" by simp
    finally show ?thesis by simp
  qed
  with x have "- 502 \<le> dbl ?x + 1 / 2" "dbl ?x + 1 / 2 < 2" by linarith+
  then have "\<bar>js_round (dbl ?x)\<bar> < 600" unfolding js_round_def by linarith
  then show ?thesis
    using delta undo assms by (simp add: h264_first_def toMS_def js_div_def)
qed

text \<open>A later unit that is before \<open>N\<close> would have a negative duration.\<close>

lemma late_negative:
  assumes "map n_dts us = map of_int ts" "\<forall>t \<in> set ts. 0 \<le> t \<and> t < N" "N \<le> 2 ^ 53" "u \<in> set us" "b_scaleFactor r = 1"
  shows "scaled r (js_sub (min (js_sub (n_dts u) 0) (js_sub (n_dts u) 0)) (of_int N)) < 0"
proof -
  have "n_dts u \<in> of_int ` set ts" using assms(1,4) by (metis imageI set_map)
  then obtain x where x: "n_dts u = of_int x" "0 \<le> x" "x < N" using assms(2) by auto
  then have "js_sub (of_int x) 0 = of_int x" "js_sub (of_int x) (of_int N) = of_int (x - N)" "js_div (of_int (x - N)) 1 = of_int (x - N)"
    using js_sub_of_int [of x 0] js_sub_of_int [of x N] js_div_1_of_int [of "x - N"] assms(3) by simp_all
  then show ?thesis using x assms(5) by (simp add: scaled_def)
qed

text \<open>C39: When the units come faster than those of the last fragment, all but one of the next fragment can be lost:
  units that are earlier than the estimated start of the fragment, the first by half a second at most, are
  taken out of the queue, and the fragment holds the first of them only.\<close>

theorem early_units_dropped:
  assumes "in_queue r us" "b_initialized r" "init_dts r = 0" "b_scaleFactor r = 1" "h_nextDts r = Some (of_int N)"
    and "2 \<le> length us" "map n_dts (butlast us) = map of_int ts" "\<forall>t \<in> set ts. 0 \<le> t \<and> t < N" "N \<le> hd ts + 45000" "N \<le> 2 ^ 53"
  shows "\<exists>r'. h264_getPayload chrome r = Inr (Some (NALU_getData (hd us)), r') \<and> b_samples r' = [] \<and> h_gop r' = [last us]"
proof -
  have "us \<noteq> []" using assms(6) by auto
  from sorted_queue [OF assms(1) this] obtain g where us: "us = map rs_unit (h264_sorted r) @ [g]"
    and samples: "h264_sorted r = map the (b_samples r)"
    and dts: "\<forall>s \<in> set (h264_sorted r). rs_dts s = n_dts (rs_unit s) \<and> rs_pts s = n_dts (rs_unit s)" by (elim exE conjE)
  obtain s ss where ss: "h264_sorted r = s # ss" using assms(6) us by (cases "h264_sorted r") auto
  obtain t ts' where ts: "ts = t # ts'" using assms(7) by (cases ts) (auto simp: us ss)
  have t: "rs_dts s = of_int t" "rs_pts s = of_int t" "0 \<le> t" "t < N" "N \<le> t + 45000"
    using assms(7-9) dts by (simp_all add: us ss ts)
  have rel: "js_sub (of_int x) 0 = of_int x" if "0 \<le> x" "x < N" for x :: int
    using js_sub_of_int [of x 0] that assms(10) by simp
  let ?r = "r\<lparr>b_samples := map Some (h264_sorted r)\<rparr>" and ?v = "(h264_start r)\<lparr>hv_firstDTS := max 0 (of_int N)\<rparr>"
  have same: "init_dts ?r = 0" "b_scaleFactor ?r = 1" using assms(3,4) by (simp_all add: init_dts_def)
  have ok: "h264_rem_ok r" "b_ready r" "b_samples r \<noteq> []" using assms(1) ss samples by (auto simp: in_queue_def)
  let ?s = "\<lparr>s_size = NALU_getSize (rs_unit s), s_duration = 0, s_cts = scaled ?r (js_sub (of_int N) (of_int N)),
    s_flags = h264_flags (NALU_isKeyframe (rs_unit s))\<rparr>"
  have "h264_loop_inv [] (rs_unit s # map rs_unit ss) ?v"
    using h264_loop_inv_cong [OF h264_start_inv [OF ok(1)]] by (simp add: ss)
  from h264_loop_keep [OF this, of ?s "of_int N" "of_int N"] obtain payload where
    pl: "array_set (hv_payload ?v) (NALU_getData (rs_unit s)) (hv_offset ?v) = Inr payload"
    and inv: "h264_loop_inv [rs_unit s] (map rs_unit ss) (?v\<lparr>hv_payload := payload,
        hv_offset := hv_offset ?v + nat (NALU_getSize (rs_unit s)), hv_samples := hv_samples ?v @ [?s],
        hv_pushed := True, hv_lastDTS := Some (of_int N), hv_dts := of_int N\<rparr>)" (is "h264_loop_inv _ _ ?w") by auto
  have "h264_loop ?r (map Some (h264_sorted r)) (h264_start r) = h264_loop ?r (map Some ss) ?w"
    using first_moved [of t N] t assms(5,10) pl rel [of t] same by (simp add: ss Let_def h264_start_def)
  moreover have "\<exists>v'. h264_loop ?r (map Some ss) ?w = Inr (v', []) \<and> h264_loop_inv [rs_unit s] [] v'"
  proof (rule h264_loop_drops [OF inv])
    have "map n_dts (map rs_unit ss) = map of_int ts'" "\<forall>t \<in> set ts'. 0 \<le> t \<and> t < N"
      using assms(7,8) by (simp_all add: us ss ts)
    note early = late_negative [OF this assms(10) _ same(2)]
    have "rs_dts x = n_dts (rs_unit x) \<and> rs_pts x = n_dts (rs_unit x) \<and> rs_unit x \<in> set (map rs_unit ss)" if "x \<in> set ss" for x
      using dts that by (simp add: ss)
    then show "\<forall>s \<in> set ss. scaled ?r (js_sub (min (js_sub (rs_pts s) (init_dts ?r)) (js_sub (rs_dts s) (init_dts ?r))) (of_int N)) < 0"
      using early unfolding same(1) by simp
  qed simp
  ultimately obtain v' where "h264_loop ?r (map Some (h264_sorted r)) (h264_start r) = Inr (v', [])" "h264_loop_inv [rs_unit s] [] v'" by auto
  from h264_getPayload_loop [OF ok(1,2) assms(2) ok(3) this, of chrome] obtain out r' where
    "h264_getPayload chrome r = Inr (out, r')" "h264_drained [rs_unit s] out r'" "h264_after r [rs_unit s] v' r'" by blast
  moreover have "h_gop r = [g]" using assms(1) us by (cases "h_gop r") (auto simp: in_queue_def)
  ultimately show ?thesis by (simp add: h264_drained_def h264_after_def us ss)
qed

text \<open>Two frames at a distance of 6000 made the estimate 12000; then frames come every 2000.\<close>

definition example_late :: h264_remuxer where
  "example_late = (foldl push_unit example_h264 [NALU 1 0x40 [0x9a, 0x21, 0x6c] 8000 None, NALU 1 0x40 [0x9a, 0x21, 0x6d] 10000 None])
     \<lparr>h_nextDts := Some 12000, h_gop := [NALU 1 0x40 [0x9a, 0x21, 0x6e] 12000 None], h_lastGopDTS := 12000\<rparr>"

lemma early_units_dropped_witness:
  "\<exists>r'. h264_getPayload True example_late = Inr (Some [0, 0, 0, 4, 0x41, 0x9a, 0x21, 0x6c], r') \<and> b_samples r' = []"
proof -
  let ?us = "[NALU 1 0x40 [0x9a, 0x21, 0x6c] 8000 None, NALU 1 0x40 [0x9a, 0x21, 0x6d] 10000 None, NALU 1 0x40 [0x9a, 0x21, 0x6e] 12000 None]"
  have "h264_rem_ok example_late"
    using foldl_push_unit_ok [OF example_h264_ok, of "butlast ?us"] by (simp add: example_late_def h264_rem_ok_def)
  then have "in_queue example_late ?us"
    by (simp add: in_queue_def example_late_def push_unit_def base_remux_def example_h264_def NALU_def pts_or_dts_def Let_def)
  moreover have "b_initialized example_late" "init_dts example_late = 0" "b_scaleFactor example_late = 1" "h_nextDts example_late = Some (of_int 12000)"
    by (simp_all add: example_late_def push_unit_def base_remux_def example_h264_def init_dts_def Let_def)
  moreover have "map n_dts (butlast ?us) = map of_int [8000, 10000]" by (simp add: NALU_def)
  moreover have "NALU_getData (hd ?us) = [0, 0, 0, 4, 0x41, 0x9a, 0x21, 0x6c]" by simp code_simp
  ultimately show ?thesis using early_units_dropped [of example_late ?us 12000 "[8000, 10000]" True] by auto
qed

end
