(* ===== verification/Kinds.thy ===== *)
theory Kinds
  imports Tracks
begin

text \<open>
  The kinds of the tracks: under the type H.264 there is always an H.264 remuxer, under AAC an AAC remuxer,
  and a type has one track. So the methods that the remuxer calls on a track exist.
\<close>

section \<open>Kinds\<close>

fun tk_fits :: "payload_type \<Rightarrow> track \<Rightarrow> bool" where
  "tk_fits PT_H264 (VideoTrk r) \<longleftrightarrow> True"
| "tk_fits PT_AAC (AudioTrk r) \<longleftrightarrow> True"
| "tk_fits k t \<longleftrightarrow> False"

definition well_typed :: "remuxer \<Rightarrow> bool" where
  "well_typed rx \<longleftrightarrow> distinct (map fst (rx_tracks rx)) \<and> (\<forall>(k, t) \<in> set (rx_tracks rx). tk_fits k t)"

lemma tk_fits_ops:
  "tk_fits k (tk_set_duration d t) = tk_fits k t" "tk_fits k (tk_set_offset x t) = tk_fits k t"
  "tk_fits k (tk_set_mp4_duration d t) = tk_fits k t" "tk_fits k (tk_flush t) = tk_fits k t"
  "tk_fits k (track_times ti t) = tk_fits k t" "tk_fits k (fst (tk_remux t u)) = tk_fits k t"
proof -
  show d: "tk_fits k (tk_set_duration d t) = tk_fits k t" for d t by (cases k; cases t) simp_all
  show o: "tk_fits k (tk_set_offset x t) = tk_fits k t" for x t by (cases k; cases t) simp_all
  show m: "tk_fits k (tk_set_mp4_duration d t) = tk_fits k t" for d t by (cases k; cases t) simp_all
  show "tk_fits k (tk_flush t) = tk_fits k t" by (cases k; cases t) simp_all
  show "tk_fits k (track_times ti t) = tk_fits k t" by (simp add: track_times_def Let_def d o m split: option.split)
  show "tk_fits k (fst (tk_remux t u)) = tk_fits k t" by (cases k; cases t; cases u) (simp_all split: prod.split)
qed

lemma tk_fits_results:
  "tk_init t = Inr t' \<Longrightarrow> tk_fits k t' = tk_fits k t" "tk_getPayload chrome t = Inr (pay, t') \<Longrightarrow> tk_fits k t' = tk_fits k t"
  by (cases t; cases k; auto simp: bindE_Inr_iff)+

lemma new_track_fits: "new_track i ty params = Inr t \<Longrightarrow> tk_fits ty t"
  by (cases ty) (auto simp: new_track_def bindE_Inr_iff Let_def split: option.splits)

lemma tk_remux_fits: "tk_remux t u = (t1, res) \<Longrightarrow> tk_fits k t \<Longrightarrow> tk_fits k t1"
  using tk_fits_ops(6) [of k t u] by simp

lemma well_typed_frame [simp]:
  "well_typed (rx\<lparr>rx_codecs := a\<rparr>) = well_typed rx" "well_typed (rx\<lparr>rx_initialized := b\<rparr>) = well_typed rx"
  "well_typed (rx\<lparr>rx_initSegments := c\<rparr>) = well_typed rx" "well_typed (rx\<lparr>rx_track_id := d\<rparr>) = well_typed rx"
  "well_typed (rx\<lparr>rx_feeding := e, rx_enabled := b\<rparr>) = well_typed rx" "well_typed (rx\<lparr>rx_feeding := e\<rparr>) = well_typed rx"
  "well_typed (rx\<lparr>rx_mse_listening := b\<rparr>) = well_typed rx" "well_typed (rx\<lparr>rx_client := g\<rparr>) = well_typed rx"
  "well_typed (rx\<lparr>rx_listening := b\<rparr>) = well_typed rx" "well_typed (rx\<lparr>rx_dispatched := h\<rparr>) = well_typed rx"
  "well_typed (rx\<lparr>rx_reported := i\<rparr>) = well_typed rx"
  by (simp_all add: well_typed_def)

lemma well_typed_lookup: "well_typed rx \<Longrightarrow> map_of (rx_tracks rx) k = Some t \<Longrightarrow> tk_fits k t"
  by (auto simp: well_typed_def dest: map_of_SomeD)

lemma runs_same_tracks: "(\<And>rx. rx_tracks (snd (m rx)) = rx_tracks rx) \<Longrightarrow> runs well_typed m (\<lambda>_. True)"
  by (simp add: runs_def well_typed_def)

lemma runs_put_track [runs_intros]: "tk_fits k t \<Longrightarrow> runs well_typed (put_track k t) (\<lambda>_. True)"
  unfolding put_track_def
  by (rule runs_modify) (auto simp: well_typed_def distinct_update dest!: subsetD [OF set_update_subset])

lemma runs_the_track: "runs well_typed (the_track k) (tk_fits k)"
  by (auto simp: runs_def the_track_def well_typed_lookup cmd_defs split: option.splits)

lemma runs_lookup: "runs well_typed (get (\<lambda>rx. map_of (rx_tracks rx) k)) (\<lambda>t. \<forall>t'. t = Some t' \<longrightarrow> tk_fits k t')"
  by (rule runs_get) (auto dest: well_typed_lookup)

lemma runs_source_cmd [runs_intros]: "runs well_typed (source_cmd m) (\<lambda>_. True)"
  by (rule runs_same_tracks) (simp add: source_cmd_def split: prod.split)

lemma runs_client_cmd [runs_intros]: "runs well_typed (client_cmd m) (\<lambda>_. True)"
  by (rule runs_same_tracks) (simp add: client_cmd_def split: prod.split option.split)

section \<open>The operations of the remuxer\<close>

lemma runs_listener [runs_intros]: "runs well_typed m (\<lambda>_. True) \<Longrightarrow> runs well_typed (listener m) (\<lambda>_. True)"
  unfolding listener_def by (intro runs_intros) simp_all

lemma runs_rx_dispatch [runs_intros]: "runs well_typed (rx_dispatch ev) (\<lambda>_. True)"
  unfolding rx_dispatch_def by (intro runs_intros) simp_all

lemma runs_clear_source [runs_intros]: "runs well_typed Remuxer_clear_source (\<lambda>_. True)"
  unfolding Remuxer_clear_source_def by (intro runs_intros) simp_all

lemma runs_reset [runs_intros]: "runs well_typed Remuxer_reset (\<lambda>_. True)"
  unfolding Remuxer_reset_def by (rule runs_seq [OF runs_modify]) (auto simp: well_typed_def intro: runs_intros)

lemma runs_new_track:
  "runs well_typed (seqC (liftC (new_track i ty params)) (\<lambda>t. put_track ty (track_times ti t))) (\<lambda>_. True)"
  by (rule runs_seqC [where Q = "tk_fits ty"]) (auto intro!: runs_liftC runs_put_track simp: tk_fits_ops new_track_fits)

lemma runs_onTracks [runs_intros]: "runs well_typed (onTracks infos) (\<lambda>_. True)"
  unfolding onTracks_def by (intro runs_new_track runs_intros) simp_all

lemma runs_setTimeOffset [runs_intros]: "runs well_typed (setTimeOffset off k) (\<lambda>_. True)"
  unfolding setTimeOffset_def by (rule runs_seqC [OF runs_lookup]) (auto intro!: runs_option runs_ret runs_put_track simp: tk_fits_ops)

lemma runs_initMSE [runs_intros]: "runs well_typed (initMSE br k codec) (\<lambda>_. True)"
  unfolding initMSE_def by (intro runs_intros) simp_all

lemma runs_feed_segments [runs_intros]: "runs well_typed (feed_segments br ks) (\<lambda>_. True)"
proof (induction ks)
  case (Cons k ks)
  show ?case unfolding feed_segments.simps by (intro runs_intros Cons.IH) simp_all
qed (simp add: runs_ret)

lemma runs_feed_init [runs_intros]: "runs well_typed (feed_init_segments br) (\<lambda>_. True)"
  unfolding feed_init_segments_def by (intro runs_intros) simp_all

lemma runs_track_init: "tk_fits k t \<Longrightarrow> runs well_typed (seqC (liftC (tk_init t)) (put_track k)) (\<lambda>_. True)"
  by (rule runs_seqC [where Q = "tk_fits k"]) (auto intro!: runs_liftC runs_put_track simp: tk_fits_results)

lemmas runs_with_track = runs_seqC [OF runs_the_track]

lemma runs_init [runs_intros]: "runs well_typed (Remuxer_init br) (\<lambda>_. True)"
  unfolding Remuxer_init_def by (intro runs_track_init runs_with_track runs_intros) simp_all

lemma runs_media_opened [runs_intros]: "runs well_typed (media_opened br) (\<lambda>_. True)"
  unfolding media_opened_def initMSEHandlers_def by (intro runs_intros) simp_all

lemma runs_remux_units [runs_intros]: "runs well_typed (remux_units k us) (\<lambda>_. True)"
proof (induction us)
  case (Cons u us)
  have "runs well_typed (seqC (get (\<lambda>rx. map_of (rx_tracks rx) k)) (\<lambda>t. case t of
        None \<Rightarrow> ret ()
      | Some t \<Rightarrow> (case tk_remux t u of (t1, res) \<Rightarrow> seqC (put_track k t1) (\<lambda>_. liftC res)))) (\<lambda>_. True)"
    by (rule runs_seqC [OF runs_lookup], intro runs_intros) (auto dest: tk_remux_fits)
  then show ?case unfolding remux_units.simps by (rule runs_seq) (rule Cons.IH)
qed (simp add: runs_ret)

lemma runs_set_queue [runs_intros]: "runs well_typed (set_queue k q) (\<lambda>_. True)"
  unfolding set_queue_def by (intro runs_intros) simp_all

lemma runs_drain_queue [runs_intros]: "runs well_typed (drain_queue k q) (\<lambda>_. True)"
proof (induction q)
  case (Cons us q)
  show ?case unfolding drain_queue.simps by (intro runs_intros Cons.IH)
qed (simp add: runs_ret)

lemma runs_onSamples [runs_intros]: "runs well_typed onSamples (\<lambda>_. True)"
  unfolding onSamples_def client_queue_def by (intro runs_intros) simp_all

lemma runs_payload:
  assumes "tk_fits k t"
  shows "runs well_typed (seqC (liftC (tk_getPayload (br_chrome br) t)) (\<lambda>(pay, t1).
     seqC (put_track k t1) (\<lambda>_. case pay of None \<Rightarrow> ret ()
       | Some p \<Rightarrow> if p = [] then ret ()
           else seqC (source_cmd (MSE_feed br k [tk_moof t1, mdat p])) (\<lambda>_. put_track k (tk_flush t1))))) (\<lambda>_. True)"
proof (rule runs_seqC [where Q = "\<lambda>(pay, t1). tk_fits k t1"])
  show "runs well_typed (liftC (tk_getPayload (br_chrome br) t)) (\<lambda>(pay, t1). tk_fits k t1)"
    using assms by (intro runs_liftC) (auto simp: tk_fits_results)
qed (auto intro!: runs_option runs_if runs_ret runs_seq runs_put_track runs_source_cmd simp: tk_fits_ops)

lemma runs_flush_track [runs_intros]: "runs well_typed (flush_track br k) (\<lambda>_. True)"
  unfolding flush_track_def by (intro runs_with_track runs_payload)

lemma runs_flush [runs_intros]: "runs well_typed (Remuxer_flush br) (\<lambda>_. True)"
  unfolding Remuxer_flush_def by (intro runs_intros) simp_all

lemma runs_onAudioConfig [runs_intros]: "runs well_typed (onAudioConfig k conf) (\<lambda>_. True)"
proof -
  have "runs well_typed (case t of Some (AudioTrk r) \<Rightarrow> (case ac_samplerate conf of
           None \<Rightarrow> throw (ErrMsg ''sampling rate undefined'')
         | Some rate \<Rightarrow> put_track k (AudioTrk (aac_setConfig r (ac_config conf) (ac_codec conf) rate (ac_channels conf))))
     | _ \<Rightarrow> ret ()) (\<lambda>_. True)" if "\<forall>t'. t = Some t' \<longrightarrow> tk_fits k t'" for t
    using that by (cases k) (auto intro!: runs_option runs_throw runs_put_track runs_ret split: option.split track.split)
  then show ?thesis unfolding onAudioConfig_def by (rule runs_seqC [OF runs_lookup])
qed

lemma runs_mseErrorDecode [runs_intros]: "runs well_typed mseErrorDecode (\<lambda>_. True)"
proof -
  have "well_typed (rx\<lparr>rx_tracks := AList.delete PT_AAC (rx_tracks rx)\<rparr>)" if "well_typed rx" for rx
    using that by (auto simp: well_typed_def distinct_delete, auto simp: AList.delete_eq)
  then show ?thesis unfolding mseErrorDecode_def by (intro runs_intros) simp_all
qed

lemma runs_mseClose [runs_intros]: "runs well_typed (mseClose srv) (\<lambda>_. True)"
  unfolding mseClose_def by (intro runs_intros)

lemma runs_client_event [runs_intros]: "runs well_typed (client_event br ev infos) (\<lambda>_. True)"
  unfolding client_event_def on_clear_def by (intro runs_intros) simp_all

lemma runs_attach [runs_intros]: "runs well_typed (attachClient rc) (\<lambda>_. True)" "runs well_typed detachClient (\<lambda>_. True)"
  unfolding attachClient_def detachClient_def by (intro runs_intros; simp)+

lemma runs_destroy [runs_intros]: "runs well_typed Remuxer_destroy (\<lambda>_. True)"
  unfolding Remuxer_destroy_def by (intro runs_intros) simp_all

section \<open>Every remuxer\<close>

text \<open>Whatever happens to a remuxer: what its client dispatches, what its media source reports, what the player
  does with it.\<close>

datatype remuxer_act =
    ClientEvent string "track_info list" | MediaOpened | AudioConfig payload_type aac_config | DecodeError
  | MediaClosed server | Attach rtsp_client | Detach | TimeOffset rat payload_type | Destroy

fun act_on :: "browser \<Rightarrow> remuxer_act \<Rightarrow> unit remux_cmd" where
  "act_on br (ClientEvent ev infos) = client_event br ev infos"
| "act_on br MediaOpened = media_opened br"
| "act_on br (AudioConfig k conf) = onAudioConfig k conf"
| "act_on br DecodeError = mseErrorDecode"
| "act_on br (MediaClosed srv) = mseClose srv"
| "act_on br (Attach rc) = attachClient rc"
| "act_on br Detach = detachClient"
| "act_on br (TimeOffset off k) = setTimeOffset off k"
| "act_on br Destroy = Remuxer_destroy"

lemma runs_act: "runs well_typed (act_on br a) (\<lambda>_. True)"
  by (cases a) (simp_all only: act_on.simps runs_intros)

text \<open>C33: Whatever happens to a remuxer, in whatever order and with whatever exceptions, it has at most one track
  per type; under H.264 it is an H.264 remuxer, under AAC an AAC remuxer.\<close>

theorem tracks_keep_their_kind:
  "well_typed (foldl (\<lambda>rx a. snd (act_on br a rx)) (Remuxer v i) acts)"
proof (induction acts rule: rev_induct)
  case Nil
  show ?case by (simp add: well_typed_def Remuxer_def Remuxer_reset_def Remuxer_clear_source_def MSE_clear_def MSE_reset_def MSE_def setupEvents_def
      buffer_keys_def source_cmd_def cmd_defs)
next
  case (snoc a acts)
  then show ?case using runs_act [of br a] by (simp add: runs_def)
qed

end
