(* ===== verification/Spec2Isabelle.thy ===== *)
theory Spec2Isabelle
  imports InitSegment Sps SdpPrint Rtp Aac Remux Md5 Url Events RtspFlow Watching Uneven Kinds
begin

text \<open>
  A verification development for the web player of ipchub, \<^verbatim>\<open>demos/rtsp/rtsp.dev.js\<close>. The player
  opens a WebSocket to the server, speaks RTSP over it, takes the RTP packets that come interleaved
  on the same socket apart, puts H.264 and AAC units together and writes fragments of an MP4 file for
  the Media Source Extensions of the browser.

  \<^bold>\<open>The program and the theories.\<close> In the order in which data flows:

  \<^item> \<^verbatim>\<open>JsBase\<close>, \<^verbatim>\<open>JsNumber\<close>, \<^verbatim>\<open>JsText\<close>, \<^verbatim>\<open>JsRegex\<close>, \<^verbatim>\<open>Codec\<close>: the prelude. JavaScript exceptions are
    \<open>Inl\<close>, statements are sequenced by \<open>bindE\<close> (pure code) or \<open>seqC\<close> (code that changes an object and
    may throw: the changes stay); 32-bit operators; numbers rounded to binary64; byte arrays; string
    methods; the part of regular expressions that the player uses; codes for bit fields.
  \<^item> \<^verbatim>\<open>Url\<close>: class \<^verbatim>\<open>Url\<close>. \<^verbatim>\<open>Events\<close>: \<^verbatim>\<open>Logger\<close>, \<^verbatim>\<open>DestructibleEventListener\<close>, \<^verbatim>\<open>EventEmitter\<close>,
    \<^verbatim>\<open>EventSourceWrapper\<close>.
  \<^item> \<^verbatim>\<open>RtspMsg\<close>: class \<^verbatim>\<open>RTSPMessage\<close> and \<^verbatim>\<open>RTSPClientSM.parse\<close>. \<^verbatim>\<open>Md5\<close>, \<^verbatim>\<open>Encodings\<close>: the digest, base64
    and hexadecimal readers.
  \<^item> \<^verbatim>\<open>StateMachine\<close>: classes \<^verbatim>\<open>State\<close> and \<^verbatim>\<open>StateMachine\<close>. A transition is a chain of promises, so the
    machine is a step relation (\<open>sm_step\<close>) over the transitions on their way. What the hooks of a state do is
    left open there and the steps of different transitions may come in any order, so the relation has more
    runs than a browser; the order in which the client's own hooks request the next state is that of theory \<open>Rtsp\<close>.
  \<^item> \<^verbatim>\<open>Rtsp\<close>: \<^verbatim>\<open>RTSPStream\<close>, \<^verbatim>\<open>RTSPSession\<close>, \<^verbatim>\<open>RTSPClientSM\<close>: every operation is a command on the record
    \<open>client\<close>; the server is a function from the requests sent so far to its answer. \<^verbatim>\<open>RtspAuth\<close>,
    \<^verbatim>\<open>RtspFlow\<close>, \<^verbatim>\<open>RtspSetup\<close>, \<^verbatim>\<open>RtspData\<close> hold the results on authentication, on the set-up of the streams
    when the server refuses and when it grants it, and on the media packets.
  \<^item> \<^verbatim>\<open>Sdp\<close>, \<^verbatim>\<open>SdpPrint\<close>: class \<^verbatim>\<open>SDPParser\<close>. \<^verbatim>\<open>Rtp\<close>: classes \<^verbatim>\<open>RTP\<close> and \<^verbatim>\<open>RTPFactory\<close>. \<^verbatim>\<open>Aac\<close>: the AAC
    depacketizer. \<^verbatim>\<open>H264\<close>, \<^verbatim>\<open>Sps\<close>: NAL units, their reassembly, the parameter sets. \<^verbatim>\<open>Bits\<close>: the bit
    readers.
  \<^item> \<^verbatim>\<open>Remux\<close>: \<^verbatim>\<open>BaseRemuxer\<close>, \<^verbatim>\<open>AACRemuxer\<close>, \<^verbatim>\<open>H264Remuxer\<close>. \<^verbatim>\<open>Mp4\<close>: class \<^verbatim>\<open>MP4\<close>, the box writer;
    \<^verbatim>\<open>InitSegment\<close>: a reader of nested boxes, and what it finds in an initialisation segment.
  \<^item> \<^verbatim>\<open>Fifo\<close>: what it means that something is served in order: the interface \<open>fifo_refinement\<close>, which the
    transport and the source buffers interpret.
  \<^item> \<^verbatim>\<open>Transport\<close>: \<^verbatim>\<open>BaseTransport\<close>, \<^verbatim>\<open>WebsocketTransport\<close>. \<^verbatim>\<open>Client\<close>: \<^verbatim>\<open>BaseClient\<close>, \<^verbatim>\<open>RTSPClient\<close>, which hand the
    messages of the transport to the protocol.
  \<^item> \<^verbatim>\<open>Mse\<close>: \<^verbatim>\<open>MSEBuffer\<close>, the queue in front of a source buffer. \<^verbatim>\<open>MseSource\<close>: \<^verbatim>\<open>MSE\<close>, the media source.
  \<^item> \<^verbatim>\<open>Tracks\<close>: \<^verbatim>\<open>Remuxer\<close>, which makes the remuxers of the tracks, hands them the units that the client has
    queued and feeds their fragments to the media source. \<^verbatim>\<open>Player\<close>: \<^verbatim>\<open>WSPlayer\<close>, which makes, wires and takes
    down all of these. \<^verbatim>\<open>Kinds\<close> and \<^verbatim>\<open>Stream\<close> hold results on the kinds of the tracks and on a steady video stream
    through the remuxer, \<^verbatim>\<open>Pace\<close> and \<^verbatim>\<open>Uneven\<close> on a stream of constant and of varying frame rate; \<^verbatim>\<open>Startup\<close>,
    \<^verbatim>\<open>Opening\<close>, \<^verbatim>\<open>Playback\<close> and \<^verbatim>\<open>Watching\<close> follow one video stream through all components.

  \<^bold>\<open>How they interact.\<close> The player holds the remuxer, the remuxer its media source and the client it is
  attached to, the client its transport and the state of the protocol. A listener of another component is
  the operation that the event runs: \<open>transport_happens\<close> lets the client handle what the transport
  dispatches, \<open>client_event\<close> lets the remuxer handle what the client dispatches, \<open>flush_timer\<close> and
  \<open>connection_ready\<close> are the timer and the promise that the player starts.

  \<^bold>\<open>What the lemmas show.\<close> The readers are inverse to printers: addresses, requests and responses,
  session descriptions, bit fields, audio configurations, base64. The depacketizers deliver the
  units the sender cut up, once and in order; the H.264 remuxer joins the slices of a picture (\<open>pictures_queued\<close>), and the remuxers
  write fragments whose offsets and sizes split the data back into exactly the units to be kept (\<open>kept_units\<close>
  says which these are). A parameter set gives the picture that H.264 defines for its syntax elements. MD5 and its keyed form are those of RFC 1321 and RFC 2104, and
  a challenged request is repeated once with the credentials of RFC 2069. The state machine walks its
  graph as long as transitions do not overlap.
  Across the components, four theorems meet end to end. Loading an address, opening the socket and starting
  the protocol against a server that grants its requests and describes an H.264 track leads to a player that
  waits for packets (\<open>loaded_player_awaits_packets\<close>; OPTIONS, DESCRIBE, SETUP and PLAY are sent, in this order).
  The first packets, from a key frame on, make the next tick of the flush timer feed the initialisation segment
  (\<open>first_tick_opens_playback\<close>). From then on the NAL units of the packets that arrive on the socket
  between two ticks are, but for the last one, the samples of the fragment that the tick feeds to the source
  buffer (\<open>packets_become_fragment\<close>, for the first fragment, with any frame rate). When the frame rate is constant,
  this goes on for ever: over any number of ticks, and whenever the updates of the source buffer end, the
  fragments hold every unit but the last, once and in order (\<open>camera_watched\<close>; frames at most \<open>2 ^ 24\<close> ticks of the
  clock apart, so that a sum of a hundred durations fits 32 bits, no wrap of the RTP clock, and less than \<open>2 ^ 30\<close> bytes
  between two ticks). When frames come faster than before, units are lost (\<open>early_units_dropped\<close>). In more general situations, the messages of
  the socket end up in the queues of their tracks, what is in the queues goes to the remuxers of the tracks,
  and a flush feeds the source buffer a fragment that contains the units that were kept; the source buffer appends what it was fed in order, as long as the
  browser refuses an append only for lack of space and the recursion between appending and cleaning up has room; the transport resolves requests in
  order, each with its own response. Loading an address leaves nothing of the stream before, unless the browser had reported an error
  on a source buffer: then the player can never be unloaded again.

  \<^bold>\<open>Bounds and fuel.\<close> \<open>sendRequest_upto\<close> takes a bound on the messages; two are enough for every server
  (theory \<^verbatim>\<open>RtspAuth\<close>). The loop over AU headers may run for ever, so it is a partial function. MD5 is
  compared for inputs below \<open>2 ^ 29\<close> bytes, where its bit count fits a 32-bit word. The methods of \<^verbatim>\<open>MSEBuffer\<close>
  that call each other take the depth of the stack as a parameter: \<open>enough\<close> says that it is four times
  the number of refusals that the browser may give in a row and three more, and \<open>quota_exhausts_stack\<close> shows
  that no depth suffices when nothing is buffered and the browser keeps refusing.

  \<^bold>\<open>Not modelled.\<close> The browser: media elements, sockets, timers and promises are represented by what the
  player sees of them. Rounding of arithmetic on times that stay below \<open>2 ^ 53\<close>. In the RTSP client a
  pending request occupies the client: packets and other calls come between operations; the SETUP of
  the first track is written when its turn comes, which only shows when preparing a later track or
  reading the answer of an earlier one throws. Promises that only wait for something that is ready run at
  once, so \<open>tr_connect\<close> has the socket where the browser has it a microtask later. What waits for the media source
  to open (\<open>so_waiting\<close>, \<open>rx_feeding\<close>) runs when it is open; there an exception of one track rejects that
  track's promise only. What the media source and its buffers dispatch is logged, and \<open>mseClose\<close> is what the listener runs.
  When the connection is lost, \<open>onDisconnected\<close> runs the reset, which the code does not await, before the
  transition; lemma \<open>onDisconnected_alternating\<close> of theory \<open>RtspFlow\<close> shows that the steps taken in turns lead to the same client. \<open>release_client\<close> detaches
  the transport before the PAUSE requests of \<open>stop\<close> are answered, and these then fail, as in the code, where \<open>unload\<close> does not
  wait for them. Fields that a destroyed object sets to \<^verbatim>\<open>null\<close> are not kept, since a destroyed media source or
  remuxer is dropped from its owner. An initial decoding time that was never set is read as 0.
  An audio configuration without a sampling rate, which makes every time NaN, is outside the model.
  The page \<^verbatim>\<open>index.html\<close>, the Go server, the bundled builds of flv.js and the
  compiled decoders are not part of this development.
\<close>

end
